(* ===== verification/Prelude.thy ===== *)
theory Prelude
  imports
    Main
    "HOL-Library.Word"
    "HOL-Library.Char_ord"
    "HOL-Library.List_Lexorder"
    "HOL-Library.Multiset"
    "HOL-Library.AList"
    "HOL-Library.Sublist"
    "HOL-Library.Countable"
begin

text \<open>
  Shared vocabulary of the MemoBuild development: the types that stand for Rust's
  primitive and container types, the parts of the Rust standard library the sources
  use (string search, trimming, splitting, decimal and Debug printing), the
  error-and-state monad in which fallible stateful code is written, and the generic
  lemmas the component theories share.

  Conventions. A Rust \<open>String\<close>/\<open>&str\<close> is a \<^typ>\<open>string\<close> of ASCII bytes, so
  lengths and slices count bytes as in Rust. A \<open>Vec<u8>\<close> is a list of 8-bit words. A
  \<open>HashMap\<close> is an association list with distinct keys whose order is the (arbitrary)
  iteration order of the map; a \<open>BTreeMap\<close> is one that is sorted by key. A
  \<open>Result<T, anyhow::Error>\<close> is a sum with the error on the left, a panic is a value
  of its own.
\<close>

named_theorems io_simps \<open>unfolding of the error-and-state monad\<close>
named_theorems inv_intros \<open>preservation of component invariants\<close>

section \<open>Types\<close>

type_synonym byte = "8 word"
type_synonym bytes = "8 word list"
type_synonym u8 = "8 word"
type_synonym u32 = "32 word"
type_synonym u64 = "64 word"
type_synonym ('k, 'v) hashmap = "('k \<times> 'v) list"

text \<open>The text of an \<open>anyhow::Error\<close>; every component reports failures with it.\<close>

datatype err = Err string

type_synonym 'a result = "err + 'a"

text \<open>How a call of code that may panic or wait for ever ends.\<close>

datatype 'a outcome = Returns 'a | Panics | Blocks

text \<open>Stateful fallible code: \<open>'s\<close> is the state, an error keeps the state reached so far.\<close>

type_synonym ('s, 'a) io = "'s \<Rightarrow> (err + 'a) \<times> 's"

definition ret :: "'a \<Rightarrow> ('s, 'a) io" where
  "ret a = (\<lambda>s. (Inr a, s))"

definition bail :: "string \<Rightarrow> ('s, 'a) io" where
  "bail m = (\<lambda>s. (Inl (Err m), s))"

text \<open>Rust's \<open>?\<close> operator: continue on \<open>Ok\<close>, return early on \<open>Err\<close>.\<close>

definition bind_io :: "('s, 'a) io \<Rightarrow> ('a \<Rightarrow> ('s, 'b) io) \<Rightarrow> ('s, 'b) io" where
  "bind_io m k = (\<lambda>s. case m s of (Inl e, s') \<Rightarrow> (Inl e, s') | (Inr a, s') \<Rightarrow> k a s')"

text \<open>\<open>let _ = m;\<close>: run \<open>m\<close> and drop its outcome, keeping its effect on the state.\<close>

definition ignore_io :: "('s, 'a) io \<Rightarrow> ('s, unit) io" where
  "ignore_io m = (\<lambda>s. (Inr (), snd (m s)))"

text \<open>Run code that works on one component of a larger state.\<close>

definition on_part :: "('t \<Rightarrow> 's) \<Rightarrow> ('s \<Rightarrow> 't \<Rightarrow> 't) \<Rightarrow> ('s, 'a) io \<Rightarrow> ('t, 'a) io" where
  "on_part sel upd m = (\<lambda>t. case m (sel t) of (r, s') \<Rightarrow> (r, upd s' t))"

lemma on_part_apply [io_simps]: "on_part sel upd m t = (fst (m (sel t)), upd (snd (m (sel t))) t)"
  by (simp add: on_part_def split_def)

lemma ret_apply [simp, io_simps]: "ret a s = (Inr a, s)"
  by (simp add: ret_def)

lemma bail_apply [simp, io_simps]: "bail m s = (Inl (Err m), s)"
  by (simp add: bail_def)

lemma bind_io_Inr [simp]: "m s = (Inr a, s') \<Longrightarrow> bind_io m k s = k a s'"
  by (simp add: bind_io_def)

lemma bind_io_Inl [simp]: "m s = (Inl e, s') \<Longrightarrow> bind_io m k s = (Inl e, s')"
  by (simp add: bind_io_def)

lemma bind_io_ret [simp]: "bind_io (ret a) k = k a"
  by (simp add: bind_io_def ret_def)

lemma bind_io_assoc: "bind_io (bind_io m k) l = bind_io m (\<lambda>a. bind_io (k a) l)"
  by (auto simp: bind_io_def fun_eq_iff split: prod.splits sum.splits)

lemma ignore_io_apply [simp, io_simps]: "ignore_io m s = (Inr (), snd (m s))"
  by (simp add: ignore_io_def)

lemma bind_io_cases:
  assumes "bind_io m k s = (r, s')"
  obtains (Err) e where "m s = (Inl e, s')" "r = Inl e"
    | (Ok) a s1 where "m s = (Inr a, s1)" "k a s1 = (r, s')"
  using assms by (cases "m s" rule: prod.exhaust, cases "fst (m s)") (auto simp: bind_io_def)

lemma bind_io_keeps:
  assumes "Q s" and "\<And>s. Q s \<Longrightarrow> Q (snd (m s))" and "\<And>a s. Q s \<Longrightarrow> Q (snd (k a s))"
  shows "Q (snd (bind_io m k s))"
  using assms(2) [OF assms(1)] assms(3) by (auto simp: bind_io_def split: prod.splits sum.splits)

lemma map_cong_by:
  assumes "map f xs = map f ys" and "\<And>x y. f x = f y \<Longrightarrow> h x = h y"
  shows "map h xs = map h ys"
  using assms(1) by (induction xs ys rule: list_induct2') (auto intro: assms(2))

lemma bind_io_Ok_iff:
  "bind_io m k s = (Inr b, s') \<longleftrightarrow> (\<exists>a s1. m s = (Inr a, s1) \<and> k a s1 = (Inr b, s'))"
  by (auto simp: bind_io_def split: prod.splits sum.splits)

lemma on_part_eq_iff:
  "on_part sel upd m t = (r, t') \<longleftrightarrow> (\<exists>s'. m (sel t) = (r, s') \<and> t' = upd s' t)"
  by (auto simp: on_part_def split: prod.splits)

text \<open>Stateful code that may also panic: like \<open>io\<close>, with the outcome of the whole call.\<close>

type_synonym ('s, 'a) pio = "'s \<Rightarrow> 'a result outcome \<times> 's"

definition from_io :: "('s, 'a) io \<Rightarrow> ('s, 'a) pio" where
  "from_io m = (\<lambda>s. case m s of (r, s') \<Rightarrow> (Returns r, s'))"

definition panic :: "('s, 'a) pio" where
  "panic = (\<lambda>s. (Panics, s))"

definition bind_pio :: "('s, 'a) pio \<Rightarrow> ('a \<Rightarrow> ('s, 'b) pio) \<Rightarrow> ('s, 'b) pio" where
  "bind_pio m k = (\<lambda>s. case m s of
       (Returns (Inr a), s') \<Rightarrow> k a s'
     | (Returns (Inl e), s') \<Rightarrow> (Returns (Inl e), s')
     | (Panics, s') \<Rightarrow> (Panics, s')
     | (Blocks, s') \<Rightarrow> (Blocks, s'))"

lemma bind_pio_Ok_iff:
  "bind_pio m k s = (Returns (Inr b), s') \<longleftrightarrow> (\<exists>a s1. m s = (Returns (Inr a), s1) \<and> k a s1 = (Returns (Inr b), s'))"
  by (auto simp: bind_pio_def split: prod.splits outcome.splits sum.splits)

lemma from_io_Ok_iff: "from_io m s = (Returns (Inr a), s') \<longleftrightarrow> m s = (Inr a, s')"
  by (auto simp: from_io_def split: prod.splits)

lemma panic_not_Ok [simp]: "panic s \<noteq> (Returns r, s')"
  by (simp add: panic_def)

section \<open>Strings\<close>

definition as_bytes :: "string \<Rightarrow> bytes" where
  "as_bytes s = map of_char s"

lemma as_bytes_append [simp]: "as_bytes (s @ t) = as_bytes s @ as_bytes t"
  by (simp add: as_bytes_def)

lemma as_bytes_Nil [simp]: "as_bytes [] = []"
  by (simp add: as_bytes_def)

lemma as_bytes_concat: "as_bytes (concat ss) = concat (map as_bytes ss)"
  by (induction ss) simp_all

lemma length_as_bytes [simp]: "length (as_bytes s) = length s"
  by (simp add: as_bytes_def)

lemma inj_of_char_word: "inj (of_char :: char \<Rightarrow> 8 word)"
proof (rule injI)
  fix c d :: char
  assume "(of_char c :: 8 word) = of_char d"
  then have "(word_of_nat (of_char c) :: 8 word) = word_of_nat (of_char d)"
    by (simp only: of_nat_of_char)
  then have "(of_char c :: nat) mod 256 = of_char d mod 256"
    by (simp add: word_of_nat_eq_iff take_bit_eq_mod)
  then have "(of_char c :: nat) = of_char d"
    by simp
  then show "c = d" by (simp add: of_char_eq_iff)
qed

lemma inj_as_bytes: "inj as_bytes"
  by (auto simp: as_bytes_def inj_def inj_map_eq_map [OF inj_of_char_word])

lemma as_bytes_eq_iff [simp]: "as_bytes s = as_bytes t \<longleftrightarrow> s = t"
  using inj_as_bytes by (auto dest: injD)

text \<open>The string of which some bytes are the encoding.\<close>

definition bytes_text :: "bytes \<Rightarrow> string" where
  "bytes_text d = map (\<lambda>b. char_of (unat b)) d"

lemma of_char_of_byte: "(of_char (char_of (unat b) :: char) :: 8 word) = b"
proof -
  have "(of_nat (unat b) :: 8 word) = b" by simp
  moreover have "(of_char (char_of (unat b) :: char) :: nat) = unat b"
    using unsigned_less [where 'a = nat, of b] by simp
  ultimately show ?thesis by (metis of_nat_of_char)
qed

lemma as_bytes_bytes_text [simp]: "as_bytes (bytes_text d) = d"
  by (simp add: as_bytes_def bytes_text_def comp_def of_char_of_byte)

lemma bytes_text_as_bytes [simp]: "bytes_text (as_bytes t) = t"
  by (rule injD [OF inj_as_bytes]) simp

text \<open>\<open>str::contains\<close>.\<close>

fun str_contains :: "string \<Rightarrow> string \<Rightarrow> bool" where
  "str_contains p [] = (p = [])"
| "str_contains p (c # s) = (prefix p (c # s) \<or> str_contains p s)"

lemma str_contains_sublist: "str_contains p s \<longleftrightarrow> sublist p s"
  by (induction s) (auto simp: sublist_Cons_right)

lemma str_contains_trans: "str_contains p q \<Longrightarrow> str_contains q s \<Longrightarrow> str_contains p s"
  by (auto simp: str_contains_sublist intro: sublist_order.order_trans)

text \<open>ASCII white space, \<open>str::trim\<close>, \<open>str::split_whitespace\<close>, \<open>str::lines\<close>.\<close>

definition is_ws :: "char \<Rightarrow> bool" where
  "is_ws c \<longleftrightarrow> c = CHR '' '' \<or> c = CHR 0x09 \<or> c = CHR 0x0A \<or> c = CHR 0x0B \<or> c = CHR 0x0C \<or> c = CHR 0x0D"

definition trim_start :: "string \<Rightarrow> string" where
  "trim_start s = dropWhile is_ws s"

definition trim_end_slash :: "string \<Rightarrow> string" where
  "trim_end_slash s = rev (dropWhile (\<lambda>c. c = CHR ''/'') (rev s))"

definition trim_end :: "string \<Rightarrow> string" where
  "trim_end s = rev (dropWhile is_ws (rev s))"

definition trim :: "string \<Rightarrow> string" where
  "trim s = trim_end (trim_start s)"

fun split_ws_acc :: "string \<Rightarrow> string \<Rightarrow> string list" where
  "split_ws_acc w [] = (if w = [] then [] else [w])"
| "split_ws_acc w (c # s) =
     (if is_ws c then (if w = [] then split_ws_acc [] s else w # split_ws_acc [] s)
      else split_ws_acc (w @ [c]) s)"

definition split_whitespace :: "string \<Rightarrow> string list" where
  "split_whitespace s = split_ws_acc [] s"

text \<open>\<open>str::lines\<close>: split at newlines, no empty last line, a carriage return before the
  newline is dropped.\<close>

definition strip_cr :: "string \<Rightarrow> string" where
  "strip_cr l = (if l \<noteq> [] \<and> last l = CHR 0x0D then butlast l else l)"

fun lines_acc :: "string \<Rightarrow> string \<Rightarrow> string list" where
  "lines_acc w [] = (if w = [] then [] else [w])"
| "lines_acc w (c # s) =
     (if c = CHR 0x0A then strip_cr w # lines_acc [] s else lines_acc (w @ [c]) s)"

definition lines :: "string \<Rightarrow> string list" where
  "lines s = lines_acc [] s"

text \<open>\<open>str::split(c)\<close>: every piece, empty ones included.\<close>

fun split_acc :: "char \<Rightarrow> string \<Rightarrow> string \<Rightarrow> string list" where
  "split_acc d w [] = [w]"
| "split_acc d w (c # s) = (if c = d then w # split_acc d [] s else split_acc d (w @ [c]) s)"

definition split_on :: "char \<Rightarrow> string \<Rightarrow> string list" where
  "split_on d s = split_acc d [] s"

definition to_upper :: "char \<Rightarrow> char" where
  "to_upper c = (if CHR ''a'' \<le> c \<and> c \<le> CHR ''z'' then char_of (of_char c - 32 :: nat) else c)"

definition to_uppercase :: "string \<Rightarrow> string" where
  "to_uppercase s = map to_upper s"

lemma length_to_uppercase [simp]: "length (to_uppercase s) = length s"
  by (simp add: to_uppercase_def)

definition join_with :: "string \<Rightarrow> string list \<Rightarrow> string" where
  "join_with sep xs = (case xs of [] \<Rightarrow> [] | y # ys \<Rightarrow> y @ concat (map (\<lambda>z. sep @ z) ys))"

text \<open>\<open>Path::join\<close> on Unix: an absolute path replaces the base.\<close>

definition path_join :: "string \<Rightarrow> string \<Rightarrow> string" where
  "path_join a b =
     (if prefix ''/'' b then b
      else if a = [] \<or> last a = CHR ''/'' then a @ b
      else a @ ''/'' @ b)"

text \<open>Words, trimmed strings and how the splitting functions act on them.\<close>

definition is_word :: "string \<Rightarrow> bool" where
  "is_word w \<longleftrightarrow> w \<noteq> [] \<and> list_all (\<lambda>c. \<not> is_ws c) w"

definition trimmed :: "string \<Rightarrow> bool" where
  "trimmed s \<longleftrightarrow> s = [] \<or> \<not> is_ws (hd s) \<and> \<not> is_ws (last s)"

lemma trim_trimmed [simp]: "trimmed s \<Longrightarrow> trim s = s"
proof (cases "s = []")
  case False
  assume "trimmed s"
  with False have "dropWhile is_ws s = s" "dropWhile is_ws (rev s) = rev s"
    by (cases s, auto simp: trimmed_def) (cases s rule: rev_cases, auto)
  then show ?thesis by (simp add: trim_def trim_start_def trim_end_def)
qed (simp add: trim_def trim_start_def trim_end_def)

lemma trim_ws_Cons: "is_ws c \<Longrightarrow> trim (c # s) = trim s"
  by (simp add: trim_def trim_start_def)

lemma is_word_trimmed: "is_word w \<Longrightarrow> trimmed w"
  by (auto simp: is_word_def trimmed_def list_all_iff)

lemma split_ws_acc_word:
  "list_all (\<lambda>c. \<not> is_ws c) w \<Longrightarrow> split_ws_acc v (w @ s) = split_ws_acc (v @ w) s"
  by (induction w arbitrary: v) auto

lemma split_whitespace_word: "is_word w \<Longrightarrow> split_whitespace w = [w]"
  using split_ws_acc_word [of w "[]" "[]"] by (auto simp: split_whitespace_def is_word_def)

lemma split_whitespace_word_ws:
  "is_word w \<Longrightarrow> is_ws c \<Longrightarrow> split_whitespace (w @ c # s) = w # split_whitespace s"
  using split_ws_acc_word [of w "[]" "c # s"] by (auto simp: split_whitespace_def is_word_def)

lemma is_ws_space [simp]: "is_ws (CHR '' '')"
  by (simp add: is_ws_def)

lemma split_whitespace_join:
  "list_all is_word ws \<Longrightarrow> split_whitespace (join_with '' '' ws) = ws"
proof (induction ws)
  case (Cons w ws)
  show ?case
  proof (cases ws)
    case Nil
    with Cons show ?thesis by (simp add: join_with_def split_whitespace_word)
  next
    case (Cons w' ws')
    then have "join_with '' '' (w # ws) = w @ CHR '' '' # join_with '' '' ws"
      by (simp add: join_with_def)
    with Cons.IH Cons.prems show ?thesis
      by (simp add: split_whitespace_word_ws)
  qed
qed (simp add: join_with_def split_whitespace_def)

lemma lines_acc_line:
  "list_all (\<lambda>c. c \<noteq> CHR 0x0A) l \<Longrightarrow> lines_acc w (l @ CHR 0x0A # s) = strip_cr (w @ l) # lines_acc [] s"
  by (induction l arbitrary: w) auto

lemma lines_unlines:
  assumes "list_all (\<lambda>l. list_all (\<lambda>c. c \<noteq> CHR 0x0A) l \<and> strip_cr l = l) ls"
  shows "lines (concat (map (\<lambda>l. l @ [CHR 0x0A]) ls)) = ls"
  unfolding lines_def using assms
  by (induction ls) (simp_all add: lines_acc_line)

section \<open>Printing\<close>

text \<open>Decimal printing of unsigned integers (\<open>Display\<close>).\<close>

definition digit_char :: "nat \<Rightarrow> char" where
  "digit_char d = char_of (48 + d)"

fun show_nat :: "nat \<Rightarrow> string" where
  "show_nat n = (if n < 10 then [digit_char n] else show_nat (n div 10) @ [digit_char (n mod 10)])"

declare show_nat.simps [simp del]

lemma digit_char_inj: "d < 10 \<Longrightarrow> e < 10 \<Longrightarrow> digit_char d = digit_char e \<Longrightarrow> d = e"
  by (simp add: digit_char_def char_of_eq_iff take_bit_eq_mod)

lemma show_nat_neq_Nil [simp]: "show_nat n \<noteq> []"
  by (subst show_nat.simps) simp

lemma digit_char_plain [simp]:
  assumes "d < 10"
  shows "digit_char d \<noteq> CHR ''/''" "CHR ''/'' \<noteq> digit_char d" "digit_char d \<noteq> CHR ''.''" "CHR ''.'' \<noteq> digit_char d"
  using assms by (auto simp: digit_char_def char_of_eq_iff take_bit_eq_mod dest: sym)

lemma show_nat_plain: "CHR ''/'' \<notin> set (show_nat n) \<and> CHR ''.'' \<notin> set (show_nat n)"
proof (induction n rule: show_nat.induct)
  case (1 n)
  then show ?case by (subst (1 2) show_nat.simps) auto
qed

lemma show_nat_inj: "show_nat m = show_nat n \<Longrightarrow> m = n"
proof (induction m arbitrary: n rule: show_nat.induct)
  case (1 m)
  have two: "k < 10 \<or> length (show_nat k) \<ge> 2" for k
    by (subst show_nat.simps) (auto simp: Suc_le_eq)
  consider (small) "m < 10" "n < 10" | (big) "\<not> m < 10" "\<not> n < 10" | (mixed) "(m < 10) \<noteq> (n < 10)"
    by auto
  then show ?case
  proof cases
    case small
    with 1 show ?thesis by (simp add: show_nat.simps [of m] show_nat.simps [of n] digit_char_inj)
  next
    case big
    with "1.prems" have "show_nat (m div 10) = show_nat (n div 10)" "digit_char (m mod 10) = digit_char (n mod 10)"
      by (simp_all add: show_nat.simps [of m] show_nat.simps [of n])
    with big "1.IH" have "m div 10 = n div 10" "m mod 10 = n mod 10"
      by (auto intro: digit_char_inj)
    then show ?thesis by (metis div_mult_mod_eq)
  next
    case mixed
    then have "length (show_nat m) \<noteq> length (show_nat n)"
      using two [of m] two [of n] by (auto simp: show_nat.simps [of m] show_nat.simps [of n])
    with "1.prems" show ?thesis by simp
  qed
qed

definition show_bool :: "bool \<Rightarrow> string" where
  "show_bool b = (if b then ''true'' else ''false'')"

text \<open>\<open>Debug\<close> printing of strings, vectors, tuple variants and struct variants, as
  \<open>#[derive(Debug)]\<close> generates it.\<close>

definition hex_digit :: "nat \<Rightarrow> char" where
  "hex_digit d = char_of (if d < 10 then 48 + d else 87 + d)"

definition hex_byte :: "nat \<Rightarrow> string" where
  "hex_byte n = (if n < 16 then [hex_digit n] else [hex_digit (n div 16), hex_digit (n mod 16)])"

definition escape_debug :: "char \<Rightarrow> string" where
  "escape_debug c =
     (if c = CHR 0x22 then [CHR 0x5C, CHR 0x22]
      else if c = CHR 0x5C then [CHR 0x5C, CHR 0x5C]
      else if c = CHR 0x0A then [CHR 0x5C, CHR ''n'']
      else if c = CHR 0x0D then [CHR 0x5C, CHR ''r'']
      else if c = CHR 0x09 then [CHR 0x5C, CHR ''t'']
      else if c = CHR 0x00 then [CHR 0x5C, CHR ''0'']
      else if of_char c < (32::nat) \<or> c = CHR 0x7F
        then CHR 0x5C # ''u{'' @ hex_byte (of_char c) @ ''}''
      else [c])"

definition debug_str :: "string \<Rightarrow> string" where
  "debug_str s = CHR 0x22 # concat (map escape_debug s) @ [CHR 0x22]"

definition debug_list :: "string list \<Rightarrow> string" where
  "debug_list xs = ''['' @ join_with '', '' (map debug_str xs) @ '']''"

definition debug_tuple :: "string \<Rightarrow> string list \<Rightarrow> string" where
  "debug_tuple n fs = n @ ''('' @ join_with '', '' fs @ '')''"

definition debug_struct :: "string \<Rightarrow> (string \<times> string) list \<Rightarrow> string" where
  "debug_struct n fs = n @ '' { '' @ join_with '', '' (map (\<lambda>(f, v). f @ '': '' @ v) fs) @ '' }''"

section \<open>Maps\<close>

text \<open>Insertion into a \<open>BTreeMap\<close>, kept as an association list sorted by key.\<close>

fun bt_insert :: "'k::linorder \<Rightarrow> 'v \<Rightarrow> ('k \<times> 'v) list \<Rightarrow> ('k \<times> 'v) list" where
  "bt_insert k v [] = [(k, v)]"
| "bt_insert k v ((k', v') # m) =
     (if k < k' then (k, v) # (k', v') # m
      else if k = k' then (k, v) # m
      else (k', v') # bt_insert k v m)"

definition btree_ok :: "('k::linorder \<times> 'v) list \<Rightarrow> bool" where
  "btree_ok m \<longleftrightarrow> sorted (map fst m) \<and> distinct (map fst m)"

lemma btree_ok_Nil [simp, inv_intros]: "btree_ok []"
  by (simp add: btree_ok_def)

lemma map_of_bt_insert [simp]:
  "btree_ok m \<Longrightarrow> map_of (bt_insert k v m) = (map_of m)(k \<mapsto> v)"
  by (induction k v m rule: bt_insert.induct)
     (auto simp: btree_ok_def fun_eq_iff map_of_eq_None_iff)

lemma set_keys_bt_insert [simp]: "fst ` set (bt_insert k v m) = insert k (fst ` set m)"
  by (induction k v m rule: bt_insert.induct) auto

lemma btree_ok_bt_insert [simp, inv_intros]: "btree_ok m \<Longrightarrow> btree_ok (bt_insert k v m)"
proof (induction k v m rule: bt_insert.induct)
  case (2 k v k' v' m)
  have "set (map fst (bt_insert k v m)) = insert k (set (map fst m))" by simp
  with 2 show ?case
    by (auto simp: btree_ok_def simp del: set_map)
qed (simp add: btree_ok_def)

text \<open>A hash map has distinct keys; its list order is the iteration order.\<close>

definition hm_ok :: "('k, 'v) hashmap \<Rightarrow> bool" where
  "hm_ok m \<longleftrightarrow> distinct (map fst m)"

lemma hm_ok_update [simp, inv_intros]: "hm_ok m \<Longrightarrow> hm_ok (AList.update k v m)"
  by (simp add: hm_ok_def distinct_update)

lemma hm_ok_delete [simp, inv_intros]: "hm_ok m \<Longrightarrow> hm_ok (AList.delete k m)"
  by (simp add: hm_ok_def distinct_delete)

lemma hm_ok_Nil [simp, inv_intros]: "hm_ok []"
  by (simp add: hm_ok_def)

text \<open>Two iteration orders of one map agree on every lookup.\<close>

lemma map_of_mset_eq:
  assumes "hm_ok m" and "mset m = mset m'"
  shows "map_of m = map_of m'"
proof -
  from assms have "distinct (map fst m')"
    by (metis hm_ok_def mset_eq_imp_distinct_iff mset_map)
  moreover from assms(2) have "set m = set m'" by (rule mset_eq_setD)
  ultimately show ?thesis
    using assms(1) by (auto simp: hm_ok_def intro: map_of_inject_set [THEN iffD2])
qed

section \<open>Lists\<close>

lemma sort_mset_eq: "mset xs = mset ys \<Longrightarrow> sort xs = sort ys"
  by (metis mset_sort properties_for_sort sorted_sort)

section \<open>A serializer\<close>

text \<open>Printing and parsing by \<open>serde_json\<close> are parameters of the definitions that use them, with
  the hypothesis that parsing a printed value returns it. Any countable type has such a pair, which
  shows that the hypothesis can hold.\<close>

definition encode_bytes :: "'a::countable \<Rightarrow> bytes" where
  "encode_bytes x = replicate (to_nat x) 0"

definition decode_bytes :: "bytes \<Rightarrow> 'a::countable" where
  "decode_bytes b = from_nat (length b)"

lemma decode_encode [simp]: "decode_bytes (encode_bytes x) = x"
  by (simp add: encode_bytes_def decode_bytes_def)

definition encode_str :: "'a::countable \<Rightarrow> string" where
  "encode_str x = replicate (to_nat x) CHR ''1''"

definition decode_str :: "string \<Rightarrow> 'a::countable" where
  "decode_str b = from_nat (length b)"

lemma decode_encode_str [simp]: "decode_str (encode_str x) = x"
  by (simp add: encode_str_def decode_str_def)

section \<open>Words\<close>

text \<open>Counting up to, or down from, a bound of the same width does not wrap.\<close>

lemma unat_increment:
  fixes b m :: "'a::len word"
  assumes "unat b < unat m"
  shows "unat (b + 1) = unat b + 1"
proof -
  have "unat m < 2 ^ LENGTH('a)" by (rule unsigned_less)
  moreover have "unat (1 :: 'a word) = 1" by simp
  ultimately have "unat b + unat (1 :: 'a word) < 2 ^ LENGTH('a)" using assms by linarith
  then show ?thesis using unat_add_lem [of b 1] by simp
qed

lemma unat_decrement:
  fixes b m :: "'a::len word"
  assumes "unat m < unat b"
  shows "unat (b - 1) = unat b - 1"
proof -
  have "b \<noteq> 0" using assms by auto
  then show ?thesis by (rule unat_minus_one)
qed

end
