(* ===== verification/Env_Fingerprint.thy ===== *)
theory Env_Fingerprint
  imports Prelude
begin

text \<open>
  \<open>src/src/env/fingerprint.rs\<close>: the environment fingerprint that a node key mixes in.
  The process environment, the platform constants and the tools' version output are
  parameters of \<open>collect\<close>; BLAKE3 is the parameter \<open>blake3\<close>, a function from the
  bytes fed to the hasher to the hexadecimal digest. A hasher fed several times hashes
  the concatenation of what it was fed.
\<close>

record env_fingerprint =
  env_vars :: "(string \<times> string) list"
  toolchain :: "(string \<times> string) list"
  fp_os :: string
  fp_arch :: string

definition fingerprint_ok :: "env_fingerprint \<Rightarrow> bool" where
  "fingerprint_ok fp \<longleftrightarrow> btree_ok (env_vars fp) \<and> btree_ok (toolchain fp)"

definition critical_vars :: "string list" where
  "critical_vars = [''PATH'', ''RUST_VERSION'', ''NODE_ENV'', ''LANG'', ''LC_ALL'']"

definition tools :: "(string \<times> string list) list" where
  "tools = [(''rustc'', [''--version'']), (''node'', [''--version'']),
            (''python3'', [''--version'']), (''go'', [''version''])]"

text \<open>\<open>run tool args\<close> is \<open>None\<close> when the command cannot be started, otherwise its
  success flag and standard output.\<close>

definition detect_toolchains ::
    "(string \<Rightarrow> string list \<Rightarrow> (bool \<times> string) option) \<Rightarrow> env_fingerprint \<Rightarrow> env_fingerprint" where
  "detect_toolchains run fp =
     fold (\<lambda>(tool, args) fp.
            case run tool args of
              None \<Rightarrow> fp
            | Some (success, out) \<Rightarrow>
                if success then fp\<lparr>toolchain := bt_insert tool (trim out) (toolchain fp)\<rparr> else fp)
          tools fp"

definition collect ::
    "string \<Rightarrow> string \<Rightarrow> (string \<Rightarrow> string option) \<Rightarrow>
     (string \<Rightarrow> string list \<Rightarrow> (bool \<times> string) option) \<Rightarrow> env_fingerprint" where
  "collect os arch getenv run =
     (let fp = \<lparr>env_vars = [], toolchain = [], fp_os = os, fp_arch = arch\<rparr>;
          fp = fold (\<lambda>var fp. case getenv var of
                        Some val \<Rightarrow> fp\<lparr>env_vars := bt_insert var val (env_vars fp)\<rparr>
                      | None \<Rightarrow> fp) critical_vars fp
      in detect_toolchains run fp)"

definition fingerprint_input :: "env_fingerprint \<Rightarrow> string" where
  "fingerprint_input fp =
     fp_os fp @ fp_arch fp
     @ concat (map (\<lambda>(k, v). k @ v) (env_vars fp))
     @ concat (map (\<lambda>(k, v). k @ v) (toolchain fp))"

definition fingerprint_hash :: "(bytes \<Rightarrow> string) \<Rightarrow> env_fingerprint \<Rightarrow> string" where
  "fingerprint_hash blake3 fp = blake3 (as_bytes (fingerprint_input fp))"

lemma detect_toolchains_frame [simp]:
  "env_vars (detect_toolchains run fp) = env_vars fp"
  "fp_os (detect_toolchains run fp) = fp_os fp"
  "fp_arch (detect_toolchains run fp) = fp_arch fp"
  by (simp_all add: detect_toolchains_def tools_def split: option.splits prod.splits)

lemma fold_option_keeps_btree:
  assumes "\<And>x fp. btree_ok (f fp) \<Longrightarrow> btree_ok (f (g x fp))"
  shows "btree_ok (f fp) \<Longrightarrow> btree_ok (f (fold g xs fp))"
  by (induction xs arbitrary: fp) (simp_all add: assms)

lemma detect_toolchains_btree: "btree_ok (toolchain fp) \<Longrightarrow> btree_ok (toolchain (detect_toolchains run fp))"
  unfolding detect_toolchains_def
  by (rule fold_option_keeps_btree) (auto split: option.splits prod.splits)

lemma collect_env_vars:
  "env_vars (collect os arch getenv run) =
     env_vars (fold (\<lambda>var fp. case getenv var of
                        Some val \<Rightarrow> fp\<lparr>env_vars := bt_insert var val (env_vars fp)\<rparr>
                      | None \<Rightarrow> fp) critical_vars \<lparr>env_vars = [], toolchain = [], fp_os = os, fp_arch = arch\<rparr>)"
  by (simp add: collect_def Let_def)

lemma fold_toolchain_frame:
  "toolchain (fold (\<lambda>var fp. case getenv var of
                        Some val \<Rightarrow> fp\<lparr>env_vars := bt_insert var val (env_vars fp)\<rparr>
                      | None \<Rightarrow> fp) vs fp) = toolchain fp"
  by (induction vs arbitrary: fp) (auto split: option.splits)

lemma collect_ok [simp, inv_intros]: "fingerprint_ok (collect os arch getenv run)"
proof -
  have "btree_ok (env_vars (collect os arch getenv run))"
    unfolding collect_env_vars
    by (rule fold_option_keeps_btree) (auto split: option.splits)
  moreover have "btree_ok (toolchain (collect os arch getenv run))"
    by (simp add: collect_def Let_def detect_toolchains_btree fold_toolchain_frame)
  ultimately show ?thesis by (simp add: fingerprint_ok_def)
qed

end
