(* ===== verification/Graph.thy ===== *)
theory Graph
  imports Env_Fingerprint
begin

text \<open>
  \<open>src/src/graph.rs\<close>: the build graph, the content key of a node, the depth-first
  order and the execution levels. Node indices are naturals; a dependency that is out
  of range is skipped, as the code skips it.
\<close>

section \<open>Data\<close>

datatype node_kind =
    NK_From
  | NK_Run
  | NK_Copy string string
  | NK_Env
  | NK_Workdir
  | NK_Cmd
  | NK_Git string string
  | NK_RunExtend string bool
  | NK_CopyExtend string string "string list"
  | NK_CustomHook string "string list"
  | NK_Other

record node_metadata =
  last_executed :: "nat option"
  execution_time_ms :: "u64 option"
  parallelizable :: bool
  priority :: u8
  tags :: "string list"
  source_content_hash :: "string option"
  input_manifest_hash :: "string option"
  output_manifest_hash :: "string option"
  extra_source_paths :: "string list"

definition default_metadata :: node_metadata where
  "default_metadata =
     \<lparr>last_executed = None, execution_time_ms = None, parallelizable = False, priority = 0,
      tags = [], source_content_hash = None, input_manifest_hash = None,
      output_manifest_hash = None, extra_source_paths = []\<rparr>"

record node =
  node_id :: nat
  node_name :: string
  node_content :: string
  node_kind :: node_kind
  node_hash :: string
  node_dirty :: bool
  node_deps :: "nat list"
  node_source_path :: "string option"
  node_env :: "(string, string) hashmap"
  node_cache_hit :: bool
  node_meta :: node_metadata

record build_graph =
  graph_nodes :: "node list"

definition new_graph :: build_graph where
  "new_graph = \<lparr>graph_nodes = []\<rparr>"

abbreviation size_g :: "build_graph \<Rightarrow> nat" where
  "size_g g \<equiv> length (graph_nodes g)"

abbreviation deps_of :: "build_graph \<Rightarrow> nat \<Rightarrow> nat list" where
  "deps_of g i \<equiv> node_deps (graph_nodes g ! i)"

section \<open>The node key\<close>

text \<open>The derived \<open>Debug\<close> text of a kind.\<close>

fun debug_kind :: "node_kind \<Rightarrow> string" where
  "debug_kind NK_From = ''From''"
| "debug_kind NK_Run = ''Run''"
| "debug_kind (NK_Copy src dst) = debug_struct ''Copy'' [(''src'', debug_str src), (''dst'', debug_str dst)]"
| "debug_kind NK_Env = ''Env''"
| "debug_kind NK_Workdir = ''Workdir''"
| "debug_kind NK_Cmd = ''Cmd''"
| "debug_kind (NK_Git url target) = debug_struct ''Git'' [(''url'', debug_str url), (''target'', debug_str target)]"
| "debug_kind (NK_RunExtend command par) =
     debug_struct ''RunExtend'' [(''command'', debug_str command), (''parallelizable'', show_bool par)]"
| "debug_kind (NK_CopyExtend src dst ts) =
     debug_struct ''CopyExtend'' [(''src'', debug_str src), (''dst'', debug_str dst), (''tags'', debug_list ts)]"
| "debug_kind (NK_CustomHook hook params) =
     debug_struct ''CustomHook'' [(''hook_name'', debug_str hook), (''params'', debug_list params)]"
| "debug_kind NK_Other = ''Other''"

definition opt_str :: "string option \<Rightarrow> string" where
  "opt_str x = (case x of None \<Rightarrow> [] | Some s \<Rightarrow> s)"

text \<open>The bytes \<open>compute_node_key\<close> feeds to the hasher, in order.\<close>

definition node_key_input ::
    "(bytes \<Rightarrow> string) \<Rightarrow> node \<Rightarrow> string list \<Rightarrow> string option \<Rightarrow> env_fingerprint option \<Rightarrow> string" where
  "node_key_input blake3 n dep_hashes context_hash env_fp =
     debug_kind (node_kind n) @ node_content n
     @ (if node_env n \<noteq> []
        then concat (map (\<lambda>key. case map_of (node_env n) key of
                                   Some value \<Rightarrow> key @ ''='' @ value
                                 | None \<Rightarrow> [])
                         (sort (map fst (node_env n))))
        else [])
     @ opt_str context_hash
     @ opt_str (source_content_hash (node_meta n))
     @ concat (sort dep_hashes)
     @ ''parallelizable='' @ show_bool (parallelizable (node_meta n))
     @ ''priority='' @ show_nat (unat (priority (node_meta n)))
     @ (case env_fp of None \<Rightarrow> [] | Some fp \<Rightarrow> fingerprint_hash blake3 fp)"

definition compute_node_key ::
    "(bytes \<Rightarrow> string) \<Rightarrow> node \<Rightarrow> string list \<Rightarrow> string option \<Rightarrow> env_fingerprint option \<Rightarrow> string" where
  "compute_node_key blake3 n dep_hashes context_hash env_fp =
     blake3 (as_bytes (node_key_input blake3 n dep_hashes context_hash env_fp))"

lemma node_key_input_env_order:
  assumes "hm_ok (node_env n)" and "mset (node_env n) = mset env'"
  shows "node_key_input blake3 (n\<lparr>node_env := env'\<rparr>) ds c fp = node_key_input blake3 n ds c fp"
proof -
  from assms have "map_of (node_env n) = map_of env'" by (rule map_of_mset_eq)
  moreover from assms(2) have "sort (map fst (node_env n)) = sort (map fst env')"
    by (intro sort_mset_eq) simp
  moreover from assms(2) have "(node_env n = []) = (env' = [])"
    by (metis mset_zero_iff)
  ultimately show ?thesis by (simp add: node_key_input_def)
qed

lemma node_key_input_deps_order:
  "mset ds = mset ds' \<Longrightarrow> node_key_input blake3 n ds c fp = node_key_input blake3 n ds' c fp"
  by (simp add: node_key_input_def sort_mset_eq [of ds ds'])

section \<open>Depth-first order\<close>

text \<open>
  \<open>visited\<close> has one flag per node. \<open>dfs_deps\<close> is the loop over a dependency list inside
  \<open>dfs_topo\<close>: an in-range dependency that is not visited yet is visited recursively (its
  flag is set, its own dependencies are walked, then it is pushed).
\<close>

type_synonym dfs_state = "bool list \<times> nat list"

definition unvisited :: "build_graph \<Rightarrow> bool list \<Rightarrow> nat \<Rightarrow> bool" where
  "unvisited g visited d \<longleftrightarrow> d < size_g g \<and> d < length visited \<and> \<not> visited ! d"

function dfs_deps :: "build_graph \<Rightarrow> nat list \<Rightarrow> dfs_state \<Rightarrow> dfs_state" where
  "dfs_deps g [] s = s"
| "dfs_deps g (d # ds) (visited, stack) =
     (if unvisited g visited d
      then (case dfs_deps g (deps_of g d) (visited[d := True], stack) of
              (visited', stack') \<Rightarrow> dfs_deps g ds (visited', stack' @ [d]))
      else dfs_deps g ds (visited, stack))"
  by pat_completeness auto

definition white :: "bool list \<Rightarrow> nat" where
  "white visited = length (filter Not visited)"

lemma white_update: "i < length v \<Longrightarrow> \<not> v ! i \<Longrightarrow> white (v[i := True]) < white v"
proof (induction v arbitrary: i)
  case (Cons b v)
  then show ?case by (cases i) (auto simp: white_def)
qed simp

lemma dfs_deps_white:
  "dfs_deps_dom (g, ds, s) \<Longrightarrow> white (fst (dfs_deps g ds s)) \<le> white (fst s)"
proof (induction g ds s rule: dfs_deps.pinduct)
  case (1 g s)
  then show ?case by (simp add: dfs_deps.psimps)
next
  case (2 g d ds visited stack)
  show ?case
  proof (cases "unvisited g visited d")
    case True
    obtain v' s' where eq: "dfs_deps g (deps_of g d) (visited[d := True], stack) = (v', s')"
      by fastforce
    have "white v' \<le> white (visited[d := True])"
      using 2(2) [OF True] eq by simp
    moreover have "white (visited[d := True]) < white visited"
      using True by (simp add: unvisited_def white_update)
    moreover have "white (fst (dfs_deps g ds (v', s' @ [d]))) \<le> white v'"
      using 2(3) [OF True eq [symmetric]] by simp
    ultimately show ?thesis using True eq 2(1) by (simp add: dfs_deps.psimps)
  next
    case False
    then show ?thesis using 2(1) 2(4) by (simp add: dfs_deps.psimps)
  qed
qed

termination dfs_deps
proof (relation "measures [\<lambda>(g, ds, s). white (fst s), \<lambda>(g, ds, s). length ds]", goal_cases)
  case (2 g d ds visited stack)
  then show ?case by (simp add: unvisited_def white_update)
next
  case (3 g d ds visited stack v' s')
  have "white v' \<le> white (visited[d := True])"
    using dfs_deps_white [OF 3(3)] 3(2) [symmetric] by simp
  also have "\<dots> < white visited"
    using 3(1) by (simp add: unvisited_def white_update)
  finally show ?case by simp
qed simp_all

text \<open>\<open>dfs_topo\<close> is called on an unvisited node only.\<close>

definition dfs_topo :: "build_graph \<Rightarrow> nat \<Rightarrow> dfs_state \<Rightarrow> dfs_state" where
  "dfs_topo g node s =
     (case s of (visited, stack) \<Rightarrow>
        (case dfs_deps g (deps_of g node) (visited[node := True], stack) of
           (visited', stack') \<Rightarrow> (visited', stack' @ [node])))"

definition topological_order :: "build_graph \<Rightarrow> nat list" where
  "topological_order g =
     (let s = fold (\<lambda>i (visited, stack).
                      if \<not> visited ! i then dfs_topo g i (visited, stack) else (visited, stack))
                   [0..<size_g g] (replicate (size_g g) False, [])
      in rev (snd s))"

section \<open>Levels\<close>

text \<open>\<open>max_dep_level\<close> of one node, over the levels computed so far.\<close>

definition max_dep_level :: "build_graph \<Rightarrow> nat list \<Rightarrow> nat \<Rightarrow> nat" where
  "max_dep_level g node_levels i =
     fold (\<lambda>dep m. if dep < size_g g then max m (node_levels ! dep + 1) else m) (deps_of g i) 0"

definition node_levels :: "build_graph \<Rightarrow> nat list" where
  "node_levels g =
     fold (\<lambda>i lv. lv[i := max_dep_level g lv i]) (topological_order g) (replicate (size_g g) 0)"

definition levels :: "build_graph \<Rightarrow> nat list list" where
  "levels g =
     (let lv = node_levels g;
          max_level = (if lv = [] then 0 else Max (set lv))
      in fold (\<lambda>(i, level) res. res[level := res ! level @ [i]])
              (enumerate 0 lv) (replicate (max_level + 1) []))"

section \<open>The order is a permutation\<close>

lemma dfs_deps_append: "dfs_deps g (xs @ ys) s = dfs_deps g ys (dfs_deps g xs s)"
proof (induction g xs s rule: dfs_deps.induct)
  case (2 g d ds visited stack)
  then show ?case
    by (cases "dfs_deps g (deps_of g d) (visited[d := True], stack)") auto
qed simp

text \<open>What one call does: it only turns flags on, and pushes exactly the nodes it turned on.\<close>

definition newly :: "bool list \<Rightarrow> bool list \<Rightarrow> nat set" where
  "newly v v' = {i. i < length v \<and> v' ! i \<and> \<not> v ! i}"

definition dfs_effect :: "build_graph \<Rightarrow> nat list \<Rightarrow> dfs_state \<Rightarrow> dfs_state \<Rightarrow> bool" where
  "dfs_effect g ds s s' \<longleftrightarrow>
     length (fst s') = length (fst s)
     \<and> (\<forall>i < length (fst s). fst s ! i \<longrightarrow> fst s' ! i)
     \<and> (\<forall>d \<in> set ds. d < size_g g \<and> d < length (fst s) \<longrightarrow> fst s' ! d)
     \<and> (\<exists>new. snd s' = snd s @ new \<and> distinct new \<and> set new = newly (fst s) (fst s'))"

lemma dfs_deps_effect: "dfs_effect g ds s (dfs_deps g ds s)"
proof (induction g ds s rule: dfs_deps.induct)
  case (1 g s)
  then show ?case by (simp add: dfs_effect_def newly_def)
next
  case (2 g d ds visited stack)
  show ?case
  proof (cases "unvisited g visited d")
    case True
    then have d: "d < length visited" "\<not> visited ! d" by (auto simp: unvisited_def)
    obtain v1 s1 where eq: "dfs_deps g (deps_of g d) (visited[d := True], stack) = (v1, s1)"
      by fastforce
    obtain v2 s2 where eq2: "dfs_deps g ds (v1, s1 @ [d]) = (v2, s2)" by fastforce
    from 2(1) [OF True] eq obtain new1 where
      1: "length v1 = length visited" "\<And>i. i < length visited \<Longrightarrow> visited[d := True] ! i \<Longrightarrow> v1 ! i"
        "s1 = stack @ new1" "distinct new1" "set new1 = newly (visited[d := True]) v1"
      by (auto simp: dfs_effect_def)
    from 2(2) [OF True eq [symmetric]] eq2 1(1) obtain new2 where
      2: "length v2 = length visited" "\<And>i. i < length visited \<Longrightarrow> v1 ! i \<Longrightarrow> v2 ! i"
        "\<forall>e \<in> set ds. e < size_g g \<and> e < length visited \<longrightarrow> v2 ! e"
        "s2 = s1 @ [d] @ new2" "distinct new2" "set new2 = newly v1 v2"
      by (auto simp: dfs_effect_def)
    have v1d: "v1 ! d" using 1(2) [of d] d by simp
    have keep: "v2 ! i" if "i < length visited" "visited ! i" for i
      using that 1(2) [of i] 2(2) [of i] by (cases "i = d") auto
    have "distinct (new1 @ [d] @ new2)"
      using 1 2 d v1d by (auto simp: newly_def)
    moreover have "set (new1 @ [d] @ new2) = newly visited v2"
    proof
      show "set (new1 @ [d] @ new2) \<subseteq> newly visited v2"
        using 1 2 d v1d keep by (auto simp: newly_def nth_list_update split: if_splits)
      show "newly visited v2 \<subseteq> set (new1 @ [d] @ new2)"
        using 1 2 by (auto simp: newly_def nth_list_update)
    qed
    ultimately have "\<exists>new. s2 = stack @ new \<and> distinct new \<and> set new = newly visited v2"
      using 1(3) 2(4) by (intro exI [of _ "new1 @ [d] @ new2"]) simp
    moreover have "\<forall>e \<in> set (d # ds). e < size_g g \<and> e < length visited \<longrightarrow> v2 ! e"
      using 2 v1d d by auto
    ultimately show ?thesis
      using True eq eq2 2(1) keep by (simp add: dfs_effect_def)
  next
    case False
    with 2(3) show ?thesis
      by (auto simp: dfs_effect_def unvisited_def)
  qed
qed

lemma dfs_topo_deps: "unvisited g v i \<Longrightarrow> dfs_topo g i (v, st) = dfs_deps g [i] (v, st)"
  by (simp add: dfs_topo_def split: prod.splits)

text \<open>The loop over all nodes is one walk over the list of all indices.\<close>

lemma topological_fold:
  assumes "length v = size_g g" and "set is \<subseteq> {..<size_g g}"
  shows "fold (\<lambda>i (v, st). if \<not> v ! i then dfs_topo g i (v, st) else (v, st)) is (v, st)
         = dfs_deps g is (v, st)"
  using assms
proof (induction "is" arbitrary: v st)
  case (Cons i "is")
  obtain v' st' where eq: "dfs_deps g [i] (v, st) = (v', st')" by fastforce
  have len: "length v' = size_g g"
    using dfs_deps_effect [of g "[i]" "(v, st)"] eq Cons.prems by (simp add: dfs_effect_def)
  have "dfs_deps g (i # is) (v, st) = dfs_deps g is (v', st')"
    using dfs_deps_append [of g "[i]" "is" "(v, st)"] eq by (simp del: dfs_deps.simps)
  moreover have "(if \<not> v ! i then dfs_topo g i (v, st) else (v, st)) = (v', st')"
    using eq Cons.prems by (auto simp: dfs_topo_deps unvisited_def)
  ultimately show ?case
    using Cons.IH [of v' st'] Cons.prems len by simp
qed simp

definition finish_order :: "build_graph \<Rightarrow> nat list" where
  "finish_order g = snd (dfs_deps g [0..<size_g g] (replicate (size_g g) False, []))"

lemma topological_order_rev: "topological_order g = rev (finish_order g)"
  by (simp add: topological_order_def finish_order_def, subst topological_fold) auto

lemma finish_order_perm: "distinct (finish_order g) \<and> set (finish_order g) = {..<size_g g}"
proof -
  let ?s = "(replicate (size_g g) False, [] :: nat list)"
  obtain v st where eq: "dfs_deps g [0..<size_g g] ?s = (v, st)" by fastforce
  from dfs_deps_effect [of g "[0..<size_g g]" ?s] eq
  have "distinct st" "set st = newly (replicate (size_g g) False) v"
    and "\<forall>d < size_g g. v ! d"
    by (auto simp: dfs_effect_def)
  then show ?thesis
    using eq by (auto simp: finish_order_def newly_def)
qed

section \<open>Dependencies finish first\<close>

text \<open>A rank that drops along every in-range dependency exists exactly on acyclic graphs.\<close>

definition ranked :: "(nat \<Rightarrow> nat) \<Rightarrow> build_graph \<Rightarrow> bool" where
  "ranked r g \<longleftrightarrow> (\<forall>i < size_g g. \<forall>d \<in> set (deps_of g i). d < size_g g \<longrightarrow> r d < r i)"

text \<open>\<open>deps_first g done xs\<close>: in the order \<open>xs\<close>, after \<open>done\<close>, every node comes after its
  in-range dependencies.\<close>

fun deps_first :: "build_graph \<Rightarrow> nat set \<Rightarrow> nat list \<Rightarrow> bool" where
  "deps_first g done [] = True"
| "deps_first g done (x # xs) =
     ((\<forall>d \<in> set (deps_of g x). d < size_g g \<longrightarrow> d \<in> done) \<and> deps_first g (insert x done) xs)"

lemma deps_first_append:
  "deps_first g D (xs @ ys) \<longleftrightarrow> deps_first g D xs \<and> deps_first g (D \<union> set xs) ys"
  by (induction xs arbitrary: D) auto

text \<open>A node is grey while its dependencies are walked: visited but not pushed yet.\<close>

definition grey :: "dfs_state \<Rightarrow> nat set" where
  "grey s = {x. x < length (fst s) \<and> fst s ! x \<and> x \<notin> set (snd s)}"

definition grey_above :: "(nat \<Rightarrow> nat) \<Rightarrow> build_graph \<Rightarrow> nat list \<Rightarrow> dfs_state \<Rightarrow> bool" where
  "grey_above r g ds s \<longleftrightarrow> (\<forall>x \<in> grey s. \<forall>d \<in> set ds. d < size_g g \<longrightarrow> r d < r x)"

lemma dfs_deps_first:
  assumes "ranked r g" and "length (fst s) = size_g g"
    and "grey_above r g ds s" and "deps_first g {} (snd s)"
  shows "deps_first g {} (snd (dfs_deps g ds s))"
  using assms
proof (induction g ds s rule: dfs_deps.induct)
  case (2 g d ds visited stack)
  show ?case
  proof (cases "unvisited g visited d")
    case True
    then have d: "d < size_g g" "d < length visited" "\<not> visited ! d" by (auto simp: unvisited_def)
    let ?s0 = "(visited[d := True], stack)"
    obtain v1 s1 where eq: "dfs_deps g (deps_of g d) ?s0 = (v1, s1)" by fastforce
    from dfs_deps_effect [of g "deps_of g d" ?s0] eq obtain new where
      eff: "length v1 = length visited" "s1 = stack @ new" "set new = newly (visited[d := True]) v1"
        "\<forall>e \<in> set (deps_of g d). e < size_g g \<and> e < length visited \<longrightarrow> v1 ! e"
      by (auto simp: dfs_effect_def)
    have low: "r e < r d" if "e \<in> set (deps_of g d)" "e < size_g g" for e
      using 2(4) d that by (auto simp: ranked_def)
    have top: "r d < r x" if "x \<in> grey (visited, stack)" for x
      using 2(6) d that by (auto simp: grey_above_def)
    have "grey_above r g (deps_of g d) ?s0"
      unfolding grey_above_def
    proof (intro ballI impI)
      fix x e assume x: "x \<in> grey ?s0" and e: "e \<in> set (deps_of g d)" "e < size_g g"
      show "r e < r x"
        using x low [OF e] top [of x] by (cases "x = d") (auto simp: grey_def)
    qed
    with 2(1) [OF True] 2(4,5,7) have first1: "deps_first g {} s1"
      using eq by simp
    have "e \<in> set s1" if e: "e \<in> set (deps_of g d)" "e < size_g g" for e
    proof (rule ccontr)
      assume no: "e \<notin> set s1"
      have "v1 ! e" using eff(4) e 2(5) by simp
      with no eff(2,3) e 2(5) have "visited[d := True] ! e" by (auto simp: newly_def)
      moreover have "e \<noteq> d" using low [OF e] by auto
      ultimately have "e \<in> grey (visited, stack)"
        using no eff(2) e 2(5) by (auto simp: grey_def)
      with top [of e] low [OF e] show False by simp
    qed
    with first1 have first2: "deps_first g {} (s1 @ [d])"
      by (auto simp: deps_first_append)
    have "grey_above r g ds (v1, s1 @ [d])"
      unfolding grey_above_def
    proof (intro ballI impI)
      fix x e assume x: "x \<in> grey (v1, s1 @ [d])" and e: "e \<in> set ds" "e < size_g g"
      from x eff have "visited[d := True] ! x" "x \<noteq> d" "x \<notin> set stack" "x < length visited"
        by (auto simp: grey_def newly_def)
      then have "x \<in> grey (visited, stack)" by (auto simp: grey_def)
      with 2(6) e show "r e < r x" by (auto simp: grey_above_def)
    qed
    with 2(2) [OF True eq [symmetric]] 2(4,5) eff(1) first2
    show ?thesis using True eq by simp
  next
    case False
    with 2(3) 2(4-7) show ?thesis by (simp add: grey_above_def)
  qed
qed simp

lemma finish_order_deps_first: "ranked r g \<Longrightarrow> deps_first g {} (finish_order g)"
  unfolding finish_order_def
  by (rule dfs_deps_first) (auto simp: grey_above_def grey_def)

section \<open>What the levels are\<close>

definition has_dep :: "build_graph \<Rightarrow> nat \<Rightarrow> bool" where
  "has_dep g i \<longleftrightarrow> (\<exists>d \<in> set (deps_of g i). d < size_g g)"

lemma max_dep_level_fold:
  assumes "\<And>d. d \<in> set ds \<Longrightarrow> d < n \<Longrightarrow> lv ! d = 0"
  shows "fold (\<lambda>dep m. if dep < n then max m (lv ! dep + 1) else m) ds m
         = (if \<exists>d \<in> set ds. d < n then max m 1 else (m::nat))"
  using assms by (induction ds arbitrary: m) auto

lemma max_dep_level_zero:
  assumes "\<And>d. d \<in> set (deps_of g i) \<Longrightarrow> d < size_g g \<Longrightarrow> lv ! d = 0"
  shows "max_dep_level g lv i = (if has_dep g i then 1 else 0)"
proof -
  have "max_dep_level g lv i = (if \<exists>d \<in> set (deps_of g i). d < size_g g then max 0 1 else 0)"
    unfolding max_dep_level_def by (rule max_dep_level_fold) (rule assms)
  then show ?thesis by (simp add: has_dep_def)
qed

text \<open>The order visits a node before its dependencies, so every dependency still has level 0.\<close>

lemma levels_backwards:
  assumes "deps_first g D st" and "distinct st" and "D \<inter> set st = {}" and "i < size_g g"
    and "set st \<subseteq> {..<size_g g}"
  shows "length (foldr (\<lambda>i lv. lv[i := max_dep_level g lv i]) st (replicate (size_g g) 0)) = size_g g
    \<and> foldr (\<lambda>i lv. lv[i := max_dep_level g lv i]) st (replicate (size_g g) 0) ! i
       = (if i \<in> set st \<and> has_dep g i then 1 else 0)"
  using assms
proof (induction st arbitrary: D i)
  case (Cons x st)
  let ?lv = "foldr (\<lambda>i lv. lv[i := max_dep_level g lv i]) st (replicate (size_g g) 0)"
  from Cons.prems have IH: "length ?lv = size_g g \<and> ?lv ! j = (if j \<in> set st \<and> has_dep g j then 1 else 0)"
    if "j < size_g g" for j
    using Cons.IH [of "insert x D" j] that by auto
  have "max_dep_level g ?lv x = (if has_dep g x then 1 else 0)"
  proof (rule max_dep_level_zero)
    fix d assume "d \<in> set (deps_of g x)" "d < size_g g"
    with Cons.prems have "d \<in> D" "d \<notin> set st" by auto
    with IH [of d] \<open>d < size_g g\<close> show "?lv ! d = 0" by simp
  qed
  with IH [OF Cons.prems(4)] Cons.prems show ?case
    by (auto simp: nth_list_update)
qed simp

lemma length_node_levels [simp]: "length (node_levels g) = size_g g"
proof -
  have "length (fold (\<lambda>i lv. lv[i := max_dep_level g lv i]) xs lv) = length lv" for xs lv
    by (induction xs arbitrary: lv) auto
  then show ?thesis by (simp add: node_levels_def)
qed

lemma node_levels_ranked:
  assumes "ranked r g" and "i < size_g g"
  shows "node_levels g ! i = (if has_dep g i then 1 else 0)"
  using levels_backwards [of g "{}" "finish_order g" i] finish_order_deps_first [OF assms(1)]
    finish_order_perm [of g] assms(2)
  by (simp add: node_levels_def topological_order_rev foldr_conv_fold)

text \<open>Filling the buckets.\<close>

lemma bucket_fold:
  assumes "\<forall>p \<in> set xs. snd p < length res"
  shows "length (fold (\<lambda>(i, level) res. res[level := res ! level @ [i]]) xs res) = length res
    \<and> (\<forall>l < length res. fold (\<lambda>(i, level) res. res[level := res ! level @ [i]]) xs res ! l
          = res ! l @ map fst (filter (\<lambda>p. snd p = l) xs))"
  using assms
proof (induction xs arbitrary: res)
  case (Cons p xs)
  obtain i level where p: "p = (i, level)" by fastforce
  let ?res = "res[level := res ! level @ [i]]"
  have "\<forall>q \<in> set xs. snd q < length ?res" and "level < length res"
    using Cons.prems p by auto
  with Cons.IH [of ?res] show ?case
    by (simp add: p nth_list_update)
qed simp

lemma filter_enumerate: "map fst (filter (\<lambda>p. snd p = l) (enumerate 0 lv)) = filter (\<lambda>i. lv ! i = l) [0..<length lv]"
proof -
  have "enumerate 0 lv = map (\<lambda>i. (i, lv ! i)) [0..<length lv]"
    by (rule nth_equalityI) (simp_all add: enumerate_eq_zip)
  then show ?thesis by (simp add: filter_map comp_def)
qed

definition max_level :: "build_graph \<Rightarrow> nat" where
  "max_level g = (if node_levels g = [] then 0 else Max (set (node_levels g)))"

lemma node_level_le_max: "i < size_g g \<Longrightarrow> node_levels g ! i \<le> max_level g"
  using length_node_levels [of g] by (auto simp: max_level_def simp del: length_node_levels)

lemma levels_eq:
  "levels g = map (\<lambda>l. filter (\<lambda>i. node_levels g ! i = l) [0..<size_g g]) [0..<Suc (max_level g)]"
proof (rule nth_equalityI)
  let ?f = "\<lambda>(i, level) res. res[level := res ! level @ [i]]"
  let ?xs = "enumerate 0 (node_levels g)" and ?res = "replicate (Suc (max_level g)) ([] :: nat list)"
  have ok: "\<forall>p \<in> set ?xs. snd p < length ?res"
    by (auto simp: in_set_enumerate_eq less_Suc_eq_le node_level_le_max)
  have lv: "levels g = fold ?f ?xs ?res"
    by (simp add: levels_def max_level_def Let_def)
  show len: "length (levels g) = length (map (\<lambda>l. filter (\<lambda>i. node_levels g ! i = l) [0..<size_g g]) [0..<Suc (max_level g)])"
    using bucket_fold [OF ok] by (simp add: lv)
  fix l assume "l < length (levels g)"
  then have l: "l < Suc (max_level g)" using len by simp
  with bucket_fold [OF ok]
  have "levels g ! l = map fst (filter (\<lambda>p. snd p = l) ?xs)"
    by (simp add: lv del: replicate_Suc)
  with l show "levels g ! l = map (\<lambda>l. filter (\<lambda>i. node_levels g ! i = l) [0..<size_g g]) [0..<Suc (max_level g)] ! l"
    by (simp add: filter_enumerate del: upt_Suc)
qed

lemma mset_concat_buckets:
  "\<forall>x \<in> set xs. f x < n \<Longrightarrow> mset (concat (map (\<lambda>l. filter (\<lambda>x. f x = l) xs) [0..<n])) = mset xs"
proof (induction n arbitrary: xs)
  case (Suc n)
  let ?low = "filter (\<lambda>x. f x < n) xs"
  have "mset (concat (map (\<lambda>l. filter (\<lambda>x. f x = l) ?low) [0..<n])) = mset ?low"
    by (rule Suc.IH) simp
  moreover have "map (\<lambda>l. filter (\<lambda>x. f x = l) ?low) [0..<n] = map (\<lambda>l. filter (\<lambda>x. f x = l) xs) [0..<n]"
    by (auto intro!: map_cong filter_cong)
  moreover have "filter (\<lambda>x. f x = n) xs = filter (\<lambda>x. \<not> f x < n) xs"
    using Suc.prems by (intro filter_cong) auto
  moreover have "mset ?low + mset (filter (\<lambda>x. \<not> f x < n) xs) = mset xs"
    by (simp add: mset_filter)
  ultimately show ?case by (simp only: upt_Suc map_append concat_append mset_append) simp
qed simp

lemma mset_levels: "mset (concat (levels g)) = mset [0..<size_g g]"
  unfolding levels_eq
  by (rule mset_concat_buckets) (auto simp: less_Suc_eq_le node_level_le_max)

lemma levels_two:
  assumes "ranked r g"
  shows "levels g =
    (if \<exists>i < size_g g. has_dep g i
     then [filter (\<lambda>i. \<not> has_dep g i) [0..<size_g g], filter (has_dep g) [0..<size_g g]]
     else [[0..<size_g g]])"
proof -
  have lv: "node_levels g ! i = (if has_dep g i then 1 else 0)" if "i < size_g g" for i
    using assms that by (rule node_levels_ranked)
  have sel: "filter (\<lambda>i. node_levels g ! i = l) [0..<size_g g]
      = filter (\<lambda>i. (if has_dep g i then 1 else 0) = l) [0..<size_g g]" for l
    by (rule filter_cong) (auto simp: lv)
  have set_lv: "set (node_levels g) = (\<lambda>i. if has_dep g i then 1 else 0) ` {..<size_g g}"
  proof -
    have "set (node_levels g) = (!) (node_levels g) ` {..<size_g g}"
      using nth_image [of "size_g g" "node_levels g"] by (simp add: atLeast0LessThan)
    also have "\<dots> = (\<lambda>i. if has_dep g i then 1 else 0) ` {..<size_g g}"
      by (rule image_cong) (simp_all add: lv)
    finally show ?thesis .
  qed
  show ?thesis
  proof (cases "\<exists>i < size_g g. has_dep g i")
    case True
    then have "max_level g = 1"
      using set_lv by (auto simp: max_level_def intro!: Max_eqI)
    with True show ?thesis by (simp add: levels_eq sel)
  next
    case False
    then have "set (node_levels g) \<subseteq> {0}" using set_lv by auto
    then have "max_level g = 0"
      unfolding max_level_def by (metis Max_singleton set_empty subset_singletonD)
    with False have "levels g = [filter (\<lambda>i. \<not> has_dep g i) [0..<size_g g]]"
      by (simp add: levels_eq sel)
    also have "filter (\<lambda>i. \<not> has_dep g i) [0..<size_g g] = [0..<size_g g]"
      using False by (intro filter_True) auto
    finally show ?thesis using False by simp
  qed
qed

lemma deps_first_split:
  "deps_first g D (xs @ i # ys) \<Longrightarrow> d \<in> set (deps_of g i) \<Longrightarrow> d < size_g g \<Longrightarrow> d \<in> D \<union> set xs"
  by (auto simp: deps_first_append)

section \<open>Properties\<close>

text \<open>For every build graph, cyclic or not and with any out-of-range dependencies,
  \<open>levels\<close> schedules every node exactly once: the levels put together are a permutation
  of all node indices.\<close>

theorem levels_schedule_each_node_once: "mset (concat (levels g)) = mset [0..<size_g g]"
  by (rule mset_levels)

text \<open>On every acyclic graph \<open>topological_order\<close> is a permutation of the node indices
  in which a node comes before each of its in-range dependencies: the depth-first finishing
  order (dependencies first) is reversed before it is returned.\<close>

theorem topological_order_dependents_first:
  assumes "ranked r g" and "i < size_g g" and "d \<in> set (deps_of g i)" and "d < size_g g"
  shows "distinct (topological_order g) \<and> set (topological_order g) = {..<size_g g}
    \<and> (\<exists>xs ys zs. topological_order g = xs @ i # ys @ d # zs)"
proof -
  obtain xs ys where split: "finish_order g = xs @ i # ys"
    using finish_order_perm [of g] assms(2) by (metis lessThan_iff split_list)
  from finish_order_deps_first [OF assms(1)] have "d \<in> set xs"
    using deps_first_split assms(3,4) unfolding split by fastforce
  then obtain as bs where "xs = as @ d # bs" by (metis split_list)
  then have "topological_order g = rev ys @ i # rev bs @ d # rev as"
    by (simp add: topological_order_rev split)
  then have "\<exists>xs ys zs. topological_order g = xs @ i # ys @ d # zs" by blast
  moreover have "distinct (topological_order g)" "set (topological_order g) = {..<size_g g}"
    using finish_order_perm [of g] by (simp_all add: topological_order_rev)
  ultimately show ?thesis by blast
qed

text \<open>C14. On every acyclic graph \<open>levels\<close> has at most two levels: the nodes without an
  in-range dependency, then all the others together, however deep the graph is. A chain of
  dependencies is therefore put into one level, which the executor may run in parallel.\<close>

theorem levels_at_most_two:
  assumes "ranked r g"
  shows "levels g =
    (if \<exists>i < size_g g. has_dep g i
     then [filter (\<lambda>i. \<not> has_dep g i) [0..<size_g g], filter (has_dep g) [0..<size_g g]]
     else [[0..<size_g g]])"
  using assms by (rule levels_two)

text \<open>The node key does not depend on the iteration order of the environment map nor on
  the order in which the dependency hashes are given.\<close>

theorem node_key_order_independent:
  assumes "hm_ok (node_env n)" and "mset (node_env n) = mset env'" and "mset ds = mset ds'"
  shows "compute_node_key blake3 (n\<lparr>node_env := env'\<rparr>) ds' c fp = compute_node_key blake3 n ds c fp"
  using node_key_input_env_order [OF assms(1,2), of blake3 ds' c fp]
    node_key_input_deps_order [OF assms(3), of blake3 n c fp]
  by (simp add: compute_node_key_def)

section \<open>Witnesses\<close>

definition chain_node :: "nat \<Rightarrow> nat list \<Rightarrow> node" where
  "chain_node i ds =
     \<lparr>node_id = i, node_name = ''n'', node_content = ''c'', node_kind = NK_Run, node_hash = [],
      node_dirty = False, node_deps = ds, node_source_path = None,
      node_env = [(''B'', ''2''), (''A'', ''1'')], node_cache_hit = False, node_meta = default_metadata\<rparr>"

definition chain3 :: build_graph where
  "chain3 = \<lparr>graph_nodes = [chain_node 0 [], chain_node 1 [0], chain_node 2 [1]]\<rparr>"

lemma ranked_chain3: "ranked id chain3"
  by (auto simp: ranked_def chain3_def chain_node_def less_Suc_eq numeral_3_eq_3 nth_Cons split: nat.splits)

theorem topological_order_dependents_first_witness:
  "distinct (topological_order chain3) \<and> set (topological_order chain3) = {..<size_g chain3}
    \<and> (\<exists>xs ys zs. topological_order chain3 = xs @ 2 # ys @ 1 # zs)"
  by (rule topological_order_dependents_first [OF ranked_chain3])
     (simp_all add: chain3_def chain_node_def)

theorem levels_at_most_two_witness: "levels chain3 = [[0], [1, 2]]"
proof -
  have "has_dep chain3 1" "has_dep chain3 2" "\<not> has_dep chain3 0"
    by (simp_all add: has_dep_def chain3_def chain_node_def)
  moreover have "size_g chain3 = 3" by (simp add: chain3_def)
  ultimately show ?thesis
    using levels_at_most_two [OF ranked_chain3] by (auto simp: upt_rec numeral_3_eq_3 numeral_2_eq_2)
qed

theorem node_key_order_independent_witness:
  "compute_node_key (\<lambda>b. ''h'') (chain_node 0 []\<lparr>node_env := [(''A'', ''1''), (''B'', ''2'')]\<rparr>) [''y'', ''x''] None None
    = compute_node_key (\<lambda>b. ''h'') (chain_node 0 []) [''x'', ''y''] None None"
  by (rule node_key_order_independent) (simp_all add: chain_node_def hm_ok_def)

end
