(* ===== verification/Core.thy ===== *)
theory Core
  imports Graph
begin

text \<open>
  \<open>src/src/core.rs\<close>: change detection over the build graph, the steps \<open>run_build\<close> takes
  between parsing and execution. \<open>compute_composite_hashes\<close> receives the environment
  fingerprint and ignores it. \<open>to_value\<close> is \<open>serde_json::to_value\<close> on the metadata.
\<close>

definition detect_changes :: "build_graph \<Rightarrow> build_graph" where
  "detect_changes g = g\<lparr>graph_nodes := map (\<lambda>n. n\<lparr>node_dirty := True\<rparr>) (graph_nodes g)\<rparr>"

text \<open>The loop body: a clean node becomes dirty when one of its in-range dependencies is dirty.\<close>

definition dirty_step :: "nat \<Rightarrow> node list \<Rightarrow> node list" where
  "dirty_step i ns =
     (if \<not> node_dirty (ns ! i)
         \<and> list_ex (\<lambda>dep. dep < length ns \<and> node_dirty (ns ! dep)) (node_deps (ns ! i))
      then ns[i := (ns ! i)\<lparr>node_dirty := True\<rparr>] else ns)"

definition propagate_dirty :: "build_graph \<Rightarrow> build_graph" where
  "propagate_dirty g =
     g\<lparr>graph_nodes := fold dirty_step [0..<size_g g] (graph_nodes g)\<rparr>"

definition compute_composite_hashes ::
    "(bytes \<Rightarrow> string) \<Rightarrow> build_graph \<Rightarrow> env_fingerprint \<Rightarrow> build_graph" where
  "compute_composite_hashes blake3 g _ =
     g\<lparr>graph_nodes := map (\<lambda>n. n\<lparr>node_hash := blake3 (as_bytes (node_content n))\<rparr>) (graph_nodes g)\<rparr>"

definition propagate_manifests ::
    "(node_metadata \<Rightarrow> 'json) \<Rightarrow> build_graph \<Rightarrow> build_graph \<times> (string, 'json) hashmap" where
  "propagate_manifests to_value g =
     (let ns = map (\<lambda>n. n\<lparr>node_meta := (node_meta n)\<lparr>input_manifest_hash := Some (node_hash n)\<rparr>\<rparr>) (graph_nodes g)
      in (g\<lparr>graph_nodes := ns\<rparr>,
          fold (\<lambda>n m. AList.update (node_hash n) (to_value (node_meta n)) m) ns []))"

section \<open>Lemmas\<close>

lemma size_detect_changes [simp]: "size_g (detect_changes g) = size_g g"
  by (simp add: detect_changes_def)

lemma length_dirty_step [simp]: "length (dirty_step i ns) = length ns"
  by (simp add: dirty_step_def)

lemma length_dirty_fold [simp]: "length (fold dirty_step is ns) = length ns"
  by (induction "is" arbitrary: ns) simp_all

lemma size_propagate_dirty [simp]: "size_g (propagate_dirty g) = size_g g"
  by (simp add: propagate_dirty_def)

lemma dirty_step_nth:
  assumes "j < length ns"
  shows "dirty_step i ns ! j =
    (if j = i \<and> \<not> node_dirty (ns ! i)
        \<and> (\<exists>d \<in> set (node_deps (ns ! i)). d < length ns \<and> node_dirty (ns ! d))
     then (ns ! j)\<lparr>node_dirty := True\<rparr> else ns ! j)"
  using assms by (auto simp: dirty_step_def nth_list_update list_ex_iff)

lemma dirty_step_deps [simp]:
  "j < length ns \<Longrightarrow> node_deps (dirty_step i ns ! j) = node_deps (ns ! j)"
  by (simp add: dirty_step_nth)

lemma dirty_fold_deps [simp]:
  "j < length ns \<Longrightarrow> node_deps (fold dirty_step is ns ! j) = node_deps (ns ! j)"
  by (induction "is" arbitrary: ns) simp_all

text \<open>Reaching a dirty node along in-range dependencies.\<close>

inductive stale :: "build_graph \<Rightarrow> nat \<Rightarrow> bool" for g where
  itself: "i < size_g g \<Longrightarrow> node_dirty (graph_nodes g ! i) \<Longrightarrow> stale g i"
| through: "i < size_g g \<Longrightarrow> d \<in> set (deps_of g i) \<Longrightarrow> d < size_g g \<Longrightarrow> stale g d \<Longrightarrow> stale g i"

inductive_simps stale_unfold: "stale g i"

lemma dirty_prefix:
  assumes "ranked id g" and "k \<le> size_g g" and "j < size_g g"
  shows "node_dirty (fold dirty_step [0..<k] (graph_nodes g) ! j)
    \<longleftrightarrow> (if j < k then stale g j else node_dirty (graph_nodes g ! j))"
  using assms(2,3)
proof (induction k arbitrary: j)
  case (Suc k)
  let ?ns = "fold dirty_step [0..<k] (graph_nodes g)"
  have len: "length ?ns = size_g g" by simp
  have "node_dirty (dirty_step k ?ns ! j) \<longleftrightarrow> (if j < Suc k then stale g j else node_dirty (graph_nodes g ! j))"
  proof (cases "j = k")
    case True
    have "(\<exists>d \<in> set (deps_of g k). d < size_g g \<and> node_dirty (?ns ! d))
      \<longleftrightarrow> (\<exists>d \<in> set (deps_of g k). d < size_g g \<and> stale g d)"
      using assms(1) Suc by (intro bex_cong) (auto simp: ranked_def)
    moreover have "node_dirty (?ns ! k) \<longleftrightarrow> node_dirty (graph_nodes g ! k)"
      using Suc by simp
    ultimately show ?thesis
      using True Suc.prems len by (auto simp: dirty_step_nth stale_unfold [of g k])
  next
    case False
    then show ?thesis using Suc len by (auto simp: dirty_step_nth less_Suc_eq)
  qed
  then show ?case by simp
qed simp

text \<open>Everything but the flag is left alone.\<close>

lemma dirty_fold_frame:
  "j < length ns \<Longrightarrow> (fold dirty_step is ns ! j)\<lparr>node_dirty := b\<rparr> = (ns ! j)\<lparr>node_dirty := b\<rparr>"
  by (induction "is" arbitrary: ns) (simp_all add: dirty_step_nth)

lemma graph_nodes_composite [simp]:
  "i < size_g g \<Longrightarrow>
   graph_nodes (compute_composite_hashes blake3 g fp) ! i =
     (graph_nodes g ! i)\<lparr>node_hash := blake3 (as_bytes (node_content (graph_nodes g ! i)))\<rparr>"
  by (simp add: compute_composite_hashes_def)

lemma size_composite [simp]: "size_g (compute_composite_hashes blake3 g fp) = size_g g"
  by (simp add: compute_composite_hashes_def)

section \<open>Properties\<close>

text \<open>C34. On a graph whose in-range dependencies point backwards (every graph built from a
  Dockerfile is one), the single pass of \<open>propagate_dirty\<close> computes the full transitive
  closure: after it a node is dirty exactly when some chain of dependencies leads to a node
  that was dirty before, and no other field of any node changes.\<close>

theorem propagate_dirty_closure:
  assumes "ranked id g" and "i < size_g g"
  shows "(node_dirty (graph_nodes (propagate_dirty g) ! i) \<longleftrightarrow> stale g i)
    \<and> (graph_nodes (propagate_dirty g) ! i)\<lparr>node_dirty := b\<rparr> = (graph_nodes g ! i)\<lparr>node_dirty := b\<rparr>"
  using dirty_prefix [OF assms(1) order_refl assms(2)] assms(2)
  by (simp add: propagate_dirty_def dirty_fold_frame)

text \<open>Every node is dirty after \<open>detect_changes\<close>, so nothing is left to propagate, and the hash of a node is the digest
  of its own text.\<close>

lemma propagate_all_dirty: "propagate_dirty (detect_changes g) = detect_changes g"
proof -
  have keep: "fold dirty_step is ns = ns" if "list_all node_dirty ns" "set is \<subseteq> {..<length ns}" for "is" ns
    using that by (induction "is") (auto simp: dirty_step_def list_all_length)
  show ?thesis
    using keep [of "graph_nodes (detect_changes g)" "[0..<size_g g]"]
    by (simp add: propagate_dirty_def detect_changes_def list_all_length atLeast0LessThan [symmetric])
qed

lemma changed_nodes:
  "graph_nodes (compute_composite_hashes blake3 (propagate_dirty (detect_changes g)) fp)
    = map (\<lambda>n. n\<lparr>node_dirty := True, node_hash := blake3 (as_bytes (node_content n))\<rparr>) (graph_nodes g)"
  unfolding propagate_all_dirty by (simp add: compute_composite_hashes_def detect_changes_def)

lemma changed_hashes:
  "map node_hash (graph_nodes (compute_composite_hashes blake3 (propagate_dirty (detect_changes g)) fp))
    = map (\<lambda>c. blake3 (as_bytes c)) (map node_content (graph_nodes g))"
  by (simp add: changed_nodes)

text \<open>\<open>detect_changes\<close> followed by \<open>propagate_dirty\<close> and \<open>compute_composite_hashes\<close>, as
  \<open>run_build\<close> runs them, marks every node dirty whatever changed, and gives every node the
  BLAKE3 digest of its instruction text alone: two graphs that agree on the instruction texts
  get the same hashes, whatever their dependencies, source files, environment maps and
  fingerprints are.\<close>

theorem pipeline_hash_is_content_hash:
  assumes "map node_content (graph_nodes g) = map node_content (graph_nodes g')"
  shows "map node_hash (graph_nodes (compute_composite_hashes blake3 (propagate_dirty (detect_changes g)) fp))
       = map node_hash (graph_nodes (compute_composite_hashes blake3 (propagate_dirty (detect_changes g')) fp'))
    \<and> list_all node_dirty (graph_nodes (propagate_dirty (detect_changes g)))"
  unfolding changed_hashes using assms by (simp only: propagate_all_dirty simp_thms) (simp add: detect_changes_def list_all_length)

section \<open>Witnesses\<close>

definition dirty_chain :: build_graph where
  "dirty_chain = \<lparr>graph_nodes = [(chain_node 0 [])\<lparr>node_dirty := True\<rparr>, chain_node 1 [0], chain_node 2 [1]]\<rparr>"

lemma ranked_dirty_chain: "ranked id dirty_chain"
  by (auto simp: ranked_def dirty_chain_def chain_node_def less_Suc_eq numeral_3_eq_3 nth_Cons split: nat.splits)

theorem propagate_dirty_closure_witness:
  "(node_dirty (graph_nodes (propagate_dirty dirty_chain) ! 2) \<longleftrightarrow> stale dirty_chain 2)
    \<and> (graph_nodes (propagate_dirty dirty_chain) ! 2)\<lparr>node_dirty := True\<rparr>
        = (graph_nodes dirty_chain ! 2)\<lparr>node_dirty := True\<rparr>"
  by (rule propagate_dirty_closure [OF ranked_dirty_chain]) (simp add: dirty_chain_def)

theorem pipeline_hash_is_content_hash_witness:
  "map node_hash (graph_nodes (compute_composite_hashes (\<lambda>b. ''h'') (propagate_dirty (detect_changes dirty_chain))
        \<lparr>env_vars = [], toolchain = [], fp_os = ''linux'', fp_arch = ''x86_64''\<rparr>))
       = map node_hash (graph_nodes (compute_composite_hashes (\<lambda>b. ''h'') (propagate_dirty (detect_changes chain3))
        \<lparr>env_vars = [(''LANG'', ''C'')], toolchain = [], fp_os = ''macos'', fp_arch = ''arm''\<rparr>))
    \<and> list_all node_dirty (graph_nodes (propagate_dirty (detect_changes dirty_chain)))"
  by (rule pipeline_hash_is_content_hash) (simp add: dirty_chain_def chain3_def chain_node_def)

end
