(* ===== verification/Docker.thy ===== *)
theory Docker
  imports Graph
begin

text \<open>
  \<open>src/src/docker/parser.rs\<close>, \<open>src/src/docker/dag.rs\<close> and
  \<open>src/src/docker/extensions/parser.rs\<close>: from Dockerfile text to instructions to the build
  graph. The iteration order of the \<open>copy_sources\<close> hash map is the parameter \<open>iter\<close>, which
  maps the stored pairs to the order in which the loop sees them.
\<close>

section \<open>Instructions\<close>

datatype instruction =
    From string
  | Workdir string
  | Copy string string
  | Run string
  | Env string string
  | Cmd string
  | Git string string
  | RunExtend string bool
  | CopyExtend string string "string list"
  | Hook string "string list"
  | Other string

text \<open>\<open>args.splitn(2, [' ', '='])\<close>: the text before and after the first space or equals sign.\<close>

definition env_sep :: "char \<Rightarrow> bool" where
  "env_sep c \<longleftrightarrow> c = CHR '' '' \<or> c = CHR ''=''"

definition split_env :: "string \<Rightarrow> (string \<times> string) option" where
  "split_env args =
     (case dropWhile (\<lambda>c. \<not> env_sep c) args of
        [] \<Rightarrow> None
      | _ # rest \<Rightarrow> Some (takeWhile (\<lambda>c. \<not> env_sep c) args, rest))"

definition parse_keyword :: "string \<Rightarrow> string \<Rightarrow> string list \<Rightarrow> string \<Rightarrow> instruction option" where
  "parse_keyword keyword line parts args =
     (if keyword = ''FROM'' then (if length parts \<ge> 2 then Some (From (parts ! 1)) else None)
      else if keyword = ''WORKDIR'' then (if length parts \<ge> 2 then Some (Workdir (parts ! 1)) else None)
      else if keyword = ''COPY'' then
        (if length parts \<ge> 3 then Some (Copy (parts ! 1) (parts ! 2)) else None)
      else if keyword = ''RUN'' then Some (Run args)
      else if keyword = ''ENV'' then map_option (\<lambda>(k, v). Env k v) (split_env args)
      else if keyword = ''CMD'' then Some (Cmd args)
      else if keyword = ''GIT'' then
        (if length parts \<ge> 3 then Some (Git (parts ! 1) (parts ! 2))
         else if length parts = 2 then Some (Git (parts ! 1) ''.'')
         else None)
      else if keyword = ''RUN_EXTEND'' then Some (RunExtend args True)
      else if keyword = ''COPY_EXTEND'' then
        (if length parts \<ge> 3 then Some (CopyExtend (parts ! 1) (parts ! 2) (drop 3 parts)) else None)
      else if keyword = ''HOOK'' then
        (if length parts \<ge> 2 then Some (Hook (parts ! 1) (drop 2 parts)) else None)
      else Some (Other line))"

definition parse_line :: "string \<Rightarrow> instruction option" where
  "parse_line raw =
     (let line = trim raw in
      if line = [] \<or> prefix ''#'' line then None
      else
        (case split_whitespace line of
           [] \<Rightarrow> None
         | p # ps \<Rightarrow>
             (let keyword = to_uppercase p;
                  args = (if length line > length keyword then trim (drop (length keyword) line) else [])
              in parse_keyword keyword line (p # ps) args)))"

definition parse_dockerfile :: "string \<Rightarrow> instruction list" where
  "parse_dockerfile content = List.map_filter parse_line (lines content)"

section \<open>Extension instructions\<close>

definition strip_prefix :: "string \<Rightarrow> string \<Rightarrow> string option" where
  "strip_prefix p s = (if prefix p s then Some (drop (length p) s) else None)"

definition parse_extension_line :: "string \<Rightarrow> node_kind option" where
  "parse_extension_line line =
     (case strip_prefix ''RUN_EXTEND'' line of
        Some rest \<Rightarrow> Some (NK_RunExtend (trim rest) True)
      | None \<Rightarrow>
     (case strip_prefix ''COPY_EXTEND'' line of
        Some rest \<Rightarrow>
          (let parts = split_whitespace rest in
           if length parts \<ge> 2
           then Some (NK_CopyExtend (parts ! 0) (parts ! 1) (if length parts > 2 then drop 2 parts else []))
           else None)
      | None \<Rightarrow>
     (case strip_prefix ''HOOK'' line of
        Some rest \<Rightarrow>
          (case split_whitespace rest of [] \<Rightarrow> None | p # ps \<Rightarrow> Some (NK_CustomHook p ps))
      | None \<Rightarrow> None)))"

definition parse_docker_extensions :: "string list \<Rightarrow> node_kind list" where
  "parse_docker_extensions ls = List.map_filter parse_extension_line ls"

section \<open>The graph of a Dockerfile\<close>

text \<open>The derived \<open>Debug\<close> text of an instruction, the name of its node.\<close>

fun debug_instr :: "instruction \<Rightarrow> string" where
  "debug_instr (From a) = debug_tuple ''From'' [debug_str a]"
| "debug_instr (Workdir a) = debug_tuple ''Workdir'' [debug_str a]"
| "debug_instr (Copy a b) = debug_tuple ''Copy'' [debug_str a, debug_str b]"
| "debug_instr (Run a) = debug_tuple ''Run'' [debug_str a]"
| "debug_instr (Env a b) = debug_tuple ''Env'' [debug_str a, debug_str b]"
| "debug_instr (Cmd a) = debug_tuple ''Cmd'' [debug_str a]"
| "debug_instr (Git a b) = debug_tuple ''Git'' [debug_str a, debug_str b]"
| "debug_instr (RunExtend a b) = debug_tuple ''RunExtend'' [debug_str a, show_bool b]"
| "debug_instr (CopyExtend a b ts) = debug_tuple ''CopyExtend'' [debug_str a, debug_str b, debug_list ts]"
| "debug_instr (Hook a ps) = debug_tuple ''Hook'' [debug_str a, debug_list ps]"
| "debug_instr (Other a) = debug_tuple ''Other'' [debug_str a]"

definition prev_dep :: "nat \<Rightarrow> nat list" where
  "prev_dep i = (if i > 0 then [i - 1] else [])"

definition copy_path :: "string \<Rightarrow> string \<Rightarrow> string" where
  "copy_path project_root src = (if src = ''.'' then project_root else path_join project_root src)"

text \<open>The loop over \<open>copy_sources\<close> in the \<open>Run\<close> case.\<close>

definition run_deps :: "string \<Rightarrow> (string \<times> nat) list \<Rightarrow> nat list \<Rightarrow> nat list" where
  "run_deps cmd sources deps =
     fold (\<lambda>(src_path, copy_idx) deps.
             if (str_contains src_path cmd \<or> str_contains (''./'' @ src_path) cmd) \<and> copy_idx \<notin> set deps
             then deps @ [copy_idx] else deps)
          sources deps"

definition run_parallelizable :: "string \<Rightarrow> bool" where
  "run_parallelizable cmd \<longleftrightarrow>
     \<not> str_contains ''rm'' cmd \<and> \<not> str_contains ''mv'' cmd \<and> \<not> str_contains ''chmod'' cmd"

definition meta_par :: "bool \<Rightarrow> string list \<Rightarrow> node_metadata" where
  "meta_par par ts = default_metadata\<lparr>parallelizable := par, tags := ts\<rparr>"

text \<open>One iteration: the node of instruction number \<open>i\<close>. The \<open>From\<close> case leaves the metadata
  at its default; the \<open>_parallelizable\<close> flag the match also returns is never used.\<close>

definition mk_node ::
    "nat \<Rightarrow> instruction \<Rightarrow> string \<Rightarrow> string option \<Rightarrow> node_kind \<Rightarrow> nat list \<Rightarrow> node_metadata \<Rightarrow>
     (string, string) hashmap \<Rightarrow> node" where
  "mk_node i instr content source_path kind deps metadata env =
     \<lparr>node_id = i, node_name = debug_instr instr, node_content = content, node_kind = kind,
      node_hash = [], node_dirty = False, node_deps = deps, node_source_path = source_path,
      node_env = env, node_cache_hit = False, node_meta = metadata\<rparr>"

fun node_of_instr ::
    "((string \<times> nat) list \<Rightarrow> (string \<times> nat) list) \<Rightarrow> string \<Rightarrow> nat \<Rightarrow> (string, nat) hashmap \<Rightarrow> instruction \<Rightarrow> node" where
  "node_of_instr iter root i sources (From img) =
     mk_node i (From img) (''FROM '' @ img) None NK_From [] default_metadata []"
| "node_of_instr iter root i sources (Workdir dir) =
     mk_node i (Workdir dir) (''WORKDIR '' @ dir) None NK_Workdir (prev_dep i) (meta_par True []) []"
| "node_of_instr iter root i sources (Copy src dst) =
     mk_node i (Copy src dst) (''COPY '' @ src @ '' '' @ dst) (Some (copy_path root src)) (NK_Copy src dst)
       (prev_dep i) (meta_par True [''copy'']) []"
| "node_of_instr iter root i sources (Run cmd) =
     mk_node i (Run cmd) cmd None NK_Run (run_deps cmd (iter sources) (prev_dep i))
       (meta_par (run_parallelizable cmd) [''run'']) []"
| "node_of_instr iter root i sources (Env key value) =
     mk_node i (Env key value) (''ENV '' @ key @ ''='' @ value) None NK_Env (prev_dep i)
       (meta_par True [''env'']) [(key, value)]"
| "node_of_instr iter root i sources (Cmd cmd) =
     mk_node i (Cmd cmd) (''CMD '' @ cmd) None NK_Cmd (prev_dep i) (meta_par True [''cmd'']) []"
| "node_of_instr iter root i sources (Git url target) =
     mk_node i (Git url target) (''GIT '' @ url @ '' '' @ target) None (NK_Git url target) (prev_dep i)
       (meta_par True [''git'']) []"
| "node_of_instr iter root i sources (RunExtend cmd par) =
     mk_node i (RunExtend cmd par) cmd None (NK_RunExtend cmd par) (prev_dep i)
       (meta_par par [''extension'', ''run-extend'']) []"
| "node_of_instr iter root i sources (CopyExtend src dst ts) =
     mk_node i (CopyExtend src dst ts) (''COPY_EXTEND '' @ src @ '' -> '' @ dst) (Some (copy_path root src))
       (NK_CopyExtend src dst ts) (prev_dep i) (meta_par True (ts @ [''extension''])) []"
| "node_of_instr iter root i sources (Hook name params) =
     mk_node i (Hook name params) (''HOOK '' @ name @ '' '' @ debug_list params) None
       (NK_CustomHook name params) (prev_dep i) (meta_par False [''hook'']) []"
| "node_of_instr iter root i sources (Other s) =
     mk_node i (Other s) s None NK_Other (prev_dep i) (default_metadata\<lparr>tags := [''other'']\<rparr>) []"

text \<open>\<open>copy_sources.insert(src, i)\<close> happens in the \<open>Copy\<close> case only.\<close>

fun note_copy :: "nat \<Rightarrow> instruction \<Rightarrow> (string, nat) hashmap \<Rightarrow> (string, nat) hashmap" where
  "note_copy i (Copy src dst) sources = AList.update src i sources"
| "note_copy i instr sources = sources"

fun build_nodes ::
    "((string \<times> nat) list \<Rightarrow> (string \<times> nat) list) \<Rightarrow> string \<Rightarrow> nat \<Rightarrow> (string, nat) hashmap \<Rightarrow> instruction list \<Rightarrow> node list" where
  "build_nodes iter root i sources [] = []"
| "build_nodes iter root i sources (instr # instrs) =
     (let sources' = note_copy i instr sources
      in node_of_instr iter root i sources' instr # build_nodes iter root (Suc i) sources' instrs)"

definition build_graph_from_instructions ::
    "((string \<times> nat) list \<Rightarrow> (string \<times> nat) list) \<Rightarrow> instruction list \<Rightarrow> string \<Rightarrow> build_graph" where
  "build_graph_from_instructions iter instrs root = \<lparr>graph_nodes = build_nodes iter root 0 [] instrs\<rparr>"

section \<open>Shape of the graph\<close>

lemma contains_dot_slash: "str_contains (''./'' @ p) s \<Longrightarrow> str_contains p s"
  unfolding str_contains_sublist by (metis sublist_append_leftI sublist_order.order_trans sublist_appendI append.right_neutral)

lemma run_deps_set:
  "set (run_deps cmd sources deps) = set deps \<union> {j. \<exists>src. (src, j) \<in> set sources \<and> str_contains src cmd}
   \<and> (distinct deps \<longrightarrow> distinct (run_deps cmd sources deps))"
proof (induction sources arbitrary: deps)
  case Nil
  then show ?case by (simp add: run_deps_def)
next
  case (Cons p sources)
  obtain src j where p: "p = (src, j)" by fastforce
  let ?deps = "if str_contains src cmd \<and> j \<notin> set deps then deps @ [j] else deps"
  have "run_deps cmd (p # sources) deps = run_deps cmd sources ?deps"
    using contains_dot_slash [of src cmd] by (auto simp: run_deps_def p)
  with Cons.IH [of ?deps] show ?case by (auto simp: p)
qed

definition sources_after :: "nat \<Rightarrow> (string, nat) hashmap \<Rightarrow> instruction list \<Rightarrow> (string, nat) hashmap" where
  "sources_after k sources instrs = fold (\<lambda>(i, x) sources. note_copy i x sources) (enumerate k instrs) sources"

lemma build_nodes_nth:
  "i < length instrs \<Longrightarrow>
   build_nodes iter root k sources instrs ! i =
     node_of_instr iter root (k + i) (sources_after k sources (take (Suc i) instrs)) (instrs ! i)"
proof (induction instrs arbitrary: i k sources)
  case (Cons x instrs)
  then show ?case by (cases i) (simp_all add: Let_def sources_after_def)
qed simp

lemma length_build_nodes [simp]: "length (build_nodes iter root k sources instrs) = length instrs"
  by (induction instrs arbitrary: k sources) (simp_all add: Let_def)

lemma sources_after_snoc:
  "sources_after 0 [] (xs @ [x]) = note_copy (length xs) x (sources_after 0 [] xs)"
  by (simp add: sources_after_def enumerate_append_eq)

text \<open>\<open>copy_sources\<close> maps a source to the last \<open>COPY\<close> of it.\<close>

definition last_copy :: "instruction list \<Rightarrow> string \<Rightarrow> nat \<Rightarrow> bool" where
  "last_copy xs src j \<longleftrightarrow>
     j < length xs \<and> (\<exists>dst. xs ! j = Copy src dst)
     \<and> (\<forall>k. j < k \<longrightarrow> k < length xs \<longrightarrow> (\<forall>dst. xs ! k \<noteq> Copy src dst))"

lemma last_copy_snoc:
  "last_copy (xs @ [x]) src j \<longleftrightarrow>
     (if \<exists>dst. x = Copy src dst then j = length xs else last_copy xs src j)"
  by (auto simp: last_copy_def nth_append less_Suc_eq)

lemma sources_after_last_copy:
  "hm_ok (sources_after 0 [] xs) \<and>
   (\<forall>src j. (src, j) \<in> set (sources_after 0 [] xs) \<longleftrightarrow> last_copy xs src j)"
proof (induction xs rule: rev_induct)
  case Nil
  then show ?case by (simp add: sources_after_def last_copy_def)
next
  case (snoc x xs)
  let ?S = "sources_after 0 [] xs"
  show ?case
  proof (cases "\<exists>src dst. x = Copy src dst")
    case True
    then obtain src dst where x: "x = Copy src dst" by blast
    have ok: "hm_ok (AList.update src (length xs) ?S)" using snoc by simp
    have "(s, j) \<in> set (AList.update src (length xs) ?S) \<longleftrightarrow> last_copy (xs @ [x]) s j" for s j
    proof -
      have "(s, j) \<in> set (AList.update src (length xs) ?S) \<longleftrightarrow> map_of (AList.update src (length xs) ?S) s = Some j"
        using ok by (simp add: hm_ok_def)
      also have "\<dots> \<longleftrightarrow> (if s = src then j = length xs else map_of ?S s = Some j)"
        by (auto simp: update_conv')
      also have "\<dots> \<longleftrightarrow> last_copy (xs @ [x]) s j"
        using snoc by (auto simp: last_copy_snoc x hm_ok_def)
      finally show ?thesis .
    qed
    with ok x show ?thesis by (simp add: sources_after_snoc)
  next
    case False
    then have "note_copy (length xs) x ?S = ?S" by (cases x) auto
    with False snoc show ?thesis by (simp add: sources_after_snoc last_copy_snoc)
  qed
qed

lemma node_of_instr_deps:
  "node_deps (node_of_instr iter root i sources x) =
     (case x of From _ \<Rightarrow> [] | Run cmd \<Rightarrow> run_deps cmd (iter sources) (prev_dep i) | _ \<Rightarrow> prev_dep i)"
  by (cases x) (simp_all add: mk_node_def)

declare node_of_instr.simps [simp del]

lemma node_of_instr_id: "node_id (node_of_instr iter root i sources x) = i"
  by (cases x) (simp_all add: mk_node_def node_of_instr.simps)

abbreviation docker_graph where
  "docker_graph iter instrs root \<equiv> build_graph_from_instructions iter instrs root"

lemma size_docker_graph [simp]: "size_g (docker_graph iter instrs root) = length instrs"
  by (simp add: build_graph_from_instructions_def)

lemma docker_node:
  "i < length instrs \<Longrightarrow>
   graph_nodes (docker_graph iter instrs root) ! i =
     node_of_instr iter root i (sources_after 0 [] (take (Suc i) instrs)) (instrs ! i)"
  by (simp add: build_graph_from_instructions_def build_nodes_nth)

definition is_from :: "instruction \<Rightarrow> bool" where
  "is_from x \<longleftrightarrow> (\<exists>img. x = From img)"

text \<open>What a node of a Dockerfile depends on.\<close>

definition docker_dep :: "instruction list \<Rightarrow> nat \<Rightarrow> nat \<Rightarrow> bool" where
  "docker_dep instrs i d \<longleftrightarrow>
     \<not> is_from (instrs ! i) \<and> Suc d = i
     \<or> (\<exists>cmd src. instrs ! i = Run cmd \<and> last_copy (take i instrs) src d \<and> str_contains src cmd)"

lemma last_copy_take_Run:
  assumes "i < length instrs" and "instrs ! i = Run cmd"
  shows "last_copy (take (Suc i) instrs) src d \<longleftrightarrow> last_copy (take i instrs) src d"
  using last_copy_snoc [of "take i instrs" "instrs ! i" src d] assms
  by (simp add: take_Suc_conv_app_nth)

lemma docker_deps_set:
  assumes "\<And>xs. mset (iter xs) = mset xs" and "i < length instrs"
  shows "set (deps_of (docker_graph iter instrs root) i) = {d. docker_dep instrs i d}
    \<and> distinct (deps_of (docker_graph iter instrs root) i)"
proof -
  let ?S = "sources_after 0 [] (take (Suc i) instrs)"
  have it: "set (iter ?S) = set ?S" using assms(1) by (metis mset_eq_setD)
  have prev: "set (prev_dep i) = {d. Suc d = i}" "distinct (prev_dep i)"
    by (auto simp: prev_dep_def)
  show ?thesis
  proof (cases "instrs ! i")
    case (Run cmd)
    have "set (deps_of (docker_graph iter instrs root) i)
        = set (prev_dep i) \<union> {j. \<exists>src. (src, j) \<in> set ?S \<and> str_contains src cmd}"
      using run_deps_set [of cmd "iter ?S" "prev_dep i"] assms(2)
      by (simp add: docker_node node_of_instr_deps Run it)
    then show ?thesis
      using run_deps_set [of cmd "iter ?S" "prev_dep i"] sources_after_last_copy [of "take (Suc i) instrs"]
        assms(2) prev
      by (auto simp: docker_node node_of_instr_deps Run docker_dep_def is_from_def
            last_copy_take_Run [OF assms(2) Run])
  qed (use assms(2) prev in \<open>auto simp: docker_node node_of_instr_deps docker_dep_def is_from_def\<close>)
qed

lemma docker_dep_less: "i < length instrs \<Longrightarrow> docker_dep instrs i d \<Longrightarrow> d < i"
  by (auto simp: docker_dep_def last_copy_def)

lemma ranked_docker:
  assumes "\<And>xs. mset (iter xs) = mset xs"
  shows "ranked id (docker_graph iter instrs root)"
  using docker_deps_set [OF assms] by (auto simp: ranked_def dest: docker_dep_less)

lemma has_dep_docker:
  assumes "\<And>xs. mset (iter xs) = mset xs" and "i < length instrs"
  shows "has_dep (docker_graph iter instrs root) i \<longleftrightarrow> i > 0 \<and> \<not> is_from (instrs ! i)"
proof
  assume "has_dep (docker_graph iter instrs root) i"
  then obtain d where "docker_dep instrs i d"
    using docker_deps_set [OF assms] by (auto simp: has_dep_def)
  with docker_dep_less [OF assms(2) this] show "i > 0 \<and> \<not> is_from (instrs ! i)"
    by (auto simp: docker_dep_def is_from_def)
next
  assume i: "i > 0 \<and> \<not> is_from (instrs ! i)"
  then have "docker_dep instrs i (i - 1)" by (simp add: docker_dep_def)
  then have "i - 1 \<in> set (deps_of (docker_graph iter instrs root) i)"
    using docker_deps_set [OF assms] by blast
  moreover have "i - 1 < length instrs" using assms(2) by simp
  ultimately show "has_dep (docker_graph iter instrs root) i"
    unfolding has_dep_def size_docker_graph by blast
qed

section \<open>Printing and parsing\<close>

text \<open>A line for each instruction that a Dockerfile can hold.\<close>

fun render :: "instruction \<Rightarrow> string" where
  "render (From img) = join_with '' '' [''FROM'', img]"
| "render (Workdir dir) = join_with '' '' [''WORKDIR'', dir]"
| "render (Copy src dst) = join_with '' '' [''COPY'', src, dst]"
| "render (Run cmd) = (if cmd = [] then ''RUN'' else ''RUN '' @ cmd)"
| "render (Env k v) = ''ENV '' @ k @ ''='' @ v"
| "render (Cmd cmd) = (if cmd = [] then ''CMD'' else ''CMD '' @ cmd)"
| "render (Git url target) = join_with '' '' [''GIT'', url, target]"
| "render (RunExtend cmd par) = (if cmd = [] then ''RUN_EXTEND'' else ''RUN_EXTEND '' @ cmd)"
| "render (CopyExtend src dst ts) = join_with '' '' (''COPY_EXTEND'' # src # dst # ts)"
| "render (Hook name params) = join_with '' '' (''HOOK'' # name # params)"
| "render (Other s) = s"

definition docker_keywords :: "string list" where
  "docker_keywords = [''FROM'', ''WORKDIR'', ''COPY'', ''RUN'', ''ENV'', ''CMD'', ''GIT'',
     ''RUN_EXTEND'', ''COPY_EXTEND'', ''HOOK'']"

definition one_line :: "string \<Rightarrow> bool" where
  "one_line s \<longleftrightarrow> trimmed s \<and> list_all (\<lambda>c. c \<noteq> CHR 0x0A) s"

text \<open>The instructions whose fields survive a line: words where the parser splits at white
  space, trimmed text without newlines where it takes the rest of the line.\<close>

fun printable :: "instruction \<Rightarrow> bool" where
  "printable (From img) = is_word img"
| "printable (Workdir dir) = is_word dir"
| "printable (Copy src dst) = (is_word src \<and> is_word dst)"
| "printable (Run cmd) = one_line cmd"
| "printable (Env k v) = (list_all (\<lambda>c. \<not> is_ws c \<and> c \<noteq> CHR ''='') k \<and> one_line (k @ ''='' @ v))"
| "printable (Cmd cmd) = one_line cmd"
| "printable (Git url target) = (is_word url \<and> is_word target)"
| "printable (RunExtend cmd par) = (one_line cmd \<and> par)"
| "printable (CopyExtend src dst ts) = list_all is_word (src # dst # ts)"
| "printable (Hook name params) = list_all is_word (name # params)"
| "printable (Other s) = (s \<noteq> [] \<and> one_line s \<and> hd s \<noteq> CHR ''#''
     \<and> to_uppercase (hd (split_whitespace s)) \<notin> set docker_keywords)"

lemma join_with_Cons:
  "ws \<noteq> [] \<Longrightarrow> join_with '' '' (w # ws) = w @ CHR '' '' # join_with '' '' ws"
  by (cases ws) (simp_all add: join_with_def)

lemma join_with_Nil [simp]: "join_with sep [] = []"
  by (simp add: join_with_def)

lemma join_with_single [simp]: "join_with sep [w] = w"
  by (simp add: join_with_def)

lemma join_words:
  "list_all is_word ws \<Longrightarrow> ws \<noteq> [] \<Longrightarrow>
   join_with '' '' ws \<noteq> [] \<and> hd (join_with '' '' ws) = hd (hd ws) \<and> trimmed (join_with '' '' ws)"
proof (induction ws)
  case (Cons w ws)
  show ?case
  proof (cases "ws = []")
    case True
    with Cons.prems show ?thesis by (simp add: is_word_trimmed) (simp add: is_word_def)
  next
    case False
    with Cons have "join_with '' '' ws \<noteq> []" "trimmed (join_with '' '' ws)" "w \<noteq> []" "\<not> is_ws (hd w)"
      by (auto simp: is_word_def list_all_iff)
    with False show ?thesis by (auto simp: join_with_Cons trimmed_def)
  qed
qed simp

text \<open>Three shapes of line: the keyword alone, the keyword and words, the keyword and text.\<close>

definition keyword_ok :: "string \<Rightarrow> bool" where
  "keyword_ok kw \<longleftrightarrow> is_word kw \<and> hd kw \<noteq> CHR ''#'' \<and> to_uppercase kw = kw"

lemma parse_line_alone: "keyword_ok kw \<Longrightarrow> parse_line kw = parse_keyword kw kw [kw] []"
  by (cases kw)
     (auto simp: parse_line_def keyword_ok_def is_word_trimmed split_whitespace_word Let_def is_word_def)

lemma parse_line_text:
  assumes "keyword_ok kw" and "trimmed text" and "text \<noteq> []"
  shows "parse_line (kw @ CHR '' '' # text)
    = parse_keyword kw (kw @ CHR '' '' # text) (kw # split_whitespace text) text"
proof -
  have "trimmed (kw @ CHR '' '' # text)"
    using assms by (auto simp: keyword_ok_def is_word_def trimmed_def list_all_iff)
  moreover have "split_whitespace (kw @ CHR '' '' # text) = kw # split_whitespace text"
    using assms by (simp add: keyword_ok_def split_whitespace_word_ws)
  ultimately show ?thesis
    using assms by (cases kw) (auto simp: parse_line_def keyword_ok_def Let_def is_word_def trim_ws_Cons)
qed

lemma parse_line_words:
  assumes "keyword_ok kw" and "list_all is_word ws" and "ws \<noteq> []"
  shows "\<exists>args. parse_line (join_with '' '' (kw # ws))
    = parse_keyword kw (join_with '' '' (kw # ws)) (kw # ws) args"
  using parse_line_text [OF assms(1), of "join_with '' '' ws"] join_words [OF assms(2,3)] assms
  by (auto simp: join_with_Cons split_whitespace_join)

lemma keywords_ok: "list_all keyword_ok docker_keywords"
  by code_simp

lemma keyword_okI: "kw \<in> set docker_keywords \<Longrightarrow> keyword_ok kw"
  using keywords_ok by (simp add: list_all_iff)

lemma split_env_render:
  "list_all (\<lambda>c. \<not> is_ws c \<and> c \<noteq> CHR ''='') k \<Longrightarrow> split_env (k @ CHR ''='' # v) = Some (k, v)"
proof -
  assume "list_all (\<lambda>c. \<not> is_ws c \<and> c \<noteq> CHR ''='') k"
  then have "\<forall>c \<in> set k. \<not> is_ws c \<and> c \<noteq> CHR ''=''" by (simp only: list_all_iff)
  then have "\<forall>c \<in> set k. \<not> env_sep c" unfolding env_sep_def using is_ws_space by blast
  moreover have "env_sep (CHR ''='')" by (simp add: env_sep_def)
  ultimately show ?thesis by (simp add: split_env_def)
qed

lemma parse_line_other:
  assumes "printable (Other s)"
  shows "parse_line s = Some (Other s)"
proof -
  from assms have s: "trimmed s" "s \<noteq> []" "\<not> prefix ''#'' s" by (auto simp: one_line_def prefix_def)
  obtain p ps where parts: "split_whitespace s = p # ps"
  proof -
    have "split_ws_acc w t \<noteq> []" if "w \<noteq> [] \<or> (\<exists>c \<in> set t. \<not> is_ws c)" for w t
      using that by (induction w t rule: split_ws_acc.induct) auto
    then have "split_whitespace s \<noteq> []"
      using s by (cases s) (auto simp: split_whitespace_def trimmed_def)
    then show thesis using that by (cases "split_whitespace s") auto
  qed
  with assms s show ?thesis
    by (auto simp: parse_line_def Let_def parse_keyword_def docker_keywords_def)
qed

lemma parse_line_render: "printable x \<Longrightarrow> parse_line (render x) = Some x"
proof (cases x)
  case (Other s)
  assume "printable x"
  with Other show ?thesis by (simp add: parse_line_other del: printable.simps)
next
  case (Run cmd)
  assume "printable x"
  with Run show ?thesis
    using parse_line_text [of "''RUN''" cmd] parse_line_alone [of "''RUN''"] keyword_okI [of "''RUN''"]
    by (simp add: one_line_def parse_keyword_def docker_keywords_def)
next
  case (Cmd cmd)
  assume "printable x"
  with Cmd show ?thesis
    using parse_line_text [of "''CMD''" cmd] parse_line_alone [of "''CMD''"] keyword_okI [of "''CMD''"]
    by (simp add: one_line_def parse_keyword_def docker_keywords_def)
next
  case (RunExtend cmd par)
  assume "printable x"
  with RunExtend show ?thesis
    using parse_line_text [of "''RUN_EXTEND''" cmd] parse_line_alone [of "''RUN_EXTEND''"] keyword_okI [of "''RUN_EXTEND''"]
    by (simp add: one_line_def parse_keyword_def docker_keywords_def)
next
  case (Env k v)
  assume "printable x"
  with Env show ?thesis
    using parse_line_text [of "''ENV''" "k @ CHR ''='' # v"] keyword_okI [of "''ENV''"] split_env_render [of k v]
    by (simp add: one_line_def parse_keyword_def docker_keywords_def)
next
  case (From img)
  assume "printable x"
  with From show ?thesis
    using parse_line_words [of "''FROM''" "[img]"] keyword_okI [of "''FROM''"]
    by (auto simp: parse_keyword_def docker_keywords_def)
next
  case (Workdir dir)
  assume "printable x"
  with Workdir show ?thesis
    using parse_line_words [of "''WORKDIR''" "[dir]"] keyword_okI [of "''WORKDIR''"]
    by (auto simp: parse_keyword_def docker_keywords_def)
next
  case (Copy src dst)
  assume "printable x"
  with Copy show ?thesis
    using parse_line_words [of "''COPY''" "[src, dst]"] keyword_okI [of "''COPY''"]
    by (auto simp: parse_keyword_def docker_keywords_def)
next
  case (Git url target)
  assume "printable x"
  with Git show ?thesis
    using parse_line_words [of "''GIT''" "[url, target]"] keyword_okI [of "''GIT''"]
    by (auto simp: parse_keyword_def docker_keywords_def)
next
  case (CopyExtend src dst ts)
  assume "printable x"
  with CopyExtend show ?thesis
    using parse_line_words [of "''COPY_EXTEND''" "src # dst # ts"] keyword_okI [of "''COPY_EXTEND''"]
    by (auto simp: parse_keyword_def docker_keywords_def)
next
  case (Hook name params)
  assume "printable x"
  with Hook show ?thesis
    using parse_line_words [of "''HOOK''" "name # params"] keyword_okI [of "''HOOK''"]
    by (auto simp: parse_keyword_def docker_keywords_def)
qed

lemma word_no_newline: "is_word w \<Longrightarrow> list_all (\<lambda>c. c \<noteq> CHR 0x0A) w"
  by (auto simp: is_word_def list_all_iff is_ws_def)

lemma one_line_words: "list_all is_word ws \<Longrightarrow> ws \<noteq> [] \<Longrightarrow> one_line (join_with '' '' ws)"
proof -
  assume ws: "list_all is_word ws" "ws \<noteq> []"
  have "list_all (\<lambda>c. c \<noteq> CHR 0x0A) (join_with '' '' ws)" if "list_all is_word ws" for ws
    using that
  proof (induction ws)
    case (Cons w ws)
    then show ?case
      by (cases "ws = []") (simp_all add: word_no_newline join_with_Cons)
  qed simp
  from this [OF ws(1)] join_words [OF ws] show ?thesis by (simp add: one_line_def)
qed

lemma one_line_text:
  "is_word kw \<Longrightarrow> one_line text \<Longrightarrow> text \<noteq> [] \<Longrightarrow> one_line (kw @ CHR '' '' # text)"
  using word_no_newline [of kw] by (auto simp: one_line_def trimmed_def is_word_def list_all_iff)

lemma keyword_word: "kw \<in> set docker_keywords \<Longrightarrow> is_word kw"
  using keyword_okI by (simp add: keyword_ok_def)

lemma render_one_line: "printable x \<Longrightarrow> one_line (render x)"
proof -
  have word: "is_word ''RUN''" "is_word ''CMD''" "is_word ''RUN_EXTEND''" "is_word ''ENV''"
    "is_word ''FROM''" "is_word ''WORKDIR''" "is_word ''COPY''" "is_word ''GIT''"
    "is_word ''COPY_EXTEND''" "is_word ''HOOK''"
    by (simp_all add: keyword_word docker_keywords_def)
  note kw_text = one_line_text [OF word(1)] one_line_text [OF word(2)] one_line_text [OF word(3)]
    one_line_text [OF word(4)]
  have alone: "one_line kw" if "is_word kw" for kw
    using one_line_words [of "[kw]"] that by simp
  assume "printable x"
  then show ?thesis
    by (cases x) (use kw_text word alone [OF word(1)] alone [OF word(2)] alone [OF word(3)] in
        \<open>simp_all add: one_line_words del: join_with_single\<close>)
qed

lemma one_line_strip_cr: "one_line s \<Longrightarrow> strip_cr s = s"
  by (auto simp: one_line_def trimmed_def strip_cr_def is_ws_def)

definition render_dockerfile :: "instruction list \<Rightarrow> string" where
  "render_dockerfile xs = concat (map (\<lambda>l. l @ [CHR 0x0A]) (map render xs))"

section \<open>Properties\<close>

text \<open>C30. Every instruction list, written out one instruction per line, is read back by
  \<open>parse_dockerfile\<close> as the same list, for all instructions whose fields a line can hold.\<close>

theorem parse_render_roundtrip:
  assumes "list_all printable xs"
  shows "parse_dockerfile (render_dockerfile xs) = xs"
proof -
  have "lines (render_dockerfile xs) = map render xs"
    unfolding render_dockerfile_def
    using assms render_one_line one_line_strip_cr
    by (intro lines_unlines) (auto simp: list_all_iff one_line_def)
  moreover have "List.map_filter parse_line (map render xs) = xs"
    using assms by (induction xs) (simp_all add: parse_line_render)
  ultimately show ?thesis by (simp add: parse_dockerfile_def)
qed

text \<open>C15. In the graph of a Dockerfile node number \<open>i\<close> has identifier \<open>i\<close>, and its
  dependencies are, without duplicates and whatever order the hash map is iterated in: the
  preceding instruction (unless it is a \<open>FROM\<close>), and for a \<open>RUN\<close> also the last \<open>COPY\<close> of each
  source whose name occurs in the command. All of them point backwards, so the graph is acyclic.\<close>

theorem dockerfile_graph_dependencies:
  assumes "\<And>xs. mset (iter xs) = mset xs" and "i < length instrs"
  shows "set (deps_of (docker_graph iter instrs root) i) = {d. docker_dep instrs i d}
    \<and> distinct (deps_of (docker_graph iter instrs root) i)
    \<and> (\<forall>d \<in> set (deps_of (docker_graph iter instrs root) i). d < i)
    \<and> node_id (graph_nodes (docker_graph iter instrs root) ! i) = i"
  using docker_deps_set [OF assms] docker_dep_less [OF assms(2)] assms(2)
  by (auto simp: docker_node node_of_instr_id)

text \<open>Composition of the two: the levels the executor gets for a Dockerfile are the
  \<open>FROM\<close> instructions and the first instruction, and then every other instruction of the file in
  one single level, although each of them depends on the one before it.\<close>

theorem dockerfile_levels:
  assumes "\<And>xs. mset (iter xs) = mset xs" and "j < length instrs" and "0 < j" and "\<not> is_from (instrs ! j)"
  shows "levels (docker_graph iter instrs root) =
    [filter (\<lambda>i. i = 0 \<or> is_from (instrs ! i)) [0..<length instrs],
     filter (\<lambda>i. 0 < i \<and> \<not> is_from (instrs ! i)) [0..<length instrs]]"
proof -
  have hd: "has_dep (docker_graph iter instrs root) i \<longleftrightarrow> 0 < i \<and> \<not> is_from (instrs ! i)"
    if "i < length instrs" for i
    using assms(1) that by (rule has_dep_docker)
  have "filter (has_dep (docker_graph iter instrs root)) [0..<length instrs]
      = filter (\<lambda>i. 0 < i \<and> \<not> is_from (instrs ! i)) [0..<length instrs]"
    and "filter (\<lambda>i. \<not> has_dep (docker_graph iter instrs root) i) [0..<length instrs]
      = filter (\<lambda>i. i = 0 \<or> is_from (instrs ! i)) [0..<length instrs]"
    by (auto intro!: filter_cong simp: hd)
  moreover have "\<exists>i < length instrs. has_dep (docker_graph iter instrs root) i"
    using hd assms(2-4) by blast
  ultimately show ?thesis
    using levels_two [OF ranked_docker [OF assms(1)], of instrs root] by simp
qed

section \<open>Witnesses\<close>

definition sample_instrs :: "instruction list" where
  "sample_instrs = [From ''alpine'', Copy ''app'' ''/srv'', Run ''make app'', Env ''A'' ''b c'', Cmd ''run'']"

theorem parse_render_roundtrip_witness:
  "parse_dockerfile (render_dockerfile sample_instrs) = sample_instrs"
proof (rule parse_render_roundtrip)
  show "list_all printable sample_instrs" by code_simp
qed

theorem dockerfile_graph_dependencies_witness:
  "set (deps_of (docker_graph rev sample_instrs ''/w'') 2) = {d. docker_dep sample_instrs 2 d}
    \<and> distinct (deps_of (docker_graph rev sample_instrs ''/w'') 2)
    \<and> node_id (graph_nodes (docker_graph rev sample_instrs ''/w'') ! 2) = 2"
  using dockerfile_graph_dependencies [of rev 2 sample_instrs "''/w''"] by (simp add: sample_instrs_def)

theorem dockerfile_levels_witness:
  "levels (docker_graph id sample_instrs ''/w'') =
    [filter (\<lambda>i. i = 0 \<or> is_from (sample_instrs ! i)) [0..<length sample_instrs],
     filter (\<lambda>i. 0 < i \<and> \<not> is_from (sample_instrs ! i)) [0..<length sample_instrs]]"
  by (rule dockerfile_levels [where j = 4]) (simp_all add: sample_instrs_def is_from_def)

end
