(* ===== verification/Errors.thy ===== *)
theory Errors
  imports Complex_Main Prelude
begin

text \<open>
  \<open>src/src/error.rs\<close> and the retry loop of \<open>src/src/cache/http.rs\<close>: the error type and its
  messages, which errors are retryable, the jittered exponential backoff and
  \<open>retry_with_backoff\<close>. Floating point numbers are reals: the products and minima that the
  code forms are exact in \<open>f64\<close> for delays below \<open>2\<^sup>5\<^sup>3\<close> ms up to the rounding of the jitter term.
  The random number of \<open>rand::random\<close> is the parameter \<open>rnd\<close>, between 0 and 1.
\<close>

section \<open>Errors\<close>

datatype memo_build_error =
    CASIntegrityFailure string string nat
  | NetworkError string bool u32
  | StorageError string string
  | CacheCoherencyError string string
  | SyncError string bool
  | MetadataError string string
  | ConstraintViolation string
  | Other err

definition display_error :: "memo_build_error \<Rightarrow> string" where
  "display_error e =
     (case e of
        CASIntegrityFailure expected actual data_size \<Rightarrow>
          ''CAS integrity failure: expected '' @ expected @ '', got '' @ actual @
          '' (size: '' @ show_nat data_size @ '' bytes)''
      | NetworkError message retryable attempt \<Rightarrow>
          ''Network error (attempt '' @ show_nat (unat attempt) @ '', retryable: '' @ show_bool retryable @ ''): '' @ message
      | StorageError operation reason \<Rightarrow> ''Storage error in '' @ operation @ '': '' @ reason
      | CacheCoherencyError hash reason \<Rightarrow> ''Cache coherency error for '' @ hash @ '': '' @ reason
      | SyncError message recovered \<Rightarrow>
          (if recovered then ''Sync error (recovered): '' @ message else ''Sync error: '' @ message)
      | MetadataError operation reason \<Rightarrow> ''Metadata error in '' @ operation @ '': '' @ reason
      | ConstraintViolation reason \<Rightarrow> ''Constraint violation: '' @ reason
      | Other (Err m) \<Rightarrow> m)"

definition is_retryable :: "memo_build_error \<Rightarrow> bool" where
  "is_retryable e =
     (case e of
        NetworkError _ retryable _ \<Rightarrow> retryable
      | CASIntegrityFailure _ _ _ \<Rightarrow> False
      | StorageError _ _ \<Rightarrow> False
      | CacheCoherencyError _ _ \<Rightarrow> False
      | MetadataError _ _ \<Rightarrow> True
      | SyncError _ _ \<Rightarrow> True
      | ConstraintViolation _ \<Rightarrow> False
      | Other _ \<Rightarrow> False)"

section \<open>Backoff\<close>

record retry_config =
  max_attempts :: nat
  initial_backoff_ms :: nat
  max_backoff_ms :: nat
  backoff_multiplier :: real

definition default_retry :: retry_config where
  "default_retry = \<lparr>max_attempts = 3, initial_backoff_ms = 100, max_backoff_ms = 5000, backoff_multiplier = 2\<rparr>"

text \<open>The cast \<open>f64 as u64\<close> of values in range; it saturates below at 0.\<close>

definition trunc :: "real \<Rightarrow> nat" where
  "trunc x = nat \<lfloor>x\<rfloor>"

definition exponential_delay :: "nat \<Rightarrow> retry_config \<Rightarrow> nat" where
  "exponential_delay attempt config =
     trunc (min (real (initial_backoff_ms config) * backoff_multiplier config ^ attempt)
                (real (max_backoff_ms config)))"

definition calculate_backoff :: "real \<Rightarrow> nat \<Rightarrow> retry_config \<Rightarrow> nat" where
  "calculate_backoff rnd attempt config =
     (let backoff = exponential_delay attempt config;
          jitter = real backoff * (rnd * (4 / 10) - 2 / 10)
      in trunc (min (max (real backoff + jitter) 0) (real (max_backoff_ms config))))"

section \<open>The retry loop\<close>

text \<open>\<open>attempt\<close> counts the failures so far and \<open>slept\<close> the delays waited for.\<close>

function retry_loop ::
    "(nat \<Rightarrow> real) \<Rightarrow> retry_config \<Rightarrow> ('s, 'a) io \<Rightarrow> nat \<Rightarrow> nat list \<Rightarrow> 's \<Rightarrow> (err + 'a) \<times> 's \<times> nat list" where
  "retry_loop rnd config operation attempt slept s =
     (case operation s of
        (Inr r, s') \<Rightarrow> (Inr r, s', slept)
      | (Inl (Err e), s') \<Rightarrow>
          if max_attempts config \<le> attempt + 1
          then (Inl (Err (''Operation failed after '' @ show_nat (max_attempts config) @ '' attempts: '' @ e)), s', slept)
          else retry_loop rnd config operation (attempt + 1)
                 (slept @ [calculate_backoff (rnd attempt) attempt config]) s')"
  by pat_completeness auto
termination
  by (relation "measure (\<lambda>(rnd, config, operation, attempt, slept, s). max_attempts config - attempt)") auto

declare retry_loop.simps [simp del]

definition retry_with_backoff :: "(nat \<Rightarrow> real) \<Rightarrow> retry_config \<Rightarrow> ('s, 'a) io \<Rightarrow> ('s, 'a) io" where
  "retry_with_backoff rnd config operation s =
     (case retry_loop rnd config operation 0 [] s of (r, s', _) \<Rightarrow> (r, s'))"

section \<open>Lemmas\<close>

text \<open>The state after \<open>n\<close> runs of the operation.\<close>

primrec after :: "('s, 'a) io \<Rightarrow> nat \<Rightarrow> 's \<Rightarrow> 's" where
  "after m 0 s = s"
| "after m (Suc n) s = after m n (snd (m s))"

definition fails_first :: "('s, 'a) io \<Rightarrow> nat \<Rightarrow> 's \<Rightarrow> bool" where
  "fails_first m n s \<longleftrightarrow> (\<forall>i < n. \<exists>e. fst (m (after m i s)) = Inl e)"

lemma fails_first_Suc: "fails_first m (Suc n) s \<longleftrightarrow> (\<exists>e s'. m s = (Inl e, s') \<and> fails_first m n s')"
proof -
  have "fails_first m (Suc n) s \<longleftrightarrow> (\<exists>e. fst (m s) = Inl e) \<and> fails_first m n (snd (m s))"
    by (auto simp: fails_first_def less_Suc_eq_0_disj)
  then show ?thesis by (cases "m s") auto
qed

lemma delays_Cons: "map f [a ..< a + Suc k] = f a # map f [a + 1 ..< a + 1 + k]"
  by (simp add: upt_conv_Cons del: upt_Suc)

lemma retry_loop_success:
  assumes "fails_first m k s" and "attempt + k < max_attempts config \<or> k = 0" and "m (after m k s) = (Inr r, s')"
  shows "retry_loop rnd config m attempt slept s
    = (Inr r, s', slept @ map (\<lambda>i. calculate_backoff (rnd i) i config) [attempt ..< attempt + k])"
  using assms
proof (induction k arbitrary: attempt slept s)
  case 0
  then show ?case by (simp add: retry_loop.simps [of _ _ m])
next
  case (Suc k)
  then obtain e s1 where s1: "m s = (Inl (Err e), s1)" "fails_first m k s1"
    by (auto simp: fails_first_Suc) (metis err.exhaust)
  with Suc.prems have "retry_loop rnd config m attempt slept s
      = retry_loop rnd config m (attempt + 1) (slept @ [calculate_backoff (rnd attempt) attempt config]) s1"
    by (simp add: retry_loop.simps [of _ _ m attempt])
  also have "\<dots> = (Inr r, s', slept @ map (\<lambda>i. calculate_backoff (rnd i) i config) [attempt ..< attempt + Suc k])"
    using Suc.IH [OF s1(2), of "attempt + 1"] Suc.prems s1(1) unfolding delays_Cons by (simp del: upt_Suc)
  finally show ?case .
qed

lemma retry_loop_failure:
  assumes "fails_first m (Suc k) s" and "max_attempts config \<le> attempt + Suc k"
    and "attempt + k < max_attempts config \<or> k = 0"
  shows "\<exists>e. retry_loop rnd config m attempt slept s
    = (Inl (Err (''Operation failed after '' @ show_nat (max_attempts config) @ '' attempts: '' @ e)),
       after m (Suc k) s, slept @ map (\<lambda>i. calculate_backoff (rnd i) i config) [attempt ..< attempt + k])"
  using assms
proof (induction k arbitrary: attempt slept s)
  case 0
  then obtain e s1 where "m s = (Inl (Err e), s1)"
    by (auto simp: fails_first_Suc) (metis err.exhaust)
  with 0 show ?case by (simp add: retry_loop.simps [of _ _ m])
next
  case (Suc k)
  then obtain e s1 where s1: "m s = (Inl (Err e), s1)" "fails_first m (Suc k) s1"
    by (auto simp: fails_first_Suc [of m "Suc k"]) (metis err.exhaust)
  with Suc.prems have "retry_loop rnd config m attempt slept s
      = retry_loop rnd config m (attempt + 1) (slept @ [calculate_backoff (rnd attempt) attempt config]) s1"
    by (simp add: retry_loop.simps [of _ _ m attempt])
  moreover have "after m (Suc (Suc k)) s = after m (Suc k) s1" using s1(1) by simp
  ultimately show ?case
    using Suc.IH [OF s1(2), of "attempt + 1" "slept @ [calculate_backoff (rnd attempt) attempt config]"] Suc.prems(2,3)
    unfolding delays_Cons by (simp del: upt_Suc after.simps)
qed

section \<open>Properties\<close>

text \<open>The delay before a retry never exceeds the configured maximum, whatever the random number,
  and stays within 20 percent of the exponential delay.\<close>

theorem backoff_bounds:
  assumes "0 \<le> rnd" and "rnd \<le> 1" and "0 \<le> backoff_multiplier config"
  shows "calculate_backoff rnd attempt config \<le> max_backoff_ms config
    \<and> real (calculate_backoff rnd attempt config) \<le> 12 / 10 * real (exponential_delay attempt config)
    \<and> 8 / 10 * real (exponential_delay attempt config) - 1 < real (calculate_backoff rnd attempt config)"
proof -
  let ?m = "max_backoff_ms config"
  define b where "b = exponential_delay attempt config"
  have trunc_le: "real (trunc x) \<le> x" if "0 \<le> x" for x
    using that by (simp add: trunc_def)
  have trunc_gt: "x - 1 < real (trunc x)" for x
  proof -
    have "x - 1 < of_int \<lfloor>x\<rfloor>" by linarith
    also have "of_int \<lfloor>x\<rfloor> \<le> real (nat \<lfloor>x\<rfloor>)" by linarith
    finally show ?thesis by (simp add: trunc_def)
  qed
  have j: "real b * (8 / 10) \<le> real b + real b * (rnd * (4 / 10) - 2 / 10)"
    "real b + real b * (rnd * (4 / 10) - 2 / 10) \<le> real b * (12 / 10)"
  proof -
    have "real b + real b * (rnd * (4 / 10) - 2 / 10) = real b * (8 / 10) + real b * (rnd * (4 / 10))"
      by (simp add: algebra_simps)
    moreover have "0 \<le> real b * (rnd * (4 / 10))" using assms(1) by simp
    moreover have "real b * (rnd * (4 / 10)) \<le> real b * (1 * (4 / 10))"
      using assms(2) by (intro mult_left_mono mult_right_mono) simp_all
    ultimately show "real b * (8 / 10) \<le> real b + real b * (rnd * (4 / 10) - 2 / 10)"
      "real b + real b * (rnd * (4 / 10) - 2 / 10) \<le> real b * (12 / 10)" by simp_all
  qed
  define x where "x = min (max (real b + real b * (rnd * (4 / 10) - 2 / 10)) 0) (real ?m)"
  have calc: "calculate_backoff rnd attempt config = trunc x"
    by (simp add: calculate_backoff_def Let_def x_def b_def)
  have "0 \<le> min (real (initial_backoff_ms config) * backoff_multiplier config ^ attempt) (real ?m)"
    using assms(3) by simp
  then have b_le: "real b \<le> real ?m" unfolding b_def exponential_delay_def by (intro order_trans [OF trunc_le]) simp_all
  have x: "0 \<le> x" "x \<le> real ?m" "x \<le> real b * (12 / 10)" "real b * (8 / 10) \<le> x"
    using j b_le by (auto simp: x_def min_def max_def)
  show ?thesis
    unfolding calc b_def [symmetric] using trunc_le [OF x(1)] trunc_gt [of x] x by linarith
qed

theorem backoff_bounds_witness: "calculate_backoff (1 / 2) 2 default_retry \<le> 5000"
  using backoff_bounds [of "1 / 2" default_retry 2] by (simp add: default_retry_def)

text \<open>Retrying runs the operation until its first success, at most \<open>max_attempts\<close> times (once
  when that is 0): the first success is returned with the state it left and one delay per failure
  before it; when all attempts fail the error tells the number of attempts.\<close>

theorem retry_first_success:
  assumes "fails_first m k s" and "k < max_attempts config \<or> k = 0"
  shows "(\<forall>r s'. m (after m k s) = (Inr r, s') \<longrightarrow>
      retry_with_backoff rnd config m s = (Inr r, s')
      \<and> length (snd (snd (retry_loop rnd config m 0 [] s))) = k)
    \<and> (\<forall>e s'. m (after m k s) = (Inl e, s') \<and> max_attempts config \<le> Suc k \<longrightarrow>
      (\<exists>e'. retry_with_backoff rnd config m s =
         (Inl (Err (''Operation failed after '' @ show_nat (max_attempts config) @ '' attempts: '' @ e')), after m (Suc k) s)))"
proof (intro conjI allI impI)
  fix r s' assume "m (after m k s) = (Inr r, s')"
  with retry_loop_success [OF assms(1), of 0 config r s' rnd "[]"] assms(2)
  show "retry_with_backoff rnd config m s = (Inr r, s')" "length (snd (snd (retry_loop rnd config m 0 [] s))) = k"
    by (simp_all add: retry_with_backoff_def)
next
  fix e s' assume e: "m (after m k s) = (Inl e, s') \<and> max_attempts config \<le> Suc k"
  then have "fails_first m (Suc k) s"
    using assms(1) by (auto simp: fails_first_def less_Suc_eq)
  with retry_loop_failure [of m k s config 0 rnd "[]"] e assms(2)
  show "\<exists>e'. retry_with_backoff rnd config m s =
         (Inl (Err (''Operation failed after '' @ show_nat (max_attempts config) @ '' attempts: '' @ e')), after m (Suc k) s)"
    by (auto simp: retry_with_backoff_def)
qed

definition flaky :: "(nat, nat) io" where
  "flaky n = (if n < 2 then (Inl (Err ''down''), Suc n) else (Inr n, n))"

theorem retry_first_success_witness:
  "retry_with_backoff (\<lambda>_. 1 / 2) default_retry flaky 0 = (Inr 2, 2)"
proof -
  have after: "after flaky 2 0 = 2" by (simp add: numeral_2_eq_2 flaky_def)
  have "fails_first flaky 2 0"
    unfolding numeral_2_eq_2 by (simp add: fails_first_Suc flaky_def) (simp add: fails_first_def)
  then show ?thesis
    using retry_first_success [of flaky 2 0 default_retry "\<lambda>_. 1 / 2"] after
    by (simp add: default_retry_def flaky_def)
qed

end
