(* ===== verification/Metadata.thy ===== *)
theory Metadata
  imports Prelude
begin

text \<open>
  \<open>src/src/server/metadata.rs\<close>: the SQLite metadata store of the cache server. A table is
  an association list from its primary key to the row, in scan order. SQL that Rust hands to
  SQLite is written out statement by statement; a transaction that fails leaves the database as
  it was. SQLite itself is not under \<open>src/\<close>: the time stamps it and \<open>chrono\<close> produce are
  parameters (\<open>now\<close>, \<open>cutoff\<close>), and whether foreign keys are enforced is the field
  \<open>foreign_keys\<close> (the bundled SQLite of the build enforces them by default). \<open>rusqlite\<close>
  refuses to store a \<open>u64\<close> beyond \<open>i64::MAX\<close>.
\<close>

section \<open>Tables\<close>

record cache_row =
  artifact_path :: string
  row_size :: u64
  created_at :: string
  last_used :: string
  hit_count :: nat
  is_layered :: bool

record layer_row =
  storage_path :: string
  layer_size :: u64
  layer_created_at :: string
  layer_last_used :: string
  ref_count :: int

record build_record =
  br_id :: nat
  br_timestamp :: string
  dirty_nodes :: u32
  cached_nodes :: u32
  duration_ms :: u64

record metadata_store =
  cache_entries :: "(string, cache_row) hashmap"
  cache_layers :: "(string, layer_row) hashmap"
  node_to_layers :: "((string \<times> nat) \<times> string) list"
  build_analytics :: "build_record list option"
  foreign_keys :: bool

record cache_entry =
  ce_hash :: string
  ce_artifact_path :: string
  ce_size :: u64
  ce_created_at :: string
  ce_last_used :: string
  ce_hit_count :: nat

definition new_store :: "bool \<Rightarrow> metadata_store" where
  "new_store fk =
     \<lparr>cache_entries = [], cache_layers = [], node_to_layers = [], build_analytics = None, foreign_keys = fk\<rparr>"

definition fits_i64 :: "u64 \<Rightarrow> bool" where
  "fits_i64 n \<longleftrightarrow> unat n < 2 ^ 63"

definition size_error :: err where
  "size_error = Err ''out of range integral type conversion attempted''"

definition fk_error :: err where
  "fk_error = Err ''FOREIGN KEY constraint failed''"

section \<open>Operations\<close>

text \<open>The upsert of \<open>insert\<close> and \<open>insert_layered_node\<close>: a new row, or a touch of the old one.\<close>

definition upsert_entry ::
    "string \<Rightarrow> string \<Rightarrow> string \<Rightarrow> u64 \<Rightarrow> bool \<Rightarrow> (string, cache_row) hashmap \<Rightarrow> (string, cache_row) hashmap" where
  "upsert_entry now hash path sz layered t =
     (case map_of t hash of
        None \<Rightarrow> AList.update hash \<lparr>artifact_path = path, row_size = sz, created_at = now,
                  last_used = now, hit_count = 0, is_layered = layered\<rparr> t
      | Some r \<Rightarrow> AList.update hash (r\<lparr>last_used := now, hit_count := hit_count r + 1\<rparr>) t)"

definition md_insert :: "string \<Rightarrow> string \<Rightarrow> string \<Rightarrow> u64 \<Rightarrow> (metadata_store, unit) io" where
  "md_insert now hash path sz s =
     (if \<not> fits_i64 sz then (Inl size_error, s)
      else (Inr (), s\<lparr>cache_entries := upsert_entry now hash path sz False (cache_entries s)\<rparr>))"

definition bump_ref :: "int \<Rightarrow> string \<Rightarrow> (string, layer_row) hashmap \<Rightarrow> (string, layer_row) hashmap" where
  "bump_ref k hash t = map (\<lambda>(h, r). (h, if h = hash then r\<lparr>ref_count := ref_count r + k\<rparr> else r)) t"

text \<open>The loop of \<open>insert_layered_node\<close>: one mapping row and one increment per position.\<close>

fun add_mappings :: "string \<Rightarrow> nat \<Rightarrow> string list \<Rightarrow> metadata_store \<Rightarrow> metadata_store result" where
  "add_mappings node pos [] s = Inr s"
| "add_mappings node pos (lh # lhs) s =
     (if foreign_keys s \<and> map_of (cache_layers s) lh = None then Inl fk_error
      else add_mappings node (Suc pos) lhs
             (s\<lparr>node_to_layers := node_to_layers s @ [((node, pos), lh)],
               cache_layers := bump_ref 1 lh (cache_layers s)\<rparr>))"

definition insert_layered_node :: "string \<Rightarrow> string \<Rightarrow> u64 \<Rightarrow> string list \<Rightarrow> (metadata_store, unit) io" where
  "insert_layered_node now hash sz layer_hashes s =
     (if \<not> fits_i64 sz then (Inl size_error, s)
      else
        (let s1 = s\<lparr>cache_entries := upsert_entry now hash [] sz True (cache_entries s),
                   node_to_layers := filter (\<lambda>((n, _), _). n \<noteq> hash) (node_to_layers s)\<rparr>
         in case add_mappings hash 0 layer_hashes s1 of
              Inl e \<Rightarrow> (Inl e, s)
            | Inr s2 \<Rightarrow> (Inr (), s2)))"

definition insert_layer :: "string \<Rightarrow> string \<Rightarrow> string \<Rightarrow> u64 \<Rightarrow> (metadata_store, unit) io" where
  "insert_layer now hash path sz s =
     (if \<not> fits_i64 sz then (Inl size_error, s)
      else
        (Inr (), s\<lparr>cache_layers :=
           (case map_of (cache_layers s) hash of
              None \<Rightarrow> AList.update hash \<lparr>storage_path = path, layer_size = sz, layer_created_at = now,
                        layer_last_used = now, ref_count = 0\<rparr> (cache_layers s)
            | Some r \<Rightarrow> AList.update hash (r\<lparr>layer_last_used := now\<rparr>) (cache_layers s))\<rparr>))"

text \<open>\<open>SELECT layer_hash \<dots> ORDER BY position\<close>.\<close>

definition layer_rows :: "metadata_store \<Rightarrow> string \<Rightarrow> string list" where
  "layer_rows s hash =
     map snd (sort_key (\<lambda>((_, pos), _). pos) (filter (\<lambda>((n, _), _). n = hash) (node_to_layers s)))"

definition md_get_node_layers :: "metadata_store \<Rightarrow> string \<Rightarrow> string list option" where
  "md_get_node_layers s hash =
     (let layers = layer_rows s hash in
      if layers = [] \<and> map_of (cache_entries s) hash = None then None else Some layers)"

definition layer_exists :: "metadata_store \<Rightarrow> string \<Rightarrow> bool" where
  "layer_exists s hash \<longleftrightarrow> map_of (cache_layers s) hash \<noteq> None"

definition get_layer_path :: "metadata_store \<Rightarrow> string \<Rightarrow> string option" where
  "get_layer_path s hash = map_option storage_path (map_of (cache_layers s) hash)"

text \<open>Reading \<open>hit_count\<close> into a \<open>u32\<close> fails when the stored integer does not fit.\<close>

definition md_get :: "metadata_store \<Rightarrow> string \<Rightarrow> cache_entry option result" where
  "md_get s hash =
     (case map_of (cache_entries s) hash of
        None \<Rightarrow> Inr None
      | Some r \<Rightarrow>
          if hit_count r < 2 ^ 32
          then Inr (Some \<lparr>ce_hash = hash, ce_artifact_path = artifact_path r, ce_size = row_size r,
                 ce_created_at = created_at r, ce_last_used = last_used r, ce_hit_count = hit_count r\<rparr>)
          else Inl (Err ''Integer out of range''))"

definition touch :: "string \<Rightarrow> string \<Rightarrow> metadata_store \<Rightarrow> metadata_store" where
  "touch now hash s =
     s\<lparr>cache_entries := map (\<lambda>(h, r). (h, if h = hash then r\<lparr>last_used := now, hit_count := hit_count r + 1\<rparr> else r))
                           (cache_entries s)\<rparr>"

definition md_exists :: "metadata_store \<Rightarrow> string \<Rightarrow> bool" where
  "md_exists s hash \<longleftrightarrow> map_of (cache_entries s) hash \<noteq> None"

definition layers_of_node :: "metadata_store \<Rightarrow> string \<Rightarrow> string set" where
  "layers_of_node s hash = {lh. \<exists>pos. ((hash, pos), lh) \<in> set (node_to_layers s)}"

definition md_delete :: "string \<Rightarrow> (metadata_store, unit) io" where
  "md_delete hash s =
     (Inr (), s\<lparr>cache_layers :=
                map (\<lambda>(h, r). (h, if h \<in> snd ` set (filter (\<lambda>((n, _), _). n = hash) (node_to_layers s))
                                 then r\<lparr>ref_count := ref_count r - 1\<rparr> else r)) (cache_layers s),
              node_to_layers := filter (\<lambda>((n, _), _). n \<noteq> hash) (node_to_layers s),
              cache_entries := AList.delete hash (cache_entries s)\<rparr>)"

definition get_unused_layers :: "metadata_store \<Rightarrow> (string \<times> string) list" where
  "get_unused_layers s =
     map (\<lambda>(h, r). (h, storage_path r)) (filter (\<lambda>(h, r). ref_count r \<le> 0) (cache_layers s))"

definition delete_layer_metadata :: "string \<Rightarrow> (metadata_store, unit) io" where
  "delete_layer_metadata hash s =
     (if foreign_keys s \<and> hash \<in> snd ` set (node_to_layers s) then (Inl fk_error, s)
      else (Inr (), s\<lparr>cache_layers := AList.delete hash (cache_layers s)\<rparr>))"

text \<open>Row counts and byte sums; the sums are read as \<open>i64\<close> and cast to \<open>u64\<close>.\<close>

definition get_layer_stats :: "metadata_store \<Rightarrow> nat \<times> nat \<times> nat" where
  "get_layer_stats s =
     (length (cache_layers s),
      sum_list (map (\<lambda>(h, r). unat (layer_size r)) (cache_layers s)),
      sum_list (map (\<lambda>(h, r). unat (layer_size r)) (filter (\<lambda>(h, r). ref_count r > 1) (cache_layers s))))"

text \<open>\<open>last_used < datetime('now', '-d days')\<close> compares two texts; \<open>cutoff\<close> is SQLite's side.\<close>

definition get_old_entries :: "(u32 \<Rightarrow> string) \<Rightarrow> metadata_store \<Rightarrow> u32 \<Rightarrow> string list" where
  "get_old_entries cutoff s days =
     map fst (filter (\<lambda>(h, r). last_used r < cutoff days) (cache_entries s))"

definition record_build :: "string \<Rightarrow> u32 \<Rightarrow> u32 \<Rightarrow> u64 \<Rightarrow> (metadata_store, unit) io" where
  "record_build now dirty cached duration s =
     (let t = (case build_analytics s of None \<Rightarrow> [] | Some t \<Rightarrow> t);
          s1 = s\<lparr>build_analytics := Some t\<rparr>
      in if \<not> fits_i64 duration then (Inl size_error, s1)
         else (Inr (), s1\<lparr>build_analytics := Some (t @ [\<lparr>br_id = Suc (length t), br_timestamp = now,
                 dirty_nodes = dirty, cached_nodes = cached, duration_ms = duration\<rparr>])\<rparr>))"

text \<open>The table exists only once a build was recorded. Rows with one time stamp may come in any
  order; here the later row comes first.\<close>

definition get_analytics :: "metadata_store \<Rightarrow> nat \<Rightarrow> build_record list result" where
  "get_analytics s limit =
     (case build_analytics s of
        None \<Rightarrow> Inl (Err ''no such table: build_analytics'')
      | Some t \<Rightarrow> Inr (take limit (rev (sort_key br_timestamp t))))"

fun delete_all :: "string list \<Rightarrow> (metadata_store, unit) io" where
  "delete_all [] = ret ()"
| "delete_all (h # hs) = bind_io (md_delete h) (\<lambda>_. delete_all hs)"

definition cleanup_old_entries :: "(u32 \<Rightarrow> string) \<Rightarrow> u32 \<Rightarrow> (metadata_store, nat) io" where
  "cleanup_old_entries cutoff days s =
     (let entries = get_old_entries cutoff s days
      in bind_io (delete_all entries) (\<lambda>_. ret (length entries)) s)"

section \<open>Lemmas on tables\<close>

lemma map_of_map_kv: "map_of (map (\<lambda>(k, v). (k, f k v)) t) k = map_option (f k) (map_of t k)"
  by (induction t) auto

lemma keys_map_kv: "map fst (map (\<lambda>(k, v). (k, f k v)) t) = map fst t"
  by (induction t) auto

lemma map_of_bump_ref:
  "map_of (bump_ref k h t) l = map_option (\<lambda>r. if l = h then r\<lparr>ref_count := ref_count r + k\<rparr> else r) (map_of t l)"
  unfolding bump_ref_def by (rule map_of_map_kv)

lemma keys_bump_ref [simp]: "map fst (bump_ref k h t) = map fst t"
  unfolding bump_ref_def by (rule keys_map_kv)

lemma map_of_upsert_entry:
  "map_of (upsert_entry now h p n b t) x = None \<longleftrightarrow> x \<noteq> h \<and> map_of t x = None"
  by (auto simp: upsert_entry_def update_conv' split: option.splits)

lemma hm_ok_upsert_entry [simp]: "hm_ok t \<Longrightarrow> hm_ok (upsert_entry now h p n b t)"
  by (simp add: upsert_entry_def split: option.splits)

lemma add_mappings_ok:
  assumes "add_mappings n pos lhs s = Inr s'"
  shows "cache_entries s' = cache_entries s \<and> foreign_keys s' = foreign_keys s
    \<and> build_analytics s' = build_analytics s
    \<and> node_to_layers s' = node_to_layers s @ map (\<lambda>(i, lh). ((n, i), lh)) (enumerate pos lhs)
    \<and> map fst (cache_layers s') = map fst (cache_layers s)
    \<and> (foreign_keys s \<longrightarrow> (\<forall>lh \<in> set lhs. map_of (cache_layers s) lh \<noteq> None))
    \<and> (\<forall>l. map_of (cache_layers s') l =
          map_option (\<lambda>r. r\<lparr>ref_count := ref_count r + int (count_list lhs l)\<rparr>) (map_of (cache_layers s) l))"
  using assms
proof (induction n pos lhs s rule: add_mappings.induct)
  case (1 n pos s)
  then show ?case by (auto simp: option.map_ident_strong)
next
  case (2 n pos lh lhs s)
  let ?s = "s\<lparr>node_to_layers := node_to_layers s @ [((n, pos), lh)], cache_layers := bump_ref 1 lh (cache_layers s)\<rparr>"
  have fk: "\<not> (foreign_keys s \<and> map_of (cache_layers s) lh = None)"
    and next1: "add_mappings n (Suc pos) lhs ?s = Inr s'"
    using 2(2) by (auto split: if_splits)
  note IH = 2(1) [OF fk next1]
  have "map_of (bump_ref 1 lh (cache_layers s)) l = None \<longleftrightarrow> map_of (cache_layers s) l = None" for l
    by (simp add: map_of_bump_ref)
  with IH fk show ?case
    by (auto simp: map_of_bump_ref option.map_comp comp_def intro!: option.map_cong0)
qed

text \<open>The nodes whose layer list mentions a layer.\<close>

definition users :: "metadata_store \<Rightarrow> string \<Rightarrow> string set" where
  "users s l = {n. \<exists>pos. ((n, pos), l) \<in> set (node_to_layers s)}"

lemma finite_users [simp]: "finite (users s l)"
proof -
  have "users s l \<subseteq> (fst \<circ> fst) ` set (node_to_layers s)"
    by (force simp: users_def)
  then show ?thesis by (rule finite_subset) simp
qed

section \<open>Invariant: reference counts cover the references\<close>

definition md_ok :: "metadata_store \<Rightarrow> bool" where
  "md_ok s \<longleftrightarrow>
     foreign_keys s \<and> hm_ok (cache_entries s) \<and> hm_ok (cache_layers s)
     \<and> (\<forall>n pos l. ((n, pos), l) \<in> set (node_to_layers s) \<longrightarrow>
          map_of (cache_layers s) l \<noteq> None \<and> map_of (cache_entries s) n \<noteq> None)
     \<and> (\<forall>l r. map_of (cache_layers s) l = Some r \<longrightarrow> int (card (users s l)) \<le> ref_count r)"

lemma md_okD:
  assumes "md_ok s"
  shows "foreign_keys s" "hm_ok (cache_entries s)" "hm_ok (cache_layers s)"
    "((n, pos), l) \<in> set (node_to_layers s) \<Longrightarrow> map_of (cache_layers s) l \<noteq> None"
    "((n, pos), l) \<in> set (node_to_layers s) \<Longrightarrow> map_of (cache_entries s) n \<noteq> None"
    "map_of (cache_layers s) l = Some r \<Longrightarrow> int (card (users s l)) \<le> ref_count r"
  using assms by (auto simp: md_ok_def)

lemma md_okI:
  assumes "foreign_keys s" and "hm_ok (cache_entries s)" and "hm_ok (cache_layers s)"
    and "\<And>n pos l. ((n, pos), l) \<in> set (node_to_layers s) \<Longrightarrow> map_of (cache_layers s) l \<noteq> None"
    and "\<And>n pos l. ((n, pos), l) \<in> set (node_to_layers s) \<Longrightarrow> map_of (cache_entries s) n \<noteq> None"
    and "\<And>l r. map_of (cache_layers s) l = Some r \<Longrightarrow> int (card (users s l)) \<le> ref_count r"
  shows "md_ok s"
  unfolding md_ok_def using assms by blast

lemma md_ok_new: "md_ok (new_store True)"
  by (simp add: md_ok_def new_store_def)

lemma md_ok_insert [inv_intros]: "md_ok s \<Longrightarrow> md_ok (snd (md_insert now h p n s))"
  unfolding md_ok_def md_insert_def users_def
  by (auto simp: map_of_upsert_entry simp del: not_None_eq)

lemma md_ok_touch [inv_intros]: "md_ok s \<Longrightarrow> md_ok (touch now h s)"
proof -
  let ?f = "\<lambda>k r. if k = h then r\<lparr>last_used := now, hit_count := hit_count r + 1\<rparr> else r"
  have none: "map_of (map (\<lambda>(k, r). (k, ?f k r)) t) n = None \<longleftrightarrow> map_of t n = None"
    and keys: "hm_ok (map (\<lambda>(k, r). (k, ?f k r)) t) = hm_ok t" for t n
    by (simp add: map_of_map_kv) (simp only: hm_ok_def keys_map_kv)
  assume ok: "md_ok s"
  have t: "touch now h s = s\<lparr>cache_entries := map (\<lambda>(k, r). (k, ?f k r)) (cache_entries s)\<rparr>"
    by (simp add: touch_def)
  show ?thesis
  proof (rule md_okI)
    fix n pos l assume "((n, pos), l) \<in> set (node_to_layers (touch now h s))"
    then have "((n, pos), l) \<in> set (node_to_layers s)" by (simp add: t)
    with ok have "map_of (cache_entries s) n \<noteq> None" "map_of (cache_layers s) l \<noteq> None" by (auto dest: md_okD)
    then show "map_of (cache_entries (touch now h s)) n \<noteq> None" "map_of (cache_layers (touch now h s)) l \<noteq> None"
      using none [of "cache_entries s" n] by (simp_all add: t)
  next
    fix l r assume "map_of (cache_layers (touch now h s)) l = Some r"
    then show "int (card (users (touch now h s) l)) \<le> ref_count r"
      using md_okD(6) [OF ok, of l r] by (simp add: t users_def)
  qed (use ok in \<open>simp_all add: t keys md_ok_def\<close>)
qed

lemma users_register:
  assumes "node_to_layers s' = filter (\<lambda>((m, _), _). m \<noteq> n) (node_to_layers s)
      @ map (\<lambda>(i, lh). ((n, i), lh)) (enumerate 0 lhs)"
  shows "users s' l = (users s l - {n}) \<union> (if l \<in> set lhs then {n} else {})"
proof -
  have new: "set (map (\<lambda>(i, lh). ((n, i), lh)) (enumerate 0 lhs)) = {((n, i), lhs ! i) |i. i < length lhs}"
    by (force simp: enumerate_eq_zip set_zip)
  have "m \<in> users s' l \<longleftrightarrow> m \<in> (users s l - {n}) \<union> (if l \<in> set lhs then {n} else {})" for m
    unfolding users_def assms set_append new by (cases "m = n") (auto simp: in_set_conv_nth)
  then show ?thesis by blast
qed

lemma md_ok_insert_layered_node [inv_intros]:
  assumes "md_ok s"
  shows "md_ok (snd (insert_layered_node now n sz lhs s))"
proof (cases "fst (insert_layered_node now n sz lhs s)")
  case (Inl e)
  then have "snd (insert_layered_node now n sz lhs s) = s"
    by (auto simp: insert_layered_node_def Let_def split: if_splits sum.splits)
  with assms show ?thesis by simp
next
  case (Inr u)
  let ?s1 = "s\<lparr>cache_entries := upsert_entry now n [] sz True (cache_entries s),
             node_to_layers := filter (\<lambda>((m, _), _). m \<noteq> n) (node_to_layers s)\<rparr>"
  obtain s2 where s2: "add_mappings n 0 lhs ?s1 = Inr s2" "snd (insert_layered_node now n sz lhs s) = s2"
    using Inr by (auto simp: insert_layered_node_def Let_def split: if_splits sum.splits)
  note eff = add_mappings_ok [OF s2(1)]
  have map2: "node_to_layers s2 = filter (\<lambda>((m, _), _). m \<noteq> n) (node_to_layers s)
      @ map (\<lambda>(i, lh). ((n, i), lh)) (enumerate 0 lhs)"
    using eff by simp
  note users2 = users_register [OF map2]
  have keys: "hm_ok (cache_layers s2)" "hm_ok (cache_entries s2)" "foreign_keys s2"
    using eff assms by (simp_all add: md_ok_def hm_ok_def hm_ok_upsert_entry [unfolded hm_ok_def])
  have refs: "int (card (users s2 l)) \<le> ref_count r2" if "map_of (cache_layers s2) l = Some r2" for l r2
  proof -
    have "map_of (cache_layers s2) l
        = map_option (\<lambda>r. r\<lparr>ref_count := ref_count r + int (count_list lhs l)\<rparr>) (map_of (cache_layers s) l)"
      using eff by simp
    with that obtain r where r: "map_of (cache_layers s) l = Some r" "ref_count r2 = ref_count r + int (count_list lhs l)"
      by (cases "map_of (cache_layers s) l") auto
    have le: "int (card (users s l)) \<le> ref_count r" using assms r(1) by (rule md_okD)
    show ?thesis
    proof (cases "l \<in> set lhs")
      case True
      then have "0 < count_list lhs l" by (metis count_list_0_iff gr0I)
      moreover have "users s2 l \<subseteq> insert n (users s l)" using users2 [of l] by auto
      then have "card (users s2 l) \<le> card (insert n (users s l))" by (rule card_mono [rotated]) simp
      then have "card (users s2 l) \<le> Suc (card (users s l))" by (simp add: card_insert_if split: if_splits)
      ultimately show ?thesis using le r(2) by linarith
    next
      case False
      then have "users s2 l \<subseteq> users s l" using users2 [of l] by simp
      then have "card (users s2 l) \<le> card (users s l)" by (rule card_mono [rotated]) simp
      then show ?thesis using le r(2) by linarith
    qed
  qed
  have lnone: "map_of (cache_layers s2) l = None \<longleftrightarrow> map_of (cache_layers s) l = None" for l
    using eff by simp
  have enone: "map_of (cache_entries s2) m = None \<longleftrightarrow> m \<noteq> n \<and> map_of (cache_entries s) m = None" for m
    using eff by (simp add: map_of_upsert_entry)
  have fk: "map_of (cache_layers s) l \<noteq> None" if "l \<in> set lhs" for l
    using eff md_okD(1) [OF assms] that by simp
  have old: "((m, pos), l) \<in> set (node_to_layers s) \<or> m = n \<and> l \<in> set lhs"
    if "((m, pos), l) \<in> set (node_to_layers s2)" for m pos l
    using that unfolding map2 by (auto simp: in_set_enumerate_eq)
  have rows: "map_of (cache_layers s2) l \<noteq> None \<and> map_of (cache_entries s2) m \<noteq> None"
    if "((m, pos), l) \<in> set (node_to_layers s2)" for m pos l
    using old [OF that] md_okD(4,5) [OF assms, of m pos l] fk [of l] unfolding lnone enone by blast
  show ?thesis
    unfolding s2(2) md_ok_def using keys refs rows by blast
qed

lemma md_ok_insert_layer [inv_intros]:
  assumes ok: "md_ok s"
  shows "md_ok (snd (insert_layer now h p sz s))"
proof (cases "fits_i64 sz")
  case True
  let ?s = "snd (insert_layer now h p sz s)"
  have frame: "cache_entries ?s = cache_entries s" "node_to_layers ?s = node_to_layers s"
    "foreign_keys ?s = foreign_keys s" "users ?s l = users s l" for l
    by (simp_all add: insert_layer_def users_def True)
  have layers: "map_of (cache_layers ?s) l =
     (if l = h then Some (case map_of (cache_layers s) h of
         None \<Rightarrow> \<lparr>storage_path = p, layer_size = sz, layer_created_at = now, layer_last_used = now, ref_count = 0\<rparr>
       | Some r \<Rightarrow> r\<lparr>layer_last_used := now\<rparr>) else map_of (cache_layers s) l)" for l
    by (auto simp: insert_layer_def True update_conv' split: option.splits)
  show ?thesis
  proof (rule md_okI)
    show "hm_ok (cache_layers ?s)"
      using ok by (auto simp: insert_layer_def True md_ok_def split: option.splits)
    show "map_of (cache_layers ?s) l \<noteq> None" if "((n, pos), l) \<in> set (node_to_layers ?s)" for n pos l
      using that md_okD(4) [OF ok, of n pos l] unfolding layers frame by simp
    show "int (card (users ?s l)) \<le> ref_count r" if "map_of (cache_layers ?s) l = Some r" for l r
    proof (cases "map_of (cache_layers s) l")
      case None
      then have "users s l = {}" using md_okD(4) [OF ok, of _ _ l] unfolding users_def by blast
      with None that show ?thesis unfolding layers frame by (auto split: if_splits)
    next
      case (Some r')
      with that show ?thesis
        using md_okD(6) [OF ok Some] unfolding layers frame by (auto split: if_splits)
    qed
  qed (use ok in \<open>simp_all add: frame md_ok_def\<close>)
qed (use assms in \<open>simp add: insert_layer_def\<close>)

lemma md_ok_delete [inv_intros]:
  assumes ok: "md_ok s"
  shows "md_ok (snd (md_delete h s))"
proof -
  let ?s = "snd (md_delete h s)"
  let ?used = "snd ` set (filter (\<lambda>((n, _), _). n = h) (node_to_layers s))"
  let ?f = "\<lambda>k r. if k \<in> ?used then r\<lparr>ref_count := ref_count r - 1\<rparr> else r"
  have ent: "cache_entries ?s = AList.delete h (cache_entries s)" "foreign_keys ?s = foreign_keys s"
    and map: "node_to_layers ?s = filter (\<lambda>((n, _), _). n \<noteq> h) (node_to_layers s)"
    by (simp_all add: md_delete_def)
  have lay: "cache_layers ?s = map (\<lambda>(k, r). (k, ?f k r)) (cache_layers s)"
    by (simp add: md_delete_def)
  have users: "users ?s l = users s l - {h}" for l
    unfolding users_def map by auto
  have used: "l \<in> ?used \<longleftrightarrow> h \<in> users s l" for l
    by (force simp: users_def)
  show ?thesis
  proof (rule md_okI)
    show "hm_ok (cache_layers ?s)"
      using ok unfolding lay md_ok_def hm_ok_def keys_map_kv by blast
    fix n pos l assume "((n, pos), l) \<in> set (node_to_layers ?s)"
    then have in_s: "((n, pos), l) \<in> set (node_to_layers s)" "n \<noteq> h" unfolding map by auto
    show "map_of (cache_layers ?s) l \<noteq> None"
      using md_okD(4) [OF ok in_s(1)] unfolding lay map_of_map_kv by simp
    show "map_of (cache_entries ?s) n \<noteq> None"
      using md_okD(5) [OF ok in_s(1)] in_s(2) unfolding ent by (simp add: delete_conv')
  next
    fix l r assume "map_of (cache_layers ?s) l = Some r"
    then obtain r' where r': "map_of (cache_layers s) l = Some r'" "r = ?f l r'"
      unfolding lay map_of_map_kv by auto
    have "int (card (users s l)) \<le> ref_count r'" using ok r'(1) by (rule md_okD)
    moreover have "h \<in> users s l \<Longrightarrow> card (users s l) = Suc (card (users s l - {h}))"
      by (rule card.remove) simp_all
    ultimately show "int (card (users ?s l)) \<le> ref_count r"
      unfolding users r'(2) used by auto
  qed (use ok in \<open>simp_all add: ent md_ok_def\<close>)
qed

lemma md_ok_delete_layer_metadata [inv_intros]:
  assumes ok: "md_ok s"
  shows "md_ok (snd (delete_layer_metadata h s))"
proof (cases "h \<in> snd ` set (node_to_layers s)")
  case True
  with ok show ?thesis by (simp add: delete_layer_metadata_def md_ok_def)
next
  case False
  then have s: "snd (delete_layer_metadata h s) = s\<lparr>cache_layers := AList.delete h (cache_layers s)\<rparr>"
    by (simp add: delete_layer_metadata_def)
  have none: "l \<noteq> h" if "((n, pos), l) \<in> set (node_to_layers s)" for n pos l
    using False that by force
  have users: "users (s\<lparr>cache_layers := t\<rparr>) l = users s l" for t l
    by (simp add: users_def)
  show ?thesis
    unfolding s
  proof (rule md_okI)
    fix n pos l assume "((n, pos), l) \<in> set (node_to_layers (s\<lparr>cache_layers := AList.delete h (cache_layers s)\<rparr>))"
    then have "((n, pos), l) \<in> set (node_to_layers s)" by simp
    then show "map_of (cache_layers (s\<lparr>cache_layers := AList.delete h (cache_layers s)\<rparr>)) l \<noteq> None"
      using md_okD(4) [OF ok] none by (simp add: delete_conv')
  qed (use ok in \<open>auto simp: users md_ok_def delete_conv' split: if_splits\<close>)
qed

lemma md_ok_record_build [inv_intros]: "md_ok s \<Longrightarrow> md_ok (snd (record_build now d c t s))"
  by (simp add: md_ok_def record_build_def users_def Let_def)

text \<open>Every state the store can reach by any sequence of its operations.\<close>

inductive md_step :: "metadata_store \<Rightarrow> metadata_store \<Rightarrow> bool" where
  "md_step s (snd (md_insert now h p sz s))"
| "md_step s (snd (insert_layered_node now h sz lhs s))"
| "md_step s (snd (insert_layer now h p sz s))"
| "md_step s (touch now h s)"
| "md_step s (snd (md_delete h s))"
| "md_step s (snd (delete_layer_metadata h s))"
| "md_step s (snd (record_build now d c t s))"

inductive md_reachable :: "metadata_store \<Rightarrow> bool" where
  md_start: "md_reachable (new_store True)"
| md_next: "md_reachable s \<Longrightarrow> md_step s s' \<Longrightarrow> md_reachable s'"

lemma md_step_ok: "md_step s s' \<Longrightarrow> md_ok s \<Longrightarrow> md_ok s'"
  by (induction rule: md_step.induct) (rule inv_intros, assumption)+

lemma md_reachable_ok: "md_reachable s \<Longrightarrow> md_ok s"
  by (induction rule: md_reachable.induct) (auto intro: md_ok_new md_step_ok)

section \<open>Reading a layer list back\<close>

lemma sorted_enumerate_pos: "sort_key (\<lambda>((_, pos), _). pos) (map (\<lambda>(i, lh). ((n, i), lh)) (enumerate k lhs))
    = map (\<lambda>(i, lh). ((n, i), lh)) (enumerate k lhs)"
proof (rule sort_key_id_if_sorted)
  have pos: "map (\<lambda>((_, pos), _). pos) (map (\<lambda>(i, lh). ((n, i), lh)) xs) = map fst xs" for xs :: "(nat \<times> 'b) list"
    by (induction xs) auto
  show "sorted (map (\<lambda>((_, pos), _). pos) (map (\<lambda>(i, lh). ((n, i), lh)) (enumerate k lhs)))"
    unfolding pos by (simp add: enumerate_eq_zip)
qed

lemma register_get_layers:
  assumes "insert_layered_node now n sz lhs s = (Inr (), s')"
  shows "md_get_node_layers s' n = Some lhs"
    and "m \<noteq> n \<Longrightarrow> md_get_node_layers s' m = md_get_node_layers s m"
    and "map_of (cache_layers s') l
      = map_option (\<lambda>r. r\<lparr>ref_count := ref_count r + int (count_list lhs l)\<rparr>) (map_of (cache_layers s) l)"
    and "node_to_layers s' = filter (\<lambda>((m, _), _). m \<noteq> n) (node_to_layers s)
      @ map (\<lambda>(i, lh). ((n, i), lh)) (enumerate 0 lhs)"
    and "map_of (cache_entries s') k = None \<longleftrightarrow> k \<noteq> n \<and> map_of (cache_entries s) k = None"
proof -
  let ?s1 = "s\<lparr>cache_entries := upsert_entry now n [] sz True (cache_entries s),
             node_to_layers := filter (\<lambda>((m, _), _). m \<noteq> n) (node_to_layers s)\<rparr>"
  have add: "add_mappings n 0 lhs ?s1 = Inr s'"
    using assms by (auto simp: insert_layered_node_def Let_def split: if_splits sum.splits)
  note eff = add_mappings_ok [OF add]
  let ?new = "map (\<lambda>(i, lh). ((n, i), lh)) (enumerate 0 lhs)"
  show m: "node_to_layers s' = filter (\<lambda>((m, _), _). m \<noteq> n) (node_to_layers s) @ ?new"
    using eff by simp
  have "filter (\<lambda>((m, _), _). m = n) (node_to_layers s') = ?new"
    unfolding m by (auto simp: filter_empty_conv filter_id_conv split_def)
  moreover have "map snd ?new = lhs"
    by (simp add: comp_def split_def enumerate_eq_zip)
  ultimately have rows: "layer_rows s' n = lhs"
    unfolding layer_rows_def by (simp only: sorted_enumerate_pos)
  have other: "layer_rows s' m' = layer_rows s m'" if "m' \<noteq> n" for m'
  proof -
    have "filter (\<lambda>((m, _), _). m = m') (node_to_layers s') = filter (\<lambda>((m, _), _). m = m') (node_to_layers s)"
      unfolding m using that by (auto simp: split_def filter_empty_conv intro!: filter_cong)
    then show ?thesis by (simp add: layer_rows_def)
  qed
  have ent: "map_of (cache_entries s') m' = None \<longleftrightarrow> m' \<noteq> n \<and> map_of (cache_entries s) m' = None" for m'
    using eff by (simp add: map_of_upsert_entry)
  show "map_of (cache_entries s') k = None \<longleftrightarrow> k \<noteq> n \<and> map_of (cache_entries s) k = None" by (rule ent)
  show "md_get_node_layers s' n = Some lhs"
    unfolding md_get_node_layers_def rows ent Let_def by simp
  show "m \<noteq> n \<Longrightarrow> md_get_node_layers s' m = md_get_node_layers s m"
    unfolding md_get_node_layers_def ent by (simp add: other)
  show "map_of (cache_layers s') l
      = map_option (\<lambda>r. r\<lparr>ref_count := ref_count r + int (count_list lhs l)\<rparr>) (map_of (cache_layers s) l)"
    using eff by simp
qed

lemma add_mappings_complete:
  "(\<And>lh. lh \<in> set lhs \<Longrightarrow> map_of (cache_layers s) lh \<noteq> None) \<Longrightarrow> \<exists>s'. add_mappings n pos lhs s = Inr s'"
proof (induction n pos lhs s rule: add_mappings.induct)
  case (2 n pos lh lhs s)
  have "map_of (cache_layers s) lh \<noteq> None" using 2(2) by simp
  moreover have "map_of (bump_ref 1 lh (cache_layers s)) x \<noteq> None" if "x \<in> set lhs" for x
    using 2(2) [of x] that by (simp add: map_of_bump_ref)
  ultimately show ?case
    using 2(1) by simp
qed simp

lemma insert_layered_node_outcome:
  assumes "md_ok s" and "fits_i64 sz"
  shows "(\<exists>s'. insert_layered_node now n sz lhs s = (Inr (), s')) \<longleftrightarrow> (\<forall>l \<in> set lhs. layer_exists s l)"
    and "\<not> (\<forall>l \<in> set lhs. layer_exists s l) \<Longrightarrow> \<exists>e. insert_layered_node now n sz lhs s = (Inl e, s)"
proof -
  let ?s1 = "s\<lparr>cache_entries := upsert_entry now n [] sz True (cache_entries s),
             node_to_layers := filter (\<lambda>((m, _), _). m \<noteq> n) (node_to_layers s)\<rparr>"
  have run: "insert_layered_node now n sz lhs s =
      (case add_mappings n 0 lhs ?s1 of Inl e \<Rightarrow> (Inl e, s) | Inr s2 \<Rightarrow> (Inr (), s2))"
    using assms(2) by (simp add: insert_layered_node_def)
  have ok: "\<forall>l \<in> set lhs. layer_exists s l" if "add_mappings n 0 lhs ?s1 = Inr s2" for s2
    using add_mappings_ok [OF that] md_okD(1) [OF assms(1)] by (simp add: layer_exists_def)
  have some: "\<exists>s2. add_mappings n 0 lhs ?s1 = Inr s2" if "\<forall>l \<in> set lhs. layer_exists s l"
    using that by (intro add_mappings_complete) (simp add: layer_exists_def)
  show "(\<exists>s'. insert_layered_node now n sz lhs s = (Inr (), s')) \<longleftrightarrow> (\<forall>l \<in> set lhs. layer_exists s l)"
    using ok some unfolding run by (cases "add_mappings n 0 lhs ?s1") (simp, blast, simp)
  show "\<not> (\<forall>l \<in> set lhs. layer_exists s l) \<Longrightarrow> \<exists>e. insert_layered_node now n sz lhs s = (Inl e, s)"
    using ok unfolding run by (cases "add_mappings n 0 lhs ?s1") auto
qed

section \<open>Properties\<close>

text \<open>Registering a layered node is all or nothing: it succeeds exactly when every layer is
  known, then reading the node's layers gives the list back in its order and every other node keeps
  its list; when a layer is missing the database is unchanged.\<close>

theorem register_layers_roundtrip:
  assumes "md_ok s" and "fits_i64 sz"
  shows "if list_all (layer_exists s) lhs
         then (\<exists>s'. insert_layered_node now n sz lhs s = (Inr (), s') \<and> md_ok s'
                \<and> md_get_node_layers s' n = Some lhs
                \<and> (\<forall>m. m \<noteq> n \<longrightarrow> md_get_node_layers s' m = md_get_node_layers s m))
         else (\<exists>e. insert_layered_node now n sz lhs s = (Inl e, s))"
proof (cases "list_all (layer_exists s) lhs")
  case True
  then obtain s' where s': "insert_layered_node now n sz lhs s = (Inr (), s')"
    using insert_layered_node_outcome(1) [OF assms, of now n lhs] by (auto simp: list_all_iff)
  moreover have "md_ok s'"
    using md_ok_insert_layered_node [OF assms(1), of now n sz lhs] s' by simp
  ultimately show ?thesis
    using True register_get_layers(1,2) [OF s'] by auto
next
  case False
  then show ?thesis
    using insert_layered_node_outcome(2) [OF assms, of lhs now n] by (auto simp: list_all_iff)
qed

definition two_layers :: metadata_store where
  "two_layers = snd (insert_layer ''t1'' ''B'' ''pB'' 5 (snd (insert_layer ''t0'' ''A'' ''pA'' 3 (new_store True))))"

theorem register_layers_roundtrip_witness:
  "\<exists>s'. insert_layered_node ''t2'' ''n'' 11 [''A'', ''B'', ''A''] two_layers = (Inr (), s')
        \<and> md_get_node_layers s' ''n'' = Some [''A'', ''B'', ''A'']"
proof -
  have "md_ok two_layers"
    unfolding two_layers_def by (intro md_ok_insert_layer md_ok_new)
  moreover have "fits_i64 11" by (simp add: fits_i64_def)
  moreover have "list_all (layer_exists two_layers) [''A'', ''B'', ''A'']"
    by (simp add: layer_exists_def two_layers_def insert_layer_def new_store_def fits_i64_def)
  ultimately show ?thesis
    using register_layers_roundtrip [of two_layers 11 "[''A'', ''B'', ''A'']" "''t2''" "''n''"] by auto
qed

text \<open>C10. Garbage collection of layers is safe: in every state the store can reach, a layer that
  \<open>get_unused_layers\<close> lists is in no node's layer list, so its row can be deleted without a foreign
  key error and every node still reads the same layers.\<close>

theorem unused_layers_unreferenced:
  assumes "md_reachable s" and "(l, p) \<in> set (get_unused_layers s)"
  shows "users s l = {}
    \<and> (\<exists>s'. delete_layer_metadata l s = (Inr (), s') \<and> md_reachable s' \<and> \<not> layer_exists s' l
           \<and> md_get_node_layers s' = md_get_node_layers s)"
proof -
  have ok: "md_ok s" using assms(1) by (rule md_reachable_ok)
  obtain r where "(l, r) \<in> set (cache_layers s)" "ref_count r \<le> 0"
    using assms(2) by (auto simp: get_unused_layers_def)
  then have "map_of (cache_layers s) l = Some r"
    using md_okD(3) [OF ok] by (simp add: hm_ok_def)
  then have "int (card (users s l)) \<le> ref_count r"
    using ok by (rule md_okD(6) [rotated])
  with \<open>ref_count r \<le> 0\<close> have "card (users s l) = 0"
    by linarith
  then have none: "users s l = {}"
    by simp
  then have "l \<notin> snd ` set (node_to_layers s)"
    by (force simp: users_def)
  then have del: "delete_layer_metadata l s = (Inr (), s\<lparr>cache_layers := AList.delete l (cache_layers s)\<rparr>)"
    by (simp add: delete_layer_metadata_def)
  have "md_reachable (snd (delete_layer_metadata l s))"
    using assms(1) by (rule md_next) (rule md_step.intros)
  moreover have "md_get_node_layers (s\<lparr>cache_layers := t\<rparr>) = md_get_node_layers s" for t
    by (simp add: fun_eq_iff md_get_node_layers_def layer_rows_def)
  ultimately show ?thesis
    using none by (simp add: del layer_exists_def delete_conv')
qed

theorem unused_layers_unreferenced_witness:
  "users (snd (insert_layer ''t0'' ''A'' ''pA'' 3 (new_store True))) ''A'' = {}"
proof -
  have "md_reachable (snd (insert_layer ''t0'' ''A'' ''pA'' 3 (new_store True)))"
    by (rule md_next [OF md_start]) (rule md_step.intros)
  moreover have "(''A'', ''pA'') \<in> set (get_unused_layers (snd (insert_layer ''t0'' ''A'' ''pA'' 3 (new_store True))))"
    by (simp add: get_unused_layers_def insert_layer_def new_store_def fits_i64_def)
  ultimately show ?thesis
    using unused_layers_unreferenced by blast
qed

text \<open>Registering a node a second time counts its layers again without giving the first count
  back: after two registrations and the deletion of the node, no node uses the layer, yet its
  reference count is still positive and \<open>get_unused_layers\<close> never lists it.\<close>

theorem reregistration_leaks_layers:
  assumes "md_ok s" and "insert_layered_node t1 n sz1 lhs s = (Inr (), s1)"
    and "insert_layered_node t2 n sz2 lhs s1 = (Inr (), s2)"
    and "l \<in> set lhs" and "users s l = {}"
  shows "users (snd (md_delete n s2)) l = {}
    \<and> l \<notin> fst ` set (get_unused_layers (snd (md_delete n s2)))"
proof -
  have ok2: "md_ok s2"
    using md_ok_insert_layered_node assms(1-3) by (metis snd_conv)
  then have ok3: "md_ok (snd (md_delete n s2))" by (rule md_ok_delete)
  obtain r where r: "map_of (cache_layers s) l = Some r"
    using insert_layered_node_outcome(1) [OF assms(1), of sz1 t1 n lhs] assms(2,4)
    by (auto simp: layer_exists_def insert_layered_node_def split: if_splits)
  have "0 \<le> ref_count r" using md_okD(6) [OF assms(1) r] by linarith
  have cnt: "1 \<le> count_list lhs l"
    using assms(4) by (metis count_list_0_iff less_one not_less)
  have "map_of (cache_layers s2) l = Some (r\<lparr>ref_count := ref_count r + 2 * int (count_list lhs l)\<rparr>)"
    using register_get_layers(3) [OF assms(3), of l] register_get_layers(3) [OF assms(2), of l] r by simp
  then obtain r3 where r3: "map_of (cache_layers (snd (md_delete n s2))) l = Some r3" "ref_count r3 \<ge> 1"
    using \<open>0 \<le> ref_count r\<close> cnt by (auto simp: md_delete_def map_of_map_kv)
  have "users s1 l \<subseteq> {n}" using users_register [OF register_get_layers(4) [OF assms(2)], of l] assms(5) by auto
  then have "users s2 l \<subseteq> {n}" using users_register [OF register_get_layers(4) [OF assms(3)], of l] by auto
  then have "users (snd (md_delete n s2)) l = {}"
    by (force simp: users_def md_delete_def)
  moreover have "(l, r') \<in> set (cache_layers (snd (md_delete n s2))) \<Longrightarrow> r' = r3" for r'
    using md_okD(3) [OF ok3] r3(1) by (simp add: hm_ok_def)
  ultimately show ?thesis
    using r3(2) by (force simp: get_unused_layers_def)
qed

theorem reregistration_leaks_layers_witness:
  "\<exists>s1 s2. insert_layered_node ''t2'' ''n'' 3 [''A''] two_layers = (Inr (), s1)
     \<and> insert_layered_node ''t3'' ''n'' 3 [''A''] s1 = (Inr (), s2)
     \<and> ''A'' \<notin> fst ` set (get_unused_layers (snd (md_delete ''n'' s2)))"
proof -
  have "md_ok two_layers"
    unfolding two_layers_def by (intro md_ok_insert_layer md_ok_new)
  moreover obtain s1 s2 where s: "insert_layered_node ''t2'' ''n'' 3 [''A''] two_layers = (Inr (), s1)"
      "insert_layered_node ''t3'' ''n'' 3 [''A''] s1 = (Inr (), s2)"
    by (simp add: two_layers_def insert_layer_def insert_layered_node_def new_store_def fits_i64_def bump_ref_def)
  moreover have "users two_layers ''A'' = {}"
    by (simp add: users_def two_layers_def insert_layer_def new_store_def fits_i64_def)
  ultimately show ?thesis
    using reregistration_leaks_layers [of two_layers "''t2''" "''n''" 3 "[''A'']" s1 "''t3''" 3 s2 "''A''"] by auto
qed

end
