(* ===== verification/Files.thy ===== *)
theory Files
  imports Prelude
begin

text \<open>
  The file system as the sources use it through \<open>std::fs\<close> and \<open>std::path\<close>: a map from path
  strings to contents, the existing directories, and a list of faults, one consumed by each
  call that can fail (an exhausted list means no further fault). A fault lets the call fail
  before it does anything, or after it did part of its work: \<open>Short n\<close> stops a write after
  \<open>n\<close> bytes and \<open>create_dir_all\<close> after \<open>n\<close> directories. Paths are compared as
  strings; the code only builds them by \<open>join\<close>.
\<close>

datatype fault = Fine | Refused | Short nat

record fs =
  files :: "(string, bytes) hashmap"
  dirs :: "string list"
  faults :: "fault list"

section \<open>Paths\<close>

text \<open>\<open>Path::parent\<close>.\<close>

definition parent :: "string \<Rightarrow> string option" where
  "parent p =
     (if p = [] \<or> p = ''/'' then None
      else let q = rev (drop 1 (dropWhile (\<lambda>c. c \<noteq> CHR ''/'') (rev p)))
           in Some (if q = [] \<and> hd p = CHR ''/'' then ''/'' else q))"

text \<open>The directories \<open>create_dir_all\<close> makes for a path, outermost first.\<close>

definition ancestors :: "string \<Rightarrow> string list" where
  "ancestors p = filter (\<lambda>q. q \<noteq> [] \<and> (q = p \<or> p ! length q = CHR ''/'')) (prefixes p)"

lemma ancestors_length: "q \<in> set (ancestors p) \<Longrightarrow> length q \<le> length p"
  by (auto simp: ancestors_def in_set_prefixes prefix_length_le)

text \<open>A file name has no separator; joining it to a directory and taking the parent gives the
  directory back.\<close>

definition file_name_ok :: "string \<Rightarrow> bool" where
  "file_name_ok n \<longleftrightarrow> n \<noteq> [] \<and> CHR ''/'' \<notin> set n"

lemma file_name_not_absolute: "file_name_ok n \<Longrightarrow> \<not> prefix ''/'' n"
  by (auto simp: file_name_ok_def prefix_def)

lemma path_join_append: "file_name_ok n \<Longrightarrow> \<exists>a'. path_join a n = a' @ n \<and> (a' = a \<or> a' = a @ ''/'')"
  using file_name_not_absolute [of n] by (auto simp: path_join_def)

lemma length_path_join_le:
  "file_name_ok n \<Longrightarrow> length a + length n \<le> length (path_join a n) \<and> length (path_join a n) \<le> Suc (length a + length n)"
  using path_join_append [of n a] by auto

lemma last_component:
  assumes "file_name_ok m" and "file_name_ok n" and "path_join a m = path_join a n"
  shows "m = n"
  using assms file_name_not_absolute by (auto simp: path_join_def split: if_splits)

lemma parent_append: "CHR ''/'' \<notin> set n \<Longrightarrow> a \<noteq> [] \<Longrightarrow> parent (a @ CHR ''/'' # n) = Some a"
proof -
  assume n: "CHR ''/'' \<notin> set n" and a: "a \<noteq> []"
  have "dropWhile (\<lambda>c. c \<noteq> CHR ''/'') (rev n @ CHR ''/'' # rev a) = CHR ''/'' # rev a"
    using n by (subst dropWhile_append2) auto
  with a show ?thesis
    by (auto simp: parent_def Let_def neq_Nil_conv)
qed

section \<open>Calls\<close>

definition take_fault :: "fs \<Rightarrow> fault \<times> fs" where
  "take_fault s = (case faults s of [] \<Rightarrow> (Fine, s) | f # fs \<Rightarrow> (f, s\<lparr>faults := fs\<rparr>))"

definition is_file :: "fs \<Rightarrow> string \<Rightarrow> bool" where
  "is_file s p \<longleftrightarrow> map_of (files s) p \<noteq> None"

definition is_dir :: "fs \<Rightarrow> string \<Rightarrow> bool" where
  "is_dir s p \<longleftrightarrow> p = [] \<or> p = ''/'' \<or> p \<in> set (dirs s)"

text \<open>\<open>Path::exists\<close>.\<close>

definition path_exists :: "fs \<Rightarrow> string \<Rightarrow> bool" where
  "path_exists s p \<longleftrightarrow> p \<noteq> [] \<and> (is_file s p \<or> is_dir s p)"

definition create_dir_all :: "string \<Rightarrow> (fs, unit) io" where
  "create_dir_all p s =
     (case take_fault s of
        (Refused, s1) \<Rightarrow> (Inl (Err ''create_dir_all''), s1)
      | (Short n, s1) \<Rightarrow> (Inl (Err ''create_dir_all''), s1\<lparr>dirs := dirs s1 @ takeWhile (\<lambda>q. \<not> is_file s q) (take n (ancestors p))\<rparr>)
      | (Fine, s1) \<Rightarrow>
          if list_ex (is_file s) (ancestors p)
          then (Inl (Err ''Not a directory''), s1\<lparr>dirs := dirs s1 @ takeWhile (\<lambda>q. \<not> is_file s q) (ancestors p)\<rparr>)
          else (Inr (), s1\<lparr>dirs := dirs s1 @ ancestors p\<rparr>))"

text \<open>\<open>File::create\<close> followed by \<open>write_all\<close>, which is also what \<open>fs::write\<close> does.\<close>

definition write_file :: "string \<Rightarrow> bytes \<Rightarrow> (fs, unit) io" where
  "write_file p d s =
     (case take_fault s of (f, s1) \<Rightarrow>
        if is_dir s p \<or> \<not> (case parent p of None \<Rightarrow> False | Some q \<Rightarrow> is_dir s q)
        then (Inl (Err ''create''), s1)
        else case f of
            Refused \<Rightarrow> (Inl (Err ''create''), s1)
          | Short n \<Rightarrow> (Inl (Err ''write''), s1\<lparr>files := AList.update p (take n d) (files s1)\<rparr>)
          | Fine \<Rightarrow> (Inr (), s1\<lparr>files := AList.update p d (files s1)\<rparr>))"

definition read_file :: "string \<Rightarrow> (fs, bytes) io" where
  "read_file p s =
     (case take_fault s of (f, s1) \<Rightarrow>
        case map_of (files s) p of
          Some d \<Rightarrow> if f = Fine then (Inr d, s1) else (Inl (Err ''read''), s1)
        | None \<Rightarrow> (Inl (Err ''read''), s1))"

definition remove_file :: "string \<Rightarrow> (fs, unit) io" where
  "remove_file p s =
     (case take_fault s of (f, s1) \<Rightarrow>
        if f = Fine \<and> is_file s p then (Inr (), s1\<lparr>files := AList.delete p (files s1)\<rparr>)
        else (Inl (Err ''remove_file''), s1))"

text \<open>\<open>fs::rename\<close> of a file: the target is replaced.\<close>

definition rename_file :: "string \<Rightarrow> string \<Rightarrow> (fs, unit) io" where
  "rename_file p q s =
     (case take_fault s of (f, s1) \<Rightarrow>
        case map_of (files s) p of
          Some d \<Rightarrow>
            if f = Fine \<and> \<not> is_dir s q \<and> (case parent q of None \<Rightarrow> False | Some r \<Rightarrow> is_dir s r)
            then (Inr (), s1\<lparr>files := AList.update q d (AList.delete p (files s1))\<rparr>)
            else (Inl (Err ''rename''), s1)
        | None \<Rightarrow> (Inl (Err ''rename''), s1))"

text \<open>\<open>fs::read_to_string\<close>: the contents must be UTF-8.\<close>

definition utf8_cont :: "byte \<Rightarrow> bool" where
  "utf8_cont b \<longleftrightarrow> 0x80 \<le> b \<and> b \<le> 0xBF"

fun utf8_ok :: "bytes \<Rightarrow> bool" where
  "utf8_ok [] = True"
| "utf8_ok (a # bs) =
     (if a < 0x80 then utf8_ok bs
      else (case bs of
          [] \<Rightarrow> False
        | b # cs \<Rightarrow>
            if 0xC2 \<le> a \<and> a \<le> 0xDF then utf8_cont b \<and> utf8_ok cs
            else (case cs of
                [] \<Rightarrow> False
              | c # ds \<Rightarrow>
                  if 0xE0 \<le> a \<and> a \<le> 0xEF
                  then utf8_cont b \<and> (a = 0xE0 \<longrightarrow> 0xA0 \<le> b) \<and> (a = 0xED \<longrightarrow> b \<le> 0x9F) \<and> utf8_cont c \<and> utf8_ok ds
                  else (case ds of
                      [] \<Rightarrow> False
                    | d # es \<Rightarrow>
                        0xF0 \<le> a \<and> a \<le> 0xF4 \<and> utf8_cont b \<and> (a = 0xF0 \<longrightarrow> 0x90 \<le> b) \<and> (a = 0xF4 \<longrightarrow> b \<le> 0x8F)
                        \<and> utf8_cont c \<and> utf8_cont d \<and> utf8_ok es))))"

definition read_to_string :: "string \<Rightarrow> (fs, string) io" where
  "read_to_string p =
     bind_io (read_file p) (\<lambda>d. if utf8_ok d then ret (bytes_text d) else bail ''stream did not contain valid UTF-8'')"

section \<open>Lemmas\<close>

lemma take_fault_frame [simp]:
  "files (snd (take_fault s)) = files s" "dirs (snd (take_fault s)) = dirs s"
  by (simp_all add: take_fault_def split: list.splits)

lemma take_fault_eqD: "take_fault s = (f, s1) \<Longrightarrow> files s1 = files s \<and> dirs s1 = dirs s"
  using take_fault_frame [of s] by simp

lemma create_dir_all_files [simp]: "files (snd (create_dir_all p s)) = files s"
  by (auto simp: create_dir_all_def split: prod.splits fault.splits dest!: take_fault_eqD)

lemma create_dir_all_dirs:
  "set (dirs (snd (create_dir_all p s))) \<subseteq> set (dirs s) \<union> set (ancestors p)"
  by (auto simp: create_dir_all_def split: prod.splits fault.splits
      dest!: take_fault_eqD dest: set_takeWhileD in_set_takeD)

lemma write_file_dirs [simp]: "dirs (snd (write_file p d s)) = dirs s"
  by (auto simp: write_file_def split: prod.splits fault.splits option.splits dest!: take_fault_eqD)

lemma write_file_ok:
  "write_file p d s = (Inr u, s') \<Longrightarrow> map_of (files s') = (map_of (files s))(p \<mapsto> d)"
  by (auto simp: write_file_def update_conv' split: prod.splits fault.splits option.splits if_splits dest!: take_fault_eqD)

lemma write_file_other: "q \<noteq> p \<Longrightarrow> map_of (files (snd (write_file p d s))) q = map_of (files s) q"
  by (auto simp: write_file_def update_conv' split: prod.splits fault.splits option.splits if_splits dest!: take_fault_eqD)

lemma write_file_err:
  "write_file p d s = (Inl e, s') \<Longrightarrow>
     map_of (files s') p = map_of (files s) p \<or> (\<exists>n. map_of (files s') p = Some (take n d))"
  by (auto simp: write_file_def update_conv' split: prod.splits fault.splits option.splits if_splits dest!: take_fault_eqD)

lemma read_file_frame [simp]:
  "files (snd (read_file p s)) = files s" "dirs (snd (read_file p s)) = dirs s"
  by (auto simp: read_file_def split: prod.splits option.splits dest!: take_fault_eqD)

lemma read_file_ok: "read_file p s = (Inr d, s') \<Longrightarrow> map_of (files s) p = Some d"
  by (auto simp: read_file_def split: prod.splits option.splits if_splits)

lemma remove_file_dirs [simp]: "dirs (snd (remove_file p s)) = dirs s"
  by (auto simp: remove_file_def split: prod.splits dest!: take_fault_eqD)

lemma remove_file_ok: "remove_file p s = (Inr u, s') \<Longrightarrow> map_of (files s') = (map_of (files s))(p := None)"
  by (auto simp: remove_file_def delete_conv' split: prod.splits if_splits dest!: take_fault_eqD)

lemma remove_file_err: "remove_file p s = (Inl e, s') \<Longrightarrow> files s' = files s"
  by (auto simp: remove_file_def split: prod.splits if_splits dest!: take_fault_eqD)

lemma rename_file_dirs [simp]: "dirs (snd (rename_file p q s)) = dirs s"
  by (auto simp: rename_file_def split: prod.splits option.splits dest!: take_fault_eqD)

lemma rename_file_ok:
  "rename_file p q s = (Inr u, s') \<Longrightarrow>
     \<exists>d. map_of (files s) p = Some d \<and> map_of (files s') = ((map_of (files s))(p := None))(q \<mapsto> d)"
  by (auto simp: rename_file_def update_conv' delete_conv' split: prod.splits option.splits if_splits dest!: take_fault_eqD)

lemma rename_file_err: "rename_file p q s = (Inl e, s') \<Longrightarrow> files s' = files s"
  by (auto simp: rename_file_def split: prod.splits option.splits if_splits dest!: take_fault_eqD)

lemmas file_frames = create_dir_all_files write_file_dirs read_file_frame remove_file_dirs

text \<open>Without faults the calls do what they are asked to.\<close>

lemma take_fault_Nil [simp]: "faults s = [] \<Longrightarrow> take_fault s = (Fine, s)"
  by (simp add: take_fault_def)

lemma read_file_present: "faults s = [] \<Longrightarrow> map_of (files s) p = Some d \<Longrightarrow> read_file p s = (Inr d, s)"
  by (simp add: read_file_def)

lemma create_dir_all_fine:
  "faults s = [] \<Longrightarrow> \<not> list_ex (is_file s) (ancestors p) \<Longrightarrow>
     create_dir_all p s = (Inr (), s\<lparr>dirs := dirs s @ ancestors p\<rparr>)"
  by (simp add: create_dir_all_def)

lemma write_file_faults: "faults s = [] \<Longrightarrow> faults (snd (write_file p d s)) = []"
  by (simp add: write_file_def)

lemma read_file_faults: "faults s = [] \<Longrightarrow> snd (read_file p s) = s"
  by (auto simp: read_file_def split: option.splits)

lemma create_dir_all_faults: "faults s = [] \<Longrightarrow> faults (snd (create_dir_all p s)) = []"
  by (simp add: create_dir_all_def)

lemma rename_file_faults: "faults s = [] \<Longrightarrow> faults (snd (rename_file p q s)) = []"
  by (auto simp: rename_file_def split: option.splits)

text \<open>Successful calls, as rules for a file system without faults.\<close>

lemma write_file_done:
  "faults s = [] \<Longrightarrow> write_file p d s = (Inr u, s') \<Longrightarrow> faults s' = [] \<and> map_of (files s') = (map_of (files s))(p \<mapsto> d)"
  using write_file_faults [of s p d] by (auto dest: write_file_ok)

lemma read_file_done:
  "faults s = [] \<Longrightarrow> read_file p s = (Inr d, s') \<Longrightarrow> s' = s \<and> map_of (files s) p = Some d"
  using read_file_faults [of s p] by (auto dest: read_file_ok)

lemma create_dir_all_done:
  "faults s = [] \<Longrightarrow> create_dir_all p s = (Inr u, s') \<Longrightarrow> faults s' = [] \<and> files s' = files s"
  using create_dir_all_faults [of s p] create_dir_all_files [of p s] by simp

lemma rename_file_done:
  "faults s = [] \<Longrightarrow> rename_file p q s = (Inr u, s') \<Longrightarrow>
     faults s' = [] \<and> (\<exists>d. map_of (files s) p = Some d \<and> map_of (files s') = ((map_of (files s))(p := None))(q \<mapsto> d))"
  using rename_file_faults [of s p q] by (auto dest: rename_file_ok)

lemma in_dir_path:
  "file_name_ok n \<Longrightarrow> d \<noteq> [] \<Longrightarrow> last d \<noteq> CHR ''/'' \<Longrightarrow> path_join d n = d @ CHR ''/'' # n"
  using file_name_not_absolute by (simp add: path_join_def)

lemma parent_in_dir:
  "file_name_ok n \<Longrightarrow> d \<noteq> [] \<Longrightarrow> last d \<noteq> CHR ''/'' \<Longrightarrow> parent (path_join d n) = Some d"
  using parent_append [of n d] by (simp add: in_dir_path file_name_ok_def)

lemma write_in_dir:
  assumes "file_name_ok n" and "d \<noteq> []" and "last d \<noteq> CHR ''/''" and "is_dir s d"
    and "\<not> is_dir s (path_join d n)" and "faults s = []"
  shows "write_file (path_join d n) x s = (Inr (), s\<lparr>files := AList.update (path_join d n) x (files s)\<rparr>)"
  using assms by (simp add: write_file_def parent_in_dir)

lemma rename_in_dir:
  assumes "file_name_ok n" and "d \<noteq> []" and "last d \<noteq> CHR ''/''" and "is_dir s d"
    and "\<not> is_dir s (path_join d n)" and "faults s = []" and "map_of (files s) p = Some x"
  shows "rename_file p (path_join d n) s = (Inr (), s\<lparr>files := AList.update (path_join d n) x (AList.delete p (files s))\<rparr>)"
  using assms by (simp add: rename_file_def parent_in_dir)

lemma self_ancestor: "p \<noteq> [] \<Longrightarrow> p \<in> set (ancestors p)"
  by (simp add: ancestors_def)

end
