(* ===== verification/Storage.thy ===== *)
theory Storage
  imports Files
begin

text \<open>
  \<open>src/src/storage/mod.rs\<close> and \<open>src/src/storage/local.rs\<close>: the \<open>ArtifactStorage\<close> trait as a
  record of operations over the backend's state, its contract as the locale
  \<open>artifact_storage_laws\<close>, and the sharded local backend, which is shown to meet the
  contract. \<open>storage_from_env\<close> selects the backend.
\<close>

section \<open>The trait and its contract\<close>

record 's artifact_storage =
  st_put :: "string \<Rightarrow> bytes \<Rightarrow> ('s, string) io"
  st_get :: "string \<Rightarrow> ('s, bytes option) io"
  st_exists :: "string \<Rightarrow> ('s, bool) io"
  st_delete :: "string \<Rightarrow> ('s, unit) io"

text \<open>\<open>sview\<close> is the map from hashes to blobs that a backend's state stands for. The first
  blob stored under a hash stays until it is deleted; a failed \<open>put\<close> may leave anything
  under its own hash and nothing else changes.\<close>

locale artifact_storage_laws =
  fixes st :: "'s artifact_storage"
    and sinv :: "'s \<Rightarrow> bool"
    and sview :: "'s \<Rightarrow> string \<Rightarrow> bytes option"
    and valid :: "string \<Rightarrow> bool"
  assumes put_inv: "sinv s \<Longrightarrow> valid h \<Longrightarrow> sinv (snd (st_put st h d s))"
    and put_ok: "sinv s \<Longrightarrow> valid h \<Longrightarrow> st_put st h d s = (Inr p, s') \<Longrightarrow>
      sview s' = (sview s)(h \<mapsto> (case sview s h of None \<Rightarrow> d | Some d0 \<Rightarrow> d0))"
    and put_err: "sinv s \<Longrightarrow> valid h \<Longrightarrow> st_put st h d s = (Inl e, s') \<Longrightarrow> g \<noteq> h \<Longrightarrow> sview s' g = sview s g"
    and get_inv: "sinv s \<Longrightarrow> valid h \<Longrightarrow> sinv (snd (st_get st h s)) \<and> sview (snd (st_get st h s)) = sview s"
    and get_ok: "sinv s \<Longrightarrow> valid h \<Longrightarrow> st_get st h s = (Inr r, s') \<Longrightarrow> r = sview s h"
    and exists_inv: "sinv s \<Longrightarrow> valid h \<Longrightarrow> sinv (snd (st_exists st h s)) \<and> sview (snd (st_exists st h s)) = sview s"
    and exists_ok: "sinv s \<Longrightarrow> valid h \<Longrightarrow> st_exists st h s = (Inr b, s') \<Longrightarrow> b = (sview s h \<noteq> None)"
    and delete_inv: "sinv s \<Longrightarrow> valid h \<Longrightarrow> sinv (snd (st_delete st h s))"
    and delete_ok: "sinv s \<Longrightarrow> valid h \<Longrightarrow> st_delete st h s = (Inr u, s') \<Longrightarrow> sview s' = (sview s)(h := None)"
    and delete_err: "sinv s \<Longrightarrow> valid h \<Longrightarrow> st_delete st h s = (Inl e, s') \<Longrightarrow> sview s' = sview s"
begin

lemma put_get:
  assumes "sinv s" and "valid h" and "st_put st h d s = (Inr p, s1)" and "st_get st h s1 = (Inr r, s2)"
  shows "r = Some (case sview s h of None \<Rightarrow> d | Some d0 \<Rightarrow> d0)"
  using get_ok [OF _ assms(2,4)] put_inv [OF assms(1,2), of d] put_ok [OF assms(1-3)] assms(3) by simp

lemma put_frame:
  assumes "sinv s" and "valid h" and "g \<noteq> h"
  shows "sview (snd (st_put st h d s)) g = sview s g"
  using put_ok [OF assms(1,2), of d] put_err [OF assms(1,2), of d] assms(3)
  by (cases "st_put st h d s" rule: prod.exhaust, cases "fst (st_put st h d s)") auto

lemma delete_frame:
  assumes "sinv s" and "valid h" and "g \<noteq> h"
  shows "sview (snd (st_delete st h s)) g = sview s g"
  using delete_ok [OF assms(1,2)] delete_err [OF assms(1,2)] assms(3)
  by (cases "st_delete st h s" rule: prod.exhaust, cases "fst (st_delete st h s)") auto

text \<open>Deleting never brings a blob back.\<close>

lemma delete_shrinks:
  assumes "sinv s" and "valid h" and "sview (snd (st_delete st h s)) g = Some d"
  shows "sview s g = Some d"
  using delete_ok [OF assms(1,2)] delete_err [OF assms(1,2)] assms(3)
  by (cases "st_delete st h s" rule: prod.exhaust, cases "fst (st_delete st h s)") (auto split: if_splits)

end

section \<open>LocalStorage\<close>

text \<open>\<open>LocalStorage::new\<close> returns the directory the blobs live under.\<close>

definition new_local_storage :: "string \<Rightarrow> (fs, string) io" where
  "new_local_storage base_dir =
     (let blobs_dir = path_join (path_join base_dir ''blobs'') ''sha256''
      in bind_io (create_dir_all blobs_dir) (\<lambda>_. ret blobs_dir))"

definition get_sharded_path :: "string \<Rightarrow> string \<Rightarrow> string" where
  "get_sharded_path base hash =
     (if length hash < 4 then path_join base hash
      else path_join (path_join (path_join base (take 2 hash)) (take 2 (drop 2 hash))) hash)"

definition local_put :: "string \<Rightarrow> string \<Rightarrow> bytes \<Rightarrow> (fs, string) io" where
  "local_put base hash d s =
     (let path = get_sharded_path base hash in
      if path_exists s path then (Inr path, s)
      else bind_io (case parent path of Some p \<Rightarrow> create_dir_all p | None \<Rightarrow> ret ())
             (\<lambda>_. bind_io (write_file path d) (\<lambda>_. ret path)) s)"

definition local_get :: "string \<Rightarrow> string \<Rightarrow> (fs, bytes option) io" where
  "local_get base hash s =
     (let path = get_sharded_path base hash in
      if path_exists s path then bind_io (read_file path) (\<lambda>d. ret (Some d)) s else (Inr None, s))"

definition local_exists :: "string \<Rightarrow> string \<Rightarrow> (fs, bool) io" where
  "local_exists base hash s = (Inr (path_exists s (get_sharded_path base hash)), s)"

definition local_delete :: "string \<Rightarrow> string \<Rightarrow> (fs, unit) io" where
  "local_delete base hash s =
     (let path = get_sharded_path base hash in
      if path_exists s path then remove_file path s else (Inr (), s))"

definition local_storage :: "string \<Rightarrow> fs artifact_storage" where
  "local_storage base = \<lparr>st_put = local_put base, st_get = local_get base,
     st_exists = local_exists base, st_delete = local_delete base\<rparr>"

text \<open>\<open>StorageBackend::from_env\<close>: \<open>var\<close> is the environment.\<close>

datatype storage_backend = Local | S3 | Gcs

definition to_lower :: "char \<Rightarrow> char" where
  "to_lower c = (if CHR ''A'' \<le> c \<and> c \<le> CHR ''Z'' then char_of (of_char c + 32 :: nat) else c)"

definition backend_from_env :: "(string \<Rightarrow> string option) \<Rightarrow> storage_backend" where
  "backend_from_env var =
     (let v = map to_lower (case var ''MEMOBUILD_STORAGE_BACKEND'' of Some v \<Rightarrow> v | None \<Rightarrow> ''local'') in
      if v = ''s3'' then S3 else if v = ''gcs'' then Gcs else Local)"

text \<open>The outcome of \<open>storage_from_env\<close>; the S3 and GCS clients themselves are outside this
  theory, so only their arguments are kept. A missing bucket is a panic (\<open>expect\<close>).\<close>

datatype backend_choice =
    Use_local string
  | Use_s3 string "string option" string string
  | Use_gcs string string
  | Backend_panic string

definition storage_from_env :: "(string \<Rightarrow> string option) \<Rightarrow> string \<Rightarrow> (fs, backend_choice) io" where
  "storage_from_env var base_dir =
     (case backend_from_env var of
        Local \<Rightarrow> bind_io (new_local_storage base_dir) (\<lambda>d. ret (Use_local d))
      | S3 \<Rightarrow>
          (case var ''MEMOBUILD_STORAGE_BUCKET'' of
             None \<Rightarrow> ret (Backend_panic ''MEMOBUILD_STORAGE_BUCKET required for s3 backend'')
           | Some bucket \<Rightarrow>
               ret (Use_s3 bucket (var ''MEMOBUILD_STORAGE_ENDPOINT'')
                 (case var ''MEMOBUILD_STORAGE_REGION'' of Some r \<Rightarrow> r | None \<Rightarrow> ''us-east-1'')
                 (case var ''MEMOBUILD_STORAGE_PREFIX'' of Some p \<Rightarrow> p | None \<Rightarrow> [])))
      | Gcs \<Rightarrow>
          (case var ''MEMOBUILD_STORAGE_BUCKET'' of
             None \<Rightarrow> ret (Backend_panic ''MEMOBUILD_STORAGE_BUCKET required for gcs backend'')
           | Some bucket \<Rightarrow>
               ret (Use_gcs bucket (case var ''MEMOBUILD_STORAGE_PREFIX'' of Some p \<Rightarrow> p | None \<Rightarrow> []))))"

section \<open>Blob paths\<close>

text \<open>The hashes the server stores blobs under: at least two shards long, no separator and no
  dot, as every hexadecimal digest.\<close>

definition blob_name :: "string \<Rightarrow> bool" where
  "blob_name h \<longleftrightarrow> 4 \<le> length h \<and> list_all (\<lambda>c. c \<noteq> CHR ''/'' \<and> c \<noteq> CHR ''.'') h"

definition shard_dir :: "string \<Rightarrow> string \<Rightarrow> string" where
  "shard_dir base h = path_join (path_join base (take 2 h)) (take 2 (drop 2 h))"

lemma blob_name_parts:
  assumes "blob_name h"
  shows "file_name_ok h" "file_name_ok (take 2 h)" "file_name_ok (take 2 (drop 2 h))"
proof -
  have h: "CHR ''/'' \<notin> set h" "4 \<le> length h"
    using assms by (auto simp: blob_name_def list_all_iff)
  then have "h \<noteq> []" by auto
  with h show "file_name_ok h" "file_name_ok (take 2 h)" "file_name_ok (take 2 (drop 2 h))"
    by (auto simp: file_name_ok_def dest: in_set_takeD in_set_dropD)
qed

lemma sharded_path: "blob_name h \<Longrightarrow> get_sharded_path base h = path_join (shard_dir base h) h"
  by (simp add: get_sharded_path_def shard_dir_def blob_name_def)

lemma shard_dir_end:
  assumes "blob_name h"
  shows "shard_dir base h \<noteq> []" "last (shard_dir base h) \<noteq> CHR ''/''"
proof -
  have ok: "file_name_ok (take 2 (drop 2 h))" by (rule blob_name_parts [OF assms])
  then obtain a where a: "shard_dir base h = a @ take 2 (drop 2 h)"
    unfolding shard_dir_def using path_join_append by blast
  have ne: "take 2 (drop 2 h) \<noteq> []" "CHR ''/'' \<notin> set (take 2 (drop 2 h))"
    using ok by (auto simp only: file_name_ok_def)
  then show "shard_dir base h \<noteq> []" unfolding a by blast
  have "last (shard_dir base h) = last (take 2 (drop 2 h))" unfolding a using ne(1) by (rule last_appendR)
  then show "last (shard_dir base h) \<noteq> CHR ''/''" using last_in_set [OF ne(1)] ne(2) by auto
qed

lemma sharded_path_append:
  "blob_name h \<Longrightarrow> get_sharded_path base h = shard_dir base h @ CHR ''/'' # h"
  using shard_dir_end [of h base] file_name_not_absolute [OF blob_name_parts(1)]
  by (simp add: sharded_path path_join_def)

lemma after_last_slash:
  "CHR ''/'' \<notin> set g \<Longrightarrow> rev (takeWhile (\<lambda>c. c \<noteq> CHR ''/'') (rev (a @ CHR ''/'' # g))) = g"
  by (auto simp: takeWhile_tail takeWhile_append)

lemma split_last_slash:
  assumes "a @ CHR ''/'' # g = b @ CHR ''/'' # h" and "CHR ''/'' \<notin> set g" and "CHR ''/'' \<notin> set h"
  shows "g = h"
  using after_last_slash [OF assms(2), of a] after_last_slash [OF assms(3), of b] assms(1) by simp

lemma sharded_path_inj:
  assumes "blob_name g" "blob_name h" "get_sharded_path base g = get_sharded_path base h"
  shows "g = h"
proof (rule split_last_slash)
  show "shard_dir base g @ CHR ''/'' # g = shard_dir base h @ CHR ''/'' # h"
    using assms by (simp add: sharded_path_append)
qed (use blob_name_parts(1) [OF assms(1)] blob_name_parts(1) [OF assms(2)] in \<open>simp_all add: file_name_ok_def\<close>)

lemma sharded_parent: "blob_name h \<Longrightarrow> parent (get_sharded_path base h) = Some (shard_dir base h)"
  using parent_append [OF _ shard_dir_end(1), of h] blob_name_parts(1) [of h]
  by (simp add: sharded_path_append file_name_ok_def)

lemma shard_dir_length:
  assumes "blob_name h"
  shows "length base + 4 \<le> length (shard_dir base h)" "length (shard_dir base h) \<le> length base + 6"
proof -
  have "length (take 2 h) = 2" "length (take 2 (drop 2 h)) = 2"
    using assms by (auto simp: blob_name_def)
  with length_path_join_le [OF blob_name_parts(3) [OF assms], of "path_join base (take 2 h)"]
    length_path_join_le [OF blob_name_parts(2) [OF assms], of base]
  show "length base + 4 \<le> length (shard_dir base h)" "length (shard_dir base h) \<le> length base + 6"
    unfolding shard_dir_def by linarith+
qed

lemma sharded_not_ancestor:
  assumes "blob_name g" "blob_name h"
  shows "get_sharded_path base g \<notin> set (ancestors (shard_dir base h))"
proof
  assume "get_sharded_path base g \<in> set (ancestors (shard_dir base h))"
  then have "length (get_sharded_path base g) \<le> length (shard_dir base h)" by (rule ancestors_length)
  moreover have "length (get_sharded_path base g) = Suc (length (shard_dir base g) + length g)"
    by (simp add: sharded_path_append [OF assms(1)])
  ultimately show False
    using shard_dir_length [OF assms(1), of base] shard_dir_length [OF assms(2), of base] assms(1)
    by (simp add: blob_name_def)
qed

section \<open>LocalStorage meets the contract\<close>

definition local_view :: "string \<Rightarrow> fs \<Rightarrow> string \<Rightarrow> bytes option" where
  "local_view base s h = (if blob_name h then map_of (files s) (get_sharded_path base h) else None)"

definition local_inv :: "string \<Rightarrow> fs \<Rightarrow> bool" where
  "local_inv base s \<longleftrightarrow> (\<forall>h. blob_name h \<longrightarrow> get_sharded_path base h \<notin> set (dirs s))"

lemma sharded_path_ne: "blob_name h \<Longrightarrow> get_sharded_path base h \<noteq> [] \<and> get_sharded_path base h \<noteq> ''/''"
  by (auto simp: sharded_path_append blob_name_def append_eq_Cons_conv)

lemma local_path_exists:
  "local_inv base s \<Longrightarrow> blob_name h \<Longrightarrow>
     path_exists s (get_sharded_path base h) \<longleftrightarrow> local_view base s h \<noteq> None"
  using sharded_path_ne [of h base]
  by (auto simp: path_exists_def is_file_def is_dir_def local_view_def local_inv_def)

lemma local_view_write:
  assumes "blob_name h" and "map_of (files s') = (map_of (files s))(get_sharded_path base h := v)"
  shows "local_view base s' = (local_view base s)(h := v)"
  using assms sharded_path_inj [OF _ assms(1), of _ base] by (auto simp: local_view_def fun_eq_iff)

lemma local_view_files: "files s' = files s \<Longrightarrow> local_view base s' = local_view base s"
  by (simp add: local_view_def fun_eq_iff)

lemma local_inv_dirs:
  "local_inv base s \<Longrightarrow> blob_name h \<Longrightarrow> set (dirs s') \<subseteq> set (dirs s) \<union> set (ancestors (shard_dir base h))
     \<Longrightarrow> local_inv base s'"
  using sharded_not_ancestor [of _ h base] by (auto simp: local_inv_def)

text \<open>What \<open>put\<close> does once the path is known not to exist.\<close>

lemma local_put_new:
  assumes "local_inv base s" and "blob_name h" and "local_view base s h = None"
  shows "local_put base h d s =
     bind_io (create_dir_all (shard_dir base h))
       (\<lambda>_. bind_io (write_file (get_sharded_path base h) d) (\<lambda>_. ret (get_sharded_path base h))) s"
  using assms local_path_exists [OF assms(1,2)] by (simp add: local_put_def sharded_parent Let_def)

lemma local_put_old:
  assumes "local_inv base s" and "blob_name h" and "local_view base s h = Some d0"
  shows "local_put base h d s = (Inr (get_sharded_path base h), s)"
  using assms local_path_exists [OF assms(1,2)] by (simp add: local_put_def Let_def)

lemma local_put_inv:
  assumes "local_inv base s" and "blob_name h"
  shows "local_inv base (snd (local_put base h d s))"
proof (cases "local_view base s h")
  case None
  obtain r1 s1 where c: "create_dir_all (shard_dir base h) s = (r1, s1)" by (rule prod.exhaust)
  obtain r2 s2 where w: "write_file (get_sharded_path base h) d s1 = (r2, s2)" by (rule prod.exhaust)
  have "set (dirs s1) \<subseteq> set (dirs s) \<union> set (ancestors (shard_dir base h))"
    using create_dir_all_dirs [of "shard_dir base h" s] c by simp
  moreover have "dirs s2 = dirs s1"
    using write_file_dirs [of "get_sharded_path base h" d s1] w by simp
  ultimately have "local_inv base s1" "local_inv base s2"
    using local_inv_dirs [OF assms] by simp_all
  then show ?thesis
    unfolding local_put_new [OF assms None] by (cases r1; cases r2) (simp_all add: bind_io_def c w)
qed (use assms in \<open>simp add: local_put_old\<close>)

lemma local_put_ok:
  assumes "local_inv base s" and "blob_name h" and "local_put base h d s = (Inr p, s')"
  shows "local_view base s' = (local_view base s)(h \<mapsto> (case local_view base s h of None \<Rightarrow> d | Some d0 \<Rightarrow> d0))"
proof (cases "local_view base s h")
  case None
  obtain s1 where c: "create_dir_all (shard_dir base h) s = (Inr (), s1)"
    and w: "write_file (get_sharded_path base h) d s1 = (Inr (), s')"
    using assms(3) unfolding local_put_new [OF assms(1,2) None] by (auto elim!: bind_io_cases)
  have "files s1 = files s" using create_dir_all_files [of "shard_dir base h" s] c by simp
  with None show ?thesis
    using local_view_write [OF assms(2), of s' s1 base "Some d"] write_file_ok [OF w] local_view_files [of s1 s base]
    by simp
qed (use assms in \<open>auto simp: local_put_old fun_eq_iff\<close>)

lemma local_put_err:
  assumes "local_inv base s" and "blob_name h" and "local_put base h d s = (Inl e, s')" and "g \<noteq> h"
  shows "local_view base s' g = local_view base s g"
proof (cases "local_view base s h")
  case None
  obtain r1 s1 where c: "create_dir_all (shard_dir base h) s = (r1, s1)" by (rule prod.exhaust)
  have f1: "files s1 = files s" using create_dir_all_files [of "shard_dir base h" s] c by simp
  have other: "map_of (files (snd (write_file (get_sharded_path base h) d s1))) (get_sharded_path base g)
      = map_of (files s1) (get_sharded_path base g)" if "blob_name g"
    using write_file_other [of "get_sharded_path base g" "get_sharded_path base h" d s1]
      sharded_path_inj [OF that assms(2), of base] assms(4) by auto
  have "s' = s1 \<or> s' = snd (write_file (get_sharded_path base h) d s1)"
    using assms(3) unfolding local_put_new [OF assms(1,2) None] c
    by (auto simp: bind_io_def c split: sum.splits prod.splits)
  with f1 other show ?thesis by (auto simp: local_view_def)
qed (use assms in \<open>simp add: local_put_old\<close>)

lemma local_get_inv: "local_inv base (snd (local_get base h s)) = local_inv base s"
  "local_view base (snd (local_get base h s)) = local_view base s"
proof -
  have "files (snd (local_get base h s)) = files s \<and> dirs (snd (local_get base h s)) = dirs s"
    using read_file_frame [of "get_sharded_path base h" s]
    by (cases "read_file (get_sharded_path base h) s" rule: prod.exhaust, cases "fst (read_file (get_sharded_path base h) s)")
       (auto simp: local_get_def Let_def bind_io_def)
  then show "local_inv base (snd (local_get base h s)) = local_inv base s"
    "local_view base (snd (local_get base h s)) = local_view base s"
    by (simp_all add: local_inv_def local_view_def fun_eq_iff)
qed

lemma local_get_ok:
  assumes "local_inv base s" and "blob_name h" and "local_get base h s = (Inr r, s')"
  shows "r = local_view base s h"
proof (cases "local_view base s h")
  case None
  with assms show ?thesis by (simp add: local_get_def Let_def local_path_exists)
next
  case (Some d)
  then have "map_of (files s) (get_sharded_path base h) = Some d"
    using assms(2) by (simp add: local_view_def)
  with assms Some show ?thesis
    by (auto simp: local_get_def Let_def local_path_exists elim!: bind_io_cases dest!: read_file_ok)
qed

lemma local_delete_inv: "local_inv base s \<Longrightarrow> local_inv base (snd (local_delete base h s))"
  by (simp add: local_delete_def local_inv_def Let_def)

lemma local_delete_ok:
  assumes "local_inv base s" and "blob_name h" and "local_delete base h s = (Inr u, s')"
  shows "local_view base s' = (local_view base s)(h := None)"
proof (cases "local_view base s h")
  case None
  with assms show ?thesis by (auto simp: local_delete_def Let_def local_path_exists fun_eq_iff)
next
  case (Some d)
  then show ?thesis
    using assms local_view_write [OF assms(2), of s' s base None] remove_file_ok
    by (simp add: local_delete_def Let_def local_path_exists)
qed

lemma local_delete_err:
  "local_delete base h s = (Inl e, s') \<Longrightarrow> local_view base s' = local_view base s"
  by (auto simp: local_delete_def Let_def split: if_splits dest!: remove_file_err intro: local_view_files)

interpretation ls: artifact_storage_laws "local_storage base" "local_inv base" "local_view base" blob_name
  for base
proof unfold_locales
  fix s h b and s' :: fs
  assume "local_inv base s" "blob_name h" "st_exists (local_storage base) h s = (Inr b, s')"
  then show "b = (local_view base s h \<noteq> None)"
    by (auto simp: local_storage_def local_exists_def local_path_exists)
qed (simp_all add: local_storage_def local_put_inv local_put_ok local_put_err local_get_inv local_get_ok
    local_exists_def local_delete_inv local_delete_ok local_delete_err)

section \<open>Properties\<close>

text \<open>A blob that is not stored yet, once its directories can be made, is written under its
  path.\<close>

lemma local_put_writes:
  assumes "local_inv base s" and "blob_name h" and "local_view base s h = None"
    and "faults s = []" and "\<not> list_ex (is_file s) (ancestors (shard_dir base h))"
  shows "local_put base h d s = (Inr (get_sharded_path base h),
     s\<lparr>dirs := dirs s @ ancestors (shard_dir base h),
       files := AList.update (get_sharded_path base h) d (files s)\<rparr>)"
proof -
  let ?s1 = "s\<lparr>dirs := dirs s @ ancestors (shard_dir base h)\<rparr>"
  have "local_inv base ?s1"
    using assms(1,2) by (rule local_inv_dirs) auto
  then have "\<not> is_dir ?s1 (get_sharded_path base h)"
    using assms(2) sharded_path_ne [OF assms(2), of base] unfolding local_inv_def is_dir_def by blast
  moreover have "is_dir ?s1 (shard_dir base h)"
    using self_ancestor [OF shard_dir_end(1) [OF assms(2)], of base] by (simp add: is_dir_def)
  ultimately have "write_file (get_sharded_path base h) d ?s1
      = (Inr (), ?s1\<lparr>files := AList.update (get_sharded_path base h) d (files s)\<rparr>)"
    using assms(4) by (simp add: write_file_def sharded_parent [OF assms(2)])
  then show ?thesis
    using create_dir_all_fine [OF assms(4,5)] by (simp add: local_put_new [OF assms(1-3)])
qed

text \<open>The local backend stores and returns blobs: as long as the file system reports no
  fault and no regular file stands in the way of the shard directories, storing a blob under a
  fresh hash succeeds, reading the hash returns exactly the stored bytes, every other blob is
  unchanged, and a second blob under the same hash is ignored.\<close>

theorem local_storage_put_get:
  assumes "local_inv base s" and "blob_name h" and "local_view base s h = None"
    and "faults s = []" and "\<not> list_ex (is_file s) (ancestors (shard_dir base h))"
  shows "\<exists>s'. local_put base h d s = (Inr (get_sharded_path base h), s')
    \<and> local_get base h s' = (Inr (Some d), s')
    \<and> (\<forall>g. g \<noteq> h \<longrightarrow> local_view base s' g = local_view base s g)
    \<and> local_put base h d2 s' = (Inr (get_sharded_path base h), s')
    \<and> local_inv base s'"
proof -
  let ?s' = "s\<lparr>dirs := dirs s @ ancestors (shard_dir base h),
       files := AList.update (get_sharded_path base h) d (files s)\<rparr>"
  have put: "local_put base h d s = (Inr (get_sharded_path base h), ?s')"
    using assms by (rule local_put_writes)
  have inv: "local_inv base ?s'" using local_put_inv [OF assms(1,2), of d] by (simp add: put)
  have view: "local_view base ?s' = (local_view base s)(h \<mapsto> d)"
    using local_put_ok [OF assms(1,2) put] assms(3) by simp
  then have blob: "map_of (files ?s') (get_sharded_path base h) = Some d"
    by (simp add: update_conv')
  have "local_get base h ?s' = (Inr (Some d), ?s')"
    using local_path_exists [OF inv assms(2)] view read_file_present [OF _ blob] assms(4)
    by (simp add: local_get_def)
  then show ?thesis
    using put inv view local_put_old [OF inv assms(2), of d d2] by auto
qed

definition fresh_fs :: fs where
  "fresh_fs = \<lparr>files = [], dirs = [''/srv''], faults = []\<rparr>"

theorem local_storage_put_get_witness:
  "\<exists>s'. local_put ''/srv'' ''abcdef12'' [1, 2] fresh_fs = (Inr ''/srv/ab/cd/abcdef12'', s')
      \<and> local_get ''/srv'' ''abcdef12'' s' = (Inr (Some [1, 2]), s')"
proof -
  have "local_inv ''/srv'' fresh_fs"
    by (auto simp: local_inv_def fresh_fs_def sharded_path_append append_eq_Cons_conv blob_name_def)
  moreover have "blob_name ''abcdef12''" by (simp add: blob_name_def)
  moreover have "get_sharded_path ''/srv'' ''abcdef12'' = ''/srv/ab/cd/abcdef12''" by code_simp
  ultimately show ?thesis
    using local_storage_put_get [of "''/srv''" fresh_fs "''abcdef12''" "[1, 2]" "[]"]
    by (auto simp: fresh_fs_def local_view_def list_ex_iff is_file_def)
qed

text \<open>A write that stops half way leaves a truncated blob that is never repaired: the failed
  upload reports an error, but every later upload of the full data under the same hash reports
  success without writing anything, and the hash then reads back the truncated bytes.\<close>

theorem truncated_blob_is_kept:
  assumes "local_inv base s" and "blob_name h" and "local_view base s h = None"
    and "faults s = [Fine, Short n]" and "\<not> list_ex (is_file s) (ancestors (shard_dir base h))"
  shows "\<exists>e s'. local_put base h d s = (Inl e, s')
    \<and> local_put base h d s' = (Inr (get_sharded_path base h), s')
    \<and> local_get base h s' = (Inr (Some (take n d)), s')"
proof -
  let ?s1 = "s\<lparr>faults := [Short n], dirs := dirs s @ ancestors (shard_dir base h)\<rparr>"
  let ?s' = "s\<lparr>faults := [], dirs := dirs s @ ancestors (shard_dir base h),
       files := AList.update (get_sharded_path base h) (take n d) (files s)\<rparr>"
  have mk: "create_dir_all (shard_dir base h) s = (Inr (), ?s1)"
    using assms(4,5) by (simp add: create_dir_all_def take_fault_def)
  have "local_inv base ?s1" using assms(1,2) by (rule local_inv_dirs) auto
  then have "\<not> is_dir ?s1 (get_sharded_path base h)"
    using assms(2) sharded_path_ne [OF assms(2), of base] unfolding local_inv_def is_dir_def by blast
  moreover have "is_dir ?s1 (shard_dir base h)"
    using self_ancestor [OF shard_dir_end(1) [OF assms(2)], of base] by (simp add: is_dir_def)
  ultimately have "write_file (get_sharded_path base h) d ?s1 = (Inl (Err ''write''), ?s')"
    by (simp add: write_file_def sharded_parent [OF assms(2)] take_fault_def)
  then have put: "local_put base h d s = (Inl (Err ''write''), ?s')"
    by (simp add: local_put_new [OF assms(1-3)] mk bind_io_def)
  have inv: "local_inv base ?s'" using local_put_inv [OF assms(1,2), of d] by (simp add: put)
  have blob: "map_of (files ?s') (get_sharded_path base h) = Some (take n d)"
    by (simp add: update_conv')
  then have view: "local_view base ?s' h = Some (take n d)"
    using assms(2) by (simp add: local_view_def)
  have "local_get base h ?s' = (Inr (Some (take n d)), ?s')"
    using local_path_exists [OF inv assms(2)] view read_file_present [OF _ blob] by (simp add: local_get_def)
  then show ?thesis
    using put local_put_old [OF inv assms(2) view] by blast
qed

theorem truncated_blob_is_kept_witness:
  "\<exists>e s'. local_put ''/srv'' ''abcdef12'' [1, 2] (fresh_fs\<lparr>faults := [Fine, Short 1]\<rparr>) = (Inl e, s')
    \<and> local_get ''/srv'' ''abcdef12'' s' = (Inr (Some [1]), s')"
proof -
  have "local_inv ''/srv'' (fresh_fs\<lparr>faults := [Fine, Short 1]\<rparr>)"
    by (auto simp: local_inv_def fresh_fs_def sharded_path_append append_eq_Cons_conv blob_name_def)
  moreover have "blob_name ''abcdef12''" by (simp add: blob_name_def)
  ultimately show ?thesis
    using truncated_blob_is_kept [of "''/srv''" "fresh_fs\<lparr>faults := [Fine, Short 1]\<rparr>" "''abcdef12''" 1 "[1, 2]"]
    by (auto simp: fresh_fs_def local_view_def list_ex_iff is_file_def)
qed

text \<open>The hash is used as a path unchecked: when it is an absolute path, \<open>get\<close> reads that
  file and \<open>delete\<close> removes it, wherever the storage directory is.\<close>

theorem absolute_hash_escapes:
  assumes "prefix ''/'' p" and "p \<noteq> ''/''" and "map_of (files s) p = Some d" and "faults s = []"
  shows "get_sharded_path base p = p \<and> local_get base p s = (Inr (Some d), s)
    \<and> (\<exists>s'. local_delete base p s = (Inr (), s') \<and> \<not> is_file s' p)"
proof -
  have path: "get_sharded_path base p = p"
    using assms(1) by (simp add: get_sharded_path_def path_join_def)
  have "is_file s p" "path_exists s p"
    using assms(1,3) by (auto simp: is_file_def path_exists_def)
  then show ?thesis
    using read_file_present [OF assms(4,3)] assms(4) path
    by (simp add: local_get_def local_delete_def remove_file_def is_file_def delete_conv')
qed

theorem absolute_hash_escapes_witness:
  "local_get ''/srv'' ''/etc/passwd'' (fresh_fs\<lparr>files := [(''/etc/passwd'', [7])]\<rparr>)
     = (Inr (Some [7]), fresh_fs\<lparr>files := [(''/etc/passwd'', [7])]\<rparr>)"
  using absolute_hash_escapes [of "''/etc/passwd''" "fresh_fs\<lparr>files := [(''/etc/passwd'', [7])]\<rparr>" "[7]" "''/srv''"]
  by (simp add: fresh_fs_def)

end
