(* ===== verification/Remote_Cache.thy ===== *)
theory Remote_Cache
  imports Graph
begin

text \<open>
  \<open>src/src/cache/remote.rs\<close> and \<open>src/src/dashboard/metrics.rs\<close>: the \<open>RemoteCache\<close> trait as a
  record of operations over the state behind it, the build events it reports, and its contract as
  the locale \<open>remote_cache_laws\<close>. The implementations are the HTTP client (\<open>Http\<close>), the
  Redis cache (\<open>Redis\<close>), the distributed cache (\<open>Cluster\<close>) and the regional router
  (\<open>Router\<close>).
\<close>

section \<open>Build events\<close>

datatype build_status = Queued | Building | Completed | Cached | Failed string

datatype build_event =
    BuildStarted nat
  | NodeStarted nat string
  | NodeCompleted nat string nat bool
  | NodeFailed nat string string
  | BuildCompleted nat nat nat

section \<open>The trait\<close>

record 'r remote_cache =
  rc_has :: "string \<Rightarrow> ('r, bool) io"
  rc_get :: "string \<Rightarrow> ('r, bytes option) io"
  rc_put :: "string \<Rightarrow> bytes \<Rightarrow> ('r, unit) io"
  rc_has_layer :: "string \<Rightarrow> ('r, bool) io"
  rc_get_layer :: "string \<Rightarrow> ('r, bytes option) io"
  rc_put_layer :: "string \<Rightarrow> bytes \<Rightarrow> ('r, unit) io"
  rc_get_node_layers :: "string \<Rightarrow> ('r, string list option) io"
  rc_register_node_layers :: "string \<Rightarrow> string list \<Rightarrow> u64 \<Rightarrow> ('r, unit) io"
  rc_report_build_event :: "build_event \<Rightarrow> ('r, unit) io"
  rc_report_dag :: "build_graph \<Rightarrow> ('r, unit) io"
  rc_report_analytics :: "u32 \<Rightarrow> u32 \<Rightarrow> u64 \<Rightarrow> ('r, unit) io"

section \<open>The contract of the layered protocol\<close>

text \<open>\<open>layer_of\<close>, \<open>node_of\<close> and \<open>blob_of\<close> are the maps a state stands for. Reading
  calls keep them whether or not they succeed; a successful upload leaves the layer present,
  either with the uploaded bytes or as it was. Nothing is promised of a failed write.\<close>

locale remote_cache_laws =
  fixes rc :: "'r remote_cache"
    and rinv :: "'r \<Rightarrow> bool"
    and layer_of :: "'r \<Rightarrow> string \<Rightarrow> bytes option"
    and node_of :: "'r \<Rightarrow> string \<Rightarrow> string list option"
    and blob_of :: "'r \<Rightarrow> string \<Rightarrow> bytes option"
    and rvalid :: "string \<Rightarrow> bool"
  assumes has_layer_frame: "rinv s \<Longrightarrow> rvalid h \<Longrightarrow> rc_has_layer rc h s = (rb, s') \<Longrightarrow>
      rinv s' \<and> layer_of s' = layer_of s \<and> node_of s' = node_of s \<and> blob_of s' = blob_of s"
    and has_layer_ok: "rinv s \<Longrightarrow> rvalid h \<Longrightarrow> rc_has_layer rc h s = (Inr True, s') \<Longrightarrow> layer_of s h \<noteq> None"
    and get_layer_frame: "rinv s \<Longrightarrow> rvalid h \<Longrightarrow> rc_get_layer rc h s = (rd, s') \<Longrightarrow>
      rinv s' \<and> layer_of s' = layer_of s \<and> node_of s' = node_of s \<and> blob_of s' = blob_of s"
    and get_layer_ok: "rinv s \<Longrightarrow> rvalid h \<Longrightarrow> rc_get_layer rc h s = (Inr v, s') \<Longrightarrow> v = layer_of s h"
    and put_layer_ok: "rinv s \<Longrightarrow> rvalid h \<Longrightarrow> rc_put_layer rc h d s = (Inr (), s') \<Longrightarrow>
      rinv s' \<and> node_of s' = node_of s
      \<and> (layer_of s' = (layer_of s)(h \<mapsto> d) \<or> layer_of s h \<noteq> None \<and> layer_of s' = layer_of s)"
    and get_node_layers_frame: "rinv s \<Longrightarrow> rc_get_node_layers rc h s = (rn, s') \<Longrightarrow>
      rinv s' \<and> layer_of s' = layer_of s \<and> node_of s' = node_of s \<and> blob_of s' = blob_of s"
    and get_node_layers_ok: "rinv s \<Longrightarrow> rc_get_node_layers rc h s = (Inr nl, s') \<Longrightarrow> nl = node_of s h"
    and register_ok: "rinv s \<Longrightarrow> rc_register_node_layers rc h ls n s = (Inr (), s') \<Longrightarrow>
      rinv s' \<and> layer_of s' = layer_of s \<and> node_of s' = (node_of s)(h \<mapsto> ls)"
    and get_frame: "rinv s \<Longrightarrow> rvalid h \<Longrightarrow> rc_get rc h s = (rd, s') \<Longrightarrow>
      rinv s' \<and> layer_of s' = layer_of s \<and> node_of s' = node_of s \<and> blob_of s' = blob_of s"
    and get_ok: "rinv s \<Longrightarrow> rvalid h \<Longrightarrow> rc_get rc h s = (Inr v, s') \<Longrightarrow> v = blob_of s h"

end
