(* ===== verification/Server.thy ===== *)
theory Server
  imports Metadata Storage Remote_Cache
begin

text \<open>
  \<open>src/src/server/mod.rs\<close>: the cache server. Its state is the metadata store, the state of the
  storage backend and what the dashboard routes keep; each route is one definition, and
  \<open>route\<close> is the routing table. \<open>blake3\<close>, the clock and SQLite's cut-off date are fields of
  \<open>server_env\<close>. The storage backend is any \<open>artifact_storage\<close>; what the handlers do to blobs
  is proved in the context of its contract and instantiated for the local backend.
\<close>

section \<open>State, requests, responses\<close>

record analytics_data =
  ad_dirty :: u32
  ad_cached :: u32
  ad_duration_ms :: u64

record 's app_state =
  metadata :: metadata_store
  storage_state :: 's
  webhook_url :: "string option"
  tx_events :: "build_event list"
  current_dag :: "build_graph option"
  notifications :: "(string \<times> analytics_data) list"

record server_env =
  env_blake3 :: "bytes \<Rightarrow> string"
  env_now :: string
  env_cutoff :: "u32 \<Rightarrow> string"

datatype status = OK | CREATED | BAD_REQUEST | NOT_FOUND | INTERNAL_SERVER_ERROR

datatype body =
    Empty
  | Blob bytes
  | Text string
  | Layers "string list option"
  | Dag "node list" "(nat \<times> nat) list"
  | Analytics "build_record list"
  | LayerStats "nat \<times> nat \<times> nat"

type_synonym response = "status \<times> body"

datatype request =
    Head_cache string
  | Get_cache string
  | Put_cache string bytes
  | Head_layer string
  | Get_layer string
  | Put_layer string bytes
  | Get_node_layers string
  | Post_node_layers string "string list" u64
  | Post_gc u32
  | Post_analytics analytics_data
  | Post_build_event build_event
  | Post_dag build_graph
  | Get_dag
  | Get_analytics
  | Get_layer_stats

type_synonym 's handler = "'s app_state \<Rightarrow> response \<times> 's app_state"

section \<open>Handlers\<close>

definition on_storage :: "('s, 'a) io \<Rightarrow> ('s app_state, 'a) io" where
  "on_storage = on_part storage_state (\<lambda>x s. s\<lparr>storage_state := x\<rparr>)"

definition on_metadata :: "(metadata_store, 'a) io \<Rightarrow> ('s app_state, 'a) io" where
  "on_metadata = on_part metadata (\<lambda>m s. s\<lparr>metadata := m\<rparr>)"

definition srv_check_cache :: "server_env \<Rightarrow> string \<Rightarrow> 's handler" where
  "srv_check_cache env hash s =
     (if md_exists (metadata s) hash
      then ((OK, Empty), s\<lparr>metadata := touch (env_now env) hash (metadata s)\<rparr>)
      else ((NOT_FOUND, Empty), s))"

definition srv_get_artifact :: "'s artifact_storage \<Rightarrow> server_env \<Rightarrow> string \<Rightarrow> 's handler" where
  "srv_get_artifact st env hash s =
     (case on_storage (st_get st hash) s of
        (Inr (Some d), s1) \<Rightarrow> ((OK, Blob d), s1\<lparr>metadata := touch (env_now env) hash (metadata s1)\<rparr>)
      | (Inr None, s1) \<Rightarrow> ((NOT_FOUND, Empty), s1)
      | (Inl e, s1) \<Rightarrow> ((INTERNAL_SERVER_ERROR, Empty), s1))"

definition srv_put_artifact :: "'s artifact_storage \<Rightarrow> server_env \<Rightarrow> string \<Rightarrow> bytes \<Rightarrow> 's handler" where
  "srv_put_artifact st env hash d s =
     (if env_blake3 env d \<noteq> hash then ((BAD_REQUEST, Empty), s)
      else
        (case on_storage (st_put st hash d) s of
           (Inr path, s1) \<Rightarrow>
             (case on_metadata (md_insert (env_now env) hash path (of_nat (length d))) s1 of
                (Inl e, s2) \<Rightarrow> ((INTERNAL_SERVER_ERROR, Empty), s2)
              | (Inr _, s2) \<Rightarrow> ((CREATED, Empty), s2))
         | (Inl e, s1) \<Rightarrow> ((INTERNAL_SERVER_ERROR, Empty), s1)))"

text \<open>The two loops of \<open>gc_cache\<close>; the results of the deletions are dropped.\<close>

fun gc_entries :: "'s artifact_storage \<Rightarrow> string list \<Rightarrow> nat \<Rightarrow> 's app_state \<Rightarrow> nat \<times> 's app_state" where
  "gc_entries st [] n s = (n, s)"
| "gc_entries st (h # hs) n s =
     (case md_get (metadata s) h of
        Inr (Some e) \<Rightarrow>
          gc_entries st hs (n + 1) (snd (on_metadata (md_delete h) (snd (on_storage (st_delete st h) s))))
      | _ \<Rightarrow> gc_entries st hs n s)"

fun gc_layers :: "'s artifact_storage \<Rightarrow> (string \<times> string) list \<Rightarrow> nat \<Rightarrow> 's app_state \<Rightarrow> nat \<times> 's app_state" where
  "gc_layers st [] n s = (n, s)"
| "gc_layers st ((h, p) # ls) n s =
     gc_layers st ls (n + 1) (snd (on_metadata (delete_layer_metadata h) (snd (on_storage (st_delete st h) s))))"

definition srv_gc_cache :: "'s artifact_storage \<Rightarrow> server_env \<Rightarrow> u32 \<Rightarrow> 's handler" where
  "srv_gc_cache st env days s =
     (let (node_count, s1) = gc_entries st (get_old_entries (env_cutoff env) (metadata s) days) 0 s;
          (layer_count, s2) = gc_layers st (get_unused_layers (metadata s1)) 0 s1
      in ((OK, Text (''Deleted '' @ show_nat node_count @ '' old artifacts and '' @ show_nat layer_count @ '' unused layers'')), s2))"

definition srv_check_layer :: "string \<Rightarrow> 's handler" where
  "srv_check_layer hash s = (if layer_exists (metadata s) hash then ((OK, Empty), s) else ((NOT_FOUND, Empty), s))"

definition srv_get_layer :: "'s artifact_storage \<Rightarrow> string \<Rightarrow> 's handler" where
  "srv_get_layer st hash s =
     (case on_storage (st_get st hash) s of
        (Inr (Some d), s1) \<Rightarrow> ((OK, Blob d), s1)
      | (Inr None, s1) \<Rightarrow> ((NOT_FOUND, Empty), s1)
      | (Inl e, s1) \<Rightarrow> ((INTERNAL_SERVER_ERROR, Empty), s1))"

definition srv_put_layer :: "'s artifact_storage \<Rightarrow> server_env \<Rightarrow> string \<Rightarrow> bytes \<Rightarrow> 's handler" where
  "srv_put_layer st env hash d s =
     (if env_blake3 env d \<noteq> hash then ((BAD_REQUEST, Empty), s)
      else
        (case on_storage (st_put st hash d) s of
           (Inr path, s1) \<Rightarrow>
             (case on_metadata (insert_layer (env_now env) hash path (of_nat (length d))) s1 of
                (Inl e, s2) \<Rightarrow> ((INTERNAL_SERVER_ERROR, Empty), s2)
              | (Inr _, s2) \<Rightarrow> ((CREATED, Empty), s2))
         | (Inl e, s1) \<Rightarrow> ((INTERNAL_SERVER_ERROR, Empty), s1)))"

definition srv_register_node_layers :: "server_env \<Rightarrow> string \<Rightarrow> string list \<Rightarrow> u64 \<Rightarrow> 's handler" where
  "srv_register_node_layers env hash layers total_size s =
     (case on_metadata (insert_layered_node (env_now env) hash total_size layers) s of
        (Inr _, s1) \<Rightarrow> ((OK, Empty), s1)
      | (Inl e, s1) \<Rightarrow> ((INTERNAL_SERVER_ERROR, Empty), s1))"

definition srv_get_node_layers :: "string \<Rightarrow> 's handler" where
  "srv_get_node_layers hash s =
     (case md_get_node_layers (metadata s) hash of
        Some layers \<Rightarrow> ((OK, Layers (Some layers)), s)
      | None \<Rightarrow> ((NOT_FOUND, Empty), s))"

text \<open>The notification is posted by a spawned task whatever the outcome of the insertion.\<close>

definition srv_report_analytics :: "server_env \<Rightarrow> analytics_data \<Rightarrow> 's handler" where
  "srv_report_analytics env d s =
     (case on_metadata (record_build (env_now env) (ad_dirty d) (ad_cached d) (ad_duration_ms d)) s of
        (r, s1) \<Rightarrow>
          (let s2 = (case webhook_url s1 of
                       Some url \<Rightarrow> s1\<lparr>notifications := notifications s1 @ [(url, d)]\<rparr>
                     | None \<Rightarrow> s1)
           in ((case r of Inr _ \<Rightarrow> OK | Inl _ \<Rightarrow> INTERNAL_SERVER_ERROR, Empty), s2)))"

definition srv_receive_build_event :: "build_event \<Rightarrow> 's handler" where
  "srv_receive_build_event event s = ((OK, Empty), s\<lparr>tx_events := tx_events s @ [event]\<rparr>)"

definition srv_register_dag :: "build_graph \<Rightarrow> 's handler" where
  "srv_register_dag dag s = ((OK, Empty), s\<lparr>current_dag := Some dag\<rparr>)"

definition dag_edges :: "build_graph \<Rightarrow> (nat \<times> nat) list" where
  "dag_edges dag = concat (map (\<lambda>(i, n). map (\<lambda>dep. (dep, i)) (node_deps n)) (enumerate 0 (graph_nodes dag)))"

definition srv_get_dag :: "'s handler" where
  "srv_get_dag s =
     (case current_dag s of
        Some dag \<Rightarrow> ((OK, Dag (graph_nodes dag) (dag_edges dag)), s)
      | None \<Rightarrow> ((NOT_FOUND, Empty), s))"

definition ANALYTICS_DB_LIMIT :: nat where
  "ANALYTICS_DB_LIMIT = 50"

definition srv_get_analytics :: "'s handler" where
  "srv_get_analytics s =
     (case Metadata.get_analytics (metadata s) ANALYTICS_DB_LIMIT of
        Inr rows \<Rightarrow> ((OK, Analytics rows), s)
      | Inl (Err e) \<Rightarrow> ((INTERNAL_SERVER_ERROR, Text e), s))"

definition srv_get_layer_stats :: "'s handler" where
  "srv_get_layer_stats s = ((OK, LayerStats (get_layer_stats (metadata s))), s)"

definition route :: "'s artifact_storage \<Rightarrow> server_env \<Rightarrow> request \<Rightarrow> 's handler" where
  "route st env req =
     (case req of
        Head_cache h \<Rightarrow> srv_check_cache env h
      | Get_cache h \<Rightarrow> srv_get_artifact st env h
      | Put_cache h d \<Rightarrow> srv_put_artifact st env h d
      | Head_layer h \<Rightarrow> srv_check_layer h
      | Get_layer h \<Rightarrow> srv_get_layer st h
      | Put_layer h d \<Rightarrow> srv_put_layer st env h d
      | Get_node_layers h \<Rightarrow> srv_get_node_layers h
      | Post_node_layers h ls n \<Rightarrow> srv_register_node_layers env h ls n
      | Post_gc days \<Rightarrow> srv_gc_cache st env days
      | Post_analytics d \<Rightarrow> srv_report_analytics env d
      | Post_build_event e \<Rightarrow> srv_receive_build_event e
      | Post_dag dag \<Rightarrow> srv_register_dag dag
      | Get_dag \<Rightarrow> srv_get_dag
      | Get_analytics \<Rightarrow> srv_get_analytics
      | Get_layer_stats \<Rightarrow> srv_get_layer_stats)"

section \<open>Lemmas\<close>

lemma on_storage_apply: "on_storage m s = (fst (m (storage_state s)), s\<lparr>storage_state := snd (m (storage_state s))\<rparr>)"
  by (simp add: on_storage_def on_part_apply)

lemma on_metadata_apply: "on_metadata m s = (fst (m (metadata s)), s\<lparr>metadata := snd (m (metadata s))\<rparr>)"
  by (simp add: on_metadata_def on_part_apply)

lemma md_delete_frame:
  assumes "n \<noteq> h"
  shows "md_get_node_layers (snd (md_delete h m)) n = md_get_node_layers m n"
    and "n \<in> users m l \<Longrightarrow> n \<in> users (snd (md_delete h m)) l"
proof -
  have "filter (\<lambda>((k, _), _). k = n) (node_to_layers (snd (md_delete h m)))
      = filter (\<lambda>((k, _), _). k = n) (node_to_layers m)"
    using assms by (auto simp: md_delete_def split_def intro!: filter_cong)
  then have "layer_rows (snd (md_delete h m)) n = layer_rows m n" by (simp add: layer_rows_def)
  moreover have "map_of (cache_entries (snd (md_delete h m))) n = map_of (cache_entries m) n"
    using assms by (simp add: md_delete_def delete_conv')
  ultimately show "md_get_node_layers (snd (md_delete h m)) n = md_get_node_layers m n"
    by (simp add: md_get_node_layers_def)
  show "n \<in> users m l \<Longrightarrow> n \<in> users (snd (md_delete h m)) l"
    using assms by (auto simp: md_delete_def users_def)
qed

lemma delete_layer_metadata_nodes:
  "node_to_layers (snd (delete_layer_metadata h m)) = node_to_layers m"
  "cache_entries (snd (delete_layer_metadata h m)) = cache_entries m"
  by (simp_all add: delete_layer_metadata_def)

lemma delete_layer_metadata_reads: "md_get_node_layers (snd (delete_layer_metadata h m)) = md_get_node_layers m"
  by (simp add: fun_eq_iff md_get_node_layers_def layer_rows_def delete_layer_metadata_nodes)

lemma layer_exists_delete: "layer_exists (snd (md_delete h m)) l = layer_exists m l"
  "layer_exists (snd (delete_layer_metadata h m)) l \<Longrightarrow> layer_exists m l"
proof -
  show "layer_exists (snd (md_delete h m)) l = layer_exists m l"
    by (simp add: layer_exists_def md_delete_def map_of_map_kv)
  show "layer_exists (snd (delete_layer_metadata h m)) l \<Longrightarrow> layer_exists m l"
    by (auto simp: layer_exists_def delete_layer_metadata_def delete_conv' split: if_splits)
qed

lemma entries_touch: "map_of (cache_entries (touch t h m)) k = None \<longleftrightarrow> map_of (cache_entries m) k = None"
  by (simp add: touch_def map_of_map_kv [where f = "\<lambda>k r. if k = h then r\<lparr>last_used := t, hit_count := hit_count r + 1\<rparr> else r"])

lemma unused_unreferenced: "md_ok m \<Longrightarrow> (l, p) \<in> set (get_unused_layers m) \<Longrightarrow> users m l = {}"
proof -
  assume ok: "md_ok m" and "(l, p) \<in> set (get_unused_layers m)"
  then obtain r where "(l, r) \<in> set (cache_layers m)" "ref_count r \<le> 0"
    by (auto simp: get_unused_layers_def)
  moreover from this have "map_of (cache_layers m) l = Some r"
    using md_okD(3) [OF ok] by (simp add: hm_ok_def)
  ultimately have "card (users m l) = 0" using md_okD(6) [OF ok, of l r] by linarith
  then show ?thesis by simp
qed

section \<open>The server's invariant\<close>

text \<open>The store is consistent, every hash it knows can name a blob, and every blob is stored under its
  own digest.\<close>

definition srv_ok :: "('s \<Rightarrow> bool) \<Rightarrow> ('s \<Rightarrow> string \<Rightarrow> bytes option) \<Rightarrow> (string \<Rightarrow> bool) \<Rightarrow> (bytes \<Rightarrow> string)
    \<Rightarrow> 's app_state \<Rightarrow> bool" where
  "srv_ok sinv sview valid digest s \<longleftrightarrow>
     sinv (storage_state s) \<and> md_ok (metadata s)
     \<and> (\<forall>h. map_of (cache_entries (metadata s)) h \<noteq> None \<longrightarrow> valid h)
     \<and> (\<forall>l. layer_exists (metadata s) l \<longrightarrow> valid l)
     \<and> (\<forall>h d. sview (storage_state s) h = Some d \<longrightarrow> digest d = h)"

text \<open>The hash a request carries, and requests that carry the hash of a blob. Uploads need no
  condition: the server checks them.\<close>

fun well_formed :: "(string \<Rightarrow> bool) \<Rightarrow> request \<Rightarrow> bool" where
  "well_formed valid (Get_cache h) = valid h"
| "well_formed valid (Get_layer h) = valid h"
| "well_formed valid (Post_node_layers h ls n) = valid h"
| "well_formed valid _ = True"

lemma srv_ok_frame:
  assumes "srv_ok sinv sview valid digest s" and "storage_state s' = storage_state s" and "md_ok (metadata s')"
    and "\<And>h. map_of (cache_entries (metadata s')) h \<noteq> None \<Longrightarrow> valid h"
    and "\<And>l. layer_exists (metadata s') l \<Longrightarrow> valid l"
  shows "srv_ok sinv sview valid digest s'"
  using assms unfolding srv_ok_def by metis

lemma srv_okD:
  assumes "srv_ok sinv sview valid digest s"
  shows "sinv (storage_state s)" "md_ok (metadata s)"
    "map_of (cache_entries (metadata s)) h \<noteq> None \<Longrightarrow> valid h" "layer_exists (metadata s) h \<Longrightarrow> valid h"
    "sview (storage_state s) h = Some d \<Longrightarrow> digest d = h"
  using assms unfolding srv_ok_def by blast+

context artifact_storage_laws
begin

lemma srv_get_ok:
  assumes "srv_ok sinv sview valid digest s" and "valid h"
  shows "srv_ok sinv sview valid digest (s\<lparr>storage_state := snd (st_get st h (storage_state s))\<rparr>)"
  using get_inv [OF srv_okD(1) [OF assms(1)] assms(2)] assms(1) by (simp add: srv_ok_def)

text \<open>One step of the garbage collector on a hash the store knows.\<close>

lemma srv_ok_collect:
  assumes "srv_ok sinv sview valid digest s" and "valid h" and "md_ok m"
    and "\<And>k. map_of (cache_entries m) k \<noteq> None \<Longrightarrow> map_of (cache_entries (metadata s)) k \<noteq> None"
    and "\<And>l. layer_exists m l \<Longrightarrow> layer_exists (metadata s) l"
  shows "srv_ok sinv sview valid digest (s\<lparr>storage_state := snd (st_delete st h (storage_state s)), metadata := m\<rparr>)"
  unfolding srv_ok_def
proof (intro conjI allI impI)
  show "sinv (storage_state (s\<lparr>storage_state := snd (st_delete st h (storage_state s)), metadata := m\<rparr>))"
    using delete_inv [OF srv_okD(1) [OF assms(1)] assms(2)] by simp
next
  fix g d
  assume "sview (storage_state (s\<lparr>storage_state := snd (st_delete st h (storage_state s)), metadata := m\<rparr>)) g = Some d"
  then have "sview (storage_state s) g = Some d"
    using delete_shrinks [OF srv_okD(1) [OF assms(1)] assms(2), of g d] by simp
  then show "digest d = g" by (rule srv_okD(5) [OF assms(1)])
qed (use assms srv_okD(3,4) [OF assms(1)] in simp_all)

lemma gc_entries_spec:
  assumes "srv_ok sinv sview valid digest s" and "gc_entries st hs k s = (n, s')"
  shows "srv_ok sinv sview valid digest s'
    \<and> (\<forall>m. m \<notin> set hs \<longrightarrow> md_get_node_layers (metadata s') m = md_get_node_layers (metadata s) m
           \<and> sview (storage_state s') m = sview (storage_state s) m
           \<and> (\<forall>l. m \<in> users (metadata s) l \<longrightarrow> m \<in> users (metadata s') l))"
  using assms
proof (induction hs arbitrary: k s)
  case (Cons h hs)
  show ?case
  proof (cases "map_of (cache_entries (metadata s)) h \<noteq> None \<and> (\<exists>e. md_get (metadata s) h = Inr (Some e))")
    case True
    let ?m = "snd (md_delete h (metadata s))"
    let ?s = "s\<lparr>storage_state := snd (st_delete st h (storage_state s)), metadata := ?m\<rparr>"
    have v: "valid h" using srv_okD(3) [OF Cons.prems(1)] True by blast
    have "srv_ok sinv sview valid digest ?s"
    proof (rule srv_ok_collect [OF Cons.prems(1) v])
      show "md_ok ?m" using srv_okD(2) [OF Cons.prems(1)] by (rule md_ok_delete)
      show "map_of (cache_entries ?m) k \<noteq> None \<Longrightarrow> map_of (cache_entries (metadata s)) k \<noteq> None" for k
        by (auto simp: md_delete_def delete_conv' split: if_splits)
    qed (simp add: layer_exists_delete)
    moreover have "gc_entries st hs (k + 1) ?s = (n, s')"
      using Cons.prems(2) True by (auto simp: on_storage_apply on_metadata_apply)
    ultimately show ?thesis
      using Cons.IH [of ?s] md_delete_frame [of _ h "metadata s"] delete_frame [OF srv_okD(1) [OF Cons.prems(1)] v]
      by simp
  next
    case False
    then have "gc_entries st hs k s = (n, s')"
      using Cons.prems(2) by (auto simp: md_get_def split: option.splits if_splits)
    then show ?thesis using Cons by simp
  qed
qed simp

lemma gc_layers_spec:
  assumes "srv_ok sinv sview valid digest s" and "list_all (\<lambda>(h, p). valid h) ls" and "gc_layers st ls k s = (n, s')"
  shows "srv_ok sinv sview valid digest s' \<and> md_get_node_layers (metadata s') = md_get_node_layers (metadata s)
    \<and> (\<forall>g. g \<notin> fst ` set ls \<longrightarrow> sview (storage_state s') g = sview (storage_state s) g)"
  using assms
proof (induction ls arbitrary: k s)
  case (Cons x ls)
  obtain h p where x: "x = (h, p)" by (rule prod.exhaust)
  let ?m = "snd (delete_layer_metadata h (metadata s))"
  let ?s = "s\<lparr>storage_state := snd (st_delete st h (storage_state s)), metadata := ?m\<rparr>"
  have v: "valid h" using Cons.prems(2) x by simp
  have "srv_ok sinv sview valid digest ?s"
  proof (rule srv_ok_collect [OF Cons.prems(1) v])
    show "md_ok ?m" using srv_okD(2) [OF Cons.prems(1)] by (rule md_ok_delete_layer_metadata)
  qed (simp_all add: delete_layer_metadata_nodes, rule layer_exists_delete)
  moreover have "gc_layers st ls (k + 1) ?s = (n, s')"
    using Cons.prems(3) by (simp add: x on_storage_apply on_metadata_apply)
  ultimately show ?case
    using Cons.IH [of ?s "k + 1"] Cons.prems(2) delete_layer_metadata_reads [of h "metadata s"]
      delete_frame [OF srv_okD(1) [OF Cons.prems(1)] v] x by auto
qed simp

text \<open>A sweep keeps the nodes it does not collect, and the blobs of their layers, except for layers
  whose hash is itself an expired entry.\<close>

lemma gc_keeps_live:
  assumes "srv_ok sinv sview valid digest s" and "srv_gc_cache st env days s = (r, s')"
  shows "srv_ok sinv sview valid digest s'"
    and "n \<notin> set (get_old_entries (env_cutoff env) (metadata s) days) \<Longrightarrow>
      md_get_node_layers (metadata s') n = md_get_node_layers (metadata s) n"
    and "n \<notin> set (get_old_entries (env_cutoff env) (metadata s) days) \<Longrightarrow> n \<in> users (metadata s) l \<Longrightarrow>
      l \<notin> set (get_old_entries (env_cutoff env) (metadata s) days) \<Longrightarrow>
      sview (storage_state s') l = sview (storage_state s) l"
proof -
  obtain k1 s1 where g1: "gc_entries st (get_old_entries (env_cutoff env) (metadata s) days) 0 s = (k1, s1)"
    by (rule prod.exhaust)
  obtain k2 s2 where g2: "gc_layers st (get_unused_layers (metadata s1)) 0 s1 = (k2, s2)"
    by (rule prod.exhaust)
  have s': "s' = s2" using assms(2) by (simp add: srv_gc_cache_def g1 g2)
  note spec1 = gc_entries_spec [OF assms(1) g1]
  then have ok1: "srv_ok sinv sview valid digest s1" by blast
  have "valid h" if "(h, p) \<in> set (get_unused_layers (metadata s1))" for h p
    using that srv_okD(4) [OF ok1, of h] by (force simp: get_unused_layers_def layer_exists_def map_of_eq_None_iff)
  then have "list_all (\<lambda>(h, p). valid h) (get_unused_layers (metadata s1))" by (auto simp: list_all_iff)
  note spec2 = gc_layers_spec [OF ok1 this g2]
  show "srv_ok sinv sview valid digest s'" using spec2 s' by blast
  show "n \<notin> set (get_old_entries (env_cutoff env) (metadata s) days) \<Longrightarrow>
      md_get_node_layers (metadata s') n = md_get_node_layers (metadata s) n"
    using spec1 spec2 s' by simp
  assume n: "n \<notin> set (get_old_entries (env_cutoff env) (metadata s) days)" "n \<in> users (metadata s) l"
    and l: "l \<notin> set (get_old_entries (env_cutoff env) (metadata s) days)"
  then have "users (metadata s1) l \<noteq> {}" using spec1 by blast
  then have "l \<notin> fst ` set (get_unused_layers (metadata s1))"
    using unused_unreferenced [OF srv_okD(2) [OF ok1], of l] by force
  then show "sview (storage_state s') l = sview (storage_state s) l"
    using spec1 spec2 l s' by simp
qed

lemma srv_ok_store:
  assumes ok: "srv_ok sinv sview valid digest s" and v: "valid (digest d)"
    and put: "st_put st (digest d) d (storage_state s) = (Inr p, x)"
    and m: "md_ok m" "\<And>h. map_of (cache_entries m) h \<noteq> None \<Longrightarrow> valid h" "\<And>l. layer_exists m l \<Longrightarrow> valid l"
  shows "srv_ok sinv sview valid digest (s\<lparr>storage_state := x, metadata := m\<rparr>) \<and> sview x (digest d) \<noteq> None"
proof -
  have inv: "sinv x" using put_inv [OF srv_okD(1) [OF ok] v, of d] put by simp
  have view: "sview x = (sview (storage_state s))(digest d \<mapsto> (case sview (storage_state s) (digest d) of None \<Rightarrow> d | Some d0 \<Rightarrow> d0))"
    using put_ok [OF srv_okD(1) [OF ok] v put] .
  have cas: "digest e = g" if "sview x g = Some e" for g e
  proof (cases "g = digest d")
    case True
    then show ?thesis
      using that srv_okD(5) [OF ok, of g e] unfolding view by (cases "sview (storage_state s) (digest d)") simp_all
  next
    case False
    then show ?thesis using that srv_okD(5) [OF ok, of g e] unfolding view by simp
  qed
  have "srv_ok sinv sview valid digest (s\<lparr>storage_state := x, metadata := m\<rparr>)"
    unfolding srv_ok_def
  proof (intro conjI allI impI)
    fix g e assume "sview (storage_state (s\<lparr>storage_state := x, metadata := m\<rparr>)) g = Some e"
    then show "digest e = g" by (intro cas) simp
  qed (use inv m in simp_all)
  then show ?thesis unfolding view by simp
qed

lemma srv_put_artifact_ok:
  assumes ok: "srv_ok sinv sview valid (env_blake3 env) s" and v: "\<And>d. valid (env_blake3 env d)"
    and run: "srv_put_artifact st env h d s = ((c, b), s')" and c: "c \<noteq> INTERNAL_SERVER_ERROR"
  shows "srv_ok sinv sview valid (env_blake3 env) s'
    \<and> (c = CREATED \<longleftrightarrow> env_blake3 env d = h) \<and> (c = CREATED \<longrightarrow> sview (storage_state s') h \<noteq> None)"
proof (cases "env_blake3 env d = h")
  case True
  let ?ins = "\<lambda>p. md_insert (env_now env) h p (of_nat (length d)) (metadata s)"
  obtain r x where put: "st_put st h d (storage_state s) = (r, x)" by (rule prod.exhaust)
  obtain p where p: "r = Inr p" using run c True put by (cases r) (auto simp: srv_put_artifact_def on_storage_apply)
  have c': "c = CREATED" and s': "s' = s\<lparr>storage_state := x, metadata := snd (?ins p)\<rparr>"
    using run c True put p
    by (auto simp: srv_put_artifact_def on_storage_apply on_metadata_apply split: prod.splits sum.splits)
  have "valid k" if "map_of (cache_entries (snd (?ins p))) k \<noteq> None" for k
    using that srv_okD(3) [OF ok, of k] v [of d] True
    by (auto simp: md_insert_def map_of_upsert_entry split: if_splits simp del: not_None_eq)
  moreover have "layer_exists (snd (?ins p)) l = layer_exists (metadata s) l" for l
    by (simp add: md_insert_def layer_exists_def)
  ultimately show ?thesis
    using srv_ok_store [OF ok v, of d p x "snd (?ins p)"] put p True c' s' srv_okD(2,4) [OF ok] md_ok_insert by auto
next
  case False
  with run have "c = BAD_REQUEST" "s' = s" by (simp_all add: srv_put_artifact_def)
  with False ok show ?thesis by simp
qed

lemma srv_put_layer_ok:
  assumes ok: "srv_ok sinv sview valid (env_blake3 env) s" and v: "\<And>d. valid (env_blake3 env d)"
    and run: "srv_put_layer st env h d s = ((c, b), s')" and c: "c \<noteq> INTERNAL_SERVER_ERROR"
  shows "srv_ok sinv sview valid (env_blake3 env) s'
    \<and> (c = CREATED \<longleftrightarrow> env_blake3 env d = h) \<and> (c = CREATED \<longrightarrow> sview (storage_state s') h \<noteq> None)"
proof (cases "env_blake3 env d = h")
  case True
  let ?ins = "\<lambda>p. insert_layer (env_now env) h p (of_nat (length d)) (metadata s)"
  obtain r x where put: "st_put st h d (storage_state s) = (r, x)" by (rule prod.exhaust)
  obtain p where p: "r = Inr p" using run c True put by (cases r) (auto simp: srv_put_layer_def on_storage_apply)
  have c': "c = CREATED" and s': "s' = s\<lparr>storage_state := x, metadata := snd (?ins p)\<rparr>"
    using run c True put p
    by (auto simp: srv_put_layer_def on_storage_apply on_metadata_apply split: prod.splits sum.splits)
  have "valid l" if "layer_exists (snd (?ins p)) l" for l
    using that srv_okD(4) [OF ok, of l] v [of d] True
    by (auto simp: insert_layer_def layer_exists_def update_conv' split: if_splits option.splits)
  moreover have "cache_entries (snd (?ins p)) = cache_entries (metadata s)"
    by (simp add: insert_layer_def)
  ultimately show ?thesis
    using srv_ok_store [OF ok v, of d p x "snd (?ins p)"] put p True c' s' srv_okD(2,3) [OF ok] md_ok_insert_layer by auto
next
  case False
  with run have "c = BAD_REQUEST" "s' = s" by (simp_all add: srv_put_layer_def)
  with False ok show ?thesis by simp
qed

lemma srv_register_ok:
  assumes ok: "srv_ok sinv sview valid digest s" and v: "valid h"
    and run: "srv_register_node_layers env h ls n s = (r, s')"
  shows "srv_ok sinv sview valid digest s'"
proof -
  let ?m = "snd (insert_layered_node (env_now env) h n ls (metadata s))"
  have s': "s' = s\<lparr>metadata := ?m\<rparr>"
    using run by (auto simp: srv_register_node_layers_def on_metadata_apply split: prod.splits sum.splits)
  have m: "?m = metadata s \<or> insert_layered_node (env_now env) h n ls (metadata s) = (Inr (), ?m)"
    by (auto simp: insert_layered_node_def Let_def split: sum.splits)
  have "layer_exists ?m l = layer_exists (metadata s) l" for l
    using m register_get_layers(3) [of "env_now env" h n ls "metadata s" ?m l]
    by (cases "map_of (cache_layers (metadata s)) l") (auto simp: layer_exists_def)
  moreover have "map_of (cache_entries ?m) k \<noteq> None \<Longrightarrow> k = h \<or> map_of (cache_entries (metadata s)) k \<noteq> None" for k
    using m register_get_layers(5) [of "env_now env" h n ls "metadata s" ?m k] by auto
  ultimately show ?thesis
    unfolding s' using v srv_okD [OF ok] md_ok_insert_layered_node [OF srv_okD(2) [OF ok]]
    by (intro srv_ok_frame [OF ok]) auto
qed

lemma route_keeps_ok:
  assumes ok: "srv_ok sinv sview valid (env_blake3 env) s" and v: "\<And>d. valid (env_blake3 env d)"
    and wf: "well_formed valid req"
    and run: "route st env req s = ((c, b), s')" and c: "c \<noteq> INTERNAL_SERVER_ERROR"
  shows "srv_ok sinv sview valid (env_blake3 env) s'"
proof (cases req)
  case (Head_cache h)
  then have "s' = s \<or> s' = s\<lparr>metadata := touch (env_now env) h (metadata s)\<rparr>"
    using run by (auto simp: route_def srv_check_cache_def split: if_splits)
  moreover have "srv_ok sinv sview valid (env_blake3 env) (s\<lparr>metadata := touch (env_now env) h (metadata s)\<rparr>)"
    using srv_okD(2-4) [OF ok]
    by (intro srv_ok_frame [OF ok]) (simp_all add: md_ok_touch entries_touch layer_exists_def touch_def [of _ _ "metadata s", THEN arg_cong [of _ _ cache_layers]])
  ultimately show ?thesis using ok by auto
next
  case (Get_cache h)
  let ?s = "s\<lparr>storage_state := snd (st_get st h (storage_state s))\<rparr>"
  have ok': "srv_ok sinv sview valid (env_blake3 env) ?s"
    using srv_get_ok [OF ok] wf Get_cache by simp
  have "s' = ?s \<or> s' = ?s\<lparr>metadata := touch (env_now env) h (metadata s)\<rparr>"
    using run Get_cache by (auto simp: route_def srv_get_artifact_def on_storage_apply split: prod.splits sum.splits option.splits)
  moreover have "srv_ok sinv sview valid (env_blake3 env) (?s\<lparr>metadata := touch (env_now env) h (metadata s)\<rparr>)"
    using srv_okD(2-4) [OF ok]
    by (intro srv_ok_frame [OF ok']) (simp_all add: md_ok_touch entries_touch layer_exists_def touch_def [of _ _ "metadata s", THEN arg_cong [of _ _ cache_layers]])
  ultimately show ?thesis using ok' by auto
next
  case (Put_cache h d)
  then show ?thesis using srv_put_artifact_ok [OF ok v _ c] run by (simp add: route_def)
next
  case (Get_layer h)
  then have "s' = s\<lparr>storage_state := snd (st_get st h (storage_state s))\<rparr>"
    using run by (auto simp: route_def srv_get_layer_def on_storage_apply split: prod.splits sum.splits option.splits)
  then show ?thesis using srv_get_ok [OF ok] wf Get_layer by simp
next
  case (Put_layer h d)
  then show ?thesis using srv_put_layer_ok [OF ok v _ c] run by (simp add: route_def)
next
  case (Post_node_layers h ls n)
  then show ?thesis using srv_register_ok [OF ok] wf run by (simp add: route_def)
next
  case (Post_gc days)
  then show ?thesis using gc_keeps_live(1) [OF ok] run by (simp add: route_def)
next
  case (Post_analytics d)
  let ?m = "snd (record_build (env_now env) (ad_dirty d) (ad_cached d) (ad_duration_ms d) (metadata s))"
  have "storage_state s' = storage_state s \<and> metadata s' = ?m"
    using run Post_analytics
    by (auto simp: route_def srv_report_analytics_def on_metadata_apply Let_def split: option.splits)
  moreover have "cache_entries ?m = cache_entries (metadata s)" "layer_exists ?m = layer_exists (metadata s)"
    by (simp_all add: record_build_def Let_def fun_eq_iff layer_exists_def)
  ultimately show ?thesis
    using srv_okD(2-4) [OF ok] md_ok_record_build by (intro srv_ok_frame [OF ok]) simp_all
qed (use run ok in \<open>auto simp: route_def srv_check_layer_def srv_get_node_layers_def srv_receive_build_event_def
      srv_register_dag_def srv_get_dag_def srv_get_analytics_def srv_get_layer_stats_def srv_ok_def
      split: if_splits option.splits sum.splits err.splits\<close>)

end

section \<open>Runs of the server\<close>

text \<open>A server on the local backend, started on a data directory without blobs, and the states it can
  reach by well-formed requests none of which ends in an internal error. The environment (clock and
  cut-off) may change between requests; the digest does not.\<close>

inductive served :: "string \<Rightarrow> (bytes \<Rightarrow> string) \<Rightarrow> fs app_state \<Rightarrow> bool" for base digest where
  served_start: "metadata s = new_store True \<Longrightarrow> local_inv base (storage_state s) \<Longrightarrow>
    local_view base (storage_state s) = (\<lambda>_. None) \<Longrightarrow> served base digest s"
| served_step: "served base digest s \<Longrightarrow> env_blake3 env = digest \<Longrightarrow> well_formed blob_name req \<Longrightarrow>
    route (local_storage base) env req s = ((c, b), s') \<Longrightarrow> c \<noteq> INTERNAL_SERVER_ERROR \<Longrightarrow> served base digest s'"

inductive_cases served_cases: "served base digest s"

abbreviation local_srv_ok :: "string \<Rightarrow> (bytes \<Rightarrow> string) \<Rightarrow> fs app_state \<Rightarrow> bool" where
  "local_srv_ok base \<equiv> srv_ok (local_inv base) (local_view base) blob_name"

lemma local_srv_ok_start:
  "metadata s = new_store True \<Longrightarrow> local_inv base (storage_state s) \<Longrightarrow>
    local_view base (storage_state s) = (\<lambda>_. None) \<Longrightarrow> local_srv_ok base digest s"
  using md_ok_new by (simp add: srv_ok_def new_store_def layer_exists_def)

lemma served_ok:
  assumes "served base digest s" and "\<And>d. blob_name (digest d)"
  shows "local_srv_ok base digest s"
  using assms(1)
proof induction
  case (served_start s)
  then show ?case by (rule local_srv_ok_start)
next
  case (served_step s env req c b s')
  then show ?case using ls.route_keeps_ok [of base env s req c b s'] assms(2) by auto
qed

section \<open>Properties\<close>

text \<open>C1. The server is content addressed: in every state it reaches by requests that did not end in an
  internal error, an artifact or layer it serves for a hash has exactly this digest, whatever was
  uploaded, collected or registered before.\<close>

theorem server_serves_only_matching_content:
  assumes "\<And>d. blob_name (digest d)" and "served base digest s" and "env_blake3 env = digest" and "blob_name h"
    and "route (local_storage base) env req s = ((OK, Blob d), s')" and "req = Get_cache h \<or> req = Get_layer h"
  shows "digest d = h"
proof -
  have ok: "local_srv_ok base digest s" using assms(1,2) by (intro served_ok)
  obtain r x where get: "st_get (local_storage base) h (storage_state s) = (r, x)" by (rule prod.exhaust)
  have "r = Inr (Some d)"
    using assms(5,6) get
    by (auto simp: route_def srv_get_artifact_def srv_get_layer_def on_storage_apply split: sum.splits option.splits)
  then have "local_view base (storage_state s) h = Some d"
    using ls.get_ok [OF srv_okD(1) [OF ok] assms(4), of "Some d" x] get by simp
  then show ?thesis by (rule srv_okD(5) [OF ok])
qed

text \<open>The witnesses use a digest that turns each byte into one hexadecimal-like letter and pads to four.\<close>

definition toy_digest :: "bytes \<Rightarrow> string" where
  "toy_digest d = map (\<lambda>b. if b = 0 then CHR ''0'' else CHR ''1'') d @ ''beef''"

lemma toy_digest_blob_name: "blob_name (toy_digest d)"
  by (auto simp: blob_name_def toy_digest_def list_all_iff)

definition toy_env :: server_env where
  "toy_env = \<lparr>env_blake3 = toy_digest, env_now = ''2024'', env_cutoff = (\<lambda>_. ''2000'')\<rparr>"

definition toy_server :: "fs app_state" where
  "toy_server = \<lparr>metadata = new_store True, storage_state = fresh_fs, webhook_url = None, tx_events = [],
     current_dag = None, notifications = []\<rparr>"

lemma toy_server_inv: "local_inv ''/srv'' fresh_fs" "local_view ''/srv'' fresh_fs = (\<lambda>_. None)"
  by (auto simp: local_inv_def fresh_fs_def sharded_path_append append_eq_Cons_conv blob_name_def local_view_def)

lemma toy_server_served: "served ''/srv'' toy_digest toy_server"
  by (rule served_start) (simp_all add: toy_server_def toy_server_inv)

lemma toy_upload:
  "\<exists>s. route (local_storage ''/srv'') toy_env (Put_cache ''01beef'' [0, 1]) toy_server = ((CREATED, Empty), s)
     \<and> map_of (files (storage_state s)) ''/srv/01/be/01beef'' = Some [0, 1] \<and> faults (storage_state s) = []"
proof -
  have "local_put ''/srv'' ''01beef'' [0, 1] fresh_fs = (Inr (get_sharded_path ''/srv'' ''01beef''),
     fresh_fs\<lparr>dirs := dirs fresh_fs @ ancestors (shard_dir ''/srv'' ''01beef''),
       files := AList.update (get_sharded_path ''/srv'' ''01beef'') [0, 1] (files fresh_fs)\<rparr>)"
    by (rule local_put_writes [OF toy_server_inv(1)])
       (simp_all add: blob_name_def local_view_def fresh_fs_def list_ex_iff is_file_def)
  moreover have "get_sharded_path ''/srv'' ''01beef'' = ''/srv/01/be/01beef''" by code_simp
  ultimately show ?thesis
    by (simp add: route_def srv_put_artifact_def toy_env_def toy_digest_def toy_server_def local_storage_def
        on_storage_apply on_metadata_apply md_insert_def fits_i64_def fresh_fs_def)
qed

theorem server_serves_only_matching_content_witness:
  "\<exists>s s'. served ''/srv'' toy_digest s
     \<and> route (local_storage ''/srv'') toy_env (Get_cache ''01beef'') s = ((OK, Blob [0, 1]), s') \<and> toy_digest [0, 1] = ''01beef''"
proof -
  obtain s where up: "route (local_storage ''/srv'') toy_env (Put_cache ''01beef'' [0, 1]) toy_server = ((CREATED, Empty), s)"
    "map_of (files (storage_state s)) ''/srv/01/be/01beef'' = Some [0, 1]" "faults (storage_state s) = []"
    using toy_upload by blast
  have srv: "served ''/srv'' toy_digest s"
    by (rule served_step [OF toy_server_served _ _ up(1)]) (simp_all add: toy_env_def)
  have path: "get_sharded_path ''/srv'' ''01beef'' = ''/srv/01/be/01beef''" by code_simp
  have "local_get ''/srv'' ''01beef'' (storage_state s) = (Inr (Some [0, 1]), storage_state s)"
    using read_file_present [OF up(3,2)] up(2) by (simp add: local_get_def path path_exists_def is_file_def)
  then have get: "route (local_storage ''/srv'') toy_env (Get_cache ''01beef'') s
      = ((OK, Blob [0, 1]), s\<lparr>metadata := touch ''2024'' ''01beef'' (metadata s)\<rparr>)"
    by (simp add: route_def srv_get_artifact_def on_storage_apply local_storage_def toy_env_def)
  have "toy_digest [0, 1] = ''01beef''"
    by (rule server_serves_only_matching_content [OF toy_digest_blob_name srv _ _ get])
       (simp_all add: toy_env_def blob_name_def)
  with srv get show ?thesis by blast
qed


definition live_store :: metadata_store where
  "live_store = snd (insert_layered_node ''2024'' ''node'' 2 [''01beef'']
     (snd (insert_layer ''2024'' ''01beef'' ''p'' 2 (new_store True))))"

definition live_server :: "fs app_state" where
  "live_server = toy_server\<lparr>metadata := live_store,
     storage_state := fresh_fs\<lparr>files := [(''/srv/01/be/01beef'', [0, 1])]\<rparr>\<rparr>"

lemma live_store_rows:
  "cache_entries live_store = [(''node'', \<lparr>artifact_path = [], row_size = 2, created_at = ''2024'', last_used = ''2024'',
      hit_count = 0, is_layered = True\<rparr>)]"
  "node_to_layers live_store = [((''node'', 0), ''01beef'')]"
  "map fst (cache_layers live_store) = [''01beef'']" "md_ok live_store"
proof -
  show "md_ok live_store" unfolding live_store_def
    by (intro md_ok_insert_layered_node md_ok_insert_layer md_ok_new)
qed (simp_all add: live_store_def insert_layered_node_def insert_layer_def new_store_def fits_i64_def upsert_entry_def bump_ref_def)

lemma live_server_ok: "local_srv_ok ''/srv'' toy_digest live_server"
proof -
  have path: "get_sharded_path ''/srv'' ''01beef'' = ''/srv/01/be/01beef''" by code_simp
  have "local_view ''/srv'' (storage_state live_server) h = (if h = ''01beef'' then Some [0, 1] else None)" for h
    using sharded_path_inj [of h "''01beef''" "''/srv''"]
    by (auto simp: local_view_def live_server_def path blob_name_def)
  moreover have "local_inv ''/srv'' (storage_state live_server)"
    using toy_server_inv(1) by (simp add: local_inv_def live_server_def)
  moreover have "map_of (cache_layers live_store) l \<noteq> None \<longleftrightarrow> l = ''01beef''" for l
    using live_store_rows(3) by (metis map_of_eq_None_iff image_set list.set(1,2) singleton_iff)
  ultimately show ?thesis
    by (simp add: srv_ok_def live_server_def live_store_rows layer_exists_def toy_digest_def blob_name_def)
qed


text \<open>Once deleted a blob stays deleted for the rest of the sweep.\<close>

lemma delete_None:
  assumes "local_inv base x" and "blob_name h" and "local_view base x l = None"
  shows "local_view base (snd (local_delete base h x)) l = None"
  using ls.delete_shrinks [OF assms(1,2), of l] assms(3) by (auto simp: local_storage_def intro: ccontr)

lemma local_delete_faults: "faults x = [] \<Longrightarrow> faults (snd (local_delete base h x)) = []"
  by (simp add: local_delete_def Let_def remove_file_def)

lemma local_delete_removes:
  assumes "local_inv base x" and "blob_name h" and "faults x = []"
  shows "local_view base (snd (local_delete base h x)) h = None"
proof -
  have "fst (local_delete base h x) = Inr ()"
    using local_path_exists [OF assms(1,2)] assms(2,3)
    by (auto simp: local_delete_def Let_def remove_file_def is_file_def local_view_def)
  then show ?thesis
    using local_delete_ok [OF assms(1,2), of "()" "snd (local_delete base h x)"] by (cases "local_delete base h x") simp
qed

lemma gc_layers_None:
  assumes "local_srv_ok base digest s" and "list_all (\<lambda>(h, p). blob_name h) ls" and "local_view base (storage_state s) l = None"
  shows "local_view base (storage_state (snd (gc_layers (local_storage base) ls k s))) l = None"
  using assms
proof (induction ls arbitrary: k s)
  case (Cons x ls)
  obtain h p where x: "x = (h, p)" by (rule prod.exhaust)
  let ?s = "snd (gc_layers (local_storage base) [x] k s)"
  have "local_srv_ok base digest ?s"
    using ls.gc_layers_spec [OF Cons.prems(1), of "[x]" k "fst (gc_layers (local_storage base) [x] k s)" ?s] Cons.prems(2) by simp
  moreover have "local_view base (storage_state ?s) l = None"
    using delete_None [OF srv_okD(1) [OF Cons.prems(1)], of h l] Cons.prems(2,3)
    by (simp add: x on_storage_apply on_metadata_apply local_storage_def)
  ultimately show ?case
    using Cons.IH [of ?s "k + 1"] Cons.prems(2) by (simp add: x)
qed simp

lemma gc_entries_removes:
  assumes "local_srv_ok base digest s" and "faults (storage_state s) = []"
    and "local_view base (storage_state s) l = None \<or>
      l \<in> set hs \<and> (\<exists>row. map_of (cache_entries (metadata s)) l = Some row \<and> hit_count row < 2 ^ 32)"
  shows "local_view base (storage_state (snd (gc_entries (local_storage base) hs k s))) l = None"
  using assms
proof (induction hs arbitrary: k s)
  case (Cons h hs)
  show ?case
  proof (cases "\<exists>e. md_get (metadata s) h = Inr (Some e)")
    case True
    then have h: "map_of (cache_entries (metadata s)) h \<noteq> None" by (auto simp: md_get_def split: option.splits)
    let ?s = "s\<lparr>storage_state := snd (local_delete base h (storage_state s)), metadata := snd (md_delete h (metadata s))\<rparr>"
    have v: "blob_name h" using srv_okD(3) [OF Cons.prems(1) h] .
    have step: "gc_entries (local_storage base) (h # hs) k s = gc_entries (local_storage base) hs (k + 1) ?s"
      using True by (auto simp: on_storage_apply on_metadata_apply local_storage_def)
    have one: "gc_entries (local_storage base) [h] 0 s = (1, ?s)"
      using True by (auto simp: on_storage_apply on_metadata_apply local_storage_def)
    have ok: "local_srv_ok base digest ?s" using ls.gc_entries_spec [OF Cons.prems(1) one] by blast
    have fa: "faults (storage_state ?s) = []" using local_delete_faults [OF Cons.prems(2)] by simp
    have "local_view base (storage_state ?s) l = None \<or>
      l \<in> set hs \<and> (\<exists>row. map_of (cache_entries (metadata ?s)) l = Some row \<and> hit_count row < 2 ^ 32)"
    proof (cases "l = h")
      case True
      then show ?thesis using local_delete_removes [OF srv_okD(1) [OF Cons.prems(1)] v Cons.prems(2)] by simp
    next
      case False
      then show ?thesis
        using Cons.prems(3) delete_None [OF srv_okD(1) [OF Cons.prems(1)] v, of l] by (auto simp: md_delete_def delete_conv')
    qed
    then show ?thesis using Cons.IH [OF ok fa] step by simp
  next
    case False
    then have step: "gc_entries (local_storage base) (h # hs) k s = gc_entries (local_storage base) hs k s"
      by (auto simp: md_get_def split: option.splits if_splits)
    have "local_view base (storage_state s) l = None \<or>
      l \<in> set hs \<and> (\<exists>row. map_of (cache_entries (metadata s)) l = Some row \<and> hit_count row < 2 ^ 32)"
      using Cons.prems(3) False by (auto simp: md_get_def)
    then show ?thesis using Cons.IH [OF Cons.prems(1,2)] step by simp
  qed
qed auto

text \<open>Artifacts and layers share one blob name space, and a sweep deletes by key: when an expired
  artifact has the hash of a layer that a live node uses, the sweep deletes the layer's blob although
  the node still lists it, so the layer can no longer be fetched.\<close>

theorem gc_deletes_shared_blob:
  assumes "local_srv_ok base digest s" and "faults (storage_state s) = []"
    and "route (local_storage base) env (Post_gc days) s = (r, s')"
    and "l \<in> set (get_old_entries (env_cutoff env) (metadata s) days)"
    and "map_of (cache_entries (metadata s)) l = Some row" and "hit_count row < 2 ^ 32"
    and "n \<notin> set (get_old_entries (env_cutoff env) (metadata s) days)"
    and "md_get_node_layers (metadata s) n = Some hs" and "l \<in> set hs"
  shows "md_get_node_layers (metadata s') n = Some hs \<and> fst (route (local_storage base) env (Get_layer l) s') = (NOT_FOUND, Empty)"
proof -
  obtain k1 s1 where g1: "gc_entries (local_storage base) (get_old_entries (env_cutoff env) (metadata s) days) 0 s = (k1, s1)"
    by (rule prod.exhaust)
  have s': "s' = snd (gc_layers (local_storage base) (get_unused_layers (metadata s1)) 0 s1)"
    using assms(3) by (auto simp: route_def srv_gc_cache_def g1 split: prod.splits)
  have v: "blob_name l" using srv_okD(3) [OF assms(1), of l] assms(5) by simp
  have "local_view base (storage_state s1) l = None"
    using gc_entries_removes [OF assms(1,2), of l "get_old_entries (env_cutoff env) (metadata s) days" 0] assms(4-6) g1 by simp
  moreover have ok1: "local_srv_ok base digest s1" using ls.gc_entries_spec [OF assms(1) g1] by blast
  moreover have "list_all (\<lambda>(h, p). blob_name h) (get_unused_layers (metadata s1))"
    using srv_okD(4) [OF ok1] by (force simp: list_all_iff get_unused_layers_def layer_exists_def map_of_eq_None_iff)
  ultimately have gone: "local_view base (storage_state s') l = None"
    unfolding s' by (intro gc_layers_None)
  have ok': "local_srv_ok base digest s'" and keep: "md_get_node_layers (metadata s') n = Some hs"
    using ls.gc_keeps_live [OF assms(1), of env days r s'] assms(3,7,8) by (simp_all add: route_def)
  have "local_get base l (storage_state s') = (Inr None, storage_state s')"
    using local_path_exists [OF srv_okD(1) [OF ok'] v] gone by (simp add: local_get_def)
  then show ?thesis
    using keep by (simp add: route_def srv_get_layer_def on_storage_apply local_storage_def)
qed

definition shared_server :: "fs app_state" where
  "shared_server = live_server\<lparr>metadata := snd (md_insert ''1990'' ''01beef'' ''p'' 2 live_store)\<rparr>"

theorem gc_deletes_shared_blob_witness:
  "fst (route (local_storage ''/srv'') toy_env (Get_layer ''01beef'')
     (snd (route (local_storage ''/srv'') toy_env (Post_gc 30) shared_server))) = (NOT_FOUND, Empty)"
proof -
  have rows: "cache_entries (metadata shared_server) = [(''node'', \<lparr>artifact_path = [], row_size = 2, created_at = ''2024'',
      last_used = ''2024'', hit_count = 0, is_layered = True\<rparr>),
     (''01beef'', \<lparr>artifact_path = ''p'', row_size = 2, created_at = ''1990'', last_used = ''1990'', hit_count = 0, is_layered = False\<rparr>)]"
    "node_to_layers (metadata shared_server) = [((''node'', 0), ''01beef'')]"
    "layer_exists (metadata shared_server) = layer_exists live_store"
    by (simp_all add: shared_server_def md_insert_def fits_i64_def live_store_rows upsert_entry_def layer_exists_def fun_eq_iff)
  have ok: "local_srv_ok ''/srv'' toy_digest shared_server"
  proof (rule srv_ok_frame [OF live_server_ok])
    show "md_ok (metadata shared_server)"
      unfolding shared_server_def using md_ok_insert [OF live_store_rows(4)] by simp
    show "blob_name h" if "map_of (cache_entries (metadata shared_server)) h \<noteq> None" for h
      using that by (auto simp: rows blob_name_def split: if_splits)
    show "blob_name l" if "layer_exists (metadata shared_server) l" for l
      using that srv_okD(4) [OF live_server_ok, of l] by (simp add: rows live_server_def)
  qed (simp add: shared_server_def)
  have old: "get_old_entries (env_cutoff toy_env) (metadata shared_server) 30 = [''01beef'']"
    by (simp add: get_old_entries_def rows toy_env_def)
  have ls: "md_get_node_layers (metadata shared_server) ''node'' = Some [''01beef'']"
    by (simp add: md_get_node_layers_def layer_rows_def rows)
  have fa: "faults (storage_state shared_server) = []"
    by (simp add: shared_server_def live_server_def fresh_fs_def)
  show ?thesis
    using gc_deletes_shared_blob [where l = "''01beef''" and n = "''node''" and hs = "[''01beef'']",
        OF ok fa prod.collapse [symmetric]] old ls rows(1) by simp
qed

end
