(* ===== verification/Local_Cache.thy ===== *)
theory Local_Cache
  imports Files
begin

text \<open>
  \<open>src/src/cache/local.rs\<close>: the on-disk cache of a build machine, one file per key and an index
  file. The state is the file system together with the index held in memory; \<open>to_json\<close> and
  \<open>from_json\<close> are \<open>serde_json\<close>'s printing and parsing of the index and \<open>now\<close> the
  clock, all parameters. A lock is never poisoned: no code panics while it holds one.
\<close>

section \<open>State\<close>

record cache_index_entry =
  cache_key :: string
  ie_created_at :: int
  ie_artifact_path :: string
  ie_size :: u64

type_synonym index = "(string, cache_index_entry) hashmap"

record local_cache =
  lc_fs :: fs
  cache_dir :: string
  store :: index
  index_path :: string

section \<open>Operations\<close>

definition get_cache_dir :: "(string \<Rightarrow> string option) \<Rightarrow> string result" where
  "get_cache_dir var =
     (case var ''MEMOBUILD_CACHE_DIR'' of
        Some dir \<Rightarrow> Inr dir
      | None \<Rightarrow>
          (case var ''HOME'' of
             None \<Rightarrow> Inl (Err ''HOME environment variable not set'')
           | Some home \<Rightarrow> Inr (path_join (path_join home ''.memobuild'') ''cache'')))"

definition load_index :: "(bytes \<Rightarrow> index option) \<Rightarrow> string \<Rightarrow> (fs, index) io" where
  "load_index from_json path s =
     (if \<not> path_exists s path then (Inr [], s)
      else bind_io (read_file path) (\<lambda>content. ret (case from_json content of Some t \<Rightarrow> t | None \<Rightarrow> [])) s)"

definition lc_new :: "(bytes \<Rightarrow> index option) \<Rightarrow> (string \<Rightarrow> string option) \<Rightarrow> fs \<Rightarrow> err + local_cache" where
  "lc_new from_json var s =
     (case get_cache_dir var of
        Inl e \<Rightarrow> Inl e
      | Inr dir \<Rightarrow>
          (case bind_io (create_dir_all dir) (\<lambda>_. load_index from_json (path_join dir ''index.json'')) s of
             (Inl e, _) \<Rightarrow> Inl e
           | (Inr t, s') \<Rightarrow>
               Inr \<lparr>lc_fs = s', cache_dir = dir, store = t, index_path = path_join dir ''index.json''\<rparr>))"

definition on_fs :: "(fs, 'a) io \<Rightarrow> (local_cache, 'a) io" where
  "on_fs = on_part lc_fs (\<lambda>f c. c\<lparr>lc_fs := f\<rparr>)"

definition save_index :: "(index \<Rightarrow> bytes option) \<Rightarrow> (local_cache, unit) io" where
  "save_index to_json c =
     (case to_json (store c) of
        None \<Rightarrow> (Inl (Err ''to_string_pretty''), c)
      | Some content \<Rightarrow> on_fs (write_file (index_path c) content) c)"

definition get_data :: "string \<Rightarrow> (local_cache, bytes option) io" where
  "get_data key c =
     (case map_of (store c) key of
        Some entry \<Rightarrow>
          (let path = path_join (cache_dir c) (ie_artifact_path entry) in
           if path_exists (lc_fs c) path then on_fs (bind_io (read_file path) (\<lambda>d. ret (Some d))) c
           else (Inr None, c))
      | None \<Rightarrow> (Inr None, c))"

definition artifact_filename :: "string \<Rightarrow> string" where
  "artifact_filename key = key @ ''.bin''"

definition lc_put :: "(index \<Rightarrow> bytes option) \<Rightarrow> int \<Rightarrow> string \<Rightarrow> bytes \<Rightarrow> (local_cache, unit) io" where
  "lc_put to_json now key d c =
     (let full_path = path_join (cache_dir c) (artifact_filename key);
          entry = \<lparr>cache_key = key, ie_created_at = now, ie_artifact_path = artifact_filename key,
                   ie_size = of_nat (length d)\<rparr>
      in bind_io (on_fs (write_file full_path d))
           (\<lambda>_ c1. save_index to_json (c1\<lparr>store := AList.update key entry (store c1)\<rparr>)) c)"

definition lc_exists :: "local_cache \<Rightarrow> string \<Rightarrow> bool" where
  "lc_exists c key \<longleftrightarrow> map_of (store c) key \<noteq> None"

section \<open>Invariant and view\<close>

text \<open>The keys the builder uses are digests: no separator and nothing that leaves the directory.\<close>

definition key_ok :: "string \<Rightarrow> bool" where
  "key_ok k \<longleftrightarrow> k \<noteq> [] \<and> CHR ''/'' \<notin> set k"

definition lc_path :: "local_cache \<Rightarrow> string \<Rightarrow> string" where
  "lc_path c k = path_join (cache_dir c) (artifact_filename k)"

text \<open>Every entry names its own file, no such file is a directory or the index itself.\<close>

definition lc_ok :: "local_cache \<Rightarrow> bool" where
  "lc_ok c \<longleftrightarrow>
     (\<forall>k e. map_of (store c) k = Some e \<longrightarrow> key_ok k \<and> ie_artifact_path e = artifact_filename k)
     \<and> (\<forall>k. key_ok k \<longrightarrow> \<not> is_dir (lc_fs c) (lc_path c k))
     \<and> index_path c = path_join (cache_dir c) ''index.json''"

definition lc_view :: "local_cache \<Rightarrow> string \<Rightarrow> bytes option" where
  "lc_view c k = (if map_of (store c) k = None then None else map_of (files (lc_fs c)) (lc_path c k))"

lemma filename_ok: "key_ok k \<Longrightarrow> file_name_ok (artifact_filename k)"
  by (auto simp: key_ok_def file_name_ok_def artifact_filename_def)

lemma lc_path_inj: "key_ok j \<Longrightarrow> key_ok k \<Longrightarrow> lc_path c j = lc_path c k \<Longrightarrow> j = k"
  using last_component [OF filename_ok filename_ok, of j k "cache_dir c"]
  by (simp add: lc_path_def artifact_filename_def)

lemma lc_path_ne: "key_ok k \<Longrightarrow> lc_path c k \<noteq> []"
  using path_join_append [OF filename_ok, of k "cache_dir c"] by (auto simp: lc_path_def artifact_filename_def)

lemma lc_path_not_index: "key_ok k \<Longrightarrow> lc_path c k \<noteq> path_join (cache_dir c) ''index.json''"
proof
  assume k: "key_ok k" and "lc_path c k = path_join (cache_dir c) ''index.json''"
  moreover have "file_name_ok ''index.json''" by (simp add: file_name_ok_def)
  ultimately have "artifact_filename k = ''index.json''"
    unfolding lc_path_def using last_component [OF filename_ok [OF k]] by blast
  then have "last (butlast (artifact_filename k)) = last (butlast ''index.json'')" by simp
  then show False by (simp add: artifact_filename_def butlast_append)
qed

lemma lc_path_fs [simp]: "lc_path (c\<lparr>lc_fs := f\<rparr>) = lc_path c" "lc_path (c\<lparr>store := t\<rparr>) = lc_path c"
  by (simp_all add: lc_path_def fun_eq_iff)

lemma on_fs_cong: "on_fs m c = (r, c') \<longleftrightarrow> (\<exists>f. m (lc_fs c) = (r, f) \<and> c' = c\<lparr>lc_fs := f\<rparr>)"
  by (simp add: on_fs_def on_part_eq_iff)

text \<open>\<open>put\<close> in steps: the blob is written, the index updated in memory, then saved.\<close>

lemma lc_put_cases:
  assumes "lc_put to_json now k d c = (r, c')"
  obtains (blob) e f where "r = Inl e" "write_file (lc_path c k) d (lc_fs c) = (Inl e, f)" "c' = c\<lparr>lc_fs := f\<rparr>"
  | (saved) f f' entry where "write_file (lc_path c k) d (lc_fs c) = (Inr (), f)"
      "entry = \<lparr>cache_key = k, ie_created_at = now, ie_artifact_path = artifact_filename k, ie_size = of_nat (length d)\<rparr>"
      "c' = c\<lparr>lc_fs := f', store := AList.update k entry (store c)\<rparr>"
      "f' = f \<or> (\<exists>j. f' = snd (write_file (index_path c) j f))"
proof -
  define entry where
    "entry = \<lparr>cache_key = k, ie_created_at = now, ie_artifact_path = artifact_filename k, ie_size = of_nat (length d)\<rparr>"
  have put: "lc_put to_json now k d c = bind_io (on_fs (write_file (lc_path c k) d))
       (\<lambda>_ c1. save_index to_json (c1\<lparr>store := AList.update k entry (store c1)\<rparr>)) c"
    by (simp add: lc_put_def lc_path_def entry_def Let_def)
  obtain w f where w: "write_file (lc_path c k) d (lc_fs c) = (w, f)" by (rule prod.exhaust)
  show thesis
  proof (cases w)
    case (Inl e)
    with w assms blob [of e f] show thesis by (simp add: put on_fs_def on_part_def bind_io_def)
  next
    case (Inr u)
    let ?c1 = "c\<lparr>lc_fs := f, store := AList.update k entry (store c)\<rparr>"
    have "(r, c') = save_index to_json ?c1"
      using assms w Inr by (simp add: put on_fs_def on_part_def bind_io_def)
    then have "c' = ?c1 \<or> (\<exists>j. c' = ?c1\<lparr>lc_fs := snd (write_file (index_path c) j f)\<rparr>)"
      by (auto simp: save_index_def on_fs_def on_part_apply split: option.splits)
    then show thesis
    proof (elim disjE exE)
      assume "c' = ?c1"
      then show thesis using saved [OF _ entry_def, of f f] w Inr by simp
    next
      fix j assume "c' = ?c1\<lparr>lc_fs := snd (write_file (index_path c) j f)\<rparr>"
      then show thesis using saved [OF _ entry_def, of f "snd (write_file (index_path c) j f)"] w Inr by auto
    qed
  qed
qed

lemma lc_put_view:
  assumes "lc_ok c" and "key_ok k" and "lc_put to_json now k d c = (r, c')"
  shows "lc_ok c'" and "r = Inr u \<Longrightarrow> lc_view c' = (lc_view c)(k \<mapsto> d)"
    and "j \<noteq> k \<Longrightarrow> lc_view c' j = lc_view c j" and "cache_dir c' = cache_dir c"
proof -
  have dirs_w: "is_dir (snd (write_file p x f)) q = is_dir f q" for p x f q
    by (simp add: is_dir_def)
  have path': "path_join (cache_dir c) (artifact_filename j) = lc_path c j" for j by (simp add: lc_path_def)
  have "lc_ok c' \<and> (r = Inr u \<longrightarrow> lc_view c' = (lc_view c)(k \<mapsto> d)) \<and> (\<forall>j. j \<noteq> k \<longrightarrow> lc_view c' j = lc_view c j)
      \<and> cache_dir c' = cache_dir c"
    using assms(3)
  proof (cases rule: lc_put_cases)
    case (blob e f)
    have "lc_path c j \<noteq> lc_path c k" if "j \<noteq> k" "key_ok j" for j using that assms(2) lc_path_inj by blast
    moreover have "is_dir f q = is_dir (lc_fs c) q" for q
      using dirs_w [of "lc_path c k" d "lc_fs c"] blob(2) by simp
    ultimately show ?thesis
      using blob assms(1) write_file_other [of _ "lc_path c k" d "lc_fs c"]
      by (auto simp: lc_ok_def lc_view_def)
  next
    case (saved f f' entry)
    have f: "map_of (files f) = (map_of (files (lc_fs c)))(lc_path c k \<mapsto> d)" "\<And>q. is_dir f q = is_dir (lc_fs c) q"
      using write_file_ok [OF saved(1)] dirs_w [of "lc_path c k" d "lc_fs c"] saved(1) by simp_all
    have f': "is_dir f' q = is_dir f q" "q \<noteq> index_path c \<Longrightarrow> map_of (files f') q = map_of (files f) q" for q
      using saved(4) write_file_other [of q "index_path c" _ f] by (auto simp: dirs_w)
    have blob: "map_of (files f') (lc_path c j) = ((map_of (files (lc_fs c)))(lc_path c k \<mapsto> d)) (lc_path c j)"
      if "key_ok j" for j
      using f' lc_path_not_index [OF that, of c] assms(1) f by (simp add: lc_ok_def)
    have keys: "key_ok j" if "map_of (store c) j \<noteq> None" for j
      using assms(1) that by (auto simp: lc_ok_def)
    have "lc_ok c'"
      using assms(1,2) saved(2) f' f unfolding saved(3) by (auto simp: lc_ok_def update_conv')
    moreover have "lc_view c' j = ((lc_view c)(k \<mapsto> d)) j" for j
    proof (cases "map_of (store c) j = None \<and> j \<noteq> k")
      case False
      then have "key_ok j" using keys assms(2) by blast
      then show ?thesis
        using False blob [of j] lc_path_inj [of j k c] assms(2) unfolding saved(3)
        by (auto simp: lc_view_def update_conv')
    qed (auto simp: lc_view_def saved(3) update_conv')
    ultimately show ?thesis by (auto simp: saved(3))
  qed
  then show "lc_ok c'" "r = Inr u \<Longrightarrow> lc_view c' = (lc_view c)(k \<mapsto> d)"
    "j \<noteq> k \<Longrightarrow> lc_view c' j = lc_view c j" "cache_dir c' = cache_dir c"
    by blast+
qed

lemma get_data_view:
  assumes "lc_ok c" and "get_data k c = (r, c')"
  shows "lc_ok c'" and "lc_view c' = lc_view c" and "r = Inr v \<Longrightarrow> v = lc_view c k"
proof -
  have *: "lc_ok c' \<and> lc_view c' = lc_view c \<and> (r = Inr v \<longrightarrow> v = lc_view c k)"
  proof (cases "map_of (store c) k")
    case None
    with assms show ?thesis by (auto simp: get_data_def lc_view_def)
  next
    case (Some e)
    then have p: "ie_artifact_path e = artifact_filename k" "key_ok k" "\<not> is_dir (lc_fs c) (lc_path c k)"
      using assms(1) by (auto simp: lc_ok_def)
    have ex: "path_exists (lc_fs c) (lc_path c k) \<longleftrightarrow> map_of (files (lc_fs c)) (lc_path c k) \<noteq> None"
      using p lc_path_ne by (auto simp: path_exists_def is_file_def)
    have get: "get_data k c = (if path_exists (lc_fs c) (lc_path c k)
        then on_fs (bind_io (read_file (lc_path c k)) (\<lambda>d. ret (Some d))) c else (Inr None, c))"
      using Some p(1) by (simp add: get_data_def lc_path_def Let_def)
    obtain w f where w: "read_file (lc_path c k) (lc_fs c) = (w, f)" by (rule prod.exhaust)
    have f: "files f = files (lc_fs c)" "dirs f = dirs (lc_fs c)"
      using read_file_frame [of "lc_path c k" "lc_fs c"] w by simp_all
    then have same: "lc_ok (c\<lparr>lc_fs := f\<rparr>) \<and> lc_view (c\<lparr>lc_fs := f\<rparr>) = lc_view c"
      using assms(1) by (auto simp: lc_ok_def lc_view_def fun_eq_iff is_dir_def)
    show ?thesis
    proof (cases "path_exists (lc_fs c) (lc_path c k)")
      case True
      then have "(r, c') = on_fs (bind_io (read_file (lc_path c k)) (\<lambda>d. ret (Some d))) c"
        using assms(2) get by simp
      then have "c' = c\<lparr>lc_fs := f\<rparr>" "r = (case w of Inl e \<Rightarrow> Inl e | Inr d \<Rightarrow> Inr (Some d))"
        by (auto simp: on_fs_def on_part_def bind_io_def w split: sum.splits)
      then show ?thesis
        using same read_file_ok [of "lc_path c k" "lc_fs c"] w Some by (auto simp: lc_view_def split: sum.splits)
    next
      case False
      with assms get ex Some show ?thesis by (auto simp: lc_view_def)
    qed
  qed
  then show "lc_ok c'" "lc_view c' = lc_view c" "r = Inr v \<Longrightarrow> v = lc_view c k" by blast+
qed

section \<open>Properties\<close>

text \<open>A cache whose directory exists, holds no file where a directory should be, and whose file
  system reports no fault.\<close>

definition lc_ready :: "local_cache \<Rightarrow> bool" where
  "lc_ready c \<longleftrightarrow> lc_ok c \<and> faults (lc_fs c) = [] \<and> cache_dir c \<noteq> [] \<and> last (cache_dir c) \<noteq> CHR ''/''
     \<and> is_dir (lc_fs c) (cache_dir c) \<and> \<not> is_dir (lc_fs c) (index_path c)
     \<and> \<not> list_ex (is_file (lc_fs c)) (ancestors (cache_dir c))"

lemma lc_put_ready:
  fixes now :: int and d :: bytes
  assumes "lc_ready c" and "key_ok k" and "\<And>t. to_json t = Some (enc t)"
  defines "c' \<equiv> c\<lparr>store := AList.update k \<lparr>cache_key = k, ie_created_at = now,
        ie_artifact_path = artifact_filename k, ie_size = of_nat (length d)\<rparr> (store c)\<rparr>"
  shows "lc_put to_json now k d c = (Inr (), c'\<lparr>lc_fs := (lc_fs c)\<lparr>files :=
      AList.update (index_path c) (enc (store c')) (AList.update (lc_path c k) d (files (lc_fs c)))\<rparr>\<rparr>)"
proof -
  have ix: "index_path c = path_join (cache_dir c) ''index.json''" "file_name_ok ''index.json''"
    using assms(1) by (simp_all add: lc_ready_def lc_ok_def file_name_ok_def)
  have nodir: "\<not> is_dir (lc_fs c) (lc_path c k)"
    using assms(1,2) by (simp add: lc_ready_def lc_ok_def)
  then have w: "write_file (lc_path c k) d (lc_fs c)
      = (Inr (), (lc_fs c)\<lparr>files := AList.update (lc_path c k) d (files (lc_fs c))\<rparr>)"
    unfolding lc_path_def using assms(1,2) by (intro write_in_dir filename_ok) (simp_all add: lc_ready_def lc_path_def)
  have ixw: "write_file (index_path c) x (s\<lparr>files := t\<rparr>) = (Inr (), s\<lparr>files := AList.update (index_path c) x t\<rparr>)"
    if "s = lc_fs c" for x t s
    using write_in_dir [OF ix(2), of "cache_dir c" "s\<lparr>files := t\<rparr>" x] assms(1) that
    by (auto simp: lc_ready_def ix(1) is_dir_def)
  show ?thesis
    using w ixw [OF refl]
    by (simp add: lc_put_def lc_path_def [symmetric] c'_def Let_def on_fs_def on_part_def bind_io_def save_index_def assms(3))
qed

text \<open>A later process that opens the directory finds the entries the cache has.\<close>

definition reopens :: "(bytes \<Rightarrow> index option) \<Rightarrow> local_cache \<Rightarrow> bool" where
  "reopens from_json c \<longleftrightarrow> lc_ready c
     \<and> store c = (case map_of (files (lc_fs c)) (index_path c) of
         None \<Rightarrow> [] | Some j \<Rightarrow> (case from_json j of Some t \<Rightarrow> t | None \<Rightarrow> []))"

abbreviation mkdirs :: "string \<Rightarrow> local_cache \<Rightarrow> local_cache" where
  "mkdirs d c \<equiv> c\<lparr>lc_fs := (lc_fs c)\<lparr>dirs := dirs (lc_fs c) @ ancestors d\<rparr>\<rparr>"

lemma lc_view_mkdirs: "lc_view (mkdirs d c) = lc_view c"
  by (simp add: lc_view_def fun_eq_iff)

lemma lc_put_reopens:
  assumes "lc_ready c" and "key_ok k" and "\<And>t. to_json t = Some (enc t)" and "\<And>t. from_json (enc t) = Some t"
    and "lc_put to_json now k d c = (r, c')"
  shows "r = Inr () \<and> reopens from_json c' \<and> cache_dir c' = cache_dir c \<and> index_path c' = index_path c
    \<and> map_of (store c') k \<noteq> None"
proof -
  note run = lc_put_ready [where now = now and d = d, OF assms(1-3)]
  have c': "r = Inr ()" "c' = snd (lc_put to_json now k d c)" using assms(5) run by simp_all
  have ok: "lc_ok c" "index_path c = path_join (cache_dir c) ''index.json''" using assms(1) by (simp_all add: lc_ready_def lc_ok_def)
  have st: "faults (lc_fs c') = []" "dirs (lc_fs c') = dirs (lc_fs c)" "cache_dir c' = cache_dir c" "index_path c' = index_path c"
    "map_of (files (lc_fs c')) (index_path c) = Some (enc (store c'))" "map_of (store c') k \<noteq> None"
    and other: "\<And>q. q \<noteq> lc_path c k \<Longrightarrow> q \<noteq> index_path c \<Longrightarrow> map_of (files (lc_fs c')) q = map_of (files (lc_fs c)) q"
    using assms(1) by (simp_all add: c'(2) run lc_ready_def update_conv')
  have nameok: "file_name_ok ''index.json''" by (simp add: file_name_ok_def)
  have long: "length (cache_dir c) < length (path_join (cache_dir c) n)" if "file_name_ok n" for n
    using length_path_join_le [OF that, of "cache_dir c"] that by (cases n) (auto simp: file_name_ok_def)
  have "is_file (lc_fs c') q = is_file (lc_fs c) q" if "q \<in> set (ancestors (cache_dir c))" for q
  proof -
    have "q \<noteq> lc_path c k" "q \<noteq> index_path c"
      using ancestors_length [OF that] long [OF filename_ok [OF assms(2)]] long [OF nameok]
      unfolding lc_path_def ok(2) by auto
    then show ?thesis using other by (simp add: is_file_def)
  qed
  moreover have "lc_ok c'" using lc_put_view(1) [OF ok(1) assms(2,5)] .
  moreover have "is_dir (lc_fs c') q = is_dir (lc_fs c) q" for q using st(2) by (simp add: is_dir_def)
  ultimately have "lc_ready c'"
    using assms(1) st by (auto simp: lc_ready_def list_ex_iff)
  then show ?thesis using c'(1) st by (simp add: reopens_def assms(4))
qed

lemma lc_new_reopens:
  assumes "lc_new from_json var s = Inr c" and "lc_ready c"
  shows "reopens from_json c \<and> get_cache_dir var = Inr (cache_dir c)"
proof -
  obtain dir t s1 where d: "get_cache_dir var = Inr dir"
    and l: "load_index from_json (path_join dir ''index.json'') s1 = (Inr t, lc_fs c)"
    and c: "cache_dir c = dir" "store c = t" "index_path c = path_join dir ''index.json''"
    using assms(1) by (auto simp: lc_new_def bind_io_def split: sum.splits prod.splits)
  have nodir: "\<not> is_dir (lc_fs c) (index_path c)" using assms(2) by (simp add: lc_ready_def)
  have "t = (case map_of (files (lc_fs c)) (index_path c) of
         None \<Rightarrow> [] | Some j \<Rightarrow> (case from_json j of Some t \<Rightarrow> t | None \<Rightarrow> []))"
  proof (cases "path_exists s1 (index_path c)")
    case True
    then obtain j where "read_file (index_path c) s1 = (Inr j, lc_fs c)" "t = (case from_json j of Some t \<Rightarrow> t | None \<Rightarrow> [])"
      using l by (auto simp: load_index_def c(3) bind_io_Ok_iff ret_def)
    moreover from this have "map_of (files (lc_fs c)) (index_path c) = Some j"
      using read_file_ok [of "index_path c" s1 j] read_file_frame [of "index_path c" s1] by simp
    ultimately show ?thesis by simp
  next
    case False
    then have "s1 = lc_fs c" "t = []" using l by (simp_all add: load_index_def c(3))
    moreover have "index_path c \<noteq> []" by (simp add: c(3) path_join_def)
    ultimately have "map_of (files (lc_fs c)) (index_path c) = None" using False by (simp add: path_exists_def is_file_def)
    then show ?thesis by (simp add: \<open>t = []\<close>)
  qed
  then show ?thesis using assms(2) d c by (simp add: reopens_def)
qed

lemma lc_new_again:
  assumes "reopens from_json c" and "get_cache_dir var = Inr (cache_dir c)"
  shows "lc_new from_json var (lc_fs c) = Inr (mkdirs (cache_dir c) c)"
proof -
  let ?s = "lc_fs (mkdirs (cache_dir c) c)"
  have r: "faults (lc_fs c) = []" "\<not> list_ex (is_file (lc_fs c)) (ancestors (cache_dir c))"
    "index_path c = path_join (cache_dir c) ''index.json''" "\<not> is_dir (lc_fs c) (index_path c)"
    using assms(1) unfolding reopens_def lc_ready_def lc_ok_def by blast+
  have ne: "index_path c \<noteq> []" by (simp add: r(3) path_join_def)
  have "\<not> is_dir ?s (index_path c)"
  proof -
    have "length q \<le> length (cache_dir c)" if "q \<in> set (ancestors (cache_dir c))" for q using ancestors_length [OF that] .
    moreover have "length (cache_dir c) < length (index_path c)"
      using length_path_join_le [of "''index.json''" "cache_dir c"] by (simp add: r(3) file_name_ok_def)
    ultimately have "index_path c \<notin> set (ancestors (cache_dir c))" by fastforce
    then show ?thesis using r(4) by (simp add: is_dir_def)
  qed
  then have "load_index from_json (index_path c) ?s = (Inr (store c), ?s)"
    using assms(1) r(1) ne
    by (auto simp: load_index_def path_exists_def is_file_def reopens_def bind_io_def read_file_present split: option.splits)
  then show ?thesis
    using create_dir_all_fine [OF r(1,2)] by (simp add: lc_new_def assms(2) bind_io_def r(3))
qed

text \<open>What the local cache stores is returned, also by a later process: on a file system without
  faults \<open>put\<close> succeeds, the key then reads back the stored bytes, and a cache opened afterwards
  on the same directory reads the same bytes for this key and the same as before for every
  other key.\<close>

theorem local_cache_survives_restart:
  assumes "lc_ready c" and "key_ok k"
    and "\<And>t. to_json t = Some (enc t)" and "\<And>t. from_json (enc t) = Some t"
    and "var ''MEMOBUILD_CACHE_DIR'' = Some (cache_dir c)"
  shows "\<exists>c' c2 c3. lc_put to_json now k d c = (Inr (), c') \<and> get_data k c' = (Inr (Some d), c')
    \<and> lc_new from_json var (lc_fs c') = Inr c2 \<and> get_data k c2 = (Inr (Some d), c3)
    \<and> lc_view c2 = (lc_view c)(k \<mapsto> d)"
proof -
  obtain r c' where put: "lc_put to_json now k d c = (r, c')" by (rule prod.exhaust)
  note p = lc_put_reopens [OF assms(1-4) put]
  let ?c2 = "mkdirs (cache_dir c') c'"
  have ok: "lc_ok c" using assms(1) by (simp add: lc_ready_def)
  note view = lc_put_view [OF ok assms(2) put]
  have r: "r = Inr ()" using p by blast
  have new: "lc_new from_json var (lc_fs c') = Inr ?c2"
    using p assms(5) by (intro lc_new_again) (simp_all add: get_cache_dir_def)
  have held: "lc_view c' k = Some d" using view(2) [OF r] by simp
  then obtain e where e: "map_of (store c') k = Some e" "map_of (files (lc_fs c')) (lc_path c' k) = Some d"
    by (auto simp: lc_view_def split: if_splits)
  then have "ie_artifact_path e = artifact_filename k" using view(1) by (simp add: lc_ok_def)
  then have get: "get_data k x = (Inr (Some d), x)"
    if "store x = store c'" "files (lc_fs x) = files (lc_fs c')" "cache_dir x = cache_dir c'" "faults (lc_fs x) = []" for x
    using e that lc_path_ne [OF assms(2), of c'] read_file_present [of "lc_fs x" "lc_path c' k" d]
    by (simp add: get_data_def lc_path_def Let_def on_fs_def on_part_def bind_io_def path_exists_def is_file_def)
  have "faults (lc_fs c') = []" using p by (simp add: reopens_def lc_ready_def)
  then have g: "get_data k c' = (Inr (Some d), c')" "get_data k ?c2 = (Inr (Some d), ?c2)"
    by (simp_all add: get)
  have "lc_view ?c2 = (lc_view c)(k \<mapsto> d)"
    using view(2) [OF r] by (simp only: lc_view_mkdirs)
  with put r new g show ?thesis by blast
qed

definition demo_cache :: local_cache where
  "demo_cache = \<lparr>lc_fs = \<lparr>files = [], dirs = [''/c''], faults = []\<rparr>, cache_dir = ''/c'', store = [],
     index_path = ''/c/index.json''\<rparr>"

lemma demo_cache_ready: "lc_ready demo_cache"
proof -
  have "\<not> is_dir (lc_fs demo_cache) (lc_path demo_cache k)" for k
    by (simp add: demo_cache_def is_dir_def lc_path_def path_join_def artifact_filename_def prefix_def append_eq_Cons_conv)
  then show ?thesis
    by (simp add: lc_ready_def lc_ok_def) (simp add: demo_cache_def is_dir_def is_file_def path_join_def ancestors_def)
qed

instance cache_index_entry_ext :: (countable) countable
proof (rule countable_classI)
  fix x y :: "'a cache_index_entry_scheme"
  assume "to_nat (cache_key x, ie_created_at x, ie_artifact_path x, ie_size x, cache_index_entry.more x)
    = to_nat (cache_key y, ie_created_at y, ie_artifact_path y, ie_size y, cache_index_entry.more y)"
  then show "x = y" by simp
qed

theorem local_cache_survives_restart_witness:
  "\<exists>c' c2 c3. lc_put (\<lambda>t. Some (encode_bytes t)) 0 ''k1'' [1] demo_cache = (Inr (), c')
      \<and> lc_new (\<lambda>j. Some (decode_bytes j)) (\<lambda>_. Some ''/c'') (lc_fs c') = Inr c2
      \<and> get_data ''k1'' c2 = (Inr (Some [1]), c3)"
proof -
  have "key_ok ''k1''" by (simp add: key_ok_def)
  then show ?thesis
    using local_cache_survives_restart [OF demo_cache_ready, of "''k1''" "\<lambda>t. Some (encode_bytes t)" encode_bytes
        "\<lambda>j. Some (decode_bytes j)" "\<lambda>_. Some ''/c''" 0 "[1]"]
    by (auto simp: demo_cache_def)
qed

end
