(* ===== verification/Artifact.thy ===== *)
theory Artifact
  imports Files
begin

text \<open>
  \<open>src/src/cache/utils.rs\<close>: splitting an artifact into content addressed chunks and merging it
  back, and the file manifests of build outputs. \<open>digest\<close> is \<open>blake3::hash(\<dots>).to_hex()\<close>,
  \<open>to_json\<close> is \<open>serde_json\<close>'s printing of a manifest and \<open>walk\<close> is \<open>walkdir\<close>'s traversal;
  the three are parameters. The iteration order of the \<open>HashMap\<close> in \<open>merge\<close> is the
  parameter \<open>iter\<close>.
\<close>

section \<open>Chunks\<close>

definition CHUNK_SIZE :: nat where
  "CHUNK_SIZE = 1024 * 1024"

record artifact_layer =
  al_hash :: string
  al_data :: bytes

text \<open>\<open>slice::chunks\<close>.\<close>

function chunks :: "nat \<Rightarrow> 'a list \<Rightarrow> 'a list list" where
  "chunks n xs = (if xs = [] \<or> n = 0 then [] else take n xs # chunks n (drop n xs))"
  by pat_completeness auto
termination
  by (relation "measure (length \<circ> snd)") auto

declare chunks.simps [simp del]

definition split_artifact :: "(bytes \<Rightarrow> string) \<Rightarrow> bytes \<Rightarrow> artifact_layer list" where
  "split_artifact digest d = map (\<lambda>c. \<lparr>al_hash = digest c, al_data = c\<rparr>) (chunks CHUNK_SIZE d)"

fun extend_all :: "bytes \<Rightarrow> bytes list \<Rightarrow> bytes" where
  "extend_all acc [] = acc"
| "extend_all acc (l # ls) = extend_all (acc @ l) ls"

definition merge_artifact :: "bytes list \<Rightarrow> bytes" where
  "merge_artifact layers = extend_all [] layers"

lemma extend_all_concat: "extend_all acc ls = acc @ concat ls"
  by (induction ls arbitrary: acc) simp_all

lemma merge_artifact_concat: "merge_artifact ls = concat ls"
  by (simp add: merge_artifact_def extend_all_concat)

lemma chunks_Nil [simp]: "chunks n [] = []"
  by (simp add: chunks.simps)

lemma chunks_step: "xs \<noteq> [] \<Longrightarrow> 0 < n \<Longrightarrow> chunks n xs = take n xs # chunks n (drop n xs)"
  by (simp add: chunks.simps [of n xs])

lemma chunks_induct [consumes 1, case_names Nil Step]:
  assumes "0 < n" and "P []" and "\<And>xs. xs \<noteq> [] \<Longrightarrow> P (drop n xs) \<Longrightarrow> P xs"
  shows "P xs"
proof (induction "length xs" arbitrary: xs rule: less_induct)
  case less
  then show ?case using assms by (cases "xs = []") auto
qed

lemma concat_chunks:
  assumes "0 < n" shows "concat (chunks n xs) = xs"
  by (induction xs rule: chunks_induct [consumes 0, OF assms, case_names Nil Step]) (simp_all add: chunks_step assms)

lemma chunk_bounds:
  assumes "0 < n" shows "c \<in> set (chunks n xs) \<Longrightarrow> c \<noteq> [] \<and> length c \<le> n"
  by (induction xs rule: chunks_induct [consumes 0, OF assms, case_names Nil Step]) (use assms in \<open>auto simp: chunks_step\<close>)

lemma chunks_full:
  assumes "0 < n" shows "i + 1 < length (chunks n xs) \<Longrightarrow> length (chunks n xs ! i) = n"
proof (induction xs arbitrary: i rule: chunks_induct [consumes 0, OF assms, case_names Nil Step])
  case (Step xs)
  show ?case
  proof (cases i)
    case 0
    with Step assms have "chunks n (drop n xs) \<noteq> []" by (auto simp: chunks_step)
    then have "drop n xs \<noteq> []" by auto
    with 0 Step(1) assms show ?thesis by (simp add: chunks_step)
  next
    case (Suc j)
    with Step(2) [of j] Step(1,3) assms show ?thesis by (simp add: chunks_step)
  qed
qed simp

lemma length_chunks:
  assumes "0 < n" shows "length (chunks n xs) = (length xs + n - 1) div n"
proof (induction xs rule: chunks_induct [consumes 0, OF assms, case_names Nil Step])
  case (Step xs)
  then have "length xs + n - 1 = (length xs - 1) + n" by (cases xs) simp_all
  then have "(length xs + n - 1) div n = (length xs - 1 + n) div n" by (rule arg_cong)
  also have "\<dots> = Suc ((length xs - 1) div n)"
    using div_add_self2 [of n "length xs - 1"] assms by linarith
  finally have rhs: "(length xs + n - 1) div n = Suc ((length xs - 1) div n)" .
  have "length (chunks n (drop n xs)) = (length xs - n + n - 1) div n"
    using Step by simp
  also have "\<dots> = (length xs - 1) div n"
    using assms by (cases "n \<le> length xs") simp_all
  finally show ?case
    using rhs Step(1) assms by (simp add: chunks_step)
qed (use assms in simp)

section \<open>Manifests\<close>

record file_entry =
  fe_path :: string
  fe_hash :: string
  fe_size :: u64

record artifact_manifest =
  am_files :: "file_entry list"

definition entry_of :: "(bytes \<Rightarrow> string) \<Rightarrow> string \<Rightarrow> bytes \<Rightarrow> file_entry" where
  "entry_of digest p d = \<lparr>fe_path = p, fe_hash = digest d, fe_size = of_nat (length d)\<rparr>"

text \<open>\<open>Path::file_name\<close>, empty for a path that has none, and \<open>strip_prefix\<close>.\<close>

definition file_name :: "string \<Rightarrow> string" where
  "file_name p = rev (takeWhile (\<lambda>c. c \<noteq> CHR ''/'') (rev p))"

definition strip_dir :: "string \<Rightarrow> string \<Rightarrow> string result" where
  "strip_dir dir p =
     (if prefix (path_join dir []) p then Inr (drop (length (path_join dir [])) p)
      else Inl (Err ''prefix not found''))"

text \<open>The loop of \<open>from_dir\<close> over what the traversal yields: an error, or a path and whether
  it is a regular file.\<close>

fun manifest_entries ::
    "(bytes \<Rightarrow> string) \<Rightarrow> string \<Rightarrow> (err + string \<times> bool) list \<Rightarrow> (fs, file_entry list) io" where
  "manifest_entries digest dir [] = ret []"
| "manifest_entries digest dir (Inl e # es) = (\<lambda>s. (Inl e, s))"
| "manifest_entries digest dir (Inr (p, regular) # es) =
     (if \<not> regular then manifest_entries digest dir es
      else case strip_dir dir p of
          Inl e \<Rightarrow> (\<lambda>s. (Inl e, s))
        | Inr rel \<Rightarrow>
            bind_io (read_file p) (\<lambda>d.
            bind_io (manifest_entries digest dir es) (\<lambda>rest. ret (entry_of digest rel d # rest))))"

definition from_dir ::
    "(bytes \<Rightarrow> string) \<Rightarrow> (fs \<Rightarrow> string \<Rightarrow> (err + string \<times> bool) list) \<Rightarrow> string \<Rightarrow> (fs, artifact_manifest) io" where
  "from_dir digest walk dir s =
     (if is_file s dir
      then bind_io (read_file dir) (\<lambda>d. ret \<lparr>am_files = [entry_of digest (file_name dir) d]\<rparr>) s
      else bind_io (manifest_entries digest dir (walk s dir)) (\<lambda>es. ret \<lparr>am_files = es\<rparr>) s)"

definition manifest_hash :: "(bytes \<Rightarrow> string) \<Rightarrow> (artifact_manifest \<Rightarrow> string option) \<Rightarrow> artifact_manifest \<Rightarrow> string" where
  "manifest_hash digest to_json m =
     digest (as_bytes (case to_json m of Some j \<Rightarrow> j | None \<Rightarrow> []))"

text \<open>\<open>reconstruct\<close> writes the files one by one; \<open>fetcher\<close> has a state of its own.\<close>

fun reconstruct_files ::
    "string \<Rightarrow> (string \<Rightarrow> ('c, bytes option) io) \<Rightarrow> file_entry list \<Rightarrow> (fs \<times> 'c, unit) io" where
  "reconstruct_files base fetcher [] = ret ()"
| "reconstruct_files base fetcher (f # fl) =
     (let full_path = path_join base (fe_path f) in
      bind_io (on_part fst (\<lambda>a (_, c). (a, c))
                (case parent full_path of Some p \<Rightarrow> create_dir_all p | None \<Rightarrow> ret ())) (\<lambda>_.
      bind_io (on_part snd (\<lambda>c (a, _). (a, c)) (fetcher (fe_hash f))) (\<lambda>r.
      case r of
        Some d \<Rightarrow>
          bind_io (on_part fst (\<lambda>a (_, c). (a, c)) (write_file full_path d)) (\<lambda>_. reconstruct_files base fetcher fl)
      | None \<Rightarrow> bail (''Failed to fetch file '' @ fe_path f @ '' with hash '' @ fe_hash f))))"

definition reconstruct :: "string \<Rightarrow> (string \<Rightarrow> ('c, bytes option) io) \<Rightarrow> artifact_manifest \<Rightarrow> (fs \<times> 'c, unit) io" where
  "reconstruct base fetcher m = reconstruct_files base fetcher (am_files m)"

definition add_entries :: "file_entry list \<Rightarrow> (string, file_entry) hashmap \<Rightarrow> (string, file_entry) hashmap" where
  "add_entries fl t = fold (\<lambda>f t. AList.update (fe_path f) f t) fl t"

definition merge_manifest ::
    "((string, file_entry) hashmap \<Rightarrow> (string, file_entry) hashmap) \<Rightarrow> artifact_manifest \<Rightarrow> artifact_manifest \<Rightarrow> artifact_manifest" where
  "merge_manifest iter m other =
     \<lparr>am_files = map snd (iter (add_entries (am_files other) (add_entries (am_files m) [])))\<rparr>"

section \<open>Lemmas on manifests\<close>

definition find_file :: "file_entry list \<Rightarrow> string \<Rightarrow> file_entry option" where
  "find_file fl p = List.find (\<lambda>f. fe_path f = p) (rev fl)"

lemma find_file_map_of: "find_file fl p = map_of (map (\<lambda>f. (fe_path f, f)) (rev fl)) p"
proof -
  have "List.find (\<lambda>f. fe_path f = p) xs = map_of (map (\<lambda>f. (fe_path f, f)) xs) p" for xs
    by (induction xs) auto
  then show ?thesis by (simp add: find_file_def)
qed

lemma map_of_add_entries: "map_of (add_entries fl t) p = (case find_file fl p of Some f \<Rightarrow> Some f | None \<Rightarrow> map_of t p)"
  unfolding add_entries_def
proof (induction fl arbitrary: t)
  case (Cons f fl)
  then show ?case
    by (auto simp: find_file_map_of update_conv' map_add_def map_of_append split: option.splits)
qed (simp add: find_file_def)

lemma hm_ok_add_entries: "hm_ok t \<Longrightarrow> hm_ok (add_entries fl t)"
  unfolding add_entries_def by (induction fl arbitrary: t) simp_all

lemma add_entries_keys:
  "(\<And>p f. (p, f) \<in> set t \<Longrightarrow> fe_path f = p) \<Longrightarrow> (p, f) \<in> set (add_entries fl t) \<Longrightarrow> fe_path f = p"
  unfolding add_entries_def
proof (induction fl arbitrary: t)
  case (Cons g fl)
  show ?case
  proof (rule Cons.IH [of "AList.update (fe_path g) g t"])
    fix p f assume "(p, f) \<in> set (AList.update (fe_path g) g t)"
    then show "fe_path f = p" using Cons.prems(1)
      by (induction t) (auto split: if_splits)
  qed (use Cons.prems(2) in simp)
qed simp

lemma reconstruct_step:
  assumes "reconstruct_files base fetcher (f # fl) (s, c) = (Inr (), (s', c'))"
  obtains s1 d c1 s2 where "files s1 = files s" "fetcher (fe_hash f) c = (Inr (Some d), c1)"
    "write_file (path_join base (fe_path f)) d s1 = (Inr (), s2)"
    "reconstruct_files base fetcher fl (s2, c1) = (Inr (), (s', c'))"
proof -
  let ?mk = "case parent (path_join base (fe_path f)) of Some p \<Rightarrow> create_dir_all p | None \<Rightarrow> ret ()"
  let ?rest = "\<lambda>r. case r of
        Some d \<Rightarrow> bind_io (on_part fst (\<lambda>a (_, c). (a, c)) (write_file (path_join base (fe_path f)) d))
          (\<lambda>_. reconstruct_files base fetcher fl)
      | None \<Rightarrow> bail (''Failed to fetch file '' @ fe_path f @ '' with hash '' @ fe_hash f)"
  obtain s1 r c1 where s1: "?mk s = (Inr (), s1)" and r: "fetcher (fe_hash f) c = (Inr r, c1)"
    and rest: "?rest r (s1, c1) = (Inr (), (s', c'))"
    using assms unfolding reconstruct_files.simps Let_def bind_io_Ok_iff on_part_eq_iff by auto
  have "files (snd (?mk s)) = files s"
    by (cases "parent (path_join base (fe_path f))") simp_all
  then have "files s1 = files s" unfolding s1 by simp
  moreover obtain d where d: "r = Some d" using rest by (cases r) auto
  moreover obtain s2 where "write_file (path_join base (fe_path f)) d s1 = (Inr (), s2)"
    "reconstruct_files base fetcher fl (s2, c1) = (Inr (), (s', c'))"
    using rest unfolding d option.case bind_io_Ok_iff on_part_eq_iff by auto
  ultimately show thesis using that r by blast
qed

lemma reconstruct_files_frame:
  assumes "q \<notin> (\<lambda>f. path_join base (fe_path f)) ` set fl"
    and "reconstruct_files base fetcher fl (s, c) = (Inr (), (s', c'))"
  shows "map_of (files s') q = map_of (files s) q"
  using assms
proof (induction fl arbitrary: s c)
  case (Cons f fl)
  from Cons.prems(2) show ?case
  proof (rule reconstruct_step)
    fix s1 d c1 s2
    assume "files s1 = files s" and w: "write_file (path_join base (fe_path f)) d s1 = (Inr (), s2)"
      and "reconstruct_files base fetcher fl (s2, c1) = (Inr (), (s', c'))"
    with Cons show ?thesis by (simp add: write_file_ok [OF w])
  qed
qed simp

section \<open>Properties\<close>

text \<open>Splitting and merging are inverse: the chunks of an artifact, merged in order, give the
  artifact back; each chunk is named by its digest, none is empty, only the last may be shorter
  than 1 MB, and there are exactly as many as the size needs.\<close>

theorem split_merge_roundtrip:
  "merge_artifact (map al_data (split_artifact digest d)) = d
   \<and> length (split_artifact digest d) = (length d + CHUNK_SIZE - 1) div CHUNK_SIZE
   \<and> list_all (\<lambda>l. al_hash l = digest (al_data l) \<and> al_data l \<noteq> [] \<and> length (al_data l) \<le> CHUNK_SIZE)
       (split_artifact digest d)
   \<and> list_all (\<lambda>l. length (al_data l) = CHUNK_SIZE) (butlast (split_artifact digest d))"
proof -
  have pos: "0 < CHUNK_SIZE" by (simp add: CHUNK_SIZE_def)
  have "length (al_data l) = CHUNK_SIZE" if l: "l \<in> set (butlast (split_artifact digest d))" for l
  proof -
    obtain i where i: "i < length (butlast (split_artifact digest d))" "butlast (split_artifact digest d) ! i = l"
      using l by (meson in_set_conv_nth)
    then have "l = split_artifact digest d ! i" "i + 1 < length (chunks CHUNK_SIZE d)"
      by (simp_all add: nth_butlast split_artifact_def)
    then show ?thesis using chunks_full [OF pos, of i d] by (simp add: split_artifact_def)
  qed
  with pos show ?thesis
    by (auto simp: merge_artifact_concat split_artifact_def comp_def concat_chunks length_chunks list_all_iff
        dest: chunk_bounds [OF pos])
qed

text \<open>Merging a manifest into another keeps one entry per path: the other manifest's entry
  where it has one, the old one elsewhere, whatever the iteration order of the map.\<close>

theorem merge_manifest_lookup:
  assumes "\<And>t. mset (iter t) = mset t"
  shows "distinct (map fe_path (am_files (merge_manifest iter m other)))
    \<and> find_file (am_files (merge_manifest iter m other)) p
        = (case find_file (am_files other) p of Some f \<Rightarrow> Some f | None \<Rightarrow> find_file (am_files m) p)"
proof -
  define t where "t = add_entries (am_files other) (add_entries (am_files m) [])"
  have ok: "hm_ok t" unfolding t_def by (intro hm_ok_add_entries) simp
  have keys: "fe_path f = q" if "(q, f) \<in> set t" for q f
  proof -
    have "fe_path f' = q'" if "(q', f') \<in> set (add_entries (am_files m) [])" for q' f'
      by (rule add_entries_keys [of "[]", OF _ that]) simp
    then show ?thesis using that unfolding t_def by (rule add_entries_keys)
  qed
  have set_iter: "set (iter t) = set t" using assms by (metis set_mset_mset)
  then have fst_iter: "map (\<lambda>f. (fe_path f, f)) (map snd (iter t)) = iter t"
    using keys by (auto simp: comp_def intro!: map_idI)
  then have paths: "map fe_path (map snd (iter t)) = map fst (iter t)"
    by (metis (no_types, lifting) fst_conv list.map_comp map_eq_conv comp_def)
  have dist: "distinct (map fst (iter t))"
    using ok assms [of t] by (metis hm_ok_def mset_eq_imp_distinct_iff mset_map)
  have "find_file (map snd (iter t)) p = map_of (rev (iter t)) p"
    unfolding find_file_map_of rev_map [symmetric] using fst_iter by simp
  also have "\<dots> = map_of (iter t) p"
    using dist by (metis map_of_mset_eq hm_ok_def mset_rev)
  also have "\<dots> = map_of t p" using map_of_mset_eq [OF ok] assms by metis
  finally have "find_file (map snd (iter t)) p = map_of t p" .
  moreover have "map_of t p = (case find_file (am_files other) p of Some f \<Rightarrow> Some f | None \<Rightarrow> find_file (am_files m) p)"
    unfolding t_def map_of_add_entries by (simp split: option.split)
  moreover have "am_files (merge_manifest iter m other) = map snd (iter t)"
    by (simp add: merge_manifest_def t_def)
  ultimately show ?thesis
    using dist unfolding paths [symmetric] by simp
qed

definition demo_manifest :: "string \<Rightarrow> string \<Rightarrow> artifact_manifest" where
  "demo_manifest p h = \<lparr>am_files = [\<lparr>fe_path = p, fe_hash = h, fe_size = 1\<rparr>]\<rparr>"

theorem merge_manifest_lookup_witness:
  "find_file (am_files (merge_manifest rev (demo_manifest ''a'' ''h1'') (demo_manifest ''a'' ''h2''))) ''a''
     = Some \<lparr>fe_path = ''a'', fe_hash = ''h2'', fe_size = 1\<rparr>"
  using merge_manifest_lookup [of rev "demo_manifest ''a'' ''h1''" "demo_manifest ''a'' ''h2''" "''a''"]
  by (simp add: demo_manifest_def find_file_def)



end
