(* ===== verification/Hybrid.thy ===== *)
theory Hybrid
  imports Remote_Cache Local_Cache Artifact
begin

text \<open>
  \<open>src/src/cache/hybrid.rs\<close>: the two-level cache of the builder, a local cache in front of an
  optional remote one. The lemmas about a remote cache are proved once, for any remote that
  meets \<open>remote_cache_laws\<close>. \<open>digest\<close> and \<open>to_json\<close> are \<open>blake3\<close> and \<open>serde_json\<close>.
\<close>

section \<open>State and operations\<close>

record 'r hybrid =
  hy_local :: local_cache
  hy_remote :: 'r

definition on_local :: "(local_cache, 'a) io \<Rightarrow> ('r hybrid, 'a) io" where
  "on_local = on_part hy_local (\<lambda>l s. s\<lparr>hy_local := l\<rparr>)"

definition on_remote :: "('r, 'a) io \<Rightarrow> ('r hybrid, 'a) io" where
  "on_remote = on_part hy_remote (\<lambda>r s. s\<lparr>hy_remote := r\<rparr>)"

text \<open>The loop that fetches the layers of a node.\<close>

fun fetch_layers :: "'r remote_cache \<Rightarrow> string \<Rightarrow> string list \<Rightarrow> ('r, bytes list) io" where
  "fetch_layers rc key [] = ret []"
| "fetch_layers rc key (h # hs) =
     bind_io (rc_get_layer rc h) (\<lambda>r.
     case r of
       Some layer \<Rightarrow> bind_io (fetch_layers rc key hs) (\<lambda>rest. ret (layer # rest))
     | None \<Rightarrow> bail (''Cache integrity failure: layer '' @ h @ '' missing for node '' @ key))"

definition get_artifact ::
    "(index \<Rightarrow> bytes option) \<Rightarrow> int \<Rightarrow> 'r remote_cache option \<Rightarrow> string \<Rightarrow> ('r hybrid, bytes option) io" where
  "get_artifact to_json now remote key =
     bind_io (on_local (get_data key)) (\<lambda>l.
     case l of
       Some d \<Rightarrow> ret (Some d)
     | None \<Rightarrow>
         (case remote of
            None \<Rightarrow> ret None
          | Some rc \<Rightarrow>
              bind_io (on_remote (rc_get_node_layers rc key)) (\<lambda>ls.
              case ls of
                Some layer_hashes \<Rightarrow>
                  bind_io (on_remote (fetch_layers rc key layer_hashes)) (\<lambda>layers_data.
                  let d = merge_artifact layers_data in
                  bind_io (on_local (lc_put to_json now key d)) (\<lambda>_. ret (Some d)))
              | None \<Rightarrow>
                  bind_io (on_remote (rc_get rc key)) (\<lambda>r.
                  case r of
                    Some d \<Rightarrow> bind_io (on_local (lc_put to_json now key d)) (\<lambda>_. ret (Some d))
                  | None \<Rightarrow> ret None))))"

text \<open>The loop that uploads the layers the remote does not have; it returns their hashes.\<close>

fun upload_layers :: "'r remote_cache \<Rightarrow> artifact_layer list \<Rightarrow> ('r, string list) io" where
  "upload_layers rc [] = ret []"
| "upload_layers rc (l # ls) =
     bind_io (rc_has_layer rc (al_hash l)) (\<lambda>present.
     bind_io (if present then ret () else rc_put_layer rc (al_hash l) (al_data l)) (\<lambda>_.
     bind_io (upload_layers rc ls) (\<lambda>hs. ret (al_hash l # hs))))"

definition put_artifact ::
    "(bytes \<Rightarrow> string) \<Rightarrow> (index \<Rightarrow> bytes option) \<Rightarrow> int \<Rightarrow> 'r remote_cache option \<Rightarrow> string \<Rightarrow> bytes \<Rightarrow> ('r hybrid, unit) io" where
  "put_artifact digest to_json now remote key d =
     bind_io (on_local (lc_put to_json now key d)) (\<lambda>_.
     case remote of
       None \<Rightarrow> ret ()
     | Some rc \<Rightarrow>
         bind_io (on_remote (upload_layers rc (split_artifact digest d))) (\<lambda>layer_hashes.
         on_remote (rc_register_node_layers rc key layer_hashes (of_nat (length d)))))"

definition hy_report_analytics :: "'r remote_cache option \<Rightarrow> u32 \<Rightarrow> u32 \<Rightarrow> u64 \<Rightarrow> ('r hybrid, unit) io" where
  "hy_report_analytics remote dirty cached duration_ms =
     (case remote of
        None \<Rightarrow> ret ()
      | Some rc \<Rightarrow> on_remote (rc_report_analytics rc dirty cached duration_ms))"

text \<open>\<open>prefetch_artifacts\<close> spawns one task per hash the local index does not have; a task
  reports its errors and drops them. \<open>order\<close> is the order in which the tasks run.\<close>

definition prefetch_task ::
    "(index \<Rightarrow> bytes option) \<Rightarrow> int \<Rightarrow> 'r remote_cache option \<Rightarrow> string \<Rightarrow> ('r hybrid, unit) io" where
  "prefetch_task to_json now remote hash =
     (case remote of
        None \<Rightarrow> ret ()
      | Some rc \<Rightarrow>
          ignore_io (bind_io (on_remote (rc_get rc hash)) (\<lambda>r.
            case r of Some d \<Rightarrow> on_local (lc_put to_json now hash d) | None \<Rightarrow> ret ())))"

definition prefetch_artifacts ::
    "(string list \<Rightarrow> string list) \<Rightarrow> (index \<Rightarrow> bytes option) \<Rightarrow> int \<Rightarrow> 'r remote_cache option \<Rightarrow> string list \<Rightarrow> 'r hybrid \<Rightarrow> 'r hybrid" where
  "prefetch_artifacts order to_json now remote hashes s =
     fold (\<lambda>h s. snd (prefetch_task to_json now remote h s))
       (order (filter (\<lambda>h. \<not> lc_exists (hy_local s) h) hashes)) s"

text \<open>The files are read from the file system the local cache lives on.\<close>

fun upload_files ::
    "(bytes \<Rightarrow> string) \<Rightarrow> (index \<Rightarrow> bytes option) \<Rightarrow> int \<Rightarrow> 'r remote_cache option \<Rightarrow> string \<Rightarrow> file_entry list \<Rightarrow> ('r hybrid, unit) io" where
  "upload_files digest to_json now remote base [] = ret ()"
| "upload_files digest to_json now remote base (f # fl) =
     (\<lambda>s. let file_path = (if is_file (lc_fs (hy_local s)) base then base else path_join base (fe_path f)) in
          bind_io
            (if path_exists (lc_fs (hy_local s)) file_path
             then bind_io (on_local (on_fs (read_file file_path))) (\<lambda>d.
                    put_artifact digest to_json now remote (fe_hash f) d)
             else ret ())
            (\<lambda>_. upload_files digest to_json now remote base fl) s)"

definition upload_manifest_and_files ::
    "(bytes \<Rightarrow> string) \<Rightarrow> (index \<Rightarrow> bytes option) \<Rightarrow> (artifact_manifest \<Rightarrow> string option) \<Rightarrow> int \<Rightarrow> 'r remote_cache option
     \<Rightarrow> artifact_manifest \<Rightarrow> string \<Rightarrow> ('r hybrid, unit) io" where
  "upload_manifest_and_files digest to_json manifest_json now remote manifest base =
     (case manifest_json manifest of
        None \<Rightarrow> bail ''serde_json''
      | Some j \<Rightarrow>
          bind_io (put_artifact digest to_json now remote (manifest_hash digest manifest_json manifest) (as_bytes j))
            (\<lambda>_. upload_files digest to_json now remote base (am_files manifest)))"

section \<open>Lemmas\<close>

lemma on_local_Ok: "on_local m s = (r, s') \<longleftrightarrow> (\<exists>l. m (hy_local s) = (r, l) \<and> s' = s\<lparr>hy_local := l\<rparr>)"
  by (simp add: on_local_def on_part_eq_iff)

lemma on_remote_Ok: "on_remote m s = (r, s') \<longleftrightarrow> (\<exists>l. m (hy_remote s) = (r, l) \<and> s' = s\<lparr>hy_remote := l\<rparr>)"
  by (simp add: on_remote_def on_part_eq_iff)

text \<open>What is stored under the hashes of the layers is the layers' data, or nothing.\<close>

definition agrees :: "(string \<Rightarrow> bytes option) \<Rightarrow> artifact_layer list \<Rightarrow> bool" where
  "agrees m ls \<longleftrightarrow> (\<forall>l \<in> set ls. m (al_hash l) \<in> {None, Some (al_data l)})
     \<and> (\<forall>l \<in> set ls. \<forall>l' \<in> set ls. al_hash l = al_hash l' \<longrightarrow> al_data l = al_data l')"

context remote_cache_laws
begin

lemma upload_one:
  assumes "rinv s" and "rvalid h" and "layer_of s h \<in> {None, Some d}"
    and "bind_io (rc_has_layer rc h) (\<lambda>present. if present then ret () else rc_put_layer rc h d) s = (Inr (), s')"
  shows "rinv s' \<and> node_of s' = node_of s \<and> layer_of s' = (layer_of s)(h \<mapsto> d)"
proof -
  obtain b s1 where b: "rc_has_layer rc h s = (Inr b, s1)"
    and k: "(if b then ret () else rc_put_layer rc h d) s1 = (Inr (), s')"
    using assms(4) unfolding bind_io_Ok_iff by blast
  note fr = has_layer_frame [OF assms(1,2) b]
  show ?thesis
  proof (cases b)
    case True
    then have "layer_of s h = Some d" using has_layer_ok [OF assms(1,2), of s1] b assms(3) by auto
    with fr k True show ?thesis by (auto simp: fun_eq_iff)
  next
    case False
    then have put: "rc_put_layer rc h d s1 = (Inr (), s')" using k by simp
    note p = put_layer_ok [OF _ assms(2) put]
    have "layer_of s' = (layer_of s)(h \<mapsto> d)"
      using p fr assms(3) by (auto simp: fun_eq_iff)
    with p fr show ?thesis by auto
  qed
qed

lemma upload_layers_ok:
  assumes "rinv s" and "list_all (\<lambda>l. rvalid (al_hash l)) ls" and "agrees (layer_of s) ls"
    and "upload_layers rc ls s = (Inr hs, s')"
  shows "rinv s' \<and> node_of s' = node_of s \<and> hs = map al_hash ls
    \<and> (\<forall>l \<in> set ls. layer_of s' (al_hash l) = Some (al_data l))
    \<and> (\<forall>h. layer_of s h \<noteq> None \<longrightarrow> layer_of s' h = layer_of s h)"
  using assms
proof (induction ls arbitrary: s hs)
  case (Cons l ls)
  let ?one = "bind_io (rc_has_layer rc (al_hash l)) (\<lambda>present. if present then ret () else rc_put_layer rc (al_hash l) (al_data l))"
  have "upload_layers rc (l # ls) = bind_io ?one (\<lambda>_. bind_io (upload_layers rc ls) (\<lambda>hs. ret (al_hash l # hs)))"
    by (simp add: bind_io_assoc)
  with Cons.prems(4) obtain s1 hs1 where one: "?one s = (Inr (), s1)" and rest: "upload_layers rc ls s1 = (Inr hs1, s')"
    and hs: "hs = al_hash l # hs1"
    by (auto simp: bind_io_Ok_iff [of ?one] bind_io_Ok_iff [of "upload_layers rc ls"] simp del: upload_layers.simps)
  have own: "layer_of s (al_hash l) \<in> {None, Some (al_data l)}"
    using Cons.prems(3) unfolding agrees_def by (meson list.set_intros)
  have first: "rinv s1" "node_of s1 = node_of s" "layer_of s1 = (layer_of s)(al_hash l \<mapsto> al_data l)"
    using upload_one [OF Cons.prems(1) _ own one] Cons.prems(2) by auto
  have "agrees (layer_of s1) ls"
    unfolding agrees_def first(3)
  proof (intro conjI ballI impI)
    fix k assume "k \<in> set ls"
    with Cons.prems(3) have "layer_of s (al_hash k) \<in> {None, Some (al_data k)}"
      "al_hash k = al_hash l \<Longrightarrow> al_data k = al_data l"
      unfolding agrees_def by (meson list.set_intros)+
    then show "((layer_of s)(al_hash l \<mapsto> al_data l)) (al_hash k) \<in> {None, Some (al_data k)}" by auto
  next
    fix k k' assume "k \<in> set ls" "k' \<in> set ls" "al_hash k = al_hash k'"
    with Cons.prems(3) show "al_data k = al_data k'" unfolding agrees_def by (meson list.set_intros)
  qed
  then have ih: "rinv s'" "node_of s' = node_of s1" "hs1 = map al_hash ls"
      "\<And>k. k \<in> set ls \<Longrightarrow> layer_of s' (al_hash k) = Some (al_data k)"
      "\<And>h. layer_of s1 h \<noteq> None \<Longrightarrow> layer_of s' h = layer_of s1 h"
    using Cons.IH [OF first(1) _ _ rest] Cons.prems(2) by auto
  have keep: "layer_of s' h = layer_of s h" if "layer_of s h \<noteq> None" for h
    using ih(5) [of h] that own unfolding first(3) by (cases "h = al_hash l") auto
  have "layer_of s' (al_hash l) = Some (al_data l)"
    using ih(5) [of "al_hash l"] unfolding first(3) by simp
  with ih first keep hs show ?case by simp
qed simp

lemma fetch_layers_ok:
  assumes "rinv s" and "list_all rvalid hs" and "fetch_layers rc key hs s = (Inr ds, s')"
  shows "map Some ds = map (layer_of s) hs \<and> rinv s' \<and> layer_of s' = layer_of s \<and> node_of s' = node_of s"
  using assms
proof (induction hs arbitrary: s ds)
  case (Cons h hs)
  obtain v s1 where g: "rc_get_layer rc h s = (Inr v, s1)"
    and k: "(case v of Some layer \<Rightarrow> bind_io (fetch_layers rc key hs) (\<lambda>rest. ret (layer # rest))
       | None \<Rightarrow> bail (''Cache integrity failure: layer '' @ h @ '' missing for node '' @ key)) s1 = (Inr ds, s')"
    using Cons.prems(3) unfolding fetch_layers.simps bind_io_Ok_iff by blast
  have hv: "rvalid h" using Cons.prems(2) by simp
  note fr = get_layer_frame [OF Cons.prems(1) hv g]
  obtain d where d: "v = Some d" using k by (cases v) auto
  then obtain ds1 where rest: "fetch_layers rc key hs s1 = (Inr ds1, s')" "ds = d # ds1"
    using k by (auto simp: bind_io_Ok_iff)
  have "layer_of s h = Some d" using get_layer_ok [OF Cons.prems(1) hv g] d by simp
  with Cons.IH [OF _ _ rest(1)] Cons.prems(2) fr rest(2) show ?case by auto
qed simp

text \<open>After a successful \<open>put_artifact\<close>, any machine that shares the remote and has no local copy
  reads the artifact back.\<close>

lemma put_then_get_elsewhere:
  assumes "rinv (hy_remote s)"
    and "list_all (\<lambda>l. rvalid (al_hash l)) (split_artifact digest d)"
    and "agrees (layer_of (hy_remote s)) (split_artifact digest d)"
    and "put_artifact digest to_json now (Some rc) key d s = (Inr (), s1)"
    and "lc_ok c" and "lc_view c key = None"
    and "get_artifact to_json now2 (Some rc) key \<lparr>hy_local = c, hy_remote = hy_remote s1\<rparr> = (Inr v, s2)"
  shows "v = Some d"
proof -
  let ?ls = "split_artifact digest d"
  obtain l r1 hs where up: "upload_layers rc ?ls (hy_remote s) = (Inr hs, r1)"
    and reg: "rc_register_node_layers rc key hs (of_nat (length d)) r1 = (Inr (), hy_remote s1)"
    using assms(4) unfolding put_artifact_def bind_io_Ok_iff option.case on_local_Ok on_remote_Ok by auto
  note u = upload_layers_ok [OF assms(1-3) up]
  note g = register_ok [OF _ reg]
  have node: "node_of (hy_remote s1) key = Some (map al_hash ?ls)" and inv1: "rinv (hy_remote s1)"
    and lay: "\<forall>l \<in> set ?ls. layer_of (hy_remote s1) (al_hash l) = Some (al_data l)"
    using u g by auto
  let ?s = "\<lparr>hy_local = c, hy_remote = hy_remote s1\<rparr>"
  from assms(7) obtain w x1 where loc: "on_local (get_data key) ?s = (Inr w, x1)"
    unfolding get_artifact_def bind_io_Ok_iff by blast
  then have "w = None" "hy_remote x1 = hy_remote s1"
    using get_data_view(3) [OF assms(5), of key "Inr w" _ w] assms(6) by (auto simp: on_local_Ok)
  let ?done = "\<lambda>d. bind_io (on_local (lc_put to_json now2 key d)) (\<lambda>_. ret (Some d))"
  let ?k = "\<lambda>ls. case ls of
      Some hs \<Rightarrow> bind_io (on_remote (fetch_layers rc key hs)) (\<lambda>ds. let d = merge_artifact ds in ?done d)
    | None \<Rightarrow> bind_io (on_remote (rc_get rc key)) (\<lambda>r. case r of Some d \<Rightarrow> ?done d | None \<Rightarrow> ret None)"
  have "bind_io (on_remote (rc_get_node_layers rc key)) ?k x1 = (Inr v, s2)"
    using assms(7) loc \<open>w = None\<close> by (simp add: get_artifact_def)
  then obtain ls x where "on_remote (rc_get_node_layers rc key) x1 = (Inr ls, x)" and k: "?k ls x = (Inr v, s2)"
    unfolding bind_io_Ok_iff [of "on_remote (rc_get_node_layers rc key)"] by blast
  then have nl: "rc_get_node_layers rc key (hy_remote s1) = (Inr ls, hy_remote x)"
    using \<open>hy_remote x1 = hy_remote s1\<close> by (auto simp: on_remote_Ok)
  have ls: "ls = Some (map al_hash ?ls)" using get_node_layers_ok [OF inv1 nl] node by simp
  note fr = get_node_layers_frame [OF inv1 nl]
  obtain ds x3 where f: "fetch_layers rc key (map al_hash ?ls) (hy_remote x) = (Inr ds, x3)" and v: "v = Some (merge_artifact ds)"
    using k unfolding ls option.case bind_io_Ok_iff Let_def on_remote_Ok ret_apply by auto
  have "list_all rvalid (map al_hash ?ls)" using assms(2) by (simp add: list_all_iff)
  from fetch_layers_ok [OF _ this f] fr have "map Some ds = map (layer_of (hy_remote s1)) (map al_hash ?ls)" by simp
  also have "\<dots> = map Some (map al_data ?ls)" using lay by simp
  finally have "ds = map al_data ?ls" by (metis inj_map_eq_map inj_Some)
  moreover have "concat (map al_data ?ls) = d"
    using concat_chunks [of CHUNK_SIZE d] by (simp add: split_artifact_def comp_def CHUNK_SIZE_def)
  ultimately show ?thesis using v by (simp add: merge_artifact_concat)
qed

end

end
