(* ===== verification/Http.thy ===== *)
theory Http
  imports Errors Server Hybrid
begin

text \<open>
  \<open>src/src/cache/http.rs\<close>: the HTTP client of the cache server as an implementation of the
  \<open>RemoteCache\<close> trait. A state is the server's state together with what the wire does to each
  of the next requests; the server is any function from requests to responses. \<open>flate2\<close> is a
  \<open>codec\<close>: a compressor and a decompressor that reads back what the compressor wrote, which is
  all the client relies on. Requests that run through \<open>retry_with_backoff\<close> take the random
  numbers of the backoff as \<open>rnd\<close>.
\<close>

section \<open>The wire\<close>

datatype wire_fault = Delivered | Lost_request | Lost_reply

record 's net =
  srv :: 's
  wire :: "wire_fault list"

text \<open>One request: it may get lost before the server sees it or after the server answered it.\<close>

definition send :: "(request \<Rightarrow> 's \<Rightarrow> response \<times> 's) \<Rightarrow> request \<Rightarrow> ('s net, response) io" where
  "send serve req n =
     (let (f, fl) = (case wire n of [] \<Rightarrow> (Delivered, []) | f # fl \<Rightarrow> (f, fl)) in
      case f of
        Lost_request \<Rightarrow> (Inl (Err ''error sending request''), n\<lparr>wire := fl\<rparr>)
      | Lost_reply \<Rightarrow> (Inl (Err ''error sending request''), n\<lparr>srv := snd (serve req (srv n)), wire := fl\<rparr>)
      | Delivered \<Rightarrow> (Inr (fst (serve req (srv n))), n\<lparr>srv := snd (serve req (srv n)), wire := fl\<rparr>))"

definition is_success :: "status \<Rightarrow> bool" where
  "is_success c \<longleftrightarrow> c = OK \<or> c = CREATED"

definition show_status :: "status \<Rightarrow> string" where
  "show_status c =
     (case c of
        OK \<Rightarrow> ''200 OK''
      | CREATED \<Rightarrow> ''201 Created''
      | BAD_REQUEST \<Rightarrow> ''400 Bad Request''
      | NOT_FOUND \<Rightarrow> ''404 Not Found''
      | INTERNAL_SERVER_ERROR \<Rightarrow> ''500 Internal Server Error'')"

section \<open>Compression\<close>

typedef codec = "{p :: (bytes \<Rightarrow> bytes) \<times> (bytes \<Rightarrow> bytes option). \<forall>x. snd p (fst p x) = Some x}"
  by (rule exI [of _ "(\<lambda>x. x, Some)"]) simp

definition gzip :: "codec \<Rightarrow> bytes \<Rightarrow> bytes" where
  "gzip z = fst (Rep_codec z)"

definition gunzip :: "codec \<Rightarrow> bytes \<Rightarrow> bytes option" where
  "gunzip z = snd (Rep_codec z)"

lemma gunzip_gzip [simp]: "gunzip z (gzip z d) = Some d"
  using Rep_codec [of z] by (auto simp: gzip_def gunzip_def)

definition plain :: codec where
  "plain = Abs_codec (\<lambda>x. x, Some)"

lemma gzip_plain [simp]: "gzip plain d = d" "gunzip plain d = Some d"
proof -
  have "Rep_codec plain = (\<lambda>x. x, Some)" unfolding plain_def by (rule Abs_codec_inverse) simp
  then show "gzip plain d = d" "gunzip plain d = Some d" by (simp_all add: gzip_def gunzip_def)
qed

text \<open>The bytes of a response; the decoder fails on what is not compressed data.\<close>

definition body_bytes :: "body \<Rightarrow> bytes" where
  "body_bytes b = (case b of Blob d \<Rightarrow> d | Text t \<Rightarrow> as_bytes t | _ \<Rightarrow> [])"

definition decode_body :: "codec \<Rightarrow> body \<Rightarrow> ('s net, bytes option) io" where
  "decode_body z b =
     (case gunzip z (body_bytes b) of
        Some d \<Rightarrow> ret (Some d)
      | None \<Rightarrow> bail ''invalid gzip header'')"

section \<open>The client\<close>

definition http_has :: "(nat \<Rightarrow> real) \<Rightarrow> (request \<Rightarrow> 's \<Rightarrow> response \<times> 's) \<Rightarrow> string \<Rightarrow> ('s net, bool) io" where
  "http_has rnd serve hash =
     retry_with_backoff rnd default_retry
       (bind_io (send serve (Head_cache hash)) (\<lambda>(c, b). ret (is_success c)))"

definition http_get_once :: "codec \<Rightarrow> (request \<Rightarrow> 's \<Rightarrow> response \<times> 's) \<Rightarrow> string \<Rightarrow> ('s net, bytes option) io" where
  "http_get_once z serve hash =
     bind_io (send serve (Get_cache hash)) (\<lambda>(c, b).
       if is_success c then decode_body z b
       else if c = NOT_FOUND then ret None
       else bail (''Remote cache error: '' @ show_status c))"

definition http_get :: "(nat \<Rightarrow> real) \<Rightarrow> codec \<Rightarrow> (request \<Rightarrow> 's \<Rightarrow> response \<times> 's) \<Rightarrow> string \<Rightarrow> ('s net, bytes option) io" where
  "http_get rnd z serve hash = retry_with_backoff rnd default_retry (http_get_once z serve hash)"

text \<open>The message of a skipped upload slices the hash at 8 bytes, which panics on a shorter one.\<close>

definition http_put :: "(nat \<Rightarrow> real) \<Rightarrow> codec \<Rightarrow> (request \<Rightarrow> 's \<Rightarrow> response \<times> 's) \<Rightarrow> string \<Rightarrow> bytes \<Rightarrow> ('s net, unit) io" where
  "http_put rnd z serve hash d =
     bind_io (http_has rnd serve hash) (\<lambda>present.
       if present
       then (if length hash < 8 then bail ''panic: byte index 8 is out of bounds'' else ret ())
       else retry_with_backoff rnd default_retry
              (bind_io (send serve (Put_cache hash (gzip z d))) (\<lambda>(c, b).
                 if is_success c then ret () else bail (''Failed to upload to remote cache: '' @ show_status c))))"

definition http_has_layer :: "(request \<Rightarrow> 's \<Rightarrow> response \<times> 's) \<Rightarrow> string \<Rightarrow> ('s net, bool) io" where
  "http_has_layer serve hash = bind_io (send serve (Head_layer hash)) (\<lambda>(c, b). ret (is_success c))"

definition http_get_layer :: "codec \<Rightarrow> (request \<Rightarrow> 's \<Rightarrow> response \<times> 's) \<Rightarrow> string \<Rightarrow> ('s net, bytes option) io" where
  "http_get_layer z serve hash =
     bind_io (send serve (Get_layer hash)) (\<lambda>(c, b).
       if is_success c then decode_body z b
       else if c = NOT_FOUND then ret None
       else bail (''Remote layer cache error: '' @ show_status c))"

definition http_put_layer :: "codec \<Rightarrow> (request \<Rightarrow> 's \<Rightarrow> response \<times> 's) \<Rightarrow> string \<Rightarrow> bytes \<Rightarrow> ('s net, unit) io" where
  "http_put_layer z serve hash d =
     bind_io (send serve (Put_layer hash (gzip z d))) (\<lambda>(c, b).
       if is_success c then ret () else bail (''Failed to upload layer to remote cache: '' @ show_status c))"

text \<open>Parsing the body as a list of strings fails when it is anything else, \<open>null\<close> included.\<close>

definition http_get_node_layers :: "(request \<Rightarrow> 's \<Rightarrow> response \<times> 's) \<Rightarrow> string \<Rightarrow> ('s net, string list option) io" where
  "http_get_node_layers serve hash =
     bind_io (send serve (Get_node_layers hash)) (\<lambda>(c, b).
       if is_success c
       then (case b of Layers (Some ls) \<Rightarrow> ret (Some ls) | _ \<Rightarrow> bail ''error decoding response body'')
       else if c = NOT_FOUND then ret None
       else bail (''Failed to get node layers: '' @ show_status c))"

definition http_register_node_layers ::
    "(request \<Rightarrow> 's \<Rightarrow> response \<times> 's) \<Rightarrow> string \<Rightarrow> string list \<Rightarrow> u64 \<Rightarrow> ('s net, unit) io" where
  "http_register_node_layers serve hash layers total_size =
     bind_io (send serve (Post_node_layers hash layers total_size)) (\<lambda>(c, b).
       if is_success c then ret () else bail (''Failed to register node layers: '' @ show_status c))"

text \<open>The reports ignore the status and fail only when the request does.\<close>

definition http_report :: "(request \<Rightarrow> 's \<Rightarrow> response \<times> 's) \<Rightarrow> request \<Rightarrow> ('s net, unit) io" where
  "http_report serve req = bind_io (send serve req) (\<lambda>_. ret ())"

definition http_remote_cache :: "(nat \<Rightarrow> real) \<Rightarrow> codec \<Rightarrow> (request \<Rightarrow> 's \<Rightarrow> response \<times> 's) \<Rightarrow> 's net remote_cache" where
  "http_remote_cache rnd z serve =
     \<lparr>rc_has = http_has rnd serve, rc_get = http_get rnd z serve, rc_put = http_put rnd z serve,
      rc_has_layer = http_has_layer serve, rc_get_layer = http_get_layer z serve,
      rc_put_layer = http_put_layer z serve, rc_get_node_layers = http_get_node_layers serve,
      rc_register_node_layers = http_register_node_layers serve,
      rc_report_build_event = (\<lambda>e. http_report serve (Post_build_event e)),
      rc_report_dag = (\<lambda>g. http_report serve (Post_dag g)),
      rc_report_analytics = (\<lambda>a b c. http_report serve (Post_analytics \<lparr>ad_dirty = a, ad_cached = b, ad_duration_ms = c\<rparr>))\<rparr>"

section \<open>Lemmas\<close>

text \<open>A request leaves the server as it was or as the handler left it, and an answer is the handler's.\<close>

lemma send_cases:
  assumes "send serve req n = (r, n')"
  obtains (lost) e where "r = Inl e" "srv n' = srv n"
  | (dropped) e where "r = Inl e" "srv n' = snd (serve req (srv n))"
  | (answered) resp where "r = Inr resp" "serve req (srv n) = (resp, srv n')"
  using assms
  by (cases "serve req (srv n)"; cases "case wire n of [] \<Rightarrow> (Delivered, []) | f # fl \<Rightarrow> (f, fl)";
      cases "fst (case wire n of [] \<Rightarrow> (Delivered, []) | f # fl \<Rightarrow> (f, fl))") (auto simp: send_def)

lemma send_frame:
  assumes "send serve req n = (r, n')" and "I (srv n)" and "\<And>x. I x \<Longrightarrow> I (snd (serve req x))"
  shows "I (srv n')"
  using assms(1)
proof (cases rule: send_cases)
  case (answered resp)
  then show ?thesis using assms(3) [OF assms(2)] by simp
qed (use assms(2,3) in auto)

text \<open>An operation that keeps an invariant keeps it under retries, and a successful outcome is the
  outcome of one run of the operation on a state with the invariant.\<close>

lemma retry_loop_inv:
  assumes "\<And>s r s'. I s \<Longrightarrow> m s = (r, s') \<Longrightarrow> I s'" and "I s"
    and "retry_loop rnd config m attempt slept s = (r, s', sl)"
  shows "I s' \<and> (\<forall>v. r = Inr v \<longrightarrow> (\<exists>t. I t \<and> m t = (Inr v, s')))"
  using assms(2,3)
proof (induction "max_attempts config - attempt" arbitrary: attempt slept s)
  case (0 attempt slept s)
  obtain w s1 where w: "m s = (w, s1)" by (rule prod.exhaust)
  have "I s1" using assms(1) [OF 0(2) w] .
  then show ?case
    using 0 w by (auto simp: retry_loop.simps [of _ _ m] split: sum.splits err.splits)
next
  case (Suc k attempt slept s)
  obtain w s1 where w: "m s = (w, s1)" by (rule prod.exhaust)
  have s1: "I s1" using assms(1) [OF Suc(3) w] .
  show ?case
  proof (cases w)
    case (Inl e)
    obtain x where e: "e = Err x" by (cases e)
    show ?thesis
    proof (cases "max_attempts config \<le> attempt + 1")
      case True
      with s1 Suc(4) w Inl e show ?thesis by (auto simp: retry_loop.simps [of _ _ m])
    next
      case False
      then have "retry_loop rnd config m (attempt + 1) (slept @ [calculate_backoff (rnd attempt) attempt config]) s1 = (r, s', sl)"
        using Suc(4) w Inl e by (simp add: retry_loop.simps [of _ _ m attempt])
      moreover have "k = max_attempts config - (attempt + 1)" using Suc(2) by simp
      ultimately show ?thesis using Suc(1) [OF _ s1] by blast
    qed
  next
    case (Inr v)
    with s1 Suc(3,4) w show ?thesis by (auto simp: retry_loop.simps [of _ _ m])
  qed
qed

lemma retry_inv:
  assumes "\<And>s r s'. I s \<Longrightarrow> m s = (r, s') \<Longrightarrow> I s'" and "I s" and "retry_with_backoff rnd config m s = (r, s')"
  shows "I s'" and "r = Inr v \<Longrightarrow> \<exists>t. I t \<and> m t = (Inr v, s')"
proof -
  obtain sl where loop: "retry_loop rnd config m 0 [] s = (r, s', sl)"
    using assms(3) by (auto simp: retry_with_backoff_def split: prod.splits)
  have "I s' \<and> (\<forall>v. r = Inr v \<longrightarrow> (\<exists>t. I t \<and> m t = (Inr v, s')))"
    by (rule retry_loop_inv [where I = I, OF _ assms(2) loop]) (rule assms(1))
  then show "I s'" "r = Inr v \<Longrightarrow> \<exists>t. I t \<and> m t = (Inr v, s')" by blast+
qed

section \<open>The client in front of the server meets the contract\<close>

text \<open>What the client reads is the decompressed blob.\<close>

definition http_layer :: "codec \<Rightarrow> string \<Rightarrow> fs app_state net \<Rightarrow> string \<Rightarrow> bytes option" where
  "http_layer z base n h =
     map_option (\<lambda>x. case gunzip z x of Some d \<Rightarrow> d | None \<Rightarrow> []) (local_view base (storage_state (srv n)) h)"

definition http_node :: "fs app_state net \<Rightarrow> string \<Rightarrow> string list option" where
  "http_node n h = md_get_node_layers (metadata (srv n)) h"

text \<open>Every registered layer has a blob.\<close>

definition srv_inv :: "string \<Rightarrow> fs app_state \<Rightarrow> bool" where
  "srv_inv base s \<longleftrightarrow> local_inv base (storage_state s) \<and> md_ok (metadata s)
     \<and> (\<forall>l. layer_exists (metadata s) l \<longrightarrow> local_view base (storage_state s) l \<noteq> None)"

text \<open>A request that only reads: the blobs, the layer lists and the registered layers stay.\<close>

definition same_content :: "string \<Rightarrow> fs app_state \<Rightarrow> fs app_state \<Rightarrow> bool" where
  "same_content base s s' \<longleftrightarrow> srv_inv base s' \<and> local_view base (storage_state s') = local_view base (storage_state s)
     \<and> md_get_node_layers (metadata s') = md_get_node_layers (metadata s)"

lemma same_content_views:
  "same_content base (srv n) (srv n') \<Longrightarrow>
     srv_inv base (srv n') \<and> http_layer z base n' = http_layer z base n \<and> http_node n' = http_node n"
  by (simp add: same_content_def http_layer_def http_node_def fun_eq_iff)

lemma touch_reads:
  "md_get_node_layers (touch t h m) = md_get_node_layers m" "layer_exists (touch t h m) = layer_exists m"
proof -
  have "md_get_node_layers (touch t h m) k = md_get_node_layers m k" for k
    using entries_touch [of t h m k] by (simp add: md_get_node_layers_def layer_rows_def) (simp add: touch_def)
  then show "md_get_node_layers (touch t h m) = md_get_node_layers m" by blast
  show "layer_exists (touch t h m) = layer_exists m" by (simp add: touch_def layer_exists_def fun_eq_iff)
qed

lemma reading_requests:
  assumes "srv_inv base s" and "req \<in> {Head_cache h, Get_cache h, Head_layer h, Get_layer h, Get_node_layers h}"
  shows "same_content base s (snd (route (local_storage base) env req s))"
proof -
  have g: "local_inv base (snd (local_get base h (storage_state s)))"
    "local_view base (snd (local_get base h (storage_state s))) = local_view base (storage_state s)"
    using local_get_inv [of base h "storage_state s"] assms(1) by (simp_all add: srv_inv_def)
  show ?thesis
    using assms(2)
  proof (elim insertE emptyE)
    assume "req = Head_cache h"
    then show ?thesis using assms(1)
      by (simp add: route_def srv_check_cache_def same_content_def srv_inv_def touch_reads md_ok_touch)
  next
    assume "req = Get_cache h"
    then show ?thesis using assms(1) g
      by (auto simp: route_def srv_get_artifact_def on_storage_apply local_storage_def same_content_def srv_inv_def
          touch_reads md_ok_touch split: sum.splits option.splits)
  next
    assume "req = Head_layer h"
    then show ?thesis using assms(1) by (simp add: route_def srv_check_layer_def same_content_def)
  next
    assume "req = Get_layer h"
    then show ?thesis using assms(1) g
      by (auto simp: route_def srv_get_layer_def on_storage_apply local_storage_def same_content_def srv_inv_def
          split: sum.splits option.splits)
  next
    assume "req = Get_node_layers h"
    then show ?thesis using assms(1)
      by (auto simp: route_def srv_get_node_layers_def same_content_def split: option.splits)
  qed
qed

lemma send_reading:
  assumes "srv_inv base (srv n)" and "req \<in> {Head_cache h, Get_cache h, Head_layer h, Get_layer h, Get_node_layers h}"
    and "send (route (local_storage base) env) req n = (r, n')"
  shows "same_content base (srv n) (srv n')"
proof (rule send_frame [where I = "same_content base (srv n)", OF assms(3)])
  show "same_content base (srv n) (srv n)" using assms(1) by (simp add: same_content_def)
  show "same_content base (srv n) (snd (route (local_storage base) env req x))" if "same_content base (srv n) x" for x
    using reading_requests [OF _ assms(2), of base x env] that by (simp add: same_content_def)
qed

text \<open>Code that sends one reading request and then only looks at the answer.\<close>

lemma bind_send_reading:
  assumes "srv_inv base (srv n)" and "req \<in> {Head_cache h, Get_cache h, Head_layer h, Get_layer h, Get_node_layers h}"
    and "bind_io (send (route (local_storage base) env) req) k n = (r, n')"
    and "\<And>resp x. snd (k resp x) = x"
  shows "same_content base (srv n) (srv n')"
proof -
  obtain w n1 where w: "send (route (local_storage base) env) req n = (w, n1)" by (rule prod.exhaust)
  have "n' = n1"
    using assms(3) w assms(4) [of _ n1] by (cases w) (auto simp: bind_io_def, metis snd_conv)
  then show ?thesis using send_reading [OF assms(1,2) w] by simp
qed

lemma decode_body_state [simp]: "snd (decode_body z b x) = x"
  by (auto simp: decode_body_def split: option.splits)

lemma get_blob_answer:
  assumes "srv_inv base s" and "blob_name h" and "req = Get_cache h \<or> req = Get_layer h"
    and "route (local_storage base) env req s = ((c, b), s')"
  shows "is_success c \<Longrightarrow> \<exists>x. b = Blob x \<and> local_view base (storage_state s) h = Some x"
    and "c = NOT_FOUND \<Longrightarrow> local_view base (storage_state s) h = None"
proof -
  have inv: "local_inv base (storage_state s)" using assms(1) by (simp add: srv_inv_def)
  obtain r x where g: "local_get base h (storage_state s) = (r, x)" by (rule prod.exhaust)
  have "(is_success c \<longrightarrow> (\<exists>y. b = Blob y \<and> r = Inr (Some y))) \<and> (c = NOT_FOUND \<longrightarrow> r = Inr None)"
    using assms(3,4) g
    by (auto simp: route_def srv_get_artifact_def srv_get_layer_def on_storage_apply local_storage_def is_success_def
        split: sum.splits option.splits)
  then show "is_success c \<Longrightarrow> \<exists>x. b = Blob x \<and> local_view base (storage_state s) h = Some x"
    "c = NOT_FOUND \<Longrightarrow> local_view base (storage_state s) h = None"
    using local_get_ok [OF inv assms(2)] g by auto
qed

lemma get_once_reads:
  assumes "srv_inv base (srv n)" and "blob_name h" and "req = Get_cache h \<or> req = Get_layer h"
    and "bind_io (send (route (local_storage base) env) req) (\<lambda>(c, b).
       if is_success c then decode_body z b else if c = NOT_FOUND then ret None else bail (msg c)) n = (Inr v, n')"
  shows "v = http_layer z base n h"
proof -
  obtain c b n1 where s: "send (route (local_storage base) env) req n = (Inr (c, b), n1)"
    and k: "(if is_success c then decode_body z b else if c = NOT_FOUND then ret None else bail (msg c)) n1 = (Inr v, n')"
    using assms(4) unfolding bind_io_Ok_iff by auto
  obtain x where x: "route (local_storage base) env req (srv n) = ((c, b), x)"
    using s by (cases rule: send_cases) auto
  note ans = get_blob_answer [OF assms(1-3) x]
  show ?thesis
  proof (cases "is_success c")
    case True
    then obtain y where y: "b = Blob y" "local_view base (storage_state (srv n)) h = Some y" using ans by blast
    with True k show ?thesis
      by (cases v; cases "gunzip z y") (simp_all add: decode_body_def body_bytes_def http_layer_def)
  next
    case False
    with k have "c = NOT_FOUND" "v = None" by (auto split: if_splits)
    with ans show ?thesis by (simp add: http_layer_def)
  qed
qed

lemma put_layer_answer:
  assumes "srv_inv base s" and "blob_name h" and "is_success c"
    and "route (local_storage base) env (Put_layer h x) s = ((c, b), s')"
  shows "srv_inv base s' \<and> md_get_node_layers (metadata s') = md_get_node_layers (metadata s)
    \<and> local_view base (storage_state s') =
        (local_view base (storage_state s))(h \<mapsto> (case local_view base (storage_state s) h of None \<Rightarrow> x | Some y \<Rightarrow> y))"
proof -
  let ?ins = "\<lambda>p. insert_layer (env_now env) h p (of_nat (length x)) (metadata s)"
  obtain r y where put: "local_put base h x (storage_state s) = (r, y)" by (rule prod.exhaust)
  obtain p where p: "r = Inr p"
    using assms(3,4) put
    by (cases r) (auto simp: route_def srv_put_layer_def on_storage_apply local_storage_def is_success_def split: if_splits)
  have s': "s' = s\<lparr>storage_state := y, metadata := snd (?ins p)\<rparr>"
    using assms(3,4) put p
    by (auto simp: route_def srv_put_layer_def on_storage_apply on_metadata_apply local_storage_def is_success_def
        split: if_splits prod.splits sum.splits)
  have inv: "local_inv base (storage_state s)" using assms(1) by (simp add: srv_inv_def)
  have view: "local_view base y = (local_view base (storage_state s))(h \<mapsto> (case local_view base (storage_state s) h of None \<Rightarrow> x | Some y \<Rightarrow> y))"
    using local_put_ok [OF inv assms(2), of x p y] put p by simp
  have "md_get_node_layers (snd (?ins p)) = md_get_node_layers (metadata s)"
    by (simp add: insert_layer_def fun_eq_iff md_get_node_layers_def layer_rows_def)
  moreover have "layer_exists (snd (?ins p)) l \<Longrightarrow> l = h \<or> layer_exists (metadata s) l" for l
    by (auto simp: insert_layer_def layer_exists_def update_conv' split: if_splits option.splits)
  moreover have "local_inv base y" using local_put_inv [OF inv assms(2), of x] put by simp
  moreover have "md_ok (snd (?ins p))" using assms(1) by (simp add: srv_inv_def md_ok_insert_layer)
  ultimately show ?thesis
    using assms(1) unfolding s' by (auto simp: srv_inv_def view)
qed

lemma register_answer:
  assumes "srv_inv base s" and "is_success c"
    and "route (local_storage base) env (Post_node_layers h ls k) s = ((c, b), s')"
  shows "srv_inv base s' \<and> storage_state s' = storage_state s
    \<and> md_get_node_layers (metadata s') = (md_get_node_layers (metadata s))(h \<mapsto> ls)"
proof -
  let ?m = "snd (insert_layered_node (env_now env) h k ls (metadata s))"
  have ins: "insert_layered_node (env_now env) h k ls (metadata s) = (Inr (), ?m)" and s': "s' = s\<lparr>metadata := ?m\<rparr>"
    using assms(2,3)
    by (auto simp: route_def srv_register_node_layers_def on_metadata_apply is_success_def prod_eq_iff split: sum.splits)
  have "md_ok ?m" using assms(1) by (simp add: srv_inv_def md_ok_insert_layered_node)
  moreover have "layer_exists ?m l = layer_exists (metadata s) l" for l
    using register_get_layers(3) [OF ins, of l] by (simp add: layer_exists_def)
  moreover have "md_get_node_layers ?m = (md_get_node_layers (metadata s))(h \<mapsto> ls)"
    using register_get_layers(1,2) [OF ins] by (auto simp: fun_eq_iff)
  ultimately show ?thesis using assms(1) unfolding s' by (simp add: srv_inv_def)
qed

interpretation hc: remote_cache_laws "http_remote_cache rnd z (route (local_storage base) env)"
  "\<lambda>n. srv_inv base (srv n)" "http_layer z base" http_node "http_layer z base" blob_name
  for rnd z base env
proof unfold_locales
  let ?serve = "route (local_storage base) env"
  fix n n' :: "fs app_state net" and h :: string
  assume inv: "srv_inv base (srv n)"
  { fix r assume "rc_has_layer (http_remote_cache rnd z ?serve) h n = (r, n')"
    then have "bind_io (send ?serve (Head_layer h)) (\<lambda>(c, b). ret (is_success c)) n = (r, n')"
      by (simp add: http_remote_cache_def http_has_layer_def)
    from bind_send_reading [OF inv _ this, of h] have "same_content base (srv n) (srv n')" by (simp add: split_def)
    then show "srv_inv base (srv n') \<and> http_layer z base n' = http_layer z base n \<and> http_node n' = http_node n
        \<and> http_layer z base n' = http_layer z base n"
      using same_content_views by blast }
  { assume "rc_has_layer (http_remote_cache rnd z ?serve) h n = (Inr True, n')"
    then obtain c b where "send ?serve (Head_layer h) n = (Inr (c, b), n')" "is_success c"
      by (auto simp: http_remote_cache_def http_has_layer_def bind_io_Ok_iff)
    then have "layer_exists (metadata (srv n)) h"
      by (cases rule: send_cases) (auto simp: route_def srv_check_layer_def is_success_def split: if_splits)
    then show "http_layer z base n h \<noteq> None" using inv by (simp add: srv_inv_def http_layer_def) }
  { fix r assume "rc_get_layer (http_remote_cache rnd z ?serve) h n = (r, n')"
    then have "same_content base (srv n) (srv n')"
      using bind_send_reading [OF inv, of "Get_layer h" h env _ r n']
      by (auto simp: http_remote_cache_def http_get_layer_def split_def)
    then show "srv_inv base (srv n') \<and> http_layer z base n' = http_layer z base n \<and> http_node n' = http_node n
        \<and> http_layer z base n' = http_layer z base n"
      using same_content_views by blast }
  { fix v assume "blob_name h" "rc_get_layer (http_remote_cache rnd z ?serve) h n = (Inr v, n')"
    then show "v = http_layer z base n h"
      using get_once_reads [OF inv, of h "Get_layer h" env z _ v n'] by (simp add: http_remote_cache_def http_get_layer_def) }
  { fix d assume h: "blob_name h" and "rc_put_layer (http_remote_cache rnd z ?serve) h d n = (Inr (), n')"
    then obtain c b where "send ?serve (Put_layer h (gzip z d)) n = (Inr (c, b), n')" and c: "is_success c"
      by (auto simp: http_remote_cache_def http_put_layer_def bind_io_Ok_iff split: if_splits)
    then have "?serve (Put_layer h (gzip z d)) (srv n) = ((c, b), srv n')"
      by (cases rule: send_cases) auto
    note ans = put_layer_answer [OF inv h c this]
    then show "srv_inv base (srv n') \<and> http_node n' = http_node n
      \<and> (http_layer z base n' = (http_layer z base n)(h \<mapsto> d)
         \<or> http_layer z base n h \<noteq> None \<and> http_layer z base n' = http_layer z base n)"
      by (cases "local_view base (storage_state (srv n)) h") (auto simp: http_layer_def http_node_def fun_eq_iff) }
  { fix r assume "rc_get_node_layers (http_remote_cache rnd z ?serve) h n = (r, n')"
    then have "same_content base (srv n) (srv n')"
      using bind_send_reading [OF inv, of "Get_node_layers h" h env _ r n']
      by (auto simp: http_remote_cache_def http_get_node_layers_def split_def split: body.splits option.splits)
    then show "srv_inv base (srv n') \<and> http_layer z base n' = http_layer z base n \<and> http_node n' = http_node n
        \<and> http_layer z base n' = http_layer z base n"
      using same_content_views by blast }
  { fix ls assume "rc_get_node_layers (http_remote_cache rnd z ?serve) h n = (Inr ls, n')"
    then obtain c b n1 where s: "send ?serve (Get_node_layers h) n = (Inr (c, b), n1)"
      and k: "(if is_success c then (case b of Layers (Some ls) \<Rightarrow> ret (Some ls) | _ \<Rightarrow> bail ''error decoding response body'')
         else if c = NOT_FOUND then ret None else bail (''Failed to get node layers: '' @ show_status c)) n1 = (Inr ls, n')"
      by (auto simp: http_remote_cache_def http_get_node_layers_def bind_io_Ok_iff)
    have "?serve (Get_node_layers h) (srv n) = ((c, b), srv n1)" using s by (cases rule: send_cases) auto
    with k show "ls = http_node n h"
      by (auto simp: route_def srv_get_node_layers_def http_node_def is_success_def split: option.splits if_splits) }
  { fix ls k assume "rc_register_node_layers (http_remote_cache rnd z ?serve) h ls k n = (Inr (), n')"
    then obtain c b where "send ?serve (Post_node_layers h ls k) n = (Inr (c, b), n')" and c: "is_success c"
      by (auto simp: http_remote_cache_def http_register_node_layers_def bind_io_Ok_iff split: if_splits)
    then have "?serve (Post_node_layers h ls k) (srv n) = ((c, b), srv n')"
      by (cases rule: send_cases) auto
    from register_answer [OF inv c this]
    show "srv_inv base (srv n') \<and> http_layer z base n' = http_layer z base n \<and> http_node n' = (http_node n)(h \<mapsto> ls)"
      by (simp add: http_layer_def http_node_def fun_eq_iff) }
  let ?I = "\<lambda>x. same_content base (srv n) (srv x)"
  have start: "?I n" using inv by (simp add: same_content_def)
  have step: "?I x'" if "?I x" "http_get_once z ?serve h x = (r, x')" for x r x'
  proof -
    have "srv_inv base (srv x)" using that(1) by (simp add: same_content_def)
    from bind_send_reading [OF this, of "Get_cache h" h env _ r x'] that(2)
    have "same_content base (srv x) (srv x')" by (auto simp: http_get_once_def split_def)
    with that(1) show ?thesis by (simp add: same_content_def)
  qed
  { fix r assume "rc_get (http_remote_cache rnd z ?serve) h n = (r, n')"
    then have run: "retry_with_backoff rnd default_retry (http_get_once z ?serve h) n = (r, n')"
      by (simp add: http_remote_cache_def http_get_def)
    have "?I n'" by (rule retry_inv(1) [where I = ?I, OF _ start run]) (rule step)
    then show "srv_inv base (srv n') \<and> http_layer z base n' = http_layer z base n \<and> http_node n' = http_node n
        \<and> http_layer z base n' = http_layer z base n"
      using same_content_views by blast }
  { fix v assume h: "blob_name h" and "rc_get (http_remote_cache rnd z ?serve) h n = (Inr v, n')"
    then have run: "retry_with_backoff rnd default_retry (http_get_once z ?serve h) n = (Inr v, n')"
      by (simp add: http_remote_cache_def http_get_def)
    have "\<exists>t. ?I t \<and> http_get_once z ?serve h t = (Inr v, n')"
      by (rule retry_inv(2) [where I = ?I, OF _ start run]) (rule step, assumption+, rule refl)
    then obtain t where t: "?I t" "http_get_once z ?serve h t = (Inr v, n')" by blast
    have "srv_inv base (srv t)" using t(1) by (simp add: same_content_def)
    from get_once_reads [OF this h, of "Get_cache h" env z _ v n'] t(2)
    have "v = http_layer z base t h" by (simp add: http_get_once_def)
    with t(1) show "v = http_layer z base n h" using same_content_views by metis }
qed

section \<open>Properties\<close>

abbreviation server_cache :: "(nat \<Rightarrow> real) \<Rightarrow> codec \<Rightarrow> string \<Rightarrow> server_env \<Rightarrow> fs app_state net remote_cache" where
  "server_cache rnd z base env \<equiv> http_remote_cache rnd z (route (local_storage base) env)"


text \<open>Uploads are rejected: the client sends the compressed chunk under the digest of the
  uncompressed one, and the server compares the digest of what it receives. Unless the two digests
  happen to agree, storing an artifact whose first chunk the server does not know fails after the
  local copy was written, and the server's state is unchanged.\<close>

theorem compressed_upload_rejected:
  assumes "wire (hy_remote s) = []" and "chunks CHUNK_SIZE d = x # xs"
    and "\<not> layer_exists (metadata (srv (hy_remote s))) (env_blake3 env x)"
    and "env_blake3 env (gzip z x) \<noteq> env_blake3 env x"
    and "lc_put to_json now key d (hy_local s) = (Inr (), l)"
  shows "put_artifact (env_blake3 env) to_json now (Some (server_cache rnd z base env)) key d s
     = (Inl (Err ''Failed to upload layer to remote cache: 400 Bad Request''), s\<lparr>hy_local := l\<rparr>)"
proof -
  let ?serve = "route (local_storage base) env" and ?n = "hy_remote s"
  let ?rc = "server_cache rnd z base env" and ?e = "Err ''Failed to upload layer to remote cache: 400 Bad Request''"
  have deliver: "send ?serve req ?n = (Inr (fst (?serve req (srv ?n))), ?n)"
    if "snd (?serve req (srv ?n)) = srv ?n" for req
    using that assms(1) by (simp add: send_def)
  have "rc_has_layer ?rc (env_blake3 env x) ?n = (Inr False, ?n)"
    using deliver [of "Head_layer (env_blake3 env x)"] assms(3)
    by (simp add: http_remote_cache_def http_has_layer_def bind_io_def route_def srv_check_layer_def is_success_def)
  moreover have "rc_put_layer ?rc (env_blake3 env x) x ?n = (Inl ?e, ?n)"
    using deliver [of "Put_layer (env_blake3 env x) (gzip z x)"] assms(4)
    by (simp add: http_remote_cache_def http_put_layer_def bind_io_def route_def srv_put_layer_def is_success_def show_status_def)
  ultimately have "upload_layers ?rc (split_artifact (env_blake3 env) d) ?n = (Inl ?e, ?n)"
    by (simp add: split_artifact_def assms(2) bind_io_def)
  then show ?thesis
    by (simp add: put_artifact_def on_local_def on_remote_def on_part_def bind_io_def assms(5))
qed

text \<open>An artifact the server stores without layers reads back empty: for a key that has an entry but
  no layer list the server answers with an empty list instead of ``not found'', so the client
  assembles an empty artifact, stores it locally, and never tries the blob itself.\<close>

theorem unlayered_artifact_reads_empty:
  assumes "wire (hy_remote s) = []" and "md_exists (metadata (srv (hy_remote s))) key"
    and "layer_rows (metadata (srv (hy_remote s))) key = []"
    and "get_data key (hy_local s) = (Inr None, l)" and "lc_put to_json now key [] l = (Inr (), l')"
  shows "get_artifact to_json now (Some (server_cache rnd z base env)) key s = (Inr (Some []), s\<lparr>hy_local := l'\<rparr>)"
proof -
  have "md_get_node_layers (metadata (srv (hy_remote s))) key = Some []"
    using assms(2,3) by (simp add: md_get_node_layers_def md_exists_def)
  then have "rc_get_node_layers (server_cache rnd z base env) key (hy_remote s) = (Inr (Some []), hy_remote s)"
    using assms(1)
    by (simp add: http_remote_cache_def http_get_node_layers_def send_def bind_io_def route_def srv_get_node_layers_def is_success_def)
  then show ?thesis
    using assms(4,5)
    by (simp add: get_artifact_def on_local_def on_remote_def on_part_def bind_io_def merge_artifact_def Let_def)
qed

section \<open>Witnesses\<close>

definition toy_machine :: "fs app_state net hybrid" where
  "toy_machine = \<lparr>hy_local = demo_cache, hy_remote = \<lparr>srv = toy_server, wire = []\<rparr>\<rparr>"

abbreviation toy_json :: "index \<Rightarrow> bytes option" where
  "toy_json \<equiv> \<lambda>t. Some (encode_bytes t)"

lemma toy_machine_srv: "srv_inv ''/srv'' (srv (hy_remote toy_machine))"
  by (simp add: toy_machine_def toy_server_def srv_inv_def toy_server_inv md_ok_new) (simp add: layer_exists_def new_store_def)

lemma toy_local_put: "\<exists>l. lc_put toy_json 0 k d demo_cache = (Inr (), l)" if "key_ok k"
  using lc_put_ready [OF demo_cache_ready that, of toy_json encode_bytes] by blast

lemma chunks_short: "d \<noteq> [] \<Longrightarrow> length d \<le> CHUNK_SIZE \<Longrightarrow> chunks CHUNK_SIZE d = [d]"
  using chunks_step [of d CHUNK_SIZE] by (simp add: CHUNK_SIZE_def)

definition shift_bytes :: codec where
  "shift_bytes = Abs_codec (\<lambda>d. map (\<lambda>b. b + 1) d, \<lambda>d. Some (map (\<lambda>b. b - 1) d))"

lemma gzip_shift_bytes: "gzip shift_bytes d = map (\<lambda>b. b + 1) d"
proof -
  have "Rep_codec shift_bytes = (\<lambda>d. map (\<lambda>b. b + 1) d, \<lambda>d. Some (map (\<lambda>b. b - 1) d))"
    unfolding shift_bytes_def by (rule Abs_codec_inverse) (simp add: comp_def)
  then show ?thesis by (simp add: gzip_def)
qed

theorem compressed_upload_rejected_witness:
  "fst (put_artifact toy_digest toy_json 0 (Some (server_cache (\<lambda>_. 0) shift_bytes ''/srv'' toy_env)) ''key1'' [0, 255] toy_machine)
     = Inl (Err ''Failed to upload layer to remote cache: 400 Bad Request'')"
proof -
  obtain l where l: "lc_put toy_json 0 ''key1'' [0, 255] demo_cache = (Inr (), l)"
    using toy_local_put [of "''key1''" "[0, 255]"] by (auto simp: key_ok_def)
  have "chunks CHUNK_SIZE [0, 255 :: 8 word] = [[0, 255]]"
    by (rule chunks_short) (simp_all add: CHUNK_SIZE_def)
  then show ?thesis
    using compressed_upload_rejected [of toy_machine "[0, 255]" "[0, 255]" "[]" toy_env shift_bytes toy_json 0 "''key1''" l "\<lambda>_. 0" "''/srv''"] l
    by (simp add: toy_machine_def toy_server_def new_store_def layer_exists_def gzip_shift_bytes toy_env_def toy_digest_def)
qed

theorem unlayered_artifact_reads_empty_witness:
  "\<exists>s. route (local_storage ''/srv'') toy_env (Put_cache ''01beef'' [0, 1]) toy_server = ((CREATED, Empty), s)
     \<and> fst (get_artifact toy_json 0 (Some (server_cache (\<lambda>_. 0) plain ''/srv'' toy_env)) ''01beef''
          (toy_machine\<lparr>hy_remote := \<lparr>srv = s, wire = []\<rparr>\<rparr>)) = Inr (Some [])"
proof -
  obtain s where s: "route (local_storage ''/srv'') toy_env (Put_cache ''01beef'' [0, 1]) toy_server = ((CREATED, Empty), s)"
    using toy_upload by blast
  then have md: "metadata s = snd (md_insert ''2024'' ''01beef'' (get_sharded_path ''/srv'' ''01beef'') 2 (new_store True))"
    by (auto simp: route_def srv_put_artifact_def on_storage_apply on_metadata_apply toy_server_def toy_env_def local_storage_def
        local_put_def Let_def bind_io_def split: sum.splits prod.splits if_splits option.splits)
  obtain l where l: "lc_put toy_json 0 ''01beef'' [] demo_cache = (Inr (), l)"
    using toy_local_put [of "''01beef''" "[]"] by (auto simp: key_ok_def)
  have "get_data ''01beef'' demo_cache = (Inr None, demo_cache)" by (simp add: get_data_def demo_cache_def)
  then have "get_artifact toy_json 0 (Some (server_cache (\<lambda>_. 0) plain ''/srv'' toy_env)) ''01beef''
          (toy_machine\<lparr>hy_remote := \<lparr>srv = s, wire = []\<rparr>\<rparr>)
      = (Inr (Some []), toy_machine\<lparr>hy_remote := \<lparr>srv = s, wire = []\<rparr>, hy_local := l\<rparr>)"
    using unlayered_artifact_reads_empty [of "toy_machine\<lparr>hy_remote := \<lparr>srv = s, wire = []\<rparr>\<rparr>" "''01beef''" demo_cache toy_json 0 l
        "\<lambda>_. 0" plain "''/srv''" toy_env] l
    by (simp add: toy_machine_def md md_insert_def fits_i64_def md_exists_def upsert_entry_def new_store_def layer_rows_def)
  with s show ?thesis by auto
qed

text \<open>One machine stores two bytes, another reads them back.\<close>

definition toy_blobs :: fs where
  "toy_blobs = fresh_fs\<lparr>dirs := dirs fresh_fs @ ancestors (shard_dir ''/srv'' ''01beef''),
     files := [(''/srv/01/be/01beef'', [0, 1])]\<rparr>"

definition toy_shared :: "fs app_state" where
  "toy_shared = toy_server\<lparr>storage_state := toy_blobs,
     metadata := snd (insert_layered_node ''2024'' ''key1'' 2 [''01beef'']
       (snd (insert_layer ''2024'' ''01beef'' ''/srv/01/be/01beef'' 2 (new_store True))))\<rparr>"

lemma toy_path: "get_sharded_path ''/srv'' ''01beef'' = ''/srv/01/be/01beef''"
  by code_simp

lemma toy_blob_put: "local_put ''/srv'' ''01beef'' [0, 1] fresh_fs = (Inr ''/srv/01/be/01beef'', toy_blobs)"
proof -
  have "local_put ''/srv'' ''01beef'' [0, 1] fresh_fs = (Inr (get_sharded_path ''/srv'' ''01beef''),
     fresh_fs\<lparr>dirs := dirs fresh_fs @ ancestors (shard_dir ''/srv'' ''01beef''),
       files := AList.update (get_sharded_path ''/srv'' ''01beef'') [0, 1] (files fresh_fs)\<rparr>)"
    by (rule local_put_writes [OF toy_server_inv(1)])
       (simp_all add: blob_name_def local_view_def fresh_fs_def list_ex_iff is_file_def)
  then show ?thesis by (simp add: toy_path toy_blobs_def fresh_fs_def)
qed

lemma toy_put_run:
  assumes "lc_put toy_json 0 ''key1'' [0, 1] demo_cache = (Inr (), l)"
  shows "put_artifact toy_digest toy_json 0 (Some (server_cache (\<lambda>_. 0) plain ''/srv'' toy_env)) ''key1'' [0, 1] toy_machine
     = (Inr (), \<lparr>hy_local = l, hy_remote = \<lparr>srv = toy_shared, wire = []\<rparr>\<rparr>)"
proof -
  let ?rc = "server_cache (\<lambda>_. 0) plain ''/srv'' toy_env"
  let ?md = "snd (insert_layer ''2024'' ''01beef'' ''/srv/01/be/01beef'' 2 (new_store True))"
  let ?n = "\<lparr>srv = toy_server, wire = []\<rparr>"
    and ?n1 = "\<lparr>srv = toy_server\<lparr>storage_state := toy_blobs, metadata := ?md\<rparr>, wire = []\<rparr>"
  have dg: "toy_digest [0, 1] = ''01beef''" by (simp add: toy_digest_def)
  have ch: "chunks CHUNK_SIZE [0, 1 :: 8 word] = [[0, 1]]"
    by (rule chunks_short) (simp_all add: CHUNK_SIZE_def)
  have "rc_has_layer ?rc ''01beef'' ?n = (Inr False, ?n)"
    by (simp add: http_remote_cache_def http_has_layer_def send_def bind_io_def route_def srv_check_layer_def
        layer_exists_def toy_server_def new_store_def is_success_def)
  moreover have "rc_put_layer ?rc ''01beef'' [0, 1] ?n = (Inr (), ?n1)"
    using toy_blob_put dg
    by (simp add: http_remote_cache_def http_put_layer_def send_def bind_io_def route_def srv_put_layer_def local_storage_def
        on_storage_apply on_metadata_apply toy_server_def toy_env_def insert_layer_def fits_i64_def is_success_def new_store_def)
  moreover have "rc_register_node_layers ?rc ''key1'' [''01beef''] 2 ?n1 = (Inr (), \<lparr>srv = toy_shared, wire = []\<rparr>)"
    by (simp add: http_remote_cache_def http_register_node_layers_def send_def bind_io_def route_def srv_register_node_layers_def
        on_metadata_apply toy_env_def toy_shared_def insert_layered_node_def insert_layer_def fits_i64_def new_store_def is_success_def toy_server_def)
  ultimately show ?thesis
    using assms dg ch
    by (simp add: put_artifact_def split_artifact_def on_local_def on_remote_def on_part_def bind_io_def toy_machine_def)
qed

lemma toy_get_run:
  assumes "lc_put toy_json 0 ''key1'' [0, 1] demo_cache = (Inr (), l)"
  shows "get_artifact toy_json 0 (Some (server_cache (\<lambda>_. 0) plain ''/srv'' toy_env)) ''key1''
      \<lparr>hy_local = demo_cache, hy_remote = \<lparr>srv = toy_shared, wire = []\<rparr>\<rparr>
     = (Inr (Some [0, 1]), \<lparr>hy_local = l, hy_remote = \<lparr>srv = toy_shared, wire = []\<rparr>\<rparr>)"
proof -
  let ?rc = "server_cache (\<lambda>_. 0) plain ''/srv'' toy_env" and ?n = "\<lparr>srv = toy_shared, wire = []\<rparr>"
  have "get_data ''key1'' demo_cache = (Inr None, demo_cache)" by (simp add: get_data_def demo_cache_def)
  moreover have "rc_get_node_layers ?rc ''key1'' ?n = (Inr (Some [''01beef'']), ?n)"
    by (simp add: http_remote_cache_def http_get_node_layers_def send_def bind_io_def route_def srv_get_node_layers_def
        md_get_node_layers_def layer_rows_def toy_shared_def insert_layered_node_def insert_layer_def fits_i64_def new_store_def is_success_def)
  moreover have "local_get ''/srv'' ''01beef'' toy_blobs = (Inr (Some [0, 1]), toy_blobs)"
    using read_file_present [of toy_blobs "''/srv/01/be/01beef''" "[0, 1]"]
    by (simp add: local_get_def toy_path path_exists_def is_file_def bind_io_def) (simp add: toy_blobs_def fresh_fs_def)
  then have "rc_get_layer ?rc ''01beef'' ?n = (Inr (Some [0, 1]), ?n)"
    by (simp add: http_remote_cache_def http_get_layer_def send_def bind_io_def route_def srv_get_layer_def local_storage_def
        on_storage_apply toy_shared_def is_success_def decode_body_def body_bytes_def)
  ultimately show ?thesis
    using assms
    by (simp add: get_artifact_def on_local_def on_remote_def on_part_def bind_io_def merge_artifact_def Let_def)
qed


end
