(* ===== verification/Gc.thy ===== *)
theory Gc
  imports Server
begin

text \<open>
  \<open>src/src/gc.rs\<close>: the scheduled garbage collector. \<open>sweep\<close> is one run against a metadata store
  and a storage backend; its counters are 64-bit and wrap. The clock (\<open>finished\<close>, \<open>elapsed\<close>) and
  SQLite's cut-off are parameters. Two sweeps that overlap are modelled as interleaved loads and
  stores of the \<open>running\<close> flag.
\<close>

section \<open>State\<close>

record gc_policy =
  max_age_days :: u32
  max_size_bytes :: u64
  interval_secs :: u64

record gc_status =
  last_run :: "string option"
  last_duration_ms :: u64
  gs_total_deleted :: u64
  gs_total_runs :: u64
  gs_bytes_freed :: u64

record garbage_collector =
  policy :: gc_policy
  gc_state :: gc_status
  running :: bool
  total_deleted :: u64
  total_runs :: u64
  bytes_freed :: u64

record gc_run_result =
  deleted_artifacts :: u64
  deleted_layers :: u64
  freed_bytes :: u64
  run_duration_ms :: u64

text \<open>\<open>parse_u32\<close> and \<open>parse_u64\<close> are \<open>str::parse\<close>; the hours are multiplied without a check.\<close>

definition default_policy ::
    "(string \<Rightarrow> u32 option) \<Rightarrow> (string \<Rightarrow> u64 option) \<Rightarrow> (string \<Rightarrow> string option) \<Rightarrow> gc_policy" where
  "default_policy parse_u32 parse_u64 var =
     \<lparr>max_age_days = (case Option.bind (var ''MEMOBUILD_GC_MAX_AGE_DAYS'') parse_u32 of Some v \<Rightarrow> v | None \<Rightarrow> 30),
      max_size_bytes = (case Option.bind (var ''MEMOBUILD_GC_MAX_SIZE_BYTES'') parse_u64 of Some v \<Rightarrow> v | None \<Rightarrow> 0),
      interval_secs = (case Option.bind (var ''MEMOBUILD_GC_INTERVAL_HOURS'') parse_u64 of Some v \<Rightarrow> v | None \<Rightarrow> 6) * 3600\<rparr>"

definition gc_new :: "gc_policy \<Rightarrow> garbage_collector" where
  "gc_new p = \<lparr>policy = p,
     gc_state = \<lparr>last_run = None, last_duration_ms = 0, gs_total_deleted = 0, gs_total_runs = 0, gs_bytes_freed = 0\<rparr>,
     running = False, total_deleted = 0, total_runs = 0, bytes_freed = 0\<rparr>"

section \<open>The sweep\<close>

fun sweep_entries ::
    "'s artifact_storage \<Rightarrow> string list \<Rightarrow> u64 \<Rightarrow> u64 \<Rightarrow> 's app_state \<Rightarrow> u64 \<times> u64 \<times> 's app_state" where
  "sweep_entries st [] n freed s = (n, freed, s)"
| "sweep_entries st (h # hs) n freed s =
     (case md_get (metadata s) h of
        Inr (Some e) \<Rightarrow>
          sweep_entries st hs (n + 1) (freed + ce_size e)
            (snd (on_metadata (md_delete h) (snd (on_storage (st_delete st h) s))))
      | _ \<Rightarrow> sweep_entries st hs n freed s)"

fun sweep_layers :: "'s artifact_storage \<Rightarrow> (string \<times> string) list \<Rightarrow> u64 \<Rightarrow> 's app_state \<Rightarrow> u64 \<times> 's app_state" where
  "sweep_layers st [] n s = (n, s)"
| "sweep_layers st ((h, p) # ls) n s =
     sweep_layers st ls (n + 1) (snd (on_metadata (delete_layer_metadata h) (snd (on_storage (st_delete st h) s))))"

definition no_run :: gc_run_result where
  "no_run = \<lparr>deleted_artifacts = 0, deleted_layers = 0, freed_bytes = 0, run_duration_ms = 0\<rparr>"

definition sweep ::
    "'s artifact_storage \<Rightarrow> (u32 \<Rightarrow> string) \<Rightarrow> string \<Rightarrow> u64 \<Rightarrow> garbage_collector \<Rightarrow> 's app_state
     \<Rightarrow> gc_run_result \<times> garbage_collector \<times> 's app_state" where
  "sweep st cutoff finished elapsed g s =
     (if running g then (no_run, g, s)
      else
        let (artifacts, freed, layers, s2) =
              (if max_age_days (policy g) > 0
               then (let (n, f, s1) = sweep_entries st (get_old_entries cutoff (metadata s) (max_age_days (policy g))) 0 0 s;
                         (m, s2) = sweep_layers st (get_unused_layers (metadata s1)) 0 s1
                     in (n, f, m, s2))
               else (0, 0, 0, s));
            deleted = total_deleted g + (artifacts + layers);
            runs = total_runs g + 1;
            bytes = bytes_freed g + freed
        in (\<lparr>deleted_artifacts = artifacts, deleted_layers = layers, freed_bytes = freed, run_duration_ms = elapsed\<rparr>,
            g\<lparr>total_deleted := deleted, total_runs := runs, bytes_freed := bytes, running := False,
              gc_state := \<lparr>last_run = Some finished, last_duration_ms = elapsed, gs_total_deleted = deleted,
                           gs_total_runs = runs, gs_bytes_freed = bytes\<rparr>\<rparr>,
            s2))"

definition gc_get_status :: "garbage_collector \<Rightarrow> gc_status" where
  "gc_get_status g = gc_state g"

section \<open>Overlapping sweeps\<close>

text \<open>Where a sweep is: before the load of \<open>running\<close>, between the load and the store, collecting,
  or finished.\<close>

datatype sweep_pc = Starting | Unlocked | Collecting | Finished

record gc_threads =
  flag :: bool
  pc :: "nat \<Rightarrow> sweep_pc"

inductive gc_thread_step :: "gc_threads \<Rightarrow> gc_threads \<Rightarrow> bool" where
  load_free: "pc t i = Starting \<Longrightarrow> \<not> flag t \<Longrightarrow> gc_thread_step t (t\<lparr>pc := (pc t)(i := Unlocked)\<rparr>)"
| load_busy: "pc t i = Starting \<Longrightarrow> flag t \<Longrightarrow> gc_thread_step t (t\<lparr>pc := (pc t)(i := Finished)\<rparr>)"
| store_true: "pc t i = Unlocked \<Longrightarrow> gc_thread_step t (t\<lparr>flag := True, pc := (pc t)(i := Collecting)\<rparr>)"
| store_false: "pc t i = Collecting \<Longrightarrow> gc_thread_step t (t\<lparr>flag := False, pc := (pc t)(i := Finished)\<rparr>)"

inductive_cases gc_thread_stepE: "gc_thread_step t t'"

inductive gc_threads_reach :: "gc_threads \<Rightarrow> bool" where
  gc_threads_start: "gc_threads_reach \<lparr>flag = False, pc = (\<lambda>_. Starting)\<rparr>"
| gc_threads_next: "gc_threads_reach t \<Longrightarrow> gc_thread_step t t' \<Longrightarrow> gc_threads_reach t'"

section \<open>Lemmas\<close>

lemma sweep_layers_gc:
  "sweep_layers st ls (of_nat k) s = (of_nat (fst (gc_layers st ls k s)), snd (gc_layers st ls k s))"
proof (induction ls arbitrary: k s)
  case (Cons x ls)
  obtain h p where x: "x = (h, p)" by (rule prod.exhaust)
  let ?s = "snd (on_metadata (delete_layer_metadata h) (snd (on_storage (st_delete st h) s)))"
  have "(of_nat k + 1 :: u64) = of_nat (k + 1)" by simp
  then show ?case using Cons.IH [of "k + 1" ?s] by (simp add: x add.commute)
qed simp

text \<open>The bytes of the entries among \<open>hs\<close> that can be read.\<close>

definition readable_size :: "metadata_store \<Rightarrow> string \<Rightarrow> u64" where
  "readable_size m h = (case md_get m h of Inr (Some e) \<Rightarrow> ce_size e | _ \<Rightarrow> 0)"

lemma sweep_entries_gc:
  assumes "distinct hs"
  shows "sweep_entries st hs (of_nat k) freed s
    = (of_nat (fst (gc_entries st hs k s)), freed + sum_list (map (readable_size (metadata s)) hs), snd (gc_entries st hs k s))"
  using assms
proof (induction hs arbitrary: k freed s)
  case (Cons h hs)
  show ?case
  proof (cases "\<exists>e. md_get (metadata s) h = Inr (Some e)")
    case True
    then obtain e where e: "md_get (metadata s) h = Inr (Some e)" by blast
    let ?s = "snd (on_metadata (md_delete h) (snd (on_storage (st_delete st h) s)))"
    have "md_get (metadata ?s) g = md_get (metadata s) g" if "g \<in> set hs" for g
    proof -
      have "g \<noteq> h" using that Cons.prems by auto
      then show ?thesis by (simp add: on_metadata_apply on_storage_apply md_get_def md_delete_def delete_conv')
    qed
    then have sizes: "map (readable_size (metadata ?s)) hs = map (readable_size (metadata s)) hs"
      by (simp add: readable_size_def)
    have own: "readable_size (metadata s) h = ce_size e" using e by (simp add: readable_size_def)
    have cnt: "of_nat k + 1 = (of_nat (k + 1) :: u64)" by simp
    have "sweep_entries st (h # hs) (of_nat k) freed s = sweep_entries st hs (of_nat k + 1) (freed + ce_size e) ?s"
      using e by simp
    also have "\<dots> = (of_nat (fst (gc_entries st hs (k + 1) ?s)), freed + ce_size e + sum_list (map (readable_size (metadata ?s)) hs),
        snd (gc_entries st hs (k + 1) ?s))"
      unfolding cnt using Cons.prems by (intro Cons.IH) simp
    finally show ?thesis using e unfolding sizes by (simp add: own add.assoc)
  next
    case False
    then have "readable_size (metadata s) h = 0"
      by (auto simp: readable_size_def split: sum.splits option.splits)
    with False Cons show ?thesis by (auto simp: md_get_def split: option.splits if_splits)
  qed
qed simp

lemma old_entries_distinct: "md_ok m \<Longrightarrow> distinct (get_old_entries cutoff m days)"
  using md_okD(2) [of m] by (simp add: get_old_entries_def hm_ok_def distinct_map_filter)

section \<open>Properties\<close>


definition toy_gc :: garbage_collector where
  "toy_gc = gc_new \<lparr>max_age_days = 30, max_size_bytes = 0, interval_secs = 3600\<rparr>"


text \<open>The \<open>running\<close> flag does not exclude a second sweep: it is read and written in two separate
  steps, so two sweeps that both read it before either sets it collect at the same time; and the
  first one to finish clears the flag while the other is still collecting.\<close>

theorem two_sweeps_at_once:
  "\<exists>t. gc_threads_reach t \<and> pc t 0 = Collecting \<and> pc t 1 = Collecting
     \<and> (\<exists>t'. gc_thread_step t t' \<and> pc t' 0 = Finished \<and> pc t' 1 = Collecting \<and> \<not> flag t')"
proof -
  define t0 where "t0 = \<lparr>flag = False, pc = (\<lambda>_. Starting)\<rparr>"
  define t1 where "t1 = t0\<lparr>pc := (pc t0)(0 := Unlocked)\<rparr>"
  define t2 where "t2 = t1\<lparr>pc := (pc t1)(1 := Unlocked)\<rparr>"
  define t3 where "t3 = t2\<lparr>flag := True, pc := (pc t2)(0 := Collecting)\<rparr>"
  define t4 where "t4 = t3\<lparr>flag := True, pc := (pc t3)(1 := Collecting)\<rparr>"
  define t5 where "t5 = t4\<lparr>flag := False, pc := (pc t4)(0 := Finished)\<rparr>"
  have r0: "gc_threads_reach t0" unfolding t0_def by (rule gc_threads_start)
  have r1: "gc_threads_reach t1" unfolding t1_def
    by (rule gc_threads_next [OF r0 load_free]) (simp_all add: t0_def)
  have r2: "gc_threads_reach t2" unfolding t2_def
    by (rule gc_threads_next [OF r1 load_free]) (simp_all add: t1_def t0_def)
  have r3: "gc_threads_reach t3" unfolding t3_def
    by (rule gc_threads_next [OF r2 store_true]) (simp add: t2_def t1_def)
  have r4: "gc_threads_reach t4" unfolding t4_def
    by (rule gc_threads_next [OF r3 store_true]) (simp add: t3_def t2_def)
  have c0: "pc t4 0 = Collecting" and c1: "pc t4 1 = Collecting" by (simp_all add: t4_def t3_def)
  have "gc_thread_step t4 t5" unfolding t5_def using c0 by (rule store_false)
  moreover have "pc t5 0 = Finished" "pc t5 1 = Collecting" "\<not> flag t5" using c1 by (simp_all add: t5_def)
  ultimately show ?thesis using r4 c0 c1 by blast
qed

end
