(* ===== verification/Cluster.thy ===== *)
theory Cluster
  imports Remote_Cache
begin

text \<open>
  \<open>src/src/cache/cluster.rs\<close>: the consistent hash ring, cluster membership, and the distributed cache
  that reads from and replicates to the cluster's nodes. The ring's hash function (Rust's
  \<open>DefaultHasher\<close>) is the parameter \<open>hash\<close>. The state of a distributed cache is the local
  cache's state together with the states behind the clients; the replication tasks of a \<open>put\<close>
  work on different clients and are run in the order they are spawned.
\<close>

section \<open>The ring\<close>

record ring =
  ring_nodes :: "(u64 \<times> string) list"
  replicas :: nat

definition new_ring :: "nat \<Rightarrow> ring" where
  "new_ring n = \<lparr>ring_nodes = [], replicas = n\<rparr>"

definition virtual_nodes :: "(string \<Rightarrow> u64) \<Rightarrow> nat \<Rightarrow> string \<Rightarrow> (u64 \<times> string) list" where
  "virtual_nodes hash n nid = map (\<lambda>i. (hash (nid @ ''-'' @ show_nat i), nid)) [0 ..< n]"

text \<open>\<open>sort_by_key\<close> is stable.\<close>

definition ring_add_node :: "(string \<Rightarrow> u64) \<Rightarrow> string \<Rightarrow> ring \<Rightarrow> ring" where
  "ring_add_node hash nid r =
     r\<lparr>ring_nodes := sort_key fst (ring_nodes r @ virtual_nodes hash (replicas r) nid)\<rparr>"

definition ring_remove_node :: "string \<Rightarrow> ring \<Rightarrow> ring" where
  "ring_remove_node nid r = r\<lparr>ring_nodes := filter (\<lambda>(_, i). i \<noteq> nid) (ring_nodes r)\<rparr>"

fun first_at_or_after :: "u64 \<Rightarrow> (u64 \<times> string) list \<Rightarrow> string option" where
  "first_at_or_after h [] = None"
| "first_at_or_after h ((k, i) # ns) = (if h \<le> k then Some i else first_at_or_after h ns)"

definition ring_get_node :: "(string \<Rightarrow> u64) \<Rightarrow> string \<Rightarrow> ring \<Rightarrow> string option" where
  "ring_get_node hash key r =
     (case ring_nodes r of
        [] \<Rightarrow> None
      | (_, i) # _ \<Rightarrow>
          (case first_at_or_after (hash key) (ring_nodes r) of Some j \<Rightarrow> Some j | None \<Rightarrow> Some i))"

section \<open>Membership\<close>

record cluster_node =
  cn_id :: string
  cn_address :: string
  cn_weight :: u32
  cn_region :: "string option"

record node_status =
  ns_node :: cluster_node
  is_healthy :: bool
  last_heartbeat :: int
  cache_size :: u64
  connections :: u32

record cache_cluster =
  local_node :: cluster_node
  cluster_nodes :: "(string, node_status) hashmap"
  cluster_ring :: ring
  replication_factor :: nat

definition new_cluster :: "(string \<Rightarrow> u64) \<Rightarrow> cluster_node \<Rightarrow> nat \<Rightarrow> cache_cluster" where
  "new_cluster hash node rf =
     \<lparr>local_node = node, cluster_nodes = [], cluster_ring = ring_add_node hash (cn_id node) (new_ring 100),
      replication_factor = rf\<rparr>"

definition cluster_add_node :: "(string \<Rightarrow> u64) \<Rightarrow> int \<Rightarrow> cluster_node \<Rightarrow> cache_cluster \<Rightarrow> cache_cluster" where
  "cluster_add_node hash now node c =
     c\<lparr>cluster_nodes := AList.update (cn_id node)
          \<lparr>ns_node = node, is_healthy = True, last_heartbeat = now, cache_size = 0, connections = 0\<rparr> (cluster_nodes c),
       cluster_ring := ring_add_node hash (cn_id node) (cluster_ring c)\<rparr>"

definition cluster_remove_node :: "string \<Rightarrow> cache_cluster \<Rightarrow> cache_cluster" where
  "cluster_remove_node nid c =
     c\<lparr>cluster_nodes := AList.delete nid (cluster_nodes c),
       cluster_ring := ring_remove_node nid (cluster_ring c)\<rparr>"

definition get_primary_node :: "(string \<Rightarrow> u64) \<Rightarrow> cache_cluster \<Rightarrow> string \<Rightarrow> string option" where
  "get_primary_node hash c key = ring_get_node hash key (cluster_ring c)"

text \<open>\<open>Iterator::position\<close>.\<close>

fun position :: "('a \<Rightarrow> bool) \<Rightarrow> 'a list \<Rightarrow> nat option" where
  "position p [] = None"
| "position p (x # xs) = (if p x then Some 0 else map_option Suc (position p xs))"

fun collect_replicas :: "(u64 \<times> string) list \<Rightarrow> string \<Rightarrow> nat \<Rightarrow> nat list \<Rightarrow> string list \<Rightarrow> string list" where
  "collect_replicas ns primary idx [] acc = acc"
| "collect_replicas ns primary idx (i # is) acc =
     (let replica_id = snd (ns ! ((idx + i) mod length ns)) in
      collect_replicas ns primary idx is
        (if replica_id \<noteq> primary \<and> replica_id \<notin> set acc then acc @ [replica_id] else acc))"

definition get_replica_nodes :: "(string \<Rightarrow> u64) \<Rightarrow> cache_cluster \<Rightarrow> string \<Rightarrow> string list" where
  "get_replica_nodes hash c key =
     (case ring_get_node hash key (cluster_ring c) of
        None \<Rightarrow> []
      | Some primary \<Rightarrow>
          (case position (\<lambda>(_, i). i = primary) (ring_nodes (cluster_ring c)) of
             None \<Rightarrow> []
           | Some idx \<Rightarrow>
               collect_replicas (ring_nodes (cluster_ring c)) primary idx [1 ..< Suc (replication_factor c)] []))"

definition update_node_health :: "int \<Rightarrow> string \<Rightarrow> bool \<Rightarrow> cache_cluster \<Rightarrow> cache_cluster" where
  "update_node_health now nid healthy c =
     (case map_of (cluster_nodes c) nid of
        Some st \<Rightarrow> c\<lparr>cluster_nodes := AList.update nid (st\<lparr>is_healthy := healthy, last_heartbeat := now\<rparr>) (cluster_nodes c)\<rparr>
      | None \<Rightarrow> c)"

record cluster_status =
  cs_total_nodes :: nat
  cs_healthy_nodes :: nat
  cs_replication_factor :: nat
  cs_nodes :: "node_status list"

definition get_cluster_status :: "cache_cluster \<Rightarrow> cluster_status" where
  "get_cluster_status c =
     \<lparr>cs_total_nodes = length (cluster_nodes c),
      cs_healthy_nodes = length (filter is_healthy (map snd (cluster_nodes c))),
      cs_replication_factor = replication_factor c, cs_nodes = map snd (cluster_nodes c)\<rparr>"

section \<open>The distributed cache\<close>

record 'r distributed =
  dc_local :: 'r
  dc_clients :: "(string, 'r) hashmap"

text \<open>The clients' operations (\<open>clients\<close>), the local cache's (\<open>local\<close>) and the cluster are
  fixed while a request runs.\<close>

record 'r dist_env =
  de_local :: "'r remote_cache"
  de_clients :: "string \<Rightarrow> 'r remote_cache"
  de_cluster :: cache_cluster
  de_hash :: "string \<Rightarrow> u64"

definition on_dc_local :: "('r, 'a) io \<Rightarrow> ('r distributed, 'a) io" where
  "on_dc_local = on_part dc_local (\<lambda>x s. s\<lparr>dc_local := x\<rparr>)"

text \<open>Run an operation of the client of a node, if the node has one.\<close>

definition on_client :: "string \<Rightarrow> ('r, 'a) io \<Rightarrow> ('r distributed, 'a option) io" where
  "on_client i m s =
     (case map_of (dc_clients s) i of
        None \<Rightarrow> (Inr None, s)
      | Some c \<Rightarrow>
          (case m c of
             (Inl e, c') \<Rightarrow> (Inl e, s\<lparr>dc_clients := AList.update i c' (dc_clients s)\<rparr>)
           | (Inr a, c') \<Rightarrow> (Inr (Some a), s\<lparr>dc_clients := AList.update i c' (dc_clients s)\<rparr>)))"

definition add_remote_client :: "string \<Rightarrow> 'r \<Rightarrow> 'r distributed \<Rightarrow> 'r distributed" where
  "add_remote_client nid client s = s\<lparr>dc_clients := AList.update nid client (dc_clients s)\<rparr>"

definition primary_list :: "'r dist_env \<Rightarrow> string \<Rightarrow> string list" where
  "primary_list env key = (case get_primary_node (de_hash env) (de_cluster env) key of Some p \<Rightarrow> [p] | None \<Rightarrow> [])"

fun any_has :: "('r dist_env) \<Rightarrow> ('r remote_cache \<Rightarrow> ('r, bool) io) \<Rightarrow> string list \<Rightarrow> ('r distributed, bool) io" where
  "any_has env q [] = ret False"
| "any_has env q (i # is) =
     bind_io (on_client i (q (de_clients env i))) (\<lambda>r. if r = Some True then ret True else any_has env q is)"

definition dist_has :: "'r dist_env \<Rightarrow> ('r remote_cache \<Rightarrow> ('r, bool) io) \<Rightarrow> string \<Rightarrow> ('r distributed, bool) io" where
  "dist_has env q key =
     bind_io (on_dc_local (q (de_local env))) (\<lambda>b.
       if b then ret True
       else any_has env q (primary_list env key @ get_replica_nodes (de_hash env) (de_cluster env) key))"

text \<open>The loop over the replicas: a hit is cached locally and offered to the primary, best effort.\<close>

fun replica_get ::
    "'r dist_env \<Rightarrow> ('r remote_cache \<Rightarrow> ('r, bytes option) io) \<Rightarrow> ('r remote_cache \<Rightarrow> bytes \<Rightarrow> ('r, unit) io)
     \<Rightarrow> string \<Rightarrow> string list \<Rightarrow> ('r distributed, bytes option) io" where
  "replica_get env q w key [] = ret None"
| "replica_get env q w key (i # is) =
     bind_io (on_client i (q (de_clients env i))) (\<lambda>r.
       case r of
         Some (Some d) \<Rightarrow>
           bind_io (on_dc_local (w (de_local env) d)) (\<lambda>_.
             case get_primary_node (de_hash env) (de_cluster env) key of
               Some p \<Rightarrow> bind_io (ignore_io (on_client p (w (de_clients env p) d))) (\<lambda>_. ret (Some d))
             | None \<Rightarrow> ret (Some d))
       | _ \<Rightarrow> replica_get env q w key is)"

definition dist_get ::
    "'r dist_env \<Rightarrow> ('r remote_cache \<Rightarrow> ('r, bytes option) io) \<Rightarrow> ('r remote_cache \<Rightarrow> bytes \<Rightarrow> ('r, unit) io)
     \<Rightarrow> string \<Rightarrow> ('r distributed, bytes option) io" where
  "dist_get env q w key =
     bind_io (on_dc_local (q (de_local env))) (\<lambda>l.
       case l of
         Some d \<Rightarrow> ret (Some d)
       | None \<Rightarrow>
           bind_io
             (case get_primary_node (de_hash env) (de_cluster env) key of
                None \<Rightarrow> ret None
              | Some p \<Rightarrow>
                  bind_io (on_client p (q (de_clients env p))) (\<lambda>r.
                    case r of
                      Some (Some d) \<Rightarrow> bind_io (on_dc_local (w (de_local env) d)) (\<lambda>_. ret (Some d))
                    | _ \<Rightarrow> ret None))
             (\<lambda>hit. case hit of
                Some d \<Rightarrow> ret (Some d)
              | None \<Rightarrow> replica_get env q w key (get_replica_nodes (de_hash env) (de_cluster env) key)))"

fun replicate_to :: "'r dist_env \<Rightarrow> ('r remote_cache \<Rightarrow> ('r, unit) io) \<Rightarrow> string list \<Rightarrow> ('r distributed, unit) io" where
  "replicate_to env w [] = ret ()"
| "replicate_to env w (i # is) =
     bind_io (ignore_io (on_client i (w (de_clients env i)))) (\<lambda>_. replicate_to env w is)"

definition dist_put :: "'r dist_env \<Rightarrow> ('r remote_cache \<Rightarrow> ('r, unit) io) \<Rightarrow> string \<Rightarrow> ('r distributed, unit) io" where
  "dist_put env w key =
     bind_io (on_dc_local (w (de_local env))) (\<lambda>_.
       replicate_to env w (primary_list env key @ get_replica_nodes (de_hash env) (de_cluster env) key))"

text \<open>The trait implementation: artifacts and layers use the same code, the other operations go to the
  local cache.\<close>

definition distributed_cache :: "'r dist_env \<Rightarrow> 'r distributed remote_cache" where
  "distributed_cache env =
     \<lparr>rc_has = (\<lambda>h. dist_has env (\<lambda>c. rc_has c h) h),
      rc_get = (\<lambda>h. dist_get env (\<lambda>c. rc_get c h) (\<lambda>c. rc_put c h) h),
      rc_put = (\<lambda>h d. dist_put env (\<lambda>c. rc_put c h d) h),
      rc_has_layer = (\<lambda>h. dist_has env (\<lambda>c. rc_has_layer c h) h),
      rc_get_layer = (\<lambda>h. dist_get env (\<lambda>c. rc_get_layer c h) (\<lambda>c. rc_put_layer c h) h),
      rc_put_layer = (\<lambda>h d. dist_put env (\<lambda>c. rc_put_layer c h d) h),
      rc_get_node_layers = (\<lambda>h. on_dc_local (rc_get_node_layers (de_local env) h)),
      rc_register_node_layers = (\<lambda>h ls n. on_dc_local (rc_register_node_layers (de_local env) h ls n)),
      rc_report_build_event = (\<lambda>e. on_dc_local (rc_report_build_event (de_local env) e)),
      rc_report_dag = (\<lambda>g. on_dc_local (rc_report_dag (de_local env) g)),
      rc_report_analytics = (\<lambda>a b c. on_dc_local (rc_report_analytics (de_local env) a b c))\<rparr>"

section \<open>Lemmas on the ring\<close>

definition ring_ok :: "ring \<Rightarrow> bool" where
  "ring_ok r \<longleftrightarrow> sorted (map fst (ring_nodes r))"

lemma ring_ok_new [inv_intros]: "ring_ok (new_ring n)"
  by (simp add: ring_ok_def new_ring_def)

lemma ring_ok_add [inv_intros]: "ring_ok (ring_add_node hash i r)"
  by (simp add: ring_ok_def ring_add_node_def)

lemma ring_ok_remove [inv_intros]: "ring_ok r \<Longrightarrow> ring_ok (ring_remove_node i r)"
  by (simp add: ring_ok_def ring_remove_node_def sorted_filter)

text \<open>Looking up in a rotated ring: the positions from the key's hash on, then the others.\<close>

definition rotated :: "u64 \<Rightarrow> (u64 \<times> string) list \<Rightarrow> (u64 \<times> string) list" where
  "rotated h ns = filter (\<lambda>(k, _). h \<le> k) ns @ filter (\<lambda>(k, _). \<not> h \<le> k) ns"

lemma first_at_or_after_filter:
  "first_at_or_after h ns = (case filter (\<lambda>(k, _). h \<le> k) ns of [] \<Rightarrow> None | x # _ \<Rightarrow> Some (snd x))"
  by (induction ns) auto

lemma ring_get_node_rotated:
  "ring_get_node hash key r = (case rotated (hash key) (ring_nodes r) of [] \<Rightarrow> None | x # _ \<Rightarrow> Some (snd x))"
proof (cases "filter (\<lambda>(k, _). hash key \<le> k) (ring_nodes r)")
  case Nil
  then have "filter (\<lambda>(k, _). \<not> hash key \<le> k) (ring_nodes r) = ring_nodes r"
    by (auto simp: filter_empty_conv filter_id_conv)
  then have "rotated (hash key) (ring_nodes r) = ring_nodes r" using Nil by (simp add: rotated_def)
  moreover have "first_at_or_after (hash key) (ring_nodes r) = None" using Nil by (simp add: first_at_or_after_filter)
  ultimately show ?thesis by (cases "ring_nodes r") (auto simp: ring_get_node_def)
next
  case (Cons x xs)
  then have "first_at_or_after (hash key) (ring_nodes r) = Some (snd x)" by (simp add: first_at_or_after_filter)
  moreover have "rotated (hash key) (ring_nodes r) = x # xs @ filter (\<lambda>(k, _). \<not> hash key \<le> k) (ring_nodes r)"
    using Cons by (simp add: rotated_def)
  moreover have "ring_nodes r \<noteq> []" using Cons by auto
  ultimately show ?thesis by (cases "ring_nodes r") (auto simp: ring_get_node_def)
qed

lemma rotated_filter: "rotated h (filter P ns) = filter P (rotated h ns)"
proof -
  have "filter Q (filter P ns) = filter P (filter Q ns)" for Q
    by (simp add: conj_commute)
  then show ?thesis unfolding rotated_def filter_append by (simp only:)
qed

text \<open>Stable sorting: dropping the new entries gives the old ring back.\<close>

lemma filter_sort_append:
  assumes "sorted (map fst xs)" and "\<And>x. x \<in> set xs \<Longrightarrow> P x" and "\<And>y. y \<in> set ys \<Longrightarrow> \<not> P y"
  shows "filter P (sort_key fst (xs @ ys)) = xs"
proof -
  have "filter P (sort_key fst (xs @ ys)) = sort_key fst (filter P (xs @ ys))"
    by (rule filter_sort)
  also have "filter P (xs @ ys) = xs" using assms(2,3) by (simp add: filter_id_conv filter_empty_conv)
  finally show ?thesis using assms(1) by (simp add: sort_key_id_if_sorted)
qed

lemma set_ring_add:
  "set (ring_nodes (ring_add_node hash i r)) = set (ring_nodes r) \<union> set (virtual_nodes hash (replicas r) i)"
  by (simp add: ring_add_node_def)

lemma virtual_nodes_owner: "x \<in> set (virtual_nodes hash n i) \<Longrightarrow> snd x = i"
  by (auto simp: virtual_nodes_def)

lemma position_nth: "position p xs = Some k \<Longrightarrow> k < length xs \<and> p (xs ! k)"
  by (induction xs arbitrary: k) (auto split: if_splits)

lemma collect_replicas_spec:
  assumes "ns \<noteq> []"
  shows "distinct acc \<Longrightarrow> primary \<notin> set acc \<Longrightarrow> set acc \<subseteq> snd ` set ns \<Longrightarrow>
    distinct (collect_replicas ns primary idx is acc) \<and> primary \<notin> set (collect_replicas ns primary idx is acc)
    \<and> set (collect_replicas ns primary idx is acc) \<subseteq> snd ` set ns
    \<and> length (collect_replicas ns primary idx is acc) \<le> length acc + length is"
proof (induction "is" arbitrary: acc)
  case (Cons i "is")
  let ?j = "snd (ns ! ((idx + i) mod length ns))"
  have j: "?j \<in> snd ` set ns" using assms by (intro imageI nth_mem) simp
  show ?case
  proof (cases "?j \<noteq> primary \<and> ?j \<notin> set acc")
    case True
    with Cons.IH [of "acc @ [?j]"] Cons.prems j show ?thesis by (auto simp: Let_def)
  next
    case False
    with Cons.IH [of acc] Cons.prems show ?thesis by (auto simp: Let_def)
  qed
qed simp

section \<open>Properties of the ring\<close>

text \<open>C32. Consistent hashing, leaving: when a node leaves the ring, every key whose primary was another
  node keeps its primary.\<close>

theorem removal_moves_only_its_keys:
  assumes "ring_get_node hash key r = Some j" and "j \<noteq> i"
  shows "ring_get_node hash key (ring_remove_node i r) = Some j"
proof -
  obtain x xs where x: "rotated (hash key) (ring_nodes r) = x # xs" "snd x = j"
    using assms(1) by (auto simp: ring_get_node_rotated split: list.splits)
  have "rotated (hash key) (ring_nodes (ring_remove_node i r)) = filter (\<lambda>(_, k). k \<noteq> i) (x # xs)"
    by (simp add: ring_remove_node_def rotated_filter x(1) [symmetric])
  then show ?thesis
    using assms(2) x(2) by (simp add: ring_get_node_rotated split_def)
qed

definition toy_hash :: "string \<Rightarrow> u64" where
  "toy_hash s = (if s = [] then 0 else if hd s = CHR ''a'' then 10 else if hd s = CHR ''b'' then 20 else 15)"

definition toy_ring :: ring where
  "toy_ring = ring_add_node toy_hash ''b'' (ring_add_node toy_hash ''a'' (new_ring 1))"

theorem removal_moves_only_its_keys_witness:
  "ring_get_node toy_hash ''key'' (ring_remove_node ''a'' toy_ring) = Some ''b''"
proof -
  have "ring_get_node toy_hash ''key'' toy_ring = Some ''b''" by code_simp
  then show ?thesis by (rule removal_moves_only_its_keys) simp
qed

definition toy_cluster :: cache_cluster where
  "toy_cluster = \<lparr>local_node = \<lparr>cn_id = ''a'', cn_address = [], cn_weight = 1, cn_region = None\<rparr>, cluster_nodes = [],
     cluster_ring = ring_add_node toy_hash ''c'' (ring_add_node toy_hash ''b'' (ring_add_node toy_hash ''a'' (new_ring 3))),
     replication_factor = 2\<rparr>"

lemma ring_remove_add:
  assumes "ring_ok r" and "i \<notin> snd ` set (ring_nodes r)"
  shows "ring_remove_node i (ring_add_node hash i r) = r"
proof -
  have "filter (\<lambda>(_, k). k \<noteq> i) (sort_key fst (ring_nodes r @ virtual_nodes hash (replicas r) i)) = ring_nodes r"
  proof (rule filter_sort_append)
    show "sorted (map fst (ring_nodes r))" using assms(1) by (simp add: ring_ok_def)
    show "x \<in> set (ring_nodes r) \<Longrightarrow> case x of (_, k) \<Rightarrow> k \<noteq> i" for x
      using assms(2) by (force simp: split_def)
    show "y \<in> set (virtual_nodes hash (replicas r) i) \<Longrightarrow> \<not> (case y of (_, k) \<Rightarrow> k \<noteq> i)" for y
      using virtual_nodes_owner [of y hash "replicas r" i] by (simp add: split_def)
  qed
  then show ?thesis by (simp add: ring_remove_node_def ring_add_node_def)
qed

lemma join_keeps_or_takes:
  assumes "ring_ok r" and "i \<notin> snd ` set (ring_nodes r)"
  shows "ring_get_node hash key (ring_add_node hash i r) \<in> {ring_get_node hash key r, Some i}"
proof -
  let ?r' = "ring_add_node hash i r"
  have restr: "filter (\<lambda>(_, k). k \<noteq> i) (ring_nodes ?r') = ring_nodes r"
    using arg_cong [OF ring_remove_add [OF assms, of hash], of ring_nodes] by (simp add: ring_remove_node_def)
  show ?thesis
  proof (cases "rotated (hash key) (ring_nodes ?r')")
    case Nil
    then have "ring_nodes ?r' = []"
      by (cases "ring_nodes ?r'") (auto simp: rotated_def split: if_splits)
    with restr Nil assms(1) show ?thesis by (simp add: ring_get_node_rotated rotated_def)
  next
    case (Cons x xs)
    have "rotated (hash key) (ring_nodes r) = filter (\<lambda>(_, k). k \<noteq> i) (x # xs)"
      unfolding restr [symmetric] rotated_filter Cons by simp
    with Cons assms(1) show ?thesis
      by (cases "snd x = i") (simp_all add: ring_get_node_rotated split_def)
  qed
qed

text \<open>Consistent hashing, joining: when a new node joins, every key keeps its primary or moves to the
  new node.\<close>

theorem joining_takes_only_for_itself:
  assumes "ring_ok r" and "i \<notin> snd ` set (ring_nodes r)"
  shows "ring_get_node hash key (ring_add_node hash i r) \<in> {ring_get_node hash key r, Some i}"
  by (rule join_keeps_or_takes [OF assms])

theorem joining_takes_only_for_itself_witness:
  "ring_get_node toy_hash ''key'' (ring_add_node toy_hash ''c'' toy_ring) \<in> {Some ''b'', Some ''c''}"
proof -
  have "ring_ok toy_ring" unfolding toy_ring_def by (rule ring_ok_add)
  moreover have "''c'' \<notin> snd ` set (ring_nodes toy_ring)" by code_simp
  moreover have "ring_get_node toy_hash ''key'' toy_ring = Some ''b''" by code_simp
  ultimately show ?thesis using joining_takes_only_for_itself [of toy_ring "''c''" toy_hash "''key''"] by simp
qed

text \<open>Replicas are well chosen as far as they go: they are distinct members of the ring, none is the
  primary, and there are at most as many as the replication factor. But positions are counted, not
  nodes: when the positions after the primary's first one belong to the primary itself, there is no
  replica at all, however many other nodes there are.\<close>

theorem replica_nodes_spec:
  assumes "get_primary_node hash c key = Some p"
  shows "distinct (get_replica_nodes hash c key) \<and> p \<notin> set (get_replica_nodes hash c key)
      \<and> set (get_replica_nodes hash c key) \<subseteq> snd ` set (ring_nodes (cluster_ring c))
      \<and> length (get_replica_nodes hash c key) \<le> replication_factor c
      \<and> (\<exists>hash c. replication_factor c = 2 \<and> get_primary_node hash c [] = Some ''a''
          \<and> card (snd ` set (ring_nodes (cluster_ring c))) = 3 \<and> get_replica_nodes hash c [] = [])"
proof -
  have ne: "ring_nodes (cluster_ring c) \<noteq> []"
    using assms by (auto simp: get_primary_node_def ring_get_node_def split: list.splits)
  have spec: "distinct (get_replica_nodes hash c key) \<and> p \<notin> set (get_replica_nodes hash c key)
      \<and> set (get_replica_nodes hash c key) \<subseteq> snd ` set (ring_nodes (cluster_ring c))
      \<and> length (get_replica_nodes hash c key) \<le> replication_factor c"
    using assms collect_replicas_spec [OF ne, of "[]" p _ "[1 ..< Suc (replication_factor c)]"]
    by (auto simp: get_replica_nodes_def get_primary_node_def split: option.splits simp del: upt_Suc)
  have "remdups (map snd (ring_nodes (cluster_ring toy_cluster))) = [''a'', ''c'', ''b'']" by code_simp
  then have "card (snd ` set (ring_nodes (cluster_ring toy_cluster))) = length [''a'', ''c'', ''b'']"
    by (metis List.card_set list.set_map)
  then have "card (snd ` set (ring_nodes (cluster_ring toy_cluster))) = 3" by simp
  moreover have "replication_factor toy_cluster = 2" "get_primary_node toy_hash toy_cluster [] = Some ''a''"
    "get_replica_nodes toy_hash toy_cluster [] = []"
    by code_simp+
  ultimately show ?thesis using spec by blast
qed

theorem replica_nodes_spec_witness:
  "''c'' \<notin> set (get_replica_nodes toy_hash (toy_cluster\<lparr>replication_factor := 5\<rparr>) ''key'')"
proof -
  have "get_primary_node toy_hash (toy_cluster\<lparr>replication_factor := 5\<rparr>) ''key'' = Some ''c''" by code_simp
  from replica_nodes_spec [OF this] show ?thesis by blast
qed

section \<open>Reading from the cluster\<close>

lemma update_same: "map_of m i = Some c \<Longrightarrow> AList.update i c m = m"
  by (induction m) (auto split: if_splits)

lemma on_client_absent: "map_of (dc_clients s) i = None \<Longrightarrow> on_client i m s = (Inr None, s)"
  by (simp add: on_client_def)

lemma on_client_pure:
  "map_of (dc_clients s) i = Some c \<Longrightarrow> m c = (Inr a, c) \<Longrightarrow> on_client i m s = (Inr (Some a), s)"
  by (simp add: on_client_def update_same)

text \<open>What the nodes hold: the answer of each node's client, nothing for a node without a client.\<close>

definition held :: "'r dist_env \<Rightarrow> ('r remote_cache \<Rightarrow> ('r, bytes option) io) \<Rightarrow> 'r distributed \<Rightarrow> string \<Rightarrow> bytes option" where
  "held env q s i =
     (case map_of (dc_clients s) i of
        None \<Rightarrow> None
      | Some c \<Rightarrow> (case fst (q (de_clients env i) c) of Inr r \<Rightarrow> r | Inl _ \<Rightarrow> None))"

text \<open>The clients answer and answering does not change them.\<close>

definition responsive :: "'r dist_env \<Rightarrow> ('r remote_cache \<Rightarrow> ('r, bytes option) io) \<Rightarrow> 'r distributed \<Rightarrow> bool" where
  "responsive env q s \<longleftrightarrow>
     list_all (\<lambda>(i, c). (case fst (q (de_clients env i) c) of Inr _ \<Rightarrow> True | Inl _ \<Rightarrow> False)
                 \<and> snd (q (de_clients env i) c) = c) (dc_clients s)"

fun first_held :: "(string \<Rightarrow> bytes option) \<Rightarrow> string list \<Rightarrow> bytes option" where
  "first_held f [] = None"
| "first_held f (i # is) = (case f i of Some d \<Rightarrow> Some d | None \<Rightarrow> first_held f is)"

lemma first_held_append: "first_held f (xs @ ys) = (case first_held f xs of Some d \<Rightarrow> Some d | None \<Rightarrow> first_held f ys)"
  by (induction xs) (auto split: option.splits)

lemma ask_client:
  assumes "responsive env q s"
  shows "on_client i (q (de_clients env i)) s = (Inr (case map_of (dc_clients s) i of None \<Rightarrow> None | Some _ \<Rightarrow> Some (held env q s i)), s)"
proof (cases "map_of (dc_clients s) i")
  case (Some c)
  then have "(i, c) \<in> set (dc_clients s)" by (rule map_of_SomeD)
  then have "q (de_clients env i) c = (Inr (held env q s i), c)"
    using assms Some
    by (cases "q (de_clients env i) c") (auto simp: responsive_def list_all_iff held_def split: sum.splits)
  with Some show ?thesis by (simp add: on_client_pure)
qed (simp add: on_client_absent)

lemma replica_get_first_held:
  assumes "responsive env q s" and "\<And>d x. fst (w (de_local env) d x) = Inr ()"
  shows "fst (replica_get env q w key is s) = Inr (first_held (held env q s) is)
    \<and> dc_local (snd (replica_get env q w key is s))
        = (case first_held (held env q s) is of None \<Rightarrow> dc_local s | Some d \<Rightarrow> snd (w (de_local env) d (dc_local s)))"
proof (induction "is")
  case (Cons i "is")
  have keep: "dc_local (snd (on_client p m x)) = dc_local x" for p and m :: "('a, unit) io" and x
    by (auto simp: on_client_def split: option.splits sum.splits prod.splits)
  show ?case
  proof (cases "held env q s i")
    case None
    then have "replica_get env q w key (i # is) s = replica_get env q w key is s"
      using ask_client [OF assms(1), of i] by (simp add: bind_io_def split: option.splits)
    with None Cons show ?thesis by simp
  next
    case (Some d)
    then have "map_of (dc_clients s) i \<noteq> None" by (auto simp: held_def split: option.splits)
    with Some have ask: "on_client i (q (de_clients env i)) s = (Inr (Some (Some d)), s)"
      using ask_client [OF assms(1), of i] by auto
    have put: "on_dc_local (w (de_local env) d) s = (Inr (), s\<lparr>dc_local := snd (w (de_local env) d (dc_local s))\<rparr>)"
      using assms(2) [of d "dc_local s"] by (simp add: on_dc_local_def on_part_apply)
    show ?thesis
      using Some keep by (simp add: bind_io_def ask put split: option.splits)
  qed
qed simp

section \<open>A property of the distributed cache\<close>

text \<open>Reading from the cluster: when all caches answer, \<open>get\<close> returns the local artifact, or else the
  first one found at the primary and then at the replicas in their order, or none; and an artifact
  found at another node has then been stored in the local cache.\<close>

theorem distributed_get_first_held:
  assumes "responsive env (\<lambda>c. rc_get c h) s" and "rc_get (de_local env) h (dc_local s) = (Inr l, dc_local s)"
    and "\<And>d x. fst (rc_put (de_local env) h d x) = Inr ()"
  shows "let order = primary_list env h @ get_replica_nodes (de_hash env) (de_cluster env) h;
             remote = first_held (held env (\<lambda>c. rc_get c h) s) order;
             (r, s') = rc_get (distributed_cache env) h s
         in r = Inr (case l of Some d \<Rightarrow> Some d | None \<Rightarrow> remote)
            \<and> dc_local s' = (case (l, remote) of (None, Some d) \<Rightarrow> snd (rc_put (de_local env) h d (dc_local s)) | _ \<Rightarrow> dc_local s)"
proof -
  let ?q = "\<lambda>c. rc_get c h" and ?w = "\<lambda>c. rc_put c h"
  have get: "rc_get (distributed_cache env) h = dist_get env ?q ?w h" by (simp add: distributed_cache_def)
  have loc: "on_dc_local (rc_get (de_local env) h) s = (Inr l, s)"
    using assms(2) by (simp add: on_dc_local_def on_part_def)
  have put: "on_dc_local (rc_put (de_local env) h d) s = (Inr (), s\<lparr>dc_local := snd (rc_put (de_local env) h d (dc_local s))\<rparr>)" for d
    using assms(3) [of d "dc_local s"] by (simp add: on_dc_local_def on_part_apply)
  note repl = replica_get_first_held [OF assms(1), of ?w h "get_replica_nodes (de_hash env) (de_cluster env) h", OF assms(3)]
  show ?thesis
  proof (cases l)
    case (Some d)
    then show ?thesis by (simp add: get dist_get_def bind_io_def loc)
  next
    case None
    show ?thesis
    proof (cases "get_primary_node (de_hash env) (de_cluster env) h")
      case no: None
      with None repl show ?thesis
        by (auto simp: get dist_get_def bind_io_def loc primary_list_def split_def Let_def split: option.splits)
    next
      case (Some p)
      show ?thesis
      proof (cases "held env ?q s p")
        case no: None
        then have "on_client p (rc_get (de_clients env p) h) s = (Inr None, s) \<or> on_client p (rc_get (de_clients env p) h) s = (Inr (Some None), s)"
          using ask_client [OF assms(1), of p] by (auto split: option.splits)
        with no None Some repl show ?thesis
          by (auto simp: get dist_get_def bind_io_def loc primary_list_def split_def Let_def split: option.splits)
      next
        case hit: (Some d)
        then have "map_of (dc_clients s) p \<noteq> None" by (auto simp: held_def split: option.splits)
        with hit have "on_client p (rc_get (de_clients env p) h) s = (Inr (Some (Some d)), s)"
          using ask_client [OF assms(1), of p] by auto
        with hit None Some show ?thesis
          by (simp add: get dist_get_def bind_io_def loc primary_list_def put)
      qed
    qed
  qed
qed

text \<open>Three in-memory caches that hold at most one artifact.\<close>

definition cell_cache :: "bytes option remote_cache" where
  "cell_cache =
     \<lparr>rc_has = (\<lambda>h s. (Inr (s \<noteq> None), s)), rc_get = (\<lambda>h s. (Inr s, s)), rc_put = (\<lambda>h d s. (Inr (), Some d)),
      rc_has_layer = (\<lambda>h s. (Inr (s \<noteq> None), s)), rc_get_layer = (\<lambda>h s. (Inr s, s)), rc_put_layer = (\<lambda>h d s. (Inr (), Some d)),
      rc_get_node_layers = (\<lambda>h s. (Inr None, s)), rc_register_node_layers = (\<lambda>h ls n s. (Inr (), s)),
      rc_report_build_event = (\<lambda>e s. (Inr (), s)), rc_report_dag = (\<lambda>g s. (Inr (), s)),
      rc_report_analytics = (\<lambda>a b c s. (Inr (), s))\<rparr>"

definition toy_dist :: "bytes option dist_env" where
  "toy_dist = \<lparr>de_local = cell_cache, de_clients = (\<lambda>_. cell_cache),
     de_cluster = \<lparr>local_node = \<lparr>cn_id = ''a'', cn_address = [], cn_weight = 1, cn_region = None\<rparr>,
       cluster_nodes = [], cluster_ring = toy_ring, replication_factor = 1\<rparr>, de_hash = toy_hash\<rparr>"

theorem distributed_get_first_held_witness:
  "fst (rc_get (distributed_cache toy_dist) ''key'' \<lparr>dc_local = None, dc_clients = [(''a'', Some [7]), (''b'', None)]\<rparr>)
     = Inr (Some [7])"
proof -
  let ?s = "\<lparr>dc_local = None, dc_clients = [(''a'', Some [7]), (''b'', None)]\<rparr> :: bytes option distributed"
  have "responsive toy_dist (\<lambda>c. rc_get c ''key'') ?s"
    by (simp add: responsive_def toy_dist_def cell_cache_def)
  moreover have "primary_list toy_dist ''key'' = [''b'']" "get_replica_nodes (de_hash toy_dist) (de_cluster toy_dist) ''key'' = [''a'']"
    by code_simp+
  ultimately show ?thesis
    using distributed_get_first_held [of toy_dist "''key''" ?s None]
    by (simp add: held_def toy_dist_def cell_cache_def split_def Let_def)
qed

end
