(* ===== verification/Router.thy ===== *)
theory Router
  imports Remote_Cache
begin

text \<open>
  \<open>src/src/remote_router\<close>: the router in front of several regional caches. A region keeps its client,
  the state behind the client and its health; reads try the healthy regions in their configured order,
  writes go to the first healthy region and are then replicated to the others by spawned tasks, which
  are run in the order they are spawned. Indexing an empty list of regions is a panic.
\<close>

section \<open>Regions\<close>

datatype routing_strategy = LowestLatency | GeoHash | RoundRobin | Sticky

record health_status =
  latency_ms :: u64
  last_seen :: nat
  healthy :: bool

record 'r region_node =
  rg_name :: string
  rg_endpoint :: string
  rg_priority :: u8
  rg_weight :: u8
  rg_client :: "'r remote_cache"
  rg_state :: 'r
  rg_health :: health_status

definition default_health :: "nat \<Rightarrow> health_status" where
  "default_health now = \<lparr>latency_ms = 9999, last_seen = now, healthy = True\<rparr>"

definition new_region :: "nat \<Rightarrow> string \<Rightarrow> string \<Rightarrow> 'r remote_cache \<Rightarrow> 'r \<Rightarrow> 'r region_node" where
  "new_region now name endpoint client x =
     \<lparr>rg_name = name, rg_endpoint = endpoint, rg_priority = 1, rg_weight = 10, rg_client = client, rg_state = x,
      rg_health = default_health now\<rparr>"

record 'r cache_router =
  regions :: "'r region_node list"
  strategy :: routing_strategy

text \<open>One probe of the health service: \<open>now\<close> and \<open>latency\<close> are the clock.\<close>

definition probe_region :: "nat \<Rightarrow> u64 \<Rightarrow> 'r region_node \<Rightarrow> 'r region_node" where
  "probe_region now latency g =
     (case rc_has (rg_client g) ''ping'' (rg_state g) of
        (r, x) \<Rightarrow> g\<lparr>rg_state := x,
                   rg_health := \<lparr>latency_ms = latency, last_seen = now, healthy = (case r of Inr _ \<Rightarrow> True | Inl _ \<Rightarrow> False)\<rparr>\<rparr>)"

section \<open>Selection\<close>

definition select_nodes_for_read :: "'r region_node list \<Rightarrow> 'r region_node list" where
  "select_nodes_for_read gs = filter (\<lambda>g. healthy (rg_health g)) gs"

fun first_healthy :: "'r region_node list \<Rightarrow> nat option" where
  "first_healthy [] = None"
| "first_healthy (g # gs) = (if healthy (rg_health g) then Some 0 else map_option Suc (first_healthy gs))"

definition select_primary_for_write :: "'r region_node list \<Rightarrow> nat result" where
  "select_primary_for_write gs =
     (case first_healthy gs of
        Some i \<Rightarrow> Inr i
      | None \<Rightarrow> if gs = [] then Inl (Err ''panic: index out of bounds'') else Inr 0)"

definition select_replicas_for_write :: "string \<Rightarrow> 'r region_node list \<Rightarrow> 'r region_node list" where
  "select_replicas_for_write primary_name gs = filter (\<lambda>g. rg_name g \<noteq> primary_name) gs"

section \<open>Reads\<close>

text \<open>Ask the healthy regions one after the other; an error counts as a miss.\<close>

fun read_regions :: "('r region_node \<Rightarrow> ('r, 'a option) io) \<Rightarrow> 'r region_node list \<Rightarrow> 'a option \<times> 'r region_node list" where
  "read_regions q [] = (None, [])"
| "read_regions q (g # gs) =
     (if \<not> healthy (rg_health g) then (let (r, gs') = read_regions q gs in (r, g # gs'))
      else
        (case q g (rg_state g) of
           (Inr (Some a), x) \<Rightarrow> (Some a, g\<lparr>rg_state := x\<rparr> # gs)
         | (_, x) \<Rightarrow> (let (r, gs') = read_regions q gs in (r, g\<lparr>rg_state := x\<rparr> # gs'))))"

definition router_read :: "('r region_node \<Rightarrow> ('r, 'a option) io) \<Rightarrow> ('r cache_router, 'a option) io" where
  "router_read q s = (let (r, gs) = read_regions q (regions s) in (Inr r, s\<lparr>regions := gs\<rparr>))"

definition found :: "('r, bool) io \<Rightarrow> ('r, unit option) io" where
  "found m = bind_io m (\<lambda>b. ret (if b then Some () else None))"

definition router_has :: "string \<Rightarrow> ('r cache_router, bool) io" where
  "router_has hash = bind_io (router_read (\<lambda>g. found (rc_has (rg_client g) hash))) (\<lambda>r. ret (r \<noteq> None))"

definition router_get :: "string \<Rightarrow> ('r cache_router, bytes option) io" where
  "router_get hash = router_read (\<lambda>g. rc_get (rg_client g) hash)"

definition router_has_layer :: "string \<Rightarrow> ('r cache_router, bool) io" where
  "router_has_layer hash = bind_io (router_read (\<lambda>g. found (rc_has_layer (rg_client g) hash))) (\<lambda>r. ret (r \<noteq> None))"

definition router_get_layer :: "string \<Rightarrow> ('r cache_router, bytes option) io" where
  "router_get_layer hash = router_read (\<lambda>g. rc_get_layer (rg_client g) hash)"

definition router_get_node_layers :: "string \<Rightarrow> ('r cache_router, string list option) io" where
  "router_get_node_layers hash = router_read (\<lambda>g. rc_get_node_layers (rg_client g) hash)"

section \<open>Writes\<close>

definition run_region :: "('r region_node \<Rightarrow> ('r, unit) io) \<Rightarrow> 'r region_node \<Rightarrow> 'r region_node" where
  "run_region w g = g\<lparr>rg_state := snd (w g (rg_state g))\<rparr>"

definition router_write :: "('r region_node \<Rightarrow> ('r, unit) io) \<Rightarrow> ('r cache_router, unit) io" where
  "router_write w s =
     (case select_primary_for_write (regions s) of
        Inl e \<Rightarrow> (Inl e, s)
      | Inr p \<Rightarrow>
          (let primary = regions s ! p;
               gs = (regions s)[p := run_region w primary]
           in case fst (w primary (rg_state primary)) of
                Inl e \<Rightarrow> (Inl e, s\<lparr>regions := gs\<rparr>)
              | Inr _ \<Rightarrow>
                  (Inr (), s\<lparr>regions := map (\<lambda>g. if rg_name g \<noteq> rg_name primary then run_region w g else g) gs\<rparr>)))"

definition router_put :: "string \<Rightarrow> bytes \<Rightarrow> ('r cache_router, unit) io" where
  "router_put hash d = router_write (\<lambda>g. rc_put (rg_client g) hash d)"

definition router_put_layer :: "string \<Rightarrow> bytes \<Rightarrow> ('r cache_router, unit) io" where
  "router_put_layer hash d = router_write (\<lambda>g. rc_put_layer (rg_client g) hash d)"

definition router_register_node_layers :: "string \<Rightarrow> string list \<Rightarrow> u64 \<Rightarrow> ('r cache_router, unit) io" where
  "router_register_node_layers hash layers total_size =
     router_write (\<lambda>g. rc_register_node_layers (rg_client g) hash layers total_size)"

text \<open>Reports go to the primary only.\<close>

definition router_report :: "('r region_node \<Rightarrow> ('r, unit) io) \<Rightarrow> ('r cache_router, unit) io" where
  "router_report w s =
     (case select_primary_for_write (regions s) of
        Inl e \<Rightarrow> (Inl e, s)
      | Inr p \<Rightarrow>
          (fst (w (regions s ! p) (rg_state (regions s ! p))), s\<lparr>regions := (regions s)[p := run_region w (regions s ! p)]\<rparr>))"

definition router_remote_cache :: "'r cache_router remote_cache" where
  "router_remote_cache =
     \<lparr>rc_has = router_has, rc_get = router_get, rc_put = router_put,
      rc_has_layer = router_has_layer, rc_get_layer = router_get_layer, rc_put_layer = router_put_layer,
      rc_get_node_layers = router_get_node_layers, rc_register_node_layers = router_register_node_layers,
      rc_report_build_event = (\<lambda>e. router_report (\<lambda>g. rc_report_build_event (rg_client g) e)),
      rc_report_dag = (\<lambda>d. router_report (\<lambda>g. rc_report_dag (rg_client g) d)),
      rc_report_analytics = (\<lambda>a b c. router_report (\<lambda>g. rc_report_analytics (rg_client g) a b c))\<rparr>"

section \<open>Lemmas\<close>

definition answer :: "('r region_node \<Rightarrow> ('r, 'a option) io) \<Rightarrow> 'r region_node \<Rightarrow> 'a option" where
  "answer q g = (case fst (q g (rg_state g)) of Inr r \<Rightarrow> r | Inl _ \<Rightarrow> None)"

definition first_answer :: "('r region_node \<Rightarrow> ('r, 'a option) io) \<Rightarrow> 'r region_node list \<Rightarrow> 'a option" where
  "first_answer q gs = (case filter (\<lambda>g. answer q g \<noteq> None) gs of [] \<Rightarrow> None | g # _ \<Rightarrow> answer q g)"

lemma read_regions_first: "fst (read_regions q gs) = first_answer q (select_nodes_for_read gs)"
proof (induction gs)
  case (Cons g gs)
  obtain r x where r: "q g (rg_state g) = (r, x)" by (rule prod.exhaust)
  then have a: "answer q g = (case r of Inr v \<Rightarrow> v | Inl _ \<Rightarrow> None)" by (simp add: answer_def)
  show ?case
  proof (cases "healthy (rg_health g)")
    case True
    then show ?thesis
      using Cons r a by (auto simp: select_nodes_for_read_def first_answer_def split_def split: sum.splits option.splits)
  next
    case False
    then show ?thesis using Cons by (simp add: select_nodes_for_read_def split_def)
  qed
qed (simp add: first_answer_def select_nodes_for_read_def)

lemma read_regions_frame:
  "map (\<lambda>g. (rg_name g, rg_health g)) (snd (read_regions q gs)) = map (\<lambda>g. (rg_name g, rg_health g)) gs"
  by (induction gs) (auto simp: split_def Let_def split: prod.splits sum.splits option.splits)

lemma select_primary_spec:
  "select_primary_for_write gs = Inr p \<Longrightarrow>
     p < length gs \<and> ((\<exists>g \<in> set gs. healthy (rg_health g)) \<longrightarrow> healthy (rg_health (gs ! p)))"
proof -
  have *: "first_healthy gs = Some i \<Longrightarrow> i < length gs \<and> healthy (rg_health (gs ! i))" for i
    by (induction gs arbitrary: i) (auto split: if_splits)
  have "first_healthy gs = None \<longleftrightarrow> (\<forall>g \<in> set gs. \<not> healthy (rg_health g))"
    by (induction gs) auto
  then show "select_primary_for_write gs = Inr p \<Longrightarrow>
     p < length gs \<and> ((\<exists>g \<in> set gs. healthy (rg_health g)) \<longrightarrow> healthy (rg_health (gs ! p)))"
    using * by (auto simp: select_primary_for_write_def split: option.splits if_splits)
qed

section \<open>Properties\<close>

text \<open>Routed reads mask failures: a read of an artifact never fails, whatever the regions do; it
  returns the artifact of the first healthy region that answers with one, and none only when no healthy
  region does. Regions, their names and health are left as they were.\<close>

theorem routed_read_masks_failures:
  "\<exists>s'. router_get hash s = (Inr (first_answer (\<lambda>g. rc_get (rg_client g) hash) (select_nodes_for_read (regions s))), s')
     \<and> map (\<lambda>g. (rg_name g, rg_health g)) (regions s') = map (\<lambda>g. (rg_name g, rg_health g)) (regions s)"
  using read_regions_first [of "\<lambda>g. rc_get (rg_client g) hash" "regions s"]
    read_regions_frame [of "\<lambda>g. rc_get (rg_client g) hash" "regions s"]
  by (auto simp: router_get_def router_read_def split_def)

text \<open>Routed writes: with at least one region, a write succeeds exactly when the primary (healthy if any
  region is) accepts it; then every region of another name has been given the write as well, whatever came of
  it, and when the primary fails no other region has been touched.\<close>

theorem routed_write_spec:
  assumes "regions s \<noteq> []" and "router_put hash d s = (r, s')"
  shows "\<exists>p < length (regions s).
      ((\<exists>g \<in> set (regions s). healthy (rg_health g)) \<longrightarrow> healthy (rg_health (regions s ! p)))
    \<and> r = fst (rc_put (rg_client (regions s ! p)) hash d (rg_state (regions s ! p)))
    \<and> length (regions s') = length (regions s)
    \<and> (\<forall>i < length (regions s). rg_state (regions s' ! i) =
         (if i = p \<or> r = Inr () \<and> rg_name (regions s ! i) \<noteq> rg_name (regions s ! p)
          then snd (rc_put (rg_client (regions s ! i)) hash d (rg_state (regions s ! i)))
          else rg_state (regions s ! i)))"
proof -
  let ?w = "\<lambda>g. rc_put (rg_client g) hash d"
  obtain p where p: "select_primary_for_write (regions s) = Inr p"
    using assms(1) by (cases "first_healthy (regions s)") (auto simp: select_primary_for_write_def)
  note sp = select_primary_spec [OF p]
  let ?g = "regions s ! p"
  have name: "rg_name (run_region ?w ?g) = rg_name ?g" by (simp add: run_region_def)
  show ?thesis
  proof (cases "fst (?w ?g (rg_state ?g))")
    case (Inl e)
    then have "r = Inl e" "regions s' = (regions s)[p := run_region ?w ?g]"
      using assms(2) p by (auto simp: router_put_def router_write_def Let_def)
    with sp Inl show ?thesis
      by (intro exI [of _ p]) (auto simp: nth_list_update run_region_def)
  next
    case (Inr u)
    then have "r = Inr ()" "regions s' = map (\<lambda>g. if rg_name g \<noteq> rg_name ?g then run_region ?w g else g)
        ((regions s)[p := run_region ?w ?g])"
      using assms(2) p by (auto simp: router_put_def router_write_def Let_def)
    with sp Inr name show ?thesis
      by (intro exI [of _ p]) (auto simp: nth_list_update run_region_def)
  qed
qed

definition mem_cache :: "bytes option remote_cache" where
  "mem_cache =
     \<lparr>rc_has = (\<lambda>h s. (Inr (s \<noteq> None), s)), rc_get = (\<lambda>h s. (Inr s, s)), rc_put = (\<lambda>h d s. (Inr (), Some d)),
      rc_has_layer = (\<lambda>h s. (Inr (s \<noteq> None), s)), rc_get_layer = (\<lambda>h s. (Inr s, s)), rc_put_layer = (\<lambda>h d s. (Inr (), Some d)),
      rc_get_node_layers = (\<lambda>h s. (Inr None, s)), rc_register_node_layers = (\<lambda>h ls n s. (Inr (), s)),
      rc_report_build_event = (\<lambda>e s. (Inr (), s)), rc_report_dag = (\<lambda>g s. (Inr (), s)),
      rc_report_analytics = (\<lambda>a b c s. (Inr (), s))\<rparr>"

definition two_regions :: "bytes option cache_router" where
  "two_regions = \<lparr>regions = [new_region 0 ''eu'' [] mem_cache None, new_region 0 ''us'' [] mem_cache None], strategy = Sticky\<rparr>"

theorem routed_write_spec_witness:
  "map rg_state (regions (snd (router_put ''h'' [1] two_regions))) = [Some [1], Some [1]]"
proof -
  have ne: "regions two_regions \<noteq> []" by (simp add: two_regions_def)
  obtain p where "p < length (regions two_regions)"
    and r: "fst (router_put ''h'' [1] two_regions)
       = fst (rc_put (rg_client (regions two_regions ! p)) ''h'' [1] (rg_state (regions two_regions ! p)))"
    and len: "length (regions (snd (router_put ''h'' [1] two_regions))) = length (regions two_regions)"
    and st: "\<forall>i < length (regions two_regions). rg_state (regions (snd (router_put ''h'' [1] two_regions)) ! i) =
         (if i = p \<or> fst (router_put ''h'' [1] two_regions) = Inr () \<and> rg_name (regions two_regions ! i) \<noteq> rg_name (regions two_regions ! p)
          then snd (rc_put (rg_client (regions two_regions ! i)) ''h'' [1] (rg_state (regions two_regions ! i)))
          else rg_state (regions two_regions ! i))"
    using routed_write_spec [OF ne prod.collapse [symmetric], of "''h''" "[1]"] by blast
  then have "p = 0 \<or> p = 1" by (auto simp: two_regions_def)
  with st have "rg_state (regions (snd (router_put ''h'' [1] two_regions)) ! 0) = Some [1]"
    "rg_state (regions (snd (router_put ''h'' [1] two_regions)) ! 1) = Some [1]"
    using r by (auto simp: two_regions_def new_region_def mem_cache_def)
  moreover have "length (regions (snd (router_put ''h'' [1] two_regions))) = Suc (Suc 0)"
    using len by (simp add: two_regions_def)
  then obtain a b where "regions (snd (router_put ''h'' [1] two_regions)) = [a, b]"
    by (auto simp: length_Suc_conv)
  ultimately show ?thesis by simp
qed

end
