(* ===== verification/Audit_Log.thy ===== *)
theory Audit_Log
  imports Prelude
begin

text \<open>
  \<open>src/src/audit.rs\<close>: the hash-chained audit log. The details of an event are of any type \<open>'v\<close>;
  their printing (\<open>to_json\<close>, which may fail), SHA-256 with hexadecimal output (\<open>sha\<close>) and the
  printing of time stamps (\<open>rfc3339\<close>) are the fields of \<open>audit_env\<close>.
\<close>

section \<open>Entries\<close>

datatype event_type =
    CacheRead | CacheWrite | NodeJoin | NodeLeave | GcRun | ScaleUp | ScaleDown
  | TokenCreated | TokenRevoked | ET_BuildStarted | ET_BuildCompleted | ET_BuildFailed

definition show_event_type :: "event_type \<Rightarrow> string" where
  "show_event_type t =
     (case t of
        CacheRead \<Rightarrow> ''cache.read''
      | CacheWrite \<Rightarrow> ''cache.write''
      | NodeJoin \<Rightarrow> ''cluster.node.join''
      | NodeLeave \<Rightarrow> ''cluster.node.leave''
      | GcRun \<Rightarrow> ''gc.run''
      | ScaleUp \<Rightarrow> ''scaling.up''
      | ScaleDown \<Rightarrow> ''scaling.down''
      | TokenCreated \<Rightarrow> ''auth.token.created''
      | TokenRevoked \<Rightarrow> ''auth.token.revoked''
      | ET_BuildStarted \<Rightarrow> ''build.started''
      | ET_BuildCompleted \<Rightarrow> ''build.completed''
      | ET_BuildFailed \<Rightarrow> ''build.failed'')"

record 'v audit_event =
  av_event_type :: event_type
  av_actor :: string
  av_resource :: string
  av_action :: string
  av_details :: 'v

record 'v audit_entry =
  timestamp :: int
  event_type :: event_type
  actor :: string
  resource :: string
  action :: string
  details :: 'v
  prev_hash :: string
  entry_hash :: string

record 'v audit_env =
  sha :: "bytes \<Rightarrow> string"
  to_json :: "'v \<Rightarrow> string option"
  rfc3339 :: "int \<Rightarrow> string"

text \<open>The bytes that are hashed: the fields one after the other.\<close>

definition hash_text :: "'v audit_env \<Rightarrow> 'v audit_entry \<Rightarrow> bytes option" where
  "hash_text env e =
     map_option (\<lambda>j. as_bytes (rfc3339 env (timestamp e)) @ as_bytes (show_event_type (event_type e)) @ as_bytes (actor e)
        @ as_bytes (resource e) @ as_bytes (action e) @ as_bytes j @ as_bytes (prev_hash e)) (to_json env (details e))"

definition compute_hash :: "'v audit_env \<Rightarrow> 'v audit_entry \<Rightarrow> string result" where
  "compute_hash env e = (case hash_text env e of Some t \<Rightarrow> Inr (sha env t) | None \<Rightarrow> Inl (Err ''serde_json''))"

definition new_entry :: "'v audit_env \<Rightarrow> int \<Rightarrow> 'v audit_event \<Rightarrow> string \<Rightarrow> 'v audit_entry result" where
  "new_entry env now ev prev =
     (let e = \<lparr>timestamp = now, event_type = av_event_type ev, actor = av_actor ev, resource = av_resource ev,
               action = av_action ev, details = av_details ev, prev_hash = prev, entry_hash = []\<rparr>
      in case compute_hash env e of Inl x \<Rightarrow> Inl x | Inr h \<Rightarrow> Inr (e\<lparr>entry_hash := h\<rparr>))"

section \<open>The log\<close>

record 'v audit_log =
  entries :: "'v audit_entry list"
  last_hash :: string

definition genesis :: string where
  "genesis = replicate 64 CHR ''0''"

definition new_log :: "'v audit_log" where
  "new_log = \<lparr>entries = [], last_hash = genesis\<rparr>"

definition audit_append :: "'v audit_env \<Rightarrow> int \<Rightarrow> 'v audit_event \<Rightarrow> ('v audit_log, unit) io" where
  "audit_append env now ev l =
     (case new_entry env now ev (last_hash l) of
        Inl x \<Rightarrow> (Inl x, l)
      | Inr e \<Rightarrow> (Inr (), l\<lparr>last_hash := entry_hash e, entries := entries l @ [e]\<rparr>))"

fun verify_from :: "'v audit_env \<Rightarrow> string \<Rightarrow> 'v audit_entry list \<Rightarrow> bool result" where
  "verify_from env prev [] = Inr True"
| "verify_from env prev (e # es) =
     (if prev_hash e \<noteq> prev then Inr False
      else
        (case compute_hash env e of
           Inl x \<Rightarrow> Inl x
         | Inr h \<Rightarrow> if h \<noteq> entry_hash e then Inr False else verify_from env (entry_hash e) es))"

definition verify :: "'v audit_env \<Rightarrow> 'v audit_log \<Rightarrow> bool result" where
  "verify env l = verify_from env genesis (entries l)"

record audit_filter =
  f_event_type :: "event_type option"
  f_actor :: "string option"
  f_resource :: "string option"
  f_start :: "int option"
  f_end :: "int option"

definition filter_matches :: "audit_filter \<Rightarrow> 'v audit_entry \<Rightarrow> bool" where
  "filter_matches f e =
     ((case f_event_type f of Some t \<Rightarrow> event_type e = t | None \<Rightarrow> True)
      \<and> (case f_actor f of Some a \<Rightarrow> actor e = a | None \<Rightarrow> True)
      \<and> (case f_resource f of Some r \<Rightarrow> str_contains r (resource e) | None \<Rightarrow> True)
      \<and> (case f_start f of Some t \<Rightarrow> \<not> timestamp e < t | None \<Rightarrow> True)
      \<and> (case f_end f of Some t \<Rightarrow> \<not> timestamp e > t | None \<Rightarrow> True))"

definition audit_query :: "audit_filter \<Rightarrow> 'v audit_log \<Rightarrow> 'v audit_entry list" where
  "audit_query f l = filter (filter_matches f) (entries l)"

section \<open>The logger\<close>

definition log_event :: "'v audit_env \<Rightarrow> int \<Rightarrow> 'v audit_event \<Rightarrow> 'v audit_log \<Rightarrow> 'v audit_log" where
  "log_event env now ev l = snd (audit_append env now ev l)"

definition logger_verify :: "'v audit_env \<Rightarrow> 'v audit_log \<Rightarrow> bool" where
  "logger_verify env l = (case verify env l of Inr b \<Rightarrow> b | Inl _ \<Rightarrow> False)"

definition export_csv :: "'v audit_env \<Rightarrow> 'v audit_log \<Rightarrow> string" where
  "export_csv env l =
     ''timestamp,event_type,actor,resource,action,details'' @ [CHR 0x0A] @
     concat (map (\<lambda>e. rfc3339 env (timestamp e) @ '','' @ show_event_type (event_type e) @ '','' @ actor e @ '','' @
        resource e @ '','' @ action e @ '','' @ (case to_json env (details e) of Some j \<Rightarrow> j | None \<Rightarrow> []) @ [CHR 0x0A]) (entries l))"

fun export_ndjson :: "('v audit_entry \<Rightarrow> string option) \<Rightarrow> 'v audit_entry list \<Rightarrow> string result" where
  "export_ndjson entry_json [] = Inr []"
| "export_ndjson entry_json (e # es) =
     (case entry_json e of
        None \<Rightarrow> Inl (Err ''serde_json'')
      | Some j \<Rightarrow> (case export_ndjson entry_json es of Inl x \<Rightarrow> Inl x | Inr rest \<Rightarrow> Inr (j @ [CHR 0x0A] @ rest)))"

text \<open>The helpers; \<open>obj k v\<close> is the JSON object with one string field.\<close>

definition log_cache_access ::
    "'v audit_env \<Rightarrow> (string \<Rightarrow> string \<Rightarrow> 'v) \<Rightarrow> int \<Rightarrow> string \<Rightarrow> bool \<Rightarrow> 'v audit_log \<Rightarrow> 'v audit_log" where
  "log_cache_access env obj now hash is_write =
     log_event env now \<lparr>av_event_type = (if is_write then CacheWrite else CacheRead), av_actor = ''system'',
       av_resource = ''/cache/'' @ hash, av_action = (if is_write then ''PUT'' else ''GET''), av_details = obj ''hash'' hash\<rparr>"

definition log_build_event ::
    "'v audit_env \<Rightarrow> (string \<Rightarrow> string \<Rightarrow> 'v) \<Rightarrow> int \<Rightarrow> string \<Rightarrow> string \<Rightarrow> 'v audit_log \<Rightarrow> 'v audit_log" where
  "log_build_event env obj now build_id status =
     log_event env now
       \<lparr>av_event_type = (if status = ''started'' then ET_BuildStarted else if status = ''completed'' then ET_BuildCompleted else ET_BuildFailed),
        av_actor = ''system'', av_resource = ''/build/'' @ build_id, av_action = status, av_details = obj ''build_id'' build_id\<rparr>"

section \<open>Lemmas\<close>

definition chain_end :: "string \<Rightarrow> 'v audit_entry list \<Rightarrow> string" where
  "chain_end prev es = (if es = [] then prev else entry_hash (last es))"

lemma hash_text_entry_hash [simp]: "hash_text env (e\<lparr>entry_hash := h\<rparr>) = hash_text env e"
  by (simp add: hash_text_def)

lemma verify_from_append:
  "verify_from env prev (xs @ ys) = Inr True \<longleftrightarrow>
     verify_from env prev xs = Inr True \<and> verify_from env (chain_end prev xs) ys = Inr True"
  by (induction xs arbitrary: prev) (auto simp: chain_end_def split: sum.splits)

lemma verify_from_snoc:
  "verify_from env prev (xs @ [e]) = Inr True \<longleftrightarrow>
     verify_from env prev xs = Inr True \<and> prev_hash e = chain_end prev xs \<and> compute_hash env e = Inr (entry_hash e)"
  by (auto simp: verify_from_append split: sum.splits)

text \<open>A log as \<open>append\<close> builds it.\<close>

inductive appended :: "'v audit_env \<Rightarrow> 'v audit_log \<Rightarrow> bool" for env where
  appended_new: "appended env new_log"
| appended_append: "appended env l \<Longrightarrow> appended env (snd (audit_append env now ev l))"

lemma appended_ok: "appended env l \<Longrightarrow> verify env l = Inr True \<and> last_hash l = chain_end genesis (entries l)"
proof (induction rule: appended.induct)
  case appended_new
  show ?case by (simp add: verify_def new_log_def chain_end_def)
next
  case (appended_append l now ev)
  show ?case
  proof (cases "new_entry env now ev (last_hash l)")
    case (Inl x)
    with appended_append show ?thesis by (simp add: audit_append_def)
  next
    case (Inr e)
    then have e: "prev_hash e = last_hash l" "compute_hash env e = Inr (entry_hash e)"
      by (auto simp: new_entry_def Let_def compute_hash_def hash_text_def split: sum.splits option.splits)
    with Inr appended_append show ?thesis
      by (simp add: audit_append_def verify_def verify_from_snoc chain_end_def)
  qed
qed

section \<open>Properties\<close>

text \<open>A log that is only appended to verifies, and its last hash is the hash of its last entry.\<close>

theorem appended_log_verifies:
  assumes "appended env l"
  shows "verify env l = Inr True \<and> logger_verify env l \<and> last_hash l = chain_end genesis (entries l)"
  using appended_ok [OF assms] by (simp add: logger_verify_def)

definition toy_audit :: "unit audit_env" where
  "toy_audit = \<lparr>sha = encode_str, to_json = (\<lambda>_. Some ''{}''), rfc3339 = (\<lambda>t. ''t'')\<rparr>"

definition toy_event :: "string \<Rightarrow> unit audit_event" where
  "toy_event a = \<lparr>av_event_type = GcRun, av_actor = a, av_resource = ''r'', av_action = ''x'', av_details = ()\<rparr>"

theorem appended_log_verifies_witness:
  "verify toy_audit (log_event toy_audit 5 (toy_event ''bob'') (log_event toy_audit 4 (toy_event ''al'') new_log)) = Inr True"
proof -
  have "appended toy_audit (log_event toy_audit 5 (toy_event ''bob'') (log_event toy_audit 4 (toy_event ''al'') new_log))"
    unfolding log_event_def by (intro appended_append appended_new)
  then show ?thesis using appended_log_verifies by blast
qed

text \<open>Tamper evidence. The texts a log hashes, and the recovery of the previous hash from the text of an
  entry: the hash is the last field and all hashes have the same length.\<close>

definition hashed :: "'v audit_env \<Rightarrow> 'v audit_log \<Rightarrow> bytes set" where
  "hashed env l = {t. Some t \<in> hash_text env ` set (entries l)}"

lemma hash_text_prev:
  assumes "hash_text env x = Some t" and "hash_text env y = Some t"
    and "length (prev_hash x) = length (prev_hash y)"
  shows "prev_hash x = prev_hash y"
proof -
  obtain u v where "t = u @ as_bytes (prev_hash x)" "t = v @ as_bytes (prev_hash y)"
    using assms(1,2) by (auto simp: hash_text_def simp flip: append_assoc)
  then have "u @ as_bytes (prev_hash x) = v @ as_bytes (prev_hash y)" by simp
  then have "as_bytes (prev_hash x) = as_bytes (prev_hash y)"
    using assms(3) by (subst (asm) append_eq_append_conv) auto
  then show ?thesis by simp
qed

lemma verified_hashes:
  assumes "verify_from env prev xs = Inr True" and "x \<in> set xs"
  obtains t where "hash_text env x = Some t" and "entry_hash x = sha env t"
proof -
  obtain ys zs where "xs = ys @ x # zs" using assms(2) by (meson split_list)
  then have "compute_hash env x = Inr (entry_hash x)"
    using assms(1) by (auto simp: verify_from_append split: sum.splits if_splits)
  then show ?thesis using that by (auto simp: compute_hash_def split: option.splits)
qed

lemma chain_end_hash:
  assumes "verify_from env genesis xs = Inr True" and "xs \<noteq> []"
  obtains t where "Some t \<in> hash_text env ` set xs" and "chain_end genesis xs = sha env t"
  using verified_hashes [OF assms(1), of "last xs"] assms(2) by (auto simp: chain_end_def) (metis image_eqI last_in_set)

lemma chain_end_length:
  assumes "verify_from env genesis xs = Inr True" and "\<And>x. length (sha env x) = 64"
  shows "length (chain_end genesis xs) = 64"
proof (cases "xs = []")
  case False
  then obtain t where "chain_end genesis xs = sha env t" using chain_end_hash assms(1) by metis
  then show ?thesis by (simp add: assms(2))
qed (simp add: chain_end_def genesis_def)

lemma chain_end_not_genesis:
  assumes "verify_from env genesis xs = Inr True" and "xs \<noteq> []"
    and "{t. Some t \<in> hash_text env ` set xs} \<subseteq> T" and "genesis \<notin> sha env ` T"
  shows "chain_end genesis xs \<noteq> genesis"
proof -
  obtain t where t: "Some t \<in> hash_text env ` set xs" "chain_end genesis xs = sha env t"
    by (rule chain_end_hash [OF assms(1,2)])
  then have "t \<in> T" using assms(3) by blast
  then show ?thesis using t(2) assms(4) by (metis imageI)
qed

lemma chain_determined:
  assumes "\<And>x. length (sha env x) = 64" and "inj_on (sha env) T" and "genesis \<notin> sha env ` T"
    and "verify_from env genesis xs = Inr True" and "verify_from env genesis ys = Inr True"
    and "chain_end genesis xs = chain_end genesis ys"
    and "{t. Some t \<in> hash_text env ` set xs} \<subseteq> T" and "{t. Some t \<in> hash_text env ` set ys} \<subseteq> T"
  shows "map (hash_text env) xs = map (hash_text env) ys \<and> map entry_hash xs = map entry_hash ys
    \<and> map prev_hash xs = map prev_hash ys"
  using assms(4-8)
proof (induction xs arbitrary: ys rule: rev_induct)
  case Nil
  then have "ys = []" using chain_end_not_genesis [OF Nil.prems(2) _ Nil.prems(5) assms(3)]
    by (auto simp: chain_end_def split: if_splits)
  then show ?case by simp
next
  case (snoc x xs)
  have "ys \<noteq> []"
    using chain_end_not_genesis [OF snoc.prems(1) _ snoc.prems(4) assms(3)] snoc.prems(3) by (auto simp: chain_end_def)
  then obtain y ys' where ys: "ys = ys' @ [y]" by (cases ys rule: rev_cases) auto
  have x: "verify_from env genesis xs = Inr True" "prev_hash x = chain_end genesis xs"
    and y: "verify_from env genesis ys' = Inr True" "prev_hash y = chain_end genesis ys'"
    using snoc.prems(1,2) by (simp_all add: verify_from_snoc ys)
  have hash: "entry_hash x = entry_hash y" using snoc.prems(3) by (simp add: chain_end_def ys)
  obtain t where t: "hash_text env x = Some t" "entry_hash x = sha env t"
    using verified_hashes [OF snoc.prems(1), of x] by auto
  obtain u where u: "hash_text env y = Some u" "entry_hash y = sha env u"
    using verified_hashes [OF snoc.prems(2), of y] ys by auto
  have "t \<in> T" "u \<in> T" using snoc.prems(4,5) t(1) u(1) by (auto simp: ys intro: rev_image_eqI)
  then have same: "u = t" using inj_onD [OF assms(2)] hash t(2) u(2) by metis
  have "prev_hash x = prev_hash y"
    using hash_text_prev t(1) u(1) same chain_end_length [OF x(1) assms(1)] chain_end_length [OF y(1) assms(1)] x(2) y(2) by metis
  moreover have "{t. Some t \<in> hash_text env ` set xs} \<subseteq> T" "{t. Some t \<in> hash_text env ` set ys'} \<subseteq> T"
    using snoc.prems(4,5) by (auto simp: ys)
  ultimately show ?case using snoc.IH [OF x(1) y(1)] hash t u same x(2) y(2) by (simp add: ys)
qed

text \<open>C17. Tamper evidence of the chain: when SHA-256 has no collision among the texts of two logs and none of
  them hashes to the genesis hash, two logs that verify and end in the same hash have the same number of
  entries, hashed the same bytes at every position and carry the same hashes.\<close>

theorem chain_tamper_evident:
  assumes "\<And>x. length (sha env x) = 64" and "inj_on (sha env) (hashed env l \<union> hashed env l')"
    and "genesis \<notin> sha env ` (hashed env l \<union> hashed env l')"
    and "verify env l = Inr True" and "verify env l' = Inr True"
    and "chain_end genesis (entries l) = chain_end genesis (entries l')"
  shows "map (hash_text env) (entries l) = map (hash_text env) (entries l')
    \<and> map entry_hash (entries l) = map entry_hash (entries l')
    \<and> map prev_hash (entries l) = map prev_hash (entries l')"
  by (rule chain_determined [OF assms(1-3)]) (use assms(4-6) in \<open>auto simp: verify_def hashed_def\<close>)

definition toy_sha :: "unit audit_env" where
  "toy_sha = \<lparr>sha = (\<lambda>t. replicate 63 CHR ''a'' @ [if length t < 78 then CHR ''b'' else CHR ''c'']),
     to_json = (\<lambda>_. Some ''{}''), rfc3339 = (\<lambda>t. ''t'')\<rparr>"

definition toy_log :: "string \<Rightarrow> string \<Rightarrow> unit audit_log" where
  "toy_log a r = log_event toy_sha 5 (toy_event ''bob'')
     (log_event toy_sha 4 \<lparr>av_event_type = GcRun, av_actor = a, av_resource = r, av_action = ''x'', av_details = ()\<rparr> new_log)"

lemma toy_log_appended: "appended toy_sha (toy_log a r)"
  unfolding toy_log_def log_event_def by (intro appended_append appended_new)

lemmas toy_log_eval = toy_log_def log_event_def audit_append_def new_entry_def compute_hash_def hash_text_def
  toy_sha_def toy_event_def new_log_def genesis_def show_event_type_def Let_def

theorem chain_tamper_evident_witness:
  "map (hash_text toy_sha) (entries (toy_log ''al'' ''r'')) = map (hash_text toy_sha) (entries (toy_log ''a'' ''lr''))"
proof -
  define t1 where "t1 = as_bytes (''tgc.runalrx{}'' @ genesis)"
  define t2 where "t2 = as_bytes (''tgc.runbobrx{}'' @ replicate 63 CHR ''a'' @ ''b'')"
  have ok: "verify toy_sha (toy_log a r) = Inr True" for a r
    using appended_ok [OF toy_log_appended] by simp
  have hashed: "hashed toy_sha (toy_log a r) = {t1, t2}" if "a @ r = ''alr''" for a r
  proof -
    have "length a + length r = 3" using arg_cong [OF that, of length] by (simp flip: length_append)
    with that show ?thesis
      by (auto simp: hashed_def t1_def t2_def toy_log_eval simp flip: as_bytes_append)
  qed
  have len: "length t1 = 77" "length t2 = 78" by (simp_all add: t1_def t2_def genesis_def)
  have inj: "inj_on (sha toy_sha) (hashed toy_sha (toy_log ''al'' ''r'') \<union> hashed toy_sha (toy_log ''a'' ''lr''))"
    using len by (simp add: hashed) (auto simp: inj_on_def toy_sha_def)
  have gen: "genesis \<notin> sha toy_sha ` T" for T
    by (auto simp: toy_sha_def genesis_def dest: arg_cong [where f = hd])
  show ?thesis
    using chain_tamper_evident [OF _ inj gen ok ok] by (simp add: toy_log_eval chain_end_def)
qed

text \<open>What \<open>verify\<close> does not see: the verification of a log does not use its last hash, so a log from which
  the last entries are cut still verifies; and moving text from the end of the actor to the front of the
  resource leaves the hashed text of an entry as it was.\<close>

theorem audit_gaps:
  assumes "verify env l = Inr True"
  shows "verify env \<lparr>entries = take n (entries l), last_hash = h\<rparr> = Inr True
    \<and> hash_text env (e\<lparr>actor := a @ b, resource := c\<rparr>) = hash_text env (e\<lparr>actor := a, resource := b @ c\<rparr>)"
proof
  have "verify_from env genesis (take n (entries l) @ drop n (entries l)) = Inr True"
    using assms by (simp add: verify_def)
  then show "verify env \<lparr>entries = take n (entries l), last_hash = h\<rparr> = Inr True"
    by (simp only: verify_from_append) (simp add: verify_def)
qed (simp add: hash_text_def)

theorem audit_gaps_witness:
  "verify toy_sha \<lparr>entries = take 1 (entries (toy_log ''al'' ''r'')), last_hash = []\<rparr> = Inr True"
  using audit_gaps [OF appended_ok [OF toy_log_appended, THEN conjunct1]] by blast

end
