(* ===== verification/Hybrid_Live.thy ===== *)
theory Hybrid_Live
  imports Hybrid
begin

text \<open>
  The two-level cache over a local cache that works: its directory exists and its file system reports no
  fault. Then, whatever the remote does, a lookup of a key the local cache holds is answered from it and
  changes nothing, a stored artifact is held afterwards, and a key once held stays held.
\<close>

definition lc_live :: "local_cache \<Rightarrow> bool" where
  "lc_live c \<longleftrightarrow> lc_ok c \<and> faults (lc_fs c) = [] \<and> cache_dir c \<noteq> [] \<and> last (cache_dir c) \<noteq> CHR ''/''
     \<and> is_dir (lc_fs c) (cache_dir c)"

abbreviation view :: "'r hybrid \<Rightarrow> string \<Rightarrow> bytes option" where
  "view s \<equiv> lc_view (hy_local s)"

definition live :: "'r hybrid \<Rightarrow> bool" where
  "live s \<longleftrightarrow> lc_live (hy_local s)"

text \<open>The local cache still works and holds at least what it held.\<close>

definition grown :: "'r hybrid \<Rightarrow> 'r hybrid \<Rightarrow> bool" where
  "grown s s' \<longleftrightarrow> live s' \<and> dom (view s) \<subseteq> dom (view s')"

lemma grown_refl [intro]: "live s \<Longrightarrow> grown s s"
  by (simp add: grown_def)

lemma grown_trans [trans]: "grown s s' \<Longrightarrow> grown s' s'' \<Longrightarrow> grown s s''"
  by (auto simp: grown_def)

lemma grown_live: "grown s s' \<Longrightarrow> live s'"
  by (simp add: grown_def)

lemma grown_remote: "grown s s' \<Longrightarrow> grown s (s'\<lparr>hy_remote := r\<rparr>)"
  by (simp add: grown_def live_def)

section \<open>The local cache\<close>

lemma lc_put_live:
  assumes "lc_live c" and "key_ok k" and "lc_put to_json now k d c = (r, c')"
  shows "lc_live c' \<and> lc_view c' = (lc_view c)(k \<mapsto> d)"
  using assms(3)
proof (cases rule: lc_put_cases)
  case (blob e f)
  have "write_file (lc_path c k) d (lc_fs c)
      = (Inr (), (lc_fs c)\<lparr>files := AList.update (lc_path c k) d (files (lc_fs c))\<rparr>)"
    unfolding lc_path_def using assms(1,2)
    by (intro write_in_dir filename_ok) (auto simp: lc_live_def lc_ok_def lc_path_def)
  with blob(2) show ?thesis by simp
next
  case (saved f f' entry)
  have "lc_ok c" using assms(1) by (simp add: lc_live_def)
  note v = lc_put_view [OF this assms(2,3)]
  have f: "faults f = []" "\<And>q. is_dir f q = is_dir (lc_fs c) q" "map_of (files f) (lc_path c k) = Some d"
    using write_file_faults [of "lc_fs c" "lc_path c k" d] write_file_dirs [of "lc_path c k" d "lc_fs c"]
      write_file_ok [OF saved(1)] saved(1) assms(1) by (auto simp: lc_live_def is_dir_def)
  have f': "faults f' = []" "\<And>q. is_dir f' q = is_dir f q"
    using saved(4) f(1) by (auto simp: write_file_faults is_dir_def)
  have "map_of (files f') (lc_path c k) = Some d"
    using saved(4) f(3) write_file_other [of "lc_path c k" "index_path c" _ f] lc_path_not_index [OF assms(2), of c] assms(1)
    by (auto simp: lc_live_def lc_ok_def)
  then have "lc_view c' k = Some d" by (simp add: lc_view_def saved(3) update_conv')
  moreover have "lc_live c'"
    using v(1) f f' assms(1) by (auto simp: lc_live_def saved(3))
  ultimately show ?thesis using v(3) by (auto simp: fun_eq_iff)
qed

lemma get_data_live:
  assumes "lc_live c"
  shows "get_data k c = (Inr (lc_view c k), c)"
proof (cases "map_of (store c) k")
  case (Some e)
  then have p: "path_join (cache_dir c) (ie_artifact_path e) = lc_path c k" "key_ok k" "\<not> is_dir (lc_fs c) (lc_path c k)"
    using assms by (auto simp: lc_live_def lc_ok_def lc_path_def)
  show ?thesis
  proof (cases "map_of (files (lc_fs c)) (lc_path c k)")
    case None
    then show ?thesis using Some p by (simp add: get_data_def lc_view_def path_exists_def is_file_def)
  next
    case (Some d)
    then have "read_file (lc_path c k) (lc_fs c) = (Inr d, lc_fs c)"
      using assms by (intro read_file_present) (auto simp: lc_live_def)
    then show ?thesis
      using Some \<open>map_of (store c) k = Some e\<close> p lc_path_ne [OF p(2), of c]
      by (simp add: get_data_def lc_view_def path_exists_def is_file_def on_fs_def on_part_def)
  qed
qed (simp add: get_data_def lc_view_def)

section \<open>Lookup and store\<close>

lemma put_local_grown:
  assumes "live s" and "key_ok k" and "on_local (lc_put to_json now k d) s = (r, s')"
  shows "live s' \<and> view s' = (view s)(k \<mapsto> d)"
  using lc_put_live [OF _ assms(2)] assms(1,3) by (auto simp: on_local_Ok live_def)

lemma put_artifact_live:
  assumes "live s" and "key_ok k" and "put_artifact digest to_json now remote k d s = (r, s')"
  shows "live s' \<and> view s' = (view s)(k \<mapsto> d)"
proof -
  obtain r1 s1 where p: "on_local (lc_put to_json now k d) s = (r1, s1)" by (rule prod.exhaust)
  note l = put_local_grown [OF assms(1,2) p]
  have "hy_local s' = hy_local s1"
    using assms(3) p
    by (cases r1; cases remote) (auto simp: put_artifact_def bind_io_def on_remote_def on_part_def split: prod.splits sum.splits)
  with l show ?thesis by (simp add: live_def)
qed

lemma get_artifact_held:
  assumes "live s" and "view s k = Some d"
  shows "get_artifact to_json now remote k s = (Inr (Some d), s)"
  using get_data_live [of "hy_local s" k] assms
  by (simp add: get_artifact_def live_def bind_io_def on_local_def on_part_def)

text \<open>A lookup of a key that is not held changes the entry of this key at most, and returns what it stored
  unless it fails.\<close>

lemma get_artifact_missed:
  assumes "live s" and "key_ok k" and "view s k = None" and "get_artifact to_json now remote k s = (r, s')"
  shows "live s' \<and> (view s' = view s \<and> (r = Inr None \<or> isl r)
      \<or> (\<exists>d. view s' = (view s)(k \<mapsto> d) \<and> (r = Inr (Some d) \<or> isl r)))"
proof -
  let ?Q = "\<lambda>r1 s2. live s2 \<and> (view s2 = view s \<and> (r1 = Inr None \<or> isl r1)
      \<or> (\<exists>d. view s2 = (view s)(k \<mapsto> d) \<and> (r1 = Inr (Some d) \<or> isl r1)))"
  let ?store = "\<lambda>d. bind_io (on_local (lc_put to_json now k d)) (\<lambda>_. ret (Some d))"
  have loc: "on_local (get_data k) s = (Inr None, s)"
    using get_data_live [of "hy_local s" k] assms(1,3) by (simp add: on_local_def on_part_def live_def)
  have same: "live s1 \<and> view s1 = view s" if "hy_local s1 = hy_local s" for s1
    using that assms(1) by (simp add: live_def)
  have fin: "?Q r1 s2" if "?store e s1 = (r1, s2)" "hy_local s1 = hy_local s" for e s1 r1 s2
  proof -
    obtain r3 s3 where p: "on_local (lc_put to_json now k e) s1 = (r3, s3)" by (rule prod.exhaust)
    have "live s3 \<and> view s3 = (view s)(k \<mapsto> e)"
      using put_local_grown [OF _ assms(2) p] assms(1) that(2) by (auto simp: live_def)
    then show ?thesis using that(1) p by (cases r3) auto
  qed
  have rem: "?Q r1 s2" if "bind_io (on_remote m) K s1 = (r1, s2)" "hy_local s1 = hy_local s"
      "\<And>a s3. hy_local s3 = hy_local s \<Longrightarrow> K a s3 = (r1, s2) \<Longrightarrow> ?Q r1 s2"
    for s1 r1 s2 and m :: "('a, 'b) io" and K
    using that(1)
  proof (cases rule: bind_io_cases)
    case (Err e)
    then show ?thesis using same [of s2] that(2) by (auto simp: on_remote_Ok)
  next
    case (Ok a s3)
    then have "hy_local s3 = hy_local s" using that(2) by (auto simp: on_remote_Ok)
    then show ?thesis using that(3) Ok(2) by blast
  qed
  have missed: "?Q (Inr None) s1" if "hy_local s1 = hy_local s" for s1
    using same [OF that] by simp
  show ?thesis
  proof (cases remote)
    case None
    then show ?thesis using assms(1,4) loc by (auto simp: get_artifact_def)
  next
    case (Some rc)
    let ?K1 = "\<lambda>ls. bind_io (on_remote (fetch_layers rc k ls)) (\<lambda>ds. ?store (merge_artifact ds))"
    let ?K2 = "bind_io (on_remote (rc_get rc k)) (\<lambda>x. case x of Some d \<Rightarrow> ?store d | None \<Rightarrow> ret None)"
    have "bind_io (on_remote (rc_get_node_layers rc k)) (\<lambda>ls. case ls of Some hs \<Rightarrow> ?K1 hs | None \<Rightarrow> ?K2) s = (r, s')"
      using assms(4) loc Some by (simp add: get_artifact_def Let_def)
    then show ?thesis
    proof (rule rem)
      fix ls s1 assume s1: "hy_local s1 = hy_local s" and k: "(case ls of Some hs \<Rightarrow> ?K1 hs | None \<Rightarrow> ?K2) s1 = (r, s')"
      show "?Q r s'"
      proof (cases ls)
        case None
        with k have "?K2 s1 = (r, s')" by simp
        then show ?thesis
        proof (rule rem [OF _ s1])
          fix x s3 assume "hy_local s3 = hy_local s" "(case x of Some d \<Rightarrow> ?store d | None \<Rightarrow> ret None) s3 = (r, s')"
          then show "?Q r s'" using fin [of _ s3 r s'] missed [of s3] by (cases x) auto
        qed
      next
        case (Some hs)
        with k have "?K1 hs s1 = (r, s')" by simp
        then show ?thesis by (rule rem [OF _ s1]) (rule fin)
      qed
    qed simp
  qed
qed

text \<open>After any lookup the local cache holds what it held, and it holds the key when the lookup found
  something.\<close>

lemma get_artifact_live:
  assumes "live s" and "key_ok k" and "get_artifact to_json now remote k s = (r, s')"
  shows "grown s s' \<and> (\<forall>d. r = Inr (Some d) \<longrightarrow> view s' k = Some d)"
proof (cases "view s k")
  case (Some d)
  then show ?thesis using get_artifact_held [OF assms(1) Some] assms by auto
next
  case None
  then show ?thesis using get_artifact_missed [OF assms(1,2) None assms(3)] by (auto simp: grown_def)
qed

lemma get_artifact_local_only:
  "live s \<Longrightarrow> get_artifact to_json now None k s = (Inr (view s k), s)"
  using get_data_live [of "hy_local s" k]
  by (auto simp: get_artifact_def live_def bind_io_def on_local_def on_part_def split: option.splits)

section \<open>Manifests\<close>

lemma on_local_fs: "on_local (on_fs m) s = (r, s') \<longleftrightarrow>
    (\<exists>f. m (lc_fs (hy_local s)) = (r, f) \<and> s' = s\<lparr>hy_local := (hy_local s)\<lparr>lc_fs := f\<rparr>\<rparr>)"
  by (auto simp: on_local_Ok on_fs_cong)

lemma manifest_entries_pure:
  "faults f = [] \<Longrightarrow> manifest_entries digest dir es f = (r, f') \<Longrightarrow>
     f' = f \<and> (\<forall>fl. r = Inr fl \<longrightarrow> (\<forall>x \<in> set fl. \<exists>d. fe_hash x = digest d))"
proof (induction digest dir es arbitrary: r f' rule: manifest_entries.induct)
  case (3 digest dir p regular es)
  show ?case
  proof (cases "regular \<and> (\<exists>rel. strip_dir dir p = Inr rel)")
    case True
    then obtain rel where rel: "regular" "strip_dir dir p = Inr rel" by blast
    obtain rd where rd: "read_file p f = (rd, f)"
      using read_file_faults [OF 3(3), of p] by (metis prod.collapse)
    obtain re fe where re: "manifest_entries digest dir es f = (re, fe)" by (rule prod.exhaust)
    note ih = 3(2) [OF _ rel(2) 3(3) re]
    have own: "\<exists>d'. fe_hash (entry_of digest rel d) = digest d'" for d by (auto simp: entry_of_def)
    show ?thesis
      using 3(4) rel rd re ih own by (cases rd; cases re) auto
  next
    case False
    then show ?thesis using 3 by (cases regular; cases "strip_dir dir p") auto
  qed
qed auto

lemma from_dir_pure:
  assumes "faults f = []" and "from_dir digest walk dir f = (r, f')"
  shows "f' = f \<and> (\<forall>m. r = Inr m \<longrightarrow> (\<forall>x \<in> set (am_files m). \<exists>d. fe_hash x = digest d))"
proof (cases "is_file f dir")
  case True
  obtain rd where rd: "read_file dir f = (rd, f)"
    using read_file_faults [OF assms(1), of dir] by (metis prod.collapse)
  then show ?thesis using True assms(2) by (cases rd) (auto simp: from_dir_def entry_of_def)
next
  case False
  obtain re fe where re: "manifest_entries digest dir (walk f dir) f = (re, fe)" by (rule prod.exhaust)
  then show ?thesis
    using manifest_entries_pure [OF assms(1) re] False assms(2) by (cases re) (auto simp: from_dir_def)
qed

lemma upload_files_live:
  assumes "live s" and "\<And>x. x \<in> set fl \<Longrightarrow> key_ok (fe_hash x)"
    and "upload_files digest to_json now remote base fl s = (r, s')"
  shows "grown s s'"
  using assms
proof (induction fl arbitrary: s)
  case (Cons x fl)
  define p where "p = (if is_file (lc_fs (hy_local s)) base then base else path_join base (fe_path x))"
  define m where "m = (if path_exists (lc_fs (hy_local s)) p
     then bind_io (on_local (on_fs (read_file p))) (put_artifact digest to_json now remote (fe_hash x)) else ret ())"
  have eq: "bind_io m (\<lambda>_. upload_files digest to_json now remote base fl) s = (r, s')"
    using Cons.prems(3) by (simp only: upload_files.simps p_def m_def Let_def)
  have m: "grown s s1" if "m s = (r1, s1)" for r1 s1
  proof (cases "path_exists (lc_fs (hy_local s)) p")
    case True
    obtain rd where "read_file p (lc_fs (hy_local s)) = (rd, lc_fs (hy_local s))"
      using read_file_faults [of "lc_fs (hy_local s)" p] Cons.prems(1) by (auto simp: live_def lc_live_def) (metis prod.collapse)
    then have "on_local (on_fs (read_file p)) s = (rd, s)" by (simp add: on_local_fs)
    then show ?thesis
      using that True put_artifact_live [OF Cons.prems(1), of "fe_hash x" digest to_json now remote] Cons.prems(1,2)
      by (cases rd) (auto simp: m_def grown_def dom_def)
  next
    case False
    then show ?thesis using that Cons.prems(1) by (auto simp: m_def)
  qed
  from eq show ?case
  proof (cases rule: bind_io_cases)
    case (Ok a s1)
    then show ?thesis using Cons.IH [OF grown_live [OF m] _ Ok(2)] Cons.prems(2) m grown_trans by fastforce
  qed (use m in auto)
qed auto

lemma upload_manifest_live:
  assumes "live s" and "\<And>d. key_ok (digest d)" and "\<And>x. x \<in> set (am_files manifest) \<Longrightarrow> key_ok (fe_hash x)"
    and "upload_manifest_and_files digest to_json mj now remote manifest base s = (r, s')"
  shows "grown s s'"
proof (cases "mj manifest")
  case None
  then show ?thesis using assms by (auto simp: upload_manifest_and_files_def)
next
  case (Some j)
  let ?put = "put_artifact digest to_json now remote (manifest_hash digest mj manifest) (as_bytes j)"
  have key: "key_ok (manifest_hash digest mj manifest)" using assms(2) by (simp add: manifest_hash_def)
  have put: "grown s s1" if "?put s = (r1, s1)" for r1 s1
    using put_artifact_live [OF assms(1) key that] by (auto simp: grown_def)
  from assms(4) Some have "bind_io ?put (\<lambda>_. upload_files digest to_json now remote base (am_files manifest)) s = (r, s')"
    by (simp add: upload_manifest_and_files_def)
  then show ?thesis
  proof (cases rule: bind_io_cases)
    case (Ok a s1)
    then show ?thesis using upload_files_live [OF grown_live [OF put] assms(3) Ok(2)] put grown_trans by blast
  qed (use put in auto)
qed

end
