(* ===== verification/Sandbox.thy ===== *)
theory Sandbox
  imports Graph Files
begin

text \<open>
  \<open>src/src/sandbox/mod.rs\<close>, \<open>src/src/sandbox/local.rs\<close> and the messages of
  \<open>src/src/remote_exec/mod.rs\<close>: the \<open>Sandbox\<close> trait as a record of operations over the state a
  command can change, the sandbox that runs commands on the build machine, and the requests and results of
  remote execution. \<open>shell\<close> stands for \<open>sh -c\<close> with an environment in a directory.
\<close>

section \<open>The trait\<close>

record sandbox_env =
  workspace_dir :: string
  env_vars :: "(string, string) hashmap"

text \<open>An exit code is an \<open>i32\<close>; it is only compared with 0.\<close>

record exec_result =
  exit_code :: int
  exec_stdout :: bytes
  exec_stderr :: bytes

record 'w sandbox =
  sb_prepare :: "node \<Rightarrow> ('w, sandbox_env) io"
  sb_execute :: "sandbox_env \<Rightarrow> node \<Rightarrow> ('w, exec_result) io"
  sb_cleanup :: "sandbox_env \<Rightarrow> ('w, unit) io"

section \<open>The local sandbox\<close>

record 'o host =
  host_fs :: fs
  host_os :: 'o

definition on_host_fs :: "(fs, 'a) io \<Rightarrow> ('o host, 'a) io" where
  "on_host_fs = on_part host_fs (\<lambda>f h. h\<lparr>host_fs := f\<rparr>)"

type_synonym 'o shell = "string \<Rightarrow> (string, string) hashmap \<Rightarrow> string \<Rightarrow> ('o host, int option \<times> bytes \<times> bytes) io"

definition local_prepare :: "string \<Rightarrow> node \<Rightarrow> ('o host, sandbox_env) io" where
  "local_prepare dir n = ret \<lparr>workspace_dir = dir, env_vars = node_env n\<rparr>"

definition run_shell :: "'o shell \<Rightarrow> sandbox_env \<Rightarrow> string \<Rightarrow> ('o host, exec_result) io" where
  "run_shell shell env cmd =
     bind_io (shell cmd (env_vars env) (workspace_dir env)) (\<lambda>(code, out, err_out).
     ret \<lparr>exit_code = (case code of Some c \<Rightarrow> c | None \<Rightarrow> 1), exec_stdout = out, exec_stderr = err_out\<rparr>)"

definition local_execute :: "'o shell \<Rightarrow> sandbox_env \<Rightarrow> node \<Rightarrow> ('o host, exec_result) io" where
  "local_execute shell env n =
     (case node_kind n of
        NK_Run \<Rightarrow> run_shell shell env (node_content n)
      | NK_RunExtend command _ \<Rightarrow> run_shell shell env command
      | NK_CustomHook hook params \<Rightarrow> run_shell shell env (hook @ '' '' @ join_with '' '' params)
      | NK_CopyExtend src dst _ \<Rightarrow>
          (let src_path = path_join (workspace_dir env) src; dst_path = path_join (workspace_dir env) dst in
           bind_io (case parent dst_path of Some d \<Rightarrow> on_host_fs (create_dir_all d) | None \<Rightarrow> ret ()) (\<lambda>_ h.
           if is_dir (host_fs h) src_path then run_shell shell env (''cp -r '' @ src @ '' '' @ dst) h
           else
             bind_io (on_host_fs (bind_io (read_file src_path) (write_file dst_path))) (\<lambda>_.
             ret \<lparr>exit_code = 0, exec_stdout = as_bytes (''Copied '' @ src @ '' to '' @ dst), exec_stderr = []\<rparr>) h))
      | _ \<Rightarrow> ret \<lparr>exit_code = 0, exec_stdout = as_bytes (''Artifact for '' @ node_name n), exec_stderr = []\<rparr>)"

definition local_cleanup :: "sandbox_env \<Rightarrow> ('o host, unit) io" where
  "local_cleanup env = ret ()"

definition local_sandbox :: "'o shell \<Rightarrow> string \<Rightarrow> 'o host sandbox" where
  "local_sandbox shell dir =
     \<lparr>sb_prepare = local_prepare dir, sb_execute = local_execute shell, sb_cleanup = local_cleanup\<rparr>"

section \<open>Remote execution messages\<close>

record cas_digest =
  cd_hash :: string
  cd_size_bytes :: int

record action_request =
  ar_command :: "string list"
  ar_env :: "(string, string) hashmap"
  ar_input_root_digest :: cas_digest
  ar_timeout_secs :: nat
  ar_platform_properties :: "(string, string) hashmap"
  ar_output_files :: "string list"
  ar_output_directories :: "string list"

record execution_metadata =
  xm_worker_id :: string
  xm_queued_timestamp :: "int option"
  xm_worker_start_timestamp :: "int option"
  xm_worker_completed_timestamp :: "int option"

record action_result =
  ac_output_files :: "(string, cas_digest) hashmap"
  ac_exit_code :: int
  ac_stdout_raw :: bytes
  ac_stderr_raw :: bytes
  ac_execution_metadata :: execution_metadata

type_synonym 'w remote_executor = "action_request \<Rightarrow> ('w, action_result) io"

end
