(* ===== verification/Executor.thy ===== *)
theory Executor
  imports Hybrid_Live Sandbox
begin

text \<open>
  \<open>src/src/execution/executor.rs\<close> (and its twin \<open>src/src/executor.rs\<close>): the incremental executor. It
  runs the levels of the graph in order, in each level first the nodes that may run in parallel and then the
  others, one by one. A node is looked up in the cache, run in the sandbox or remotely on a miss, and its
  output stored.

  The futures of \<open>join_all\<close> are tasks that advance one phase at a time (lookup, run, store); a schedule, a
  list of task positions, says which task advances next, and when it is exhausted the tasks are driven to their
  end in order. Every interleaving of the phases is a schedule, and every schedule ends. The state of the
  sandbox is apart from that of the cache: commands do not write to the cache directory.
\<close>

section \<open>State\<close>

record execution_stats =
  total_nodes :: nat
  executed_nodes :: nat
  cache_hits :: nat
  cache_misses :: nat
  parallel_levels :: nat
  total_execution_time_ms :: u64

definition default_stats :: execution_stats where
  "default_stats = \<lparr>total_nodes = 0, executed_nodes = 0, cache_hits = 0, cache_misses = 0,
     parallel_levels = 0, total_execution_time_ms = 0\<rparr>"

record ('r, 'w) executor =
  ex_remote_cache :: "'r remote_cache option"
  ex_observed :: bool
  ex_reproducible :: bool
  ex_dry_run :: bool
  ex_sandbox :: "'w sandbox"
  ex_remote_executor :: "'w remote_executor option"

text \<open>What the executor takes from outside: hashing, serialization, directory traversal, lossy decoding of
  process output, the clock.\<close>

record externals =
  xt_digest :: "bytes \<Rightarrow> string"
  xt_index_json :: "index \<Rightarrow> bytes option"
  xt_manifest_json :: "artifact_manifest \<Rightarrow> string option"
  xt_walk :: "fs \<Rightarrow> string \<Rightarrow> (err + string \<times> bool) list"
  xt_lossy :: "bytes \<Rightarrow> string"
  xt_now :: int
  xt_system_time :: nat
  xt_elapsed :: "nat \<Rightarrow> u64"
  xt_total_elapsed :: u64

record ('r, 'w) world =
  w_cache :: "'r hybrid"
  w_box :: 'w
  w_events :: "build_event list"

definition on_cache :: "('r hybrid, 'a) io \<Rightarrow> (('r, 'w) world, 'a) io" where
  "on_cache = on_part w_cache (\<lambda>c w. w\<lparr>w_cache := c\<rparr>)"

definition on_box :: "('w, 'a) io \<Rightarrow> (('r, 'w) world, 'a) io" where
  "on_box = on_part w_box (\<lambda>x w. w\<lparr>w_box := x\<rparr>)"

definition emit :: "('r, 'w) executor \<Rightarrow> build_event \<Rightarrow> ('r, 'w) world \<Rightarrow> ('r, 'w) world" where
  "emit ex ev w = (if ex_observed ex then w\<lparr>w_events := w_events w @ [ev]\<rparr> else w)"

section \<open>One node\<close>

definition show_int :: "int \<Rightarrow> string" where
  "show_int i = (if i < 0 then ''-'' @ show_nat (nat (- i)) else show_nat (nat i))"

definition DEFAULT_REMOTE_EXECUTION_TIMEOUT_SECS :: nat where
  "DEFAULT_REMOTE_EXECUTION_TIMEOUT_SECS = 600"

text \<open>The lookup: \<open>Some\<close> when the node is settled by it.\<close>

definition check_cache ::
    "externals \<Rightarrow> ('r, 'w) executor \<Rightarrow> node \<Rightarrow> ('r, 'w) world \<Rightarrow> (bool \<times> bool) result option \<times> ('r, 'w) world" where
  "check_cache X ex n w =
     (case on_cache (get_artifact (xt_index_json X) (xt_now X) (ex_remote_cache ex) (node_hash n)) w of
        (Inr (Some _), w1) \<Rightarrow> (Some (Inr (False, True)), w1)
      | (_, w1) \<Rightarrow> (if ex_dry_run ex then Some (Inr (node_dirty n, False)) else None, w1))"

definition is_runnable :: "node \<Rightarrow> bool" where
  "is_runnable n =
     (case node_kind n of NK_Run \<Rightarrow> True | NK_RunExtend _ _ \<Rightarrow> True | NK_CustomHook _ _ \<Rightarrow> True | NK_Git _ _ \<Rightarrow> True | _ \<Rightarrow> False)"

text \<open>The upload of the inputs before a remote execution; a manifest that cannot be built is skipped.\<close>

definition upload_inputs :: "externals \<Rightarrow> ('r, 'w) executor \<Rightarrow> node \<Rightarrow> ('r hybrid, unit) io" where
  "upload_inputs X ex n s =
     (case (input_manifest_hash (node_meta n), node_source_path n) of
        (Some _, Some path) \<Rightarrow>
          (case on_local (on_fs (from_dir (xt_digest X) (xt_walk X) path)) s of
             (Inr manifest, s1) \<Rightarrow>
               upload_manifest_and_files (xt_digest X) (xt_index_json X) (xt_manifest_json X) (xt_now X)
                 (ex_remote_cache ex) manifest path s1
           | (Inl _, s1) \<Rightarrow> (Inr (), s1))
      | _ \<Rightarrow> (Inr (), s))"

definition remote_action :: "node \<Rightarrow> action_request" where
  "remote_action n =
     \<lparr>ar_command = [''/bin/sh'', ''-c'', node_content n], ar_env = node_env n,
      ar_input_root_digest =
        \<lparr>cd_hash = (case input_manifest_hash (node_meta n) of Some h \<Rightarrow> h | None \<Rightarrow> node_hash n), cd_size_bytes = 0\<rparr>,
      ar_timeout_secs = DEFAULT_REMOTE_EXECUTION_TIMEOUT_SECS, ar_platform_properties = [],
      ar_output_files = [], ar_output_directories = []\<rparr>"

definition run_remote ::
    "externals \<Rightarrow> ('r, 'w) executor \<Rightarrow> 'w remote_executor \<Rightarrow> node \<Rightarrow> (('r, 'w) world, bytes) io" where
  "run_remote X ex remote n =
     bind_io (on_cache (upload_inputs X ex n)) (\<lambda>_.
     bind_io (on_box (remote (remote_action n))) (\<lambda>result.
     if ac_exit_code result \<noteq> 0
     then bail (''Remote execution failed with exit code '' @ show_int (ac_exit_code result) @ '': ''
                  @ xt_lossy X (ac_stderr_raw result))
     else ret (ac_stdout_raw result)))"

definition run_local :: "externals \<Rightarrow> 'w sandbox \<Rightarrow> node \<Rightarrow> ('w, bytes) io" where
  "run_local X sb n =
     bind_io (sb_prepare sb n) (\<lambda>env.
     bind_io (sb_execute sb env n) (\<lambda>result.
     if exit_code result \<noteq> 0
     then bail (''Command failed with exit code '' @ show_int (exit_code result) @ '': '' @ xt_lossy X (exec_stderr result))
     else bind_io (sb_cleanup sb env) (\<lambda>_. ret (exec_stdout result))))"

definition normalize_artifact :: "bytes \<Rightarrow> bytes result" where
  "normalize_artifact d = Inr d"

definition run_node :: "externals \<Rightarrow> ('r, 'w) executor \<Rightarrow> node \<Rightarrow> (('r, 'w) world, bytes) io" where
  "run_node X ex n =
     bind_io
       (if is_runnable n
        then (case ex_remote_executor ex of
                Some remote \<Rightarrow> run_remote X ex remote n
              | None \<Rightarrow> on_box (run_local X (ex_sandbox ex) n))
        else ret [])
       (\<lambda>d w. if ex_reproducible ex then (normalize_artifact d, w) else (Inr d, w))"

definition store_artifact :: "externals \<Rightarrow> ('r, 'w) executor \<Rightarrow> node \<Rightarrow> bytes \<Rightarrow> ('r, 'w) world \<Rightarrow> ('r, 'w) world" where
  "store_artifact X ex n d w =
     snd (on_cache (put_artifact (xt_digest X) (xt_index_json X) (xt_now X) (ex_remote_cache ex) (node_hash n) d) w)"

definition execute_node_logic ::
    "externals \<Rightarrow> ('r, 'w) executor \<Rightarrow> node \<Rightarrow> (('r, 'w) world, bool \<times> bool) io" where
  "execute_node_logic X ex n w =
     (case check_cache X ex n w of
        (Some r, w1) \<Rightarrow> (r, w1)
      | (None, w1) \<Rightarrow>
          (case run_node X ex n w1 of
             (Inl e, w2) \<Rightarrow> (Inl e, w2)
           | (Inr d, w2) \<Rightarrow> (Inr (False, False), store_artifact X ex n d w2)))"

definition err_text :: "err \<Rightarrow> string" where
  "err_text e = (case e of Err m \<Rightarrow> m)"

text \<open>The event that reports the outcome of a node.\<close>

definition outcome_event :: "externals \<Rightarrow> nat \<Rightarrow> node \<Rightarrow> (bool \<times> bool) result \<Rightarrow> build_event" where
  "outcome_event X i n r =
     (case r of
        Inr (_, hit) \<Rightarrow> NodeCompleted i (node_name n) (unat (xt_elapsed X i)) hit
      | Inl e \<Rightarrow> NodeFailed i (node_name n) (err_text e))"

section \<open>The graph and the statistics\<close>

record ('r, 'w) build =
  b_graph :: build_graph
  b_stats :: execution_stats
  b_world :: "('r, 'w) world"

definition mark_node :: "externals \<Rightarrow> nat \<Rightarrow> bool \<times> bool \<Rightarrow> node \<Rightarrow> node" where
  "mark_node X i res n =
     n\<lparr>node_dirty := fst res, node_cache_hit := snd res,
       node_meta := (node_meta n)\<lparr>last_executed := Some (xt_system_time X), execution_time_ms := Some (xt_elapsed X i)\<rparr>\<rparr>"

definition count_node :: "bool \<Rightarrow> execution_stats \<Rightarrow> execution_stats" where
  "count_node hit st =
     (if hit then st\<lparr>cache_hits := cache_hits st + 1\<rparr>
      else st\<lparr>cache_misses := cache_misses st + 1, executed_nodes := executed_nodes st + 1\<rparr>)"

definition apply_result :: "externals \<Rightarrow> nat \<Rightarrow> (bool \<times> bool) result \<Rightarrow> (('r, 'w) build, unit) io" where
  "apply_result X i r b =
     (case r of
        Inl e \<Rightarrow> (Inl e, b)
      | Inr res \<Rightarrow>
          (let ns = graph_nodes (b_graph b) in
           (Inr (), b\<lparr>b_graph := (b_graph b)\<lparr>graph_nodes := ns[i := mark_node X i res (ns ! i)]\<rparr>,
                      b_stats := count_node (snd res) (b_stats b)\<rparr>)))"

section \<open>Parallel nodes\<close>

datatype phase = P_Lookup | P_Run | P_Store bytes | P_Done "(bool \<times> bool) result"

record task =
  t_id :: nat
  t_node :: node
  t_phase :: phase

definition settle :: "externals \<Rightarrow> ('r, 'w) executor \<Rightarrow> task \<Rightarrow> (bool \<times> bool) result \<Rightarrow> ('r, 'w) world \<Rightarrow> task \<times> ('r, 'w) world" where
  "settle X ex t r w = (t\<lparr>t_phase := P_Done r\<rparr>, emit ex (outcome_event X (t_id t) (t_node t) r) w)"

definition task_step :: "externals \<Rightarrow> ('r, 'w) executor \<Rightarrow> task \<Rightarrow> ('r, 'w) world \<Rightarrow> task \<times> ('r, 'w) world" where
  "task_step X ex t w =
     (case t_phase t of
        P_Lookup \<Rightarrow>
          (case check_cache X ex (t_node t) (emit ex (NodeStarted (t_id t) (node_name (t_node t))) w) of
             (Some r, w1) \<Rightarrow> settle X ex t r w1
           | (None, w1) \<Rightarrow> (t\<lparr>t_phase := P_Run\<rparr>, w1))
      | P_Run \<Rightarrow>
          (case run_node X ex (t_node t) w of
             (Inl e, w1) \<Rightarrow> settle X ex t (Inl e) w1
           | (Inr d, w1) \<Rightarrow> (t\<lparr>t_phase := P_Store d\<rparr>, w1))
      | P_Store d \<Rightarrow> settle X ex t (Inr (False, False)) (store_artifact X ex (t_node t) d w)
      | P_Done r \<Rightarrow> (t, w))"

definition run_to_end :: "externals \<Rightarrow> ('r, 'w) executor \<Rightarrow> task \<Rightarrow> ('r, 'w) world \<Rightarrow> task \<times> ('r, 'w) world" where
  "run_to_end X ex t w =
     (case task_step X ex t w of (t1, w1) \<Rightarrow> case task_step X ex t1 w1 of (t2, w2) \<Rightarrow> task_step X ex t2 w2)"

fun finish_tasks :: "externals \<Rightarrow> ('r, 'w) executor \<Rightarrow> task list \<Rightarrow> ('r, 'w) world \<Rightarrow> task list \<times> ('r, 'w) world" where
  "finish_tasks X ex [] w = ([], w)"
| "finish_tasks X ex (t # ts) w =
     (case run_to_end X ex t w of (t', w1) \<Rightarrow> case finish_tasks X ex ts w1 of (ts', w2) \<Rightarrow> (t' # ts', w2))"

fun join_all :: "externals \<Rightarrow> ('r, 'w) executor \<Rightarrow> nat list \<Rightarrow> task list \<Rightarrow> ('r, 'w) world \<Rightarrow> task list \<times> ('r, 'w) world" where
  "join_all X ex [] ts w = finish_tasks X ex ts w"
| "join_all X ex (i # sched) ts w =
     (if i < length ts
      then (case task_step X ex (ts ! i) w of (t', w1) \<Rightarrow> join_all X ex sched (ts[i := t']) w1)
      else join_all X ex sched ts w)"

fun apply_results :: "externals \<Rightarrow> task list \<Rightarrow> (('r, 'w) build, unit) io" where
  "apply_results X [] = ret ()"
| "apply_results X (t # ts) =
     bind_io (apply_result X (t_id t) (case t_phase t of P_Done r \<Rightarrow> r | _ \<Rightarrow> Inl (Err ''pending'')))
       (\<lambda>_. apply_results X ts)"

definition make_task :: "build_graph \<Rightarrow> nat \<Rightarrow> task" where
  "make_task g i = \<lparr>t_id = i, t_node = graph_nodes g ! i, t_phase = P_Lookup\<rparr>"

definition execute_parallel_nodes ::
    "externals \<Rightarrow> ('r, 'w) executor \<Rightarrow> nat list \<Rightarrow> nat list \<Rightarrow> (('r, 'w) build, unit) io" where
  "execute_parallel_nodes X ex sched ids b =
     (case join_all X ex sched (map (make_task (b_graph b)) ids) (b_world b) of
        (ts, w) \<Rightarrow> apply_results X ts (b\<lparr>b_world := w\<rparr>))"

section \<open>Sequential nodes\<close>

definition execute_one :: "externals \<Rightarrow> ('r, 'w) executor \<Rightarrow> nat \<Rightarrow> (('r, 'w) build, unit) io" where
  "execute_one X ex i b =
     (let n = graph_nodes (b_graph b) ! i in
      case execute_node_logic X ex n (emit ex (NodeStarted i (node_name n)) (b_world b)) of
        (r, w) \<Rightarrow> apply_result X i r (b\<lparr>b_world := emit ex (outcome_event X i n r) w\<rparr>))"

fun execute_sequential_nodes :: "externals \<Rightarrow> ('r, 'w) executor \<Rightarrow> nat list \<Rightarrow> (('r, 'w) build, unit) io" where
  "execute_sequential_nodes X ex [] = ret ()"
| "execute_sequential_nodes X ex (i # ids) =
     bind_io (execute_one X ex i) (\<lambda>_. execute_sequential_nodes X ex ids)"

section \<open>The whole build\<close>

definition execute_level ::
    "externals \<Rightarrow> ('r, 'w) executor \<Rightarrow> nat list \<Rightarrow> nat list \<Rightarrow> (('r, 'w) build, unit) io" where
  "execute_level X ex sched level b =
     (let par = (\<lambda>i. parallelizable (node_meta (graph_nodes (b_graph b) ! i)));
          parallel_nodes = filter par level; sequential_nodes = filter (\<lambda>i. \<not> par i) level
      in bind_io (if parallel_nodes \<noteq> [] then execute_parallel_nodes X ex sched parallel_nodes else ret ()) (\<lambda>_.
         if sequential_nodes \<noteq> [] then execute_sequential_nodes X ex sequential_nodes else ret ()) b)"

fun run_levels ::
    "externals \<Rightarrow> ('r, 'w) executor \<Rightarrow> (nat \<Rightarrow> nat list) \<Rightarrow> nat \<Rightarrow> nat list list \<Rightarrow> (('r, 'w) build, unit) io" where
  "run_levels X ex sched k [] = ret ()"
| "run_levels X ex sched k (l # ls) =
     bind_io (if l = [] then ret () else execute_level X ex (sched k) l) (\<lambda>_. run_levels X ex sched (Suc k) ls)"

definition execute ::
    "externals \<Rightarrow> ('r, 'w) executor \<Rightarrow> (nat \<Rightarrow> nat list) \<Rightarrow> (('r, 'w) build, execution_stats) io" where
  "execute X ex sched b =
     (let n = size_g (b_graph b); lv = levels (b_graph b);
          b1 = b\<lparr>b_stats := default_stats\<lparr>total_nodes := n, parallel_levels := length lv\<rparr>,
                 b_world := emit ex (BuildStarted n) (b_world b)\<rparr>
      in bind_io (run_levels X ex sched 0 lv) (\<lambda>_ b2.
           let st = (b_stats b2)\<lparr>total_execution_time_ms := xt_total_elapsed X\<rparr>;
               done_ev = BuildCompleted (unat (total_execution_time_ms st)) (cache_hits st) (executed_nodes st)
           in (Inr st, b2\<lparr>b_stats := st, b_world := emit ex done_ev (b_world b2)\<rparr>)) b1)"

section \<open>Construction\<close>

definition new_executor :: "'o shell \<Rightarrow> string option \<Rightarrow> 'r remote_cache option \<Rightarrow> ('r, 'o host) executor" where
  "new_executor shell current_dir remote =
     \<lparr>ex_remote_cache = remote, ex_observed = False, ex_reproducible = False, ex_dry_run = False,
      ex_sandbox = local_sandbox shell (case current_dir of Some d \<Rightarrow> d | None \<Rightarrow> ''.''), ex_remote_executor = None\<rparr>"

definition with_dry_run :: "bool \<Rightarrow> ('r, 'w) executor \<Rightarrow> ('r, 'w) executor" where
  "with_dry_run dry_run ex = ex\<lparr>ex_dry_run := dry_run\<rparr>"

definition with_remote_executor :: "'w remote_executor \<Rightarrow> ('r, 'w) executor \<Rightarrow> ('r, 'w) executor" where
  "with_remote_executor exec ex = ex\<lparr>ex_remote_executor := Some exec\<rparr>"

definition with_sandbox :: "'w sandbox \<Rightarrow> ('r, 'w) executor \<Rightarrow> ('r, 'w) executor" where
  "with_sandbox sb ex = ex\<lparr>ex_sandbox := sb\<rparr>"

definition with_reproducible :: "bool \<Rightarrow> ('r, 'w) executor \<Rightarrow> ('r, 'w) executor" where
  "with_reproducible reproducible ex = ex\<lparr>ex_reproducible := reproducible\<rparr>"

definition with_observer :: "('r, 'w) executor \<Rightarrow> ('r, 'w) executor" where
  "with_observer ex = ex\<lparr>ex_observed := True\<rparr>"

text \<open>The entry point of older callers.\<close>

definition execute_graph ::
    "externals \<Rightarrow> 'o shell \<Rightarrow> string option \<Rightarrow> 'r remote_cache option \<Rightarrow> bool \<Rightarrow> bool \<Rightarrow> (nat \<Rightarrow> nat list)
     \<Rightarrow> (('r, 'o host) build, unit) io" where
  "execute_graph X shell current_dir remote observed reproducible sched =
     (let ex = with_reproducible reproducible (new_executor shell current_dir remote);
          ex' = (if observed then with_observer ex else ex)
      in bind_io (execute X ex' sched) (\<lambda>_. ret ()))"

end
