(* ===== verification/Incremental.thy ===== *)
theory Incremental
  imports Executor
begin

text \<open>
  What a build by the executor of \<open>Executor\<close> does: its accounting, what it leaves in the cache, that a second
  build runs nothing, that a failing node is not cached, and that parallel execution agrees with sequential
  execution. The lemmas follow a build through its parts: one node, a task, the tasks of \<open>join_all\<close> under any
  schedule (by induction on the schedule), a level, all levels.
\<close>

section \<open>The cache under one node\<close>

abbreviation held :: "('r, 'w) world \<Rightarrow> node \<Rightarrow> bool" where
  "held w n \<equiv> node_hash n \<in> dom (view (w_cache w))"

abbreviation wgrown :: "('r, 'w) world \<Rightarrow> ('r, 'w) world \<Rightarrow> bool" where
  "wgrown w w' \<equiv> grown (w_cache w) (w_cache w')"

lemma held_grown: "wgrown w w' \<Longrightarrow> held w n \<Longrightarrow> held w' n"
  by (auto simp: grown_def)

lemma emit_frame [simp]: "w_cache (emit ex ev w) = w_cache w" "w_box (emit ex ev w) = w_box w"
  by (simp_all add: emit_def)

lemma on_cache_eq: "on_cache m w = (r, w') \<longleftrightarrow> (\<exists>c. m (w_cache w) = (r, c) \<and> w' = w\<lparr>w_cache := c\<rparr>)"
  by (simp add: on_cache_def on_part_eq_iff)

lemma on_box_eq: "on_box m w = (r, w') \<longleftrightarrow> (\<exists>x. m (w_box w) = (r, x) \<and> w' = w\<lparr>w_box := x\<rparr>)"
  by (simp add: on_box_def on_part_eq_iff)

lemma check_cache_live:
  assumes "live (w_cache w)" and "key_ok (node_hash n)" and "check_cache X ex n w = (res, w')"
  shows "wgrown w w' \<and> (\<forall>r. res = Some r \<and> \<not> ex_dry_run ex \<longrightarrow> r = Inr (False, True) \<and> held w' n)
    \<and> (\<forall>r. res = Some r \<longrightarrow> r \<in> {Inr (False, True), Inr (node_dirty n, False)})"
proof -
  obtain g c where g: "get_artifact (xt_index_json X) (xt_now X) (ex_remote_cache ex) (node_hash n) (w_cache w) = (g, c)"
    by (rule prod.exhaust)
  have w: "on_cache (get_artifact (xt_index_json X) (xt_now X) (ex_remote_cache ex) (node_hash n)) w = (g, w\<lparr>w_cache := c\<rparr>)"
    using g by (simp add: on_cache_eq)
  note l = get_artifact_live [OF assms(1,2) g]
  show ?thesis
    using assms(3) l unfolding check_cache_def w by (auto simp: domI split: sum.splits option.splits if_splits)
qed

lemma check_cache_held:
  "live (w_cache w) \<Longrightarrow> held w n \<Longrightarrow> check_cache X ex n w = (Some (Inr (False, True)), w)"
  using get_artifact_held [of "w_cache w" "node_hash n"]
  by (auto simp: check_cache_def on_cache_def on_part_def)

lemma upload_inputs_live:
  assumes "live s" and "\<And>d. key_ok (xt_digest X d)" and "upload_inputs X ex n s = (r, s')"
  shows "grown s s'"
proof (cases "(input_manifest_hash (node_meta n), node_source_path n)")
  case (Pair mh sp)
  show ?thesis
  proof (cases "mh \<noteq> None \<and> sp \<noteq> None")
    case True
    then obtain h path where hp: "mh = Some h" "sp = Some path" by auto
    obtain m f where m: "from_dir (xt_digest X) (xt_walk X) path (lc_fs (hy_local s)) = (m, f)" by (rule prod.exhaust)
    have "faults (lc_fs (hy_local s)) = []" using assms(1) by (simp add: live_def lc_live_def)
    note p = from_dir_pure [OF this m]
    have e: "on_local (on_fs (from_dir (xt_digest X) (xt_walk X) path)) s = (m, s)"
      using m p by (simp add: on_local_fs)
    show ?thesis
    proof (cases m)
      case (Inl x)
      then show ?thesis using assms(1,3) Pair hp e by (auto simp: upload_inputs_def)
    next
      case (Inr manifest)
      then have "key_ok (fe_hash x)" if "x \<in> set (am_files manifest)" for x
        using p that assms(2) by metis
      then show ?thesis
        by (rule upload_manifest_live [OF assms(1,2)]) (use assms(3) Pair hp e Inr in \<open>simp_all add: upload_inputs_def\<close>)
    qed
  next
    case False
    then show ?thesis using assms(1,3) Pair by (auto simp: upload_inputs_def split: option.splits)
  qed
qed

lemma run_remote_live:
  assumes "live (w_cache w)" and "\<And>d. key_ok (xt_digest X d)" and "run_remote X ex remote n w = (r, w')"
  shows "wgrown w w'"
proof -
  obtain u c where u: "upload_inputs X ex n (w_cache w) = (u, c)" by (rule prod.exhaust)
  have c: "grown (w_cache w) c" by (rule upload_inputs_live [OF assms(1,2) u])
  have e: "on_cache (upload_inputs X ex n) w = (u, w\<lparr>w_cache := c\<rparr>)" using u by (simp add: on_cache_eq)
  show ?thesis
  proof (cases u)
    case (Inl x)
    then show ?thesis using assms(3) e c by (auto simp: run_remote_def)
  next
    case (Inr y)
    then show ?thesis
      using assms(3) e c
      by (auto simp: run_remote_def on_box_def on_part_def bind_io_def split: prod.splits sum.splits if_splits)
  qed
qed

lemma run_node_live:
  assumes "live (w_cache w)" and "\<And>d. key_ok (xt_digest X d)" and "run_node X ex n w = (r, w')"
  shows "wgrown w w'"
proof -
  let ?m = "if is_runnable n
        then (case ex_remote_executor ex of
                Some remote \<Rightarrow> run_remote X ex remote n
              | None \<Rightarrow> on_box (run_local X (ex_sandbox ex) n))
        else ret []"
  obtain r1 w1 where m: "?m w = (r1, w1)" by (rule prod.exhaust)
  then have "wgrown w w1"
    using run_remote_live [OF assms(1,2)] assms(1)
    by (auto simp: on_box_eq split: if_splits option.splits)
  moreover have "w' = w1"
    using assms(3) m unfolding run_node_def
    by (cases r1) (auto simp: normalize_artifact_def split: if_splits)
  ultimately show ?thesis by simp
qed

lemma store_artifact_live:
  assumes "live (w_cache w)" and "key_ok (node_hash n)"
  shows "wgrown w (store_artifact X ex n d w) \<and> held (store_artifact X ex n d w) n"
proof -
  obtain r c where p: "put_artifact (xt_digest X) (xt_index_json X) (xt_now X) (ex_remote_cache ex) (node_hash n) d (w_cache w) = (r, c)"
    by (rule prod.exhaust)
  show ?thesis
    using put_artifact_live [OF assms p] p by (auto simp: store_artifact_def on_cache_def on_part_def grown_def)
qed

section \<open>Tasks\<close>

definition task_ok :: "('r, 'w) executor \<Rightarrow> ('r, 'w) world \<Rightarrow> task \<Rightarrow> bool" where
  "task_ok ex w t \<longleftrightarrow> key_ok (node_hash (t_node t))
     \<and> (\<forall>x. t_phase t = P_Done (Inr x) \<and> \<not> ex_dry_run ex \<longrightarrow> \<not> fst x \<and> held w (t_node t))"

definition is_done :: "task \<Rightarrow> bool" where
  "is_done t = (case t_phase t of P_Done _ \<Rightarrow> True | _ \<Rightarrow> False)"

definition kept :: "task \<Rightarrow> task \<Rightarrow> bool" where
  "kept t t' \<longleftrightarrow> t_id t' = t_id t \<and> t_node t' = t_node t"

lemma kept_refl [simp]: "kept t t"
  by (simp add: kept_def)

lemma task_ok_grown: "wgrown w w' \<Longrightarrow> task_ok ex w t \<Longrightarrow> task_ok ex w' t"
  using held_grown [of w w' "t_node t"] unfolding task_ok_def by blast

lemma tasks_ok_grown: "wgrown w w' \<Longrightarrow> list_all (task_ok ex w) ts \<Longrightarrow> list_all (task_ok ex w') ts"
  by (metis (mono_tags, lifting) list.pred_mono_strong task_ok_grown)

lemma task_step_kept: "kept t (fst (task_step X ex t w))"
  by (auto simp: task_step_def settle_def kept_def split: phase.splits prod.splits option.splits sum.splits)

lemma task_step_live:
  assumes "live (w_cache w)" and "\<And>d. key_ok (xt_digest X d)" and "task_ok ex w t" and "task_step X ex t w = (t', w')"
  shows "wgrown w w' \<and> task_ok ex w' t'"
proof (cases "t_phase t")
  case P_Lookup
  let ?w = "emit ex (NodeStarted (t_id t) (node_name (t_node t))) w"
  obtain res w1 where c: "check_cache X ex (t_node t) ?w = (res, w1)" by (rule prod.exhaust)
  have "key_ok (node_hash (t_node t))" using assms(3) by (simp add: task_ok_def)
  note l = check_cache_live [OF _ this c]
  show ?thesis
    using assms(1,3,4) P_Lookup c l by (cases res) (auto simp: task_step_def settle_def task_ok_def)
next
  case P_Run
  obtain res w1 where c: "run_node X ex (t_node t) w = (res, w1)" by (rule prod.exhaust)
  show ?thesis
    using assms(3,4) P_Run c run_node_live [OF assms(1,2) c]
    by (cases res) (auto simp: task_step_def settle_def task_ok_def)
next
  case (P_Store d)
  have "key_ok (node_hash (t_node t))" using assms(3) by (simp add: task_ok_def)
  with store_artifact_live [OF assms(1) this, of X ex d] show ?thesis
    using assms(4) P_Store by (auto simp: task_step_def settle_def task_ok_def)
next
  case (P_Done r)
  then show ?thesis using assms(1,3,4) by (auto simp: task_step_def)
qed

lemma kept_trans: "kept t t' \<Longrightarrow> kept t' t'' \<Longrightarrow> kept t t''"
  by (simp add: kept_def)

lemma run_to_end_live:
  assumes "live (w_cache w)" and "\<And>d. key_ok (xt_digest X d)" and "task_ok ex w t" and "run_to_end X ex t w = (t', w')"
  shows "wgrown w w' \<and> task_ok ex w' t' \<and> kept t t'"
proof -
  obtain t1 w1 where 1: "task_step X ex t w = (t1, w1)" by (rule prod.exhaust)
  obtain t2 w2 where 2: "task_step X ex t1 w1 = (t2, w2)" by (rule prod.exhaust)
  have 3: "task_step X ex t2 w2 = (t', w')" using assms(4) 1 2 by (simp add: run_to_end_def)
  have a: "wgrown w w1" "task_ok ex w1 t1" using task_step_live [OF assms(1,2,3) 1] by auto
  have b: "wgrown w1 w2" "task_ok ex w2 t2" using task_step_live [OF grown_live [OF a(1)] assms(2) a(2) 2] by auto
  have c: "wgrown w2 w'" "task_ok ex w' t'" using task_step_live [OF grown_live [OF b(1)] assms(2) b(2) 3] by auto
  have "kept t t1" "kept t1 t2" "kept t2 t'"
    using task_step_kept [of t X ex w] task_step_kept [of t1 X ex w1] task_step_kept [of t2 X ex w2] 1 2 3 by auto
  then show ?thesis using grown_trans [OF grown_trans [OF a(1) b(1)] c(1)] c(2) kept_trans by blast
qed

text \<open>Every step of a task that is not done brings it nearer to its end, which three steps reach.\<close>

definition rank :: "task \<Rightarrow> nat" where
  "rank t = (case t_phase t of P_Lookup \<Rightarrow> 3 | P_Run \<Rightarrow> 2 | P_Store _ \<Rightarrow> 1 | P_Done _ \<Rightarrow> 0)"

lemma rank_done: "is_done t \<longleftrightarrow> rank t = 0"
  by (simp add: rank_def is_done_def split: phase.split)

lemma task_step_rank: "rank (fst (task_step X ex t w)) \<le> rank t - 1"
proof (cases "t_phase t")
  case P_Lookup
  then show ?thesis by (auto simp: task_step_def settle_def rank_def split: prod.splits option.splits)
next
  case P_Run
  then show ?thesis by (auto simp: task_step_def settle_def rank_def split: prod.splits sum.splits)
qed (simp_all add: task_step_def settle_def rank_def)

lemma run_to_end_done: "is_done (fst (run_to_end X ex t w))"
proof -
  obtain t1 w1 where 1: "task_step X ex t w = (t1, w1)" by (rule prod.exhaust)
  obtain t2 w2 where 2: "task_step X ex t1 w1 = (t2, w2)" by (rule prod.exhaust)
  have "rank t \<le> 3" by (simp add: rank_def split: phase.split)
  then have "rank (fst (task_step X ex t2 w2)) = 0"
    using task_step_rank [of X ex t w] task_step_rank [of X ex t1 w1] task_step_rank [of X ex t2 w2] 1 2 by simp
  then show ?thesis using 1 2 by (simp add: run_to_end_def rank_done)
qed

lemma run_to_end_kept: "kept t (fst (run_to_end X ex t w))"
proof -
  obtain t1 w1 where 1: "task_step X ex t w = (t1, w1)" by (rule prod.exhaust)
  obtain t2 w2 where 2: "task_step X ex t1 w1 = (t2, w2)" by (rule prod.exhaust)
  have "kept t t1" "kept t1 t2" "kept t2 (fst (task_step X ex t2 w2))"
    using task_step_kept [of t X ex w] task_step_kept [of t1 X ex w1] task_step_kept [of t2 X ex w2] 1 2 by simp_all
  then show ?thesis using kept_trans 1 2 by (simp add: run_to_end_def kept_def)
qed

text \<open>A task run by itself is the sequential execution of its node.\<close>

lemma run_to_end_sequential:
  assumes "t_phase t = P_Lookup"
  shows "run_to_end X ex t w =
    (let (r, w1) = execute_node_logic X ex (t_node t) (emit ex (NodeStarted (t_id t) (node_name (t_node t))) w)
     in (t\<lparr>t_phase := P_Done r\<rparr>, emit ex (outcome_event X (t_id t) (t_node t) r) w1))"
  using assms
  by (auto simp: run_to_end_def task_step_def settle_def execute_node_logic_def
      split: prod.splits option.splits sum.splits)

lemma finish_tasks_live:
  assumes "live (w_cache w)" and "\<And>d. key_ok (xt_digest X d)" and "list_all (task_ok ex w) ts"
    and "finish_tasks X ex ts w = (ts', w')"
  shows "wgrown w w' \<and> list_all (task_ok ex w') ts' \<and> list_all is_done ts' \<and> list_all2 kept ts ts'"
  using assms(1,3,4)
proof (induction ts arbitrary: w ts' w')
  case (Cons t ts)
  obtain t1 w1 where 1: "run_to_end X ex t w = (t1, w1)" by (rule prod.exhaust)
  obtain ts2 w2 where 2: "finish_tasks X ex ts w1 = (ts2, w2)" by (rule prod.exhaust)
  have a: "wgrown w w1" "task_ok ex w1 t1" "kept t t1" "is_done t1"
    using run_to_end_live [OF Cons.prems(1) assms(2) _ 1] run_to_end_done [of X ex t w] 1 Cons.prems(2) by auto
  have "list_all (task_ok ex w1) ts"
    using Cons.prems(2) tasks_ok_grown [OF a(1)] by simp
  note b = Cons.IH [OF grown_live [OF a(1)] this 2]
  have "task_ok ex w2 t1" using a(2) b task_ok_grown by blast
  then show ?case using Cons.prems(3) 1 2 a b grown_trans by auto
qed auto

lemma join_all_live:
  assumes "live (w_cache w)" and "\<And>d. key_ok (xt_digest X d)" and "list_all (task_ok ex w) ts"
    and "join_all X ex sched ts w = (ts', w')"
  shows "wgrown w w' \<and> list_all (task_ok ex w') ts' \<and> list_all is_done ts' \<and> list_all2 kept ts ts'"
  using assms(1,3,4)
proof (induction sched arbitrary: ts w)
  case Nil
  then show ?case using finish_tasks_live [OF Nil(1) assms(2) Nil(2)] by simp
next
  case (Cons i sched)
  show ?case
  proof (cases "i < length ts")
    case True
    obtain t1 w1 where 1: "task_step X ex (ts ! i) w = (t1, w1)" by (rule prod.exhaust)
    have "task_ok ex w (ts ! i)" using Cons.prems(2) True by (simp add: list_all_length)
    note a = task_step_live [OF Cons.prems(1) assms(2) this 1]
    have k: "kept (ts ! i) t1" using task_step_kept [of "ts ! i" X ex w] 1 by simp
    have "list_all (task_ok ex w1) (ts[i := t1])"
      using tasks_ok_grown [OF conjunct1 [OF a] Cons.prems(2)] a True by (auto simp: list_all_length nth_list_update)
    from Cons.IH [OF _ this] have b: "wgrown w1 w'" "list_all (task_ok ex w') ts'" "list_all is_done ts'"
        "list_all2 kept (ts[i := t1]) ts'"
      using Cons.prems(3) True 1 a grown_live by auto
    have "list_all2 kept ts ts'"
      using b(4) k True by (auto simp: list_all2_conv_all_nth nth_list_update kept_def split: if_splits)
    then show ?thesis using a b grown_trans by blast
  next
    case False
    then show ?thesis using Cons by simp
  qed
qed

section \<open>What a build does to the graph and the statistics\<close>

text \<open>The part of a node that a build leaves as it was.\<close>

definition static :: "node \<Rightarrow> node" where
  "static n = n\<lparr>node_dirty := False, node_cache_hit := False,
     node_meta := (node_meta n)\<lparr>last_executed := None, execution_time_ms := None\<rparr>\<rparr>"

abbreviation bnodes :: "('r, 'w) build \<Rightarrow> node list" where
  "bnodes b \<equiv> graph_nodes (b_graph b)"

definition settled :: "('r, 'w) build \<Rightarrow> ('r, 'w) build \<Rightarrow> nat list \<Rightarrow> nat \<Rightarrow> bool" where
  "settled b b' ids i \<longleftrightarrow>
     (i \<in> set ids \<or> \<not> node_dirty (bnodes b ! i) \<longrightarrow> \<not> node_dirty (bnodes b' ! i))
     \<and> (i \<in> set ids \<longrightarrow> held (b_world b') (bnodes b ! i))"

definition advanced :: "('r, 'w) executor \<Rightarrow> nat list \<Rightarrow> ('r, 'w) build \<Rightarrow> ('r, 'w) build \<Rightarrow> bool" where
  "advanced ex ids b b' \<longleftrightarrow>
     wgrown (b_world b) (b_world b') \<and> map static (bnodes b') = map static (bnodes b)
     \<and> cache_hits (b_stats b') + cache_misses (b_stats b') = cache_hits (b_stats b) + cache_misses (b_stats b) + length ids
     \<and> executed_nodes (b_stats b') + cache_misses (b_stats b) = cache_misses (b_stats b') + executed_nodes (b_stats b)
     \<and> total_nodes (b_stats b') = total_nodes (b_stats b) \<and> parallel_levels (b_stats b') = parallel_levels (b_stats b)
     \<and> (\<not> ex_dry_run ex \<longrightarrow> (\<forall>i < length (bnodes b). settled b b' ids i))"

lemma static_hash: "static m = static n \<Longrightarrow> node_hash m = node_hash n"
  by (cases m; cases n) (simp add: static_def)

lemma static_parallelizable: "static m = static n \<Longrightarrow> parallelizable (node_meta m) = parallelizable (node_meta n)"
  by (cases m; cases n; cases "node_meta m"; cases "node_meta n") (auto simp: static_def)

lemma static_mark [simp]: "static (mark_node X i r n) = static n"
  by (simp add: static_def mark_node_def)

lemma map_static_nth: "map static xs = map static ys \<Longrightarrow> i < length xs \<Longrightarrow> static (xs ! i) = static (ys ! i)"
  by (metis length_map nth_map)

lemma advanced_refl [intro]: "live (w_cache (b_world b)) \<Longrightarrow> advanced ex [] b b"
  by (auto simp: advanced_def settled_def)

lemma settled_trans:
  assumes "settled b b' xs i" and "settled b' b'' ys i" and "node_hash (bnodes b' ! i) = node_hash (bnodes b ! i)"
    and "wgrown (b_world b') (b_world b'')"
  shows "settled b b'' (xs @ ys) i"
  using assms(1-3) held_grown [OF assms(4), of "bnodes b ! i"] unfolding settled_def by auto

lemma advanced_trans:
  assumes "advanced ex xs b b'" and "advanced ex ys b' b''"
  shows "advanced ex (xs @ ys) b b''"
proof -
  have st: "map static (bnodes b') = map static (bnodes b)" using assms(1) by (simp add: advanced_def)
  then have len: "length (bnodes b') = length (bnodes b)" by (metis length_map)
  have hash: "node_hash (bnodes b' ! i) = node_hash (bnodes b ! i)" if "i < length (bnodes b)" for i
    by (rule static_hash [OF map_static_nth [OF st]]) (simp add: len that)
  have g: "wgrown (b_world b') (b_world b'')" using assms(2) by (simp add: advanced_def)
  have "settled b b'' (xs @ ys) i" if "\<not> ex_dry_run ex" "i < length (bnodes b)" for i
    by (rule settled_trans [OF _ _ hash g]) (use assms that len in \<open>simp_all add: advanced_def\<close>)
  moreover have "wgrown (b_world b) (b_world b'')"
    using assms unfolding advanced_def by (blast intro: grown_trans)
  moreover have "map static (bnodes b'') = map static (bnodes b)" using assms by (simp add: advanced_def)
  moreover have "cache_hits (b_stats b'') + cache_misses (b_stats b'')
      = cache_hits (b_stats b) + cache_misses (b_stats b) + length (xs @ ys)"
    "executed_nodes (b_stats b'') + cache_misses (b_stats b) = cache_misses (b_stats b'') + executed_nodes (b_stats b)"
    "total_nodes (b_stats b'') = total_nodes (b_stats b)" "parallel_levels (b_stats b'') = parallel_levels (b_stats b)"
    using assms by (simp_all add: advanced_def)
  ultimately show ?thesis unfolding advanced_def by blast
qed

lemma apply_result_advanced:
  assumes "live (w_cache (b_world b))" and "apply_result X i r b = (Inr (), b')"
    and "\<And>x. r = Inr x \<Longrightarrow> \<not> ex_dry_run ex \<Longrightarrow> \<not> fst x \<and> held (b_world b) (bnodes b ! i)"
  shows "advanced ex [i] b b' \<and> b_world b' = b_world b"
proof -
  obtain x where r: "r = Inr x" using assms(2) by (cases r) (auto simp: apply_result_def)
  let ?ns = "bnodes b"
  have b': "b' = b\<lparr>b_graph := (b_graph b)\<lparr>graph_nodes := ?ns[i := mark_node X i x (?ns ! i)]\<rparr>,
      b_stats := count_node (snd x) (b_stats b)\<rparr>"
    using assms(2) by (simp add: r apply_result_def Let_def)
  have "map static (?ns[i := mark_node X i x (?ns ! i)]) = map static ?ns"
    by (cases "i < length ?ns") (auto simp: map_update intro: nth_equalityI simp: nth_list_update)
  moreover have "\<not> node_dirty (?ns[i := mark_node X i x (?ns ! i)] ! j)"
    if "\<not> ex_dry_run ex" "j < length ?ns" "j = i \<or> \<not> node_dirty (?ns ! j)" for j
    using assms(3) [OF r] that by (cases "j = i") (simp_all add: mark_node_def)
  ultimately show ?thesis
    using assms(1) assms(3) [OF r] by (auto simp: b' advanced_def settled_def count_node_def)
qed

text \<open>A task that stands for a node of the graph.\<close>

definition for_graph :: "node list \<Rightarrow> task \<Rightarrow> bool" where
  "for_graph ns t \<longleftrightarrow> t_id t < length ns \<and> node_hash (t_node t) = node_hash (ns ! t_id t)"

lemma for_graph_static: "map static ns' = map static ns \<Longrightarrow> for_graph ns t \<Longrightarrow> for_graph ns' t"
  unfolding for_graph_def by (metis length_map map_static_nth static_hash)

lemma for_graph_kept: "list_all2 kept ts ts' \<Longrightarrow> list_all (for_graph ns) ts \<Longrightarrow> list_all (for_graph ns) ts'"
  by (induction rule: list_all2_induct) (auto simp: for_graph_def kept_def)

lemma ids_kept: "list_all2 kept ts ts' \<Longrightarrow> map t_id ts' = map t_id ts"
  by (induction rule: list_all2_induct) (auto simp: kept_def)

lemma apply_results_advanced:
  assumes "live (w_cache (b_world b))" and "list_all (task_ok ex (b_world b)) ts"
    and "list_all is_done ts" and "list_all (for_graph (bnodes b)) ts" and "apply_results X ts b = (Inr (), b')"
  shows "advanced ex (map t_id ts) b b'"
  using assms
proof (induction ts arbitrary: b)
  case (Cons t ts)
  obtain r where r: "t_phase t = P_Done r" using Cons.prems(3) by (auto simp: is_done_def split: phase.splits)
  obtain b1 where 1: "apply_result X (t_id t) r b = (Inr (), b1)" and 2: "apply_results X ts b1 = (Inr (), b')"
    using Cons.prems(5) r by (auto simp: bind_io_Ok_iff)
  have "\<not> fst x \<and> held (b_world b) (bnodes b ! t_id t)" if "r = Inr x" "\<not> ex_dry_run ex" for x
    using Cons.prems(2,4) r that by (cases x) (simp add: task_ok_def for_graph_def)
  from apply_result_advanced [OF Cons.prems(1) 1 this] have a: "advanced ex [t_id t] b b1" "b_world b1 = b_world b"
    by auto
  have "map static (bnodes b1) = map static (bnodes b)" using a(1) by (simp add: advanced_def)
  then have "list_all (for_graph (bnodes b1)) ts"
    using Cons.prems(4) for_graph_static by (auto simp: list_all_iff)
  then have "advanced ex (map t_id ts) b1 b'"
    using Cons.IH [of b1] Cons.prems(1-3) a(2) 2 by simp
  from advanced_trans [OF a(1) this] show ?case by simp
qed auto

section \<open>The phases of a build\<close>

text \<open>What a build needs of its state: the local cache works and the hashes of the nodes can be keys.\<close>

definition build_ready :: "('r, 'w) build \<Rightarrow> bool" where
  "build_ready b \<longleftrightarrow> live (w_cache (b_world b)) \<and> (\<forall>n \<in> set (bnodes b). key_ok (node_hash n))"

lemma static_hashes: "map static ns' = map static ns \<Longrightarrow> map node_hash ns' = map node_hash ns"
  by (rule nth_equalityI) (metis length_map, metis length_map map_static_nth nth_map static_hash)

lemma build_ready_advanced: "build_ready b \<Longrightarrow> advanced ex ids b b' \<Longrightarrow> build_ready b'"
  using arg_cong [OF static_hashes [of "bnodes b'" "bnodes b"], of set] grown_live
  unfolding build_ready_def advanced_def set_map by (metis (no_types, lifting) imageE imageI)

lemma make_task_for_graph: "i < size_g g \<Longrightarrow> for_graph (graph_nodes g) (make_task g i)"
  by (simp add: for_graph_def make_task_def)

lemma map_make_task_id [simp]: "map (t_id \<circ> make_task g) ids = ids"
  by (induction ids) (simp_all add: make_task_def)

lemma parallel_advanced:
  assumes "build_ready b" and "\<And>d. key_ok (xt_digest X d)" and "\<forall>i \<in> set ids. i < length (bnodes b)"
    and "execute_parallel_nodes X ex sched ids b = (Inr (), b')"
  shows "advanced ex ids b b'"
proof -
  let ?ts = "map (make_task (b_graph b)) ids"
  obtain ts w where j: "join_all X ex sched ?ts (b_world b) = (ts, w)" by (rule prod.exhaust)
  have "list_all (task_ok ex (b_world b)) ?ts"
    using assms(1,3) by (auto simp: list_all_iff task_ok_def make_task_def build_ready_def)
  from join_all_live [OF _ assms(2) this j] have l: "wgrown (b_world b) w" "list_all (task_ok ex w) ts"
      "list_all is_done ts" "list_all2 kept ?ts ts"
    using assms(1) by (auto simp: build_ready_def)
  let ?b = "b\<lparr>b_world := w\<rparr>"
  have "list_all (for_graph (bnodes b)) ?ts"
    using assms(3) make_task_for_graph by (auto simp: list_all_iff)
  then have "list_all (for_graph (bnodes ?b)) ts" using for_graph_kept [OF l(4)] by simp
  from apply_results_advanced [OF _ _ l(3) this, where b' = b' and X = X and ex = ex]
  have "advanced ex (map t_id ts) ?b b'"
    using assms(4) j l(1,2) grown_live by (auto simp: execute_parallel_nodes_def)
  then have adv: "advanced ex ids ?b b'" using ids_kept [OF l(4)] by simp
  have "advanced ex [] b ?b" using l(1) by (auto simp: advanced_def settled_def)
  from advanced_trans [OF this adv] show ?thesis by simp
qed

lemma execute_node_logic_live:
  assumes "live (w_cache w)" and "key_ok (node_hash n)" and "\<And>d. key_ok (xt_digest X d)"
    and "execute_node_logic X ex n w = (r, w')"
  shows "wgrown w w' \<and> (\<forall>x. r = Inr x \<and> \<not> ex_dry_run ex \<longrightarrow> \<not> fst x \<and> held w' n)"
proof -
  obtain c w1 where c: "check_cache X ex n w = (c, w1)" by (rule prod.exhaust)
  note l1 = check_cache_live [OF assms(1,2) c]
  show ?thesis
  proof (cases c)
    case (Some x)
    then show ?thesis using assms(4) c l1 by (auto simp: execute_node_logic_def)
  next
    case None
    obtain d w2 where d: "run_node X ex n w1 = (d, w2)" by (rule prod.exhaust)
    have g: "wgrown w1 w2" by (rule run_node_live [OF _ assms(3) d]) (use l1 grown_live in blast)
    show ?thesis
    proof (cases d)
      case (Inl e)
      then show ?thesis using assms(4) c None d l1 g by (auto simp: execute_node_logic_def intro: grown_trans)
    next
      case (Inr a)
      have "wgrown w2 w' \<and> held w' n"
        using store_artifact_live [OF grown_live [OF g] assms(2), of X ex a] assms(4) c None d Inr
        by (auto simp: execute_node_logic_def)
      then show ?thesis
        using assms(4) c None d Inr l1 g by (auto simp: execute_node_logic_def intro: grown_trans)
    qed
  qed
qed

lemma one_advanced:
  assumes "build_ready b" and "\<And>d. key_ok (xt_digest X d)" and "i < length (bnodes b)"
    and "execute_one X ex i b = (Inr (), b')"
  shows "advanced ex [i] b b'"
proof -
  let ?n = "bnodes b ! i"
  obtain r w where l: "execute_node_logic X ex ?n (emit ex (NodeStarted i (node_name ?n)) (b_world b)) = (r, w)"
    by (rule prod.exhaust)
  let ?b = "b\<lparr>b_world := emit ex (outcome_event X i ?n r) w\<rparr>"
  have key: "key_ok (node_hash ?n)" using assms(1,3) by (auto simp: build_ready_def)
  have n: "wgrown (b_world b) w" "\<And>x. r = Inr x \<Longrightarrow> \<not> ex_dry_run ex \<Longrightarrow> \<not> fst x \<and> held w ?n"
    using execute_node_logic_live [OF _ key assms(2) l] assms(1) by (auto simp: build_ready_def)
  have "apply_result X i r ?b = (Inr (), b')" using assms(4) l by (simp add: execute_one_def Let_def)
  have "advanced ex [i] ?b b'"
    by (rule apply_result_advanced [OF _ \<open>apply_result X i r ?b = (Inr (), b')\<close>, THEN conjunct1])
      (use n grown_live in simp_all)
  moreover have "advanced ex [] b ?b" using n(1) by (auto simp: advanced_def settled_def)
  ultimately show ?thesis using advanced_trans by (metis append_Nil)
qed

lemma sequential_advanced:
  assumes "build_ready b" and "\<And>d. key_ok (xt_digest X d)" and "\<forall>i \<in> set ids. i < length (bnodes b)"
    and "execute_sequential_nodes X ex ids b = (Inr (), b')"
  shows "advanced ex ids b b'"
  using assms(1,3,4)
proof (induction ids arbitrary: b)
  case Nil
  then show ?case by (auto simp: build_ready_def)
next
  case (Cons i ids)
  then obtain b1 where 1: "execute_one X ex i b = (Inr (), b1)" and 2: "execute_sequential_nodes X ex ids b1 = (Inr (), b')"
    by (auto simp: bind_io_Ok_iff)
  have a: "advanced ex [i] b b1" using one_advanced [OF Cons.prems(1) assms(2) _ 1] Cons.prems(2) by simp
  then have "length (bnodes b1) = length (bnodes b)" by (metis advanced_def length_map)
  then have "advanced ex ids b1 b'"
    using Cons.IH [OF build_ready_advanced [OF Cons.prems(1) a] _ 2] Cons.prems(2) by simp
  from advanced_trans [OF a this] show ?case by simp
qed

lemma advanced_mset: "mset xs = mset ys \<Longrightarrow> advanced ex xs b b' \<Longrightarrow> advanced ex ys b b'"
  using mset_eq_setD [of xs ys] mset_eq_length [of xs ys] by (simp add: advanced_def settled_def)

lemma advanced_length: "advanced ex ids b b' \<Longrightarrow> length (bnodes b') = length (bnodes b)"
  by (metis advanced_def length_map)

lemma level_advanced:
  assumes "build_ready b" and "\<And>d. key_ok (xt_digest X d)" and "\<forall>i \<in> set l. i < length (bnodes b)"
    and "execute_level X ex sched l b = (Inr (), b')"
  shows "advanced ex l b b'"
proof -
  define par where "par = (\<lambda>i. parallelizable (node_meta (bnodes b ! i)))"
  let ?ps = "filter par l" and ?ss = "filter (\<lambda>i. \<not> par i) l"
  have live: "live (w_cache (b_world b))" using assms(1) by (simp add: build_ready_def)
  have "bind_io (if ?ps \<noteq> [] then execute_parallel_nodes X ex sched ?ps else ret ())
      (\<lambda>_. if ?ss \<noteq> [] then execute_sequential_nodes X ex ?ss else ret ()) b = (Inr (), b')"
    using assms(4) by (simp only: execute_level_def Let_def par_def)
  then obtain u b1 where 1: "(if ?ps \<noteq> [] then execute_parallel_nodes X ex sched ?ps else ret ()) b = (Inr u, b1)"
    and 2: "(if ?ss \<noteq> [] then execute_sequential_nodes X ex ?ss else ret ()) b1 = (Inr (), b')"
    unfolding bind_io_Ok_iff by (elim exE conjE)
  have a: "advanced ex ?ps b b1"
  proof (cases "?ps = []")
    case True
    with 1 live show ?thesis by auto
  next
    case False
    show ?thesis by (rule parallel_advanced [OF assms(1,2)]) (use False 1 assms(3) in auto)
  qed
  note r1 = build_ready_advanced [OF assms(1) a]
  have "advanced ex ?ss b1 b'"
  proof (cases "?ss = []")
    case True
    with 2 r1 show ?thesis by (auto simp: build_ready_def)
  next
    case False
    show ?thesis by (rule sequential_advanced [OF r1 assms(2)]) (use False 2 assms(3) advanced_length [OF a] in auto)
  qed
  from advanced_trans [OF a this] show ?thesis
    by (rule advanced_mset [rotated]) (simp add: multiset_partition [of "mset l", symmetric])
qed

lemma run_levels_advanced:
  assumes "build_ready b" and "\<And>d. key_ok (xt_digest X d)" and "\<forall>i \<in> set (concat ls). i < length (bnodes b)"
    and "run_levels X ex sched k ls b = (Inr (), b')"
  shows "advanced ex (concat ls) b b'"
  using assms(1,3,4)
proof (induction ls arbitrary: b k)
  case Nil
  then show ?case by (auto simp: build_ready_def)
next
  case (Cons l ls)
  from Cons.prems(3) obtain u b1 where 1: "(if l = [] then ret () else execute_level X ex (sched k) l) b = (Inr u, b1)"
    and 2: "run_levels X ex sched (Suc k) ls b1 = (Inr (), b')"
    unfolding run_levels.simps bind_io_Ok_iff by (elim exE conjE)
  have a: "advanced ex l b b1"
  proof (cases "l = []")
    case True
    with 1 Cons.prems(1) show ?thesis by (auto simp: build_ready_def)
  next
    case False
    show ?thesis
      by (rule level_advanced [OF Cons.prems(1) assms(2)]) (use False 1 Cons.prems(2) in auto)
  qed
  have "advanced ex (concat ls) b1 b'"
    using Cons.IH [OF build_ready_advanced [OF Cons.prems(1) a] _ 2] Cons.prems(2) advanced_length [OF a] by simp
  from advanced_trans [OF a this] show ?case by simp
qed

lemma set_levels: "set (concat (levels g)) = {0..<size_g g}"
  using mset_levels [of g] by (metis atLeastLessThan_upt mset_eq_setD)

lemma length_levels: "length (concat (levels g)) = size_g g"
  using mset_levels [of g] by (metis diff_zero length_upt mset_eq_length)

definition started :: "externals \<Rightarrow> ('r, 'w) executor \<Rightarrow> ('r, 'w) build \<Rightarrow> ('r, 'w) build" where
  "started X ex b = b\<lparr>b_stats := default_stats\<lparr>total_nodes := size_g (b_graph b), parallel_levels := length (levels (b_graph b))\<rparr>,
     b_world := emit ex (BuildStarted (size_g (b_graph b))) (b_world b)\<rparr>"

text \<open>\<open>execute\<close> succeeds exactly when the levels do; it then adds the time and the last event.\<close>

lemma execute_cases:
  assumes "execute X ex sched b = (Inr st, b')"
  obtains b2 where "run_levels X ex sched 0 (levels (b_graph b)) (started X ex b) = (Inr (), b2)"
    and "st = (b_stats b2)\<lparr>total_execution_time_ms := xt_total_elapsed X\<rparr>"
    and "b_stats b' = st" and "b_graph b' = b_graph b2"
    and "w_cache (b_world b') = w_cache (b_world b2)" and "w_box (b_world b') = w_box (b_world b2)"
  using assms by (auto simp: execute_def started_def Let_def bind_io_def split: prod.splits sum.splits)

lemma execute_advanced:
  assumes "build_ready b" and "\<And>d. key_ok (xt_digest X d)" and "execute X ex sched b = (Inr st, b')"
  obtains b2 where "advanced ex [0..<length (bnodes b)] (started X ex b) b2"
    and "st = (b_stats b2)\<lparr>total_execution_time_ms := xt_total_elapsed X\<rparr>"
    and "b_graph b' = b_graph b2" and "w_cache (b_world b') = w_cache (b_world b2)"
proof (rule execute_cases [OF assms(3)])
  fix b2 assume b2: "run_levels X ex sched 0 (levels (b_graph b)) (started X ex b) = (Inr (), b2)"
    "st = (b_stats b2)\<lparr>total_execution_time_ms := xt_total_elapsed X\<rparr>"
    "b_graph b' = b_graph b2" "w_cache (b_world b') = w_cache (b_world b2)"
  have "build_ready (started X ex b)" "bnodes (started X ex b) = bnodes b"
    using assms(1) by (simp_all add: build_ready_def started_def)
  then have "advanced ex (concat (levels (b_graph b))) (started X ex b) b2"
    by (intro run_levels_advanced [OF _ assms(2) _ b2(1)]) (simp_all only: set_levels atLeastLessThan_iff ball_simps, simp)
  then have "advanced ex [0..<length (bnodes b)] (started X ex b) b2"
    by (rule advanced_mset [OF mset_levels])
  then show thesis by (rule that) (rule b2)+
qed

section \<open>A warm cache\<close>

text \<open>The parts of the world that a build can only change by working.\<close>

definition same_world :: "('r, 'w) world \<Rightarrow> ('r, 'w) world \<Rightarrow> bool" where
  "same_world w w' \<longleftrightarrow> w_cache w' = w_cache w \<and> w_box w' = w_box w"

definition warm :: "('r, 'w) world \<Rightarrow> task \<Rightarrow> bool" where
  "warm w t \<longleftrightarrow> t_phase t \<in> {P_Lookup, P_Done (Inr (False, True))} \<and> held w (t_node t)"

lemma warm_same: "same_world w w' \<Longrightarrow> warm w t \<Longrightarrow> warm w' t"
  by (simp add: warm_def same_world_def)

lemma warm_step:
  assumes "live (w_cache w)" and "warm w t"
  shows "fst (task_step X ex t w) = t\<lparr>t_phase := P_Done (Inr (False, True))\<rparr> \<and> same_world w (snd (task_step X ex t w))"
proof (cases "t_phase t = P_Lookup")
  case True
  then show ?thesis
    using assms check_cache_held [of "emit ex (NodeStarted (t_id t) (node_name (t_node t))) w" "t_node t" X ex]
    by (simp add: task_step_def settle_def warm_def same_world_def)
next
  case False
  then show ?thesis using assms by (cases t) (simp add: task_step_def warm_def same_world_def)
qed

definition hit_task :: "task \<Rightarrow> bool" where
  "hit_task t \<longleftrightarrow> t_phase t = P_Done (Inr (False, True))"

lemma warm_finish:
  assumes "live (w_cache w)" and "list_all (warm w) ts" and "finish_tasks X ex ts w = (ts', w')"
  shows "same_world w w' \<and> list_all hit_task ts' \<and> list_all2 kept ts ts'"
  using assms
proof (induction ts arbitrary: w ts' w')
  case (Cons t ts)
  obtain t1 w1 where 1: "task_step X ex t w = (t1, w1)" by (rule prod.exhaust)
  have t: "t1 = t\<lparr>t_phase := P_Done (Inr (False, True))\<rparr>" "same_world w w1"
    using warm_step [OF Cons.prems(1), of t X ex] Cons.prems(2) 1 by auto
  then have r: "run_to_end X ex t w = (t1, w1)" using 1 by (simp add: run_to_end_def task_step_def)
  obtain ts2 w2 where 2: "finish_tasks X ex ts w1 = (ts2, w2)" by (rule prod.exhaust)
  have "list_all (warm w1) ts" using Cons.prems(2) warm_same [OF t(2)] by (auto simp: list_all_iff)
  moreover have "live (w_cache w1)" using Cons.prems(1) t(2) by (simp add: same_world_def)
  ultimately have "same_world w1 w2 \<and> list_all hit_task ts2 \<and> list_all2 kept ts ts2"
    using Cons.IH 2 by blast
  moreover have "kept t t1" "hit_task t1" by (simp_all add: t(1) kept_def hit_task_def)
  ultimately show ?case using Cons.prems(3) r 2 t(2) by (auto simp: same_world_def)
qed (simp add: same_world_def)

lemma warm_join:
  assumes "live (w_cache w)" and "list_all (warm w) ts" and "join_all X ex sched ts w = (ts', w')"
  shows "same_world w w' \<and> list_all hit_task ts' \<and> list_all2 kept ts ts'"
  using assms
proof (induction sched arbitrary: ts w)
  case Nil
  then show ?case using warm_finish by simp
next
  case (Cons i sched)
  show ?case
  proof (cases "i < length ts")
    case True
    obtain t1 w1 where 1: "task_step X ex (ts ! i) w = (t1, w1)" by (rule prod.exhaust)
    have wi: "warm w (ts ! i)" using Cons.prems(2) True by (simp add: list_all_length)
    then have t: "t1 = (ts ! i)\<lparr>t_phase := P_Done (Inr (False, True))\<rparr>" "same_world w w1"
      using warm_step [OF Cons.prems(1), of "ts ! i" X ex] 1 by auto
    have "warm w1 t1" using warm_same [OF t(2) wi] t(1) by (simp add: warm_def)
    moreover have "list_all (warm w1) ts" using Cons.prems(2) warm_same [OF t(2)] by (auto simp: list_all_iff)
    ultimately have "list_all (warm w1) (ts[i := t1])"
      using True by (auto simp: list_all_length nth_list_update)
    moreover have "live (w_cache w1)" using Cons.prems(1) t(2) by (simp add: same_world_def)
    ultimately have b: "same_world w1 w'" "list_all hit_task ts'" "list_all2 kept (ts[i := t1]) ts'"
      using Cons.IH Cons.prems(3) True 1 by auto
    have "list_all2 kept ts ts'"
      using b(3) True by (auto simp: t(1) list_all2_conv_all_nth nth_list_update kept_def split: if_splits)
    then show ?thesis using b t(2) by (simp add: same_world_def)
  next
    case False
    then show ?thesis using Cons by simp
  qed
qed

definition hit_all :: "nat list \<Rightarrow> ('r, 'w) build \<Rightarrow> ('r, 'w) build \<Rightarrow> bool" where
  "hit_all ids b b' \<longleftrightarrow>
     same_world (b_world b) (b_world b') \<and> map static (bnodes b') = map static (bnodes b)
     \<and> cache_hits (b_stats b') = cache_hits (b_stats b) + length ids \<and> cache_misses (b_stats b') = cache_misses (b_stats b)
     \<and> executed_nodes (b_stats b') = executed_nodes (b_stats b)"

lemma hit_all_trans: "hit_all xs b b' \<Longrightarrow> hit_all ys b' b'' \<Longrightarrow> hit_all (xs @ ys) b b''"
  by (simp add: hit_all_def same_world_def)

lemma hit_all_refl [simp]: "hit_all [] b b"
  by (simp add: hit_all_def same_world_def)

lemma static_update: "map static (ns[i := mark_node X j r (ns ! i)]) = map static ns"
  by (cases "i < length ns") (auto simp: map_update intro: nth_equalityI simp: nth_list_update)

lemma apply_hit: "\<exists>b'. apply_result X i (Inr (False, True)) b = (Inr (), b') \<and> hit_all [i] b b'"
  by (simp add: apply_result_def Let_def hit_all_def same_world_def static_update count_node_def)

lemma apply_results_hit:
  "list_all hit_task ts \<Longrightarrow> \<exists>b'. apply_results X ts b = (Inr (), b') \<and> hit_all (map t_id ts) b b'"
proof (induction ts arbitrary: b)
  case (Cons t ts)
  obtain b1 where 1: "apply_result X (t_id t) (Inr (False, True)) b = (Inr (), b1)" "hit_all [t_id t] b b1"
    using apply_hit by blast
  obtain b2 where "apply_results X ts b1 = (Inr (), b2)" "hit_all (map t_id ts) b1 b2"
    using Cons by auto
  then show ?case using Cons.prems 1 hit_all_trans [OF 1(2)] by (auto simp: hit_task_def)
qed simp

definition warm_build :: "('r, 'w) build \<Rightarrow> bool" where
  "warm_build b \<longleftrightarrow> live (w_cache (b_world b)) \<and> (\<forall>n \<in> set (bnodes b). held (b_world b) n)"

lemma warm_build_hit: "warm_build b \<Longrightarrow> hit_all ids b b' \<Longrightarrow> warm_build b'"
  using arg_cong [OF static_hashes [of "bnodes b'" "bnodes b"], of set]
  unfolding warm_build_def hit_all_def same_world_def set_map by (metis (no_types, lifting) imageE imageI)

lemma hit_all_length: "hit_all ids b b' \<Longrightarrow> length (bnodes b') = length (bnodes b)"
  by (metis hit_all_def length_map)

lemma parallel_hit:
  assumes "warm_build b" and "\<forall>i \<in> set ids. i < length (bnodes b)"
  shows "\<exists>b'. execute_parallel_nodes X ex sched ids b = (Inr (), b') \<and> hit_all ids b b'"
proof -
  let ?ts = "map (make_task (b_graph b)) ids"
  obtain ts w where j: "join_all X ex sched ?ts (b_world b) = (ts, w)" by (rule prod.exhaust)
  have "list_all (warm (b_world b)) ?ts"
    using assms by (auto simp: list_all_iff warm_def make_task_def warm_build_def)
  from warm_join [OF _ this j] have l: "same_world (b_world b) w" "list_all hit_task ts" "list_all2 kept ?ts ts"
    using assms(1) by (auto simp: warm_build_def)
  obtain b' where b': "apply_results X ts (b\<lparr>b_world := w\<rparr>) = (Inr (), b')" "hit_all ids (b\<lparr>b_world := w\<rparr>) b'"
    using apply_results_hit [OF l(2), of X "b\<lparr>b_world := w\<rparr>"] ids_kept [OF l(3)] by auto
  have "hit_all [] b (b\<lparr>b_world := w\<rparr>)" using l(1) by (simp add: hit_all_def)
  from hit_all_trans [OF this b'(2)] show ?thesis using b'(1) j by (simp add: execute_parallel_nodes_def)
qed

lemma sequential_hit:
  assumes "warm_build b" and "\<forall>i \<in> set ids. i < length (bnodes b)"
  shows "\<exists>b'. execute_sequential_nodes X ex ids b = (Inr (), b') \<and> hit_all ids b b'"
  using assms
proof (induction ids arbitrary: b)
  case (Cons i ids)
  let ?n = "bnodes b ! i"
  let ?w = "emit ex (NodeStarted i (node_name ?n)) (b_world b)"
  have "check_cache X ex ?n ?w = (Some (Inr (False, True)), ?w)"
    using Cons.prems by (intro check_cache_held) (auto simp: warm_build_def)
  then have l: "execute_node_logic X ex ?n ?w = (Inr (False, True), ?w)" by (simp add: execute_node_logic_def)
  let ?b = "b\<lparr>b_world := emit ex (outcome_event X i ?n (Inr (False, True))) ?w\<rparr>"
  obtain b1 where 1: "apply_result X i (Inr (False, True)) ?b = (Inr (), b1)" "hit_all [i] ?b b1"
    using apply_hit by blast
  have "hit_all [] b ?b" by (simp add: hit_all_def same_world_def)
  from hit_all_trans [OF this 1(2)] have h: "hit_all [i] b b1" by simp
  have "execute_one X ex i b = (Inr (), b1)" using l 1(1) by (simp add: execute_one_def Let_def)
  moreover obtain b2 where "execute_sequential_nodes X ex ids b1 = (Inr (), b2)" "hit_all ids b1 b2"
    using Cons.IH [OF warm_build_hit [OF Cons.prems(1) h]] Cons.prems(2) hit_all_length [OF h] by auto
  ultimately show ?case using hit_all_trans [OF h] by auto
qed simp

lemma hit_all_mset: "mset xs = mset ys \<Longrightarrow> hit_all xs b b' \<Longrightarrow> hit_all ys b b'"
  using mset_eq_length [of xs ys] by (simp add: hit_all_def)

lemma level_hit:
  assumes "warm_build b" and "\<forall>i \<in> set l. i < length (bnodes b)"
  shows "\<exists>b'. execute_level X ex sched l b = (Inr (), b') \<and> hit_all l b b'"
proof -
  define par where "par = (\<lambda>i. parallelizable (node_meta (bnodes b ! i)))"
  let ?ps = "filter par l" and ?ss = "filter (\<lambda>i. \<not> par i) l"
  obtain b1 where 1: "(if ?ps \<noteq> [] then execute_parallel_nodes X ex sched ?ps else ret ()) b = (Inr (), b1)" "hit_all ?ps b b1"
    using parallel_hit [OF assms(1), of ?ps X ex sched] assms(2) by (cases "?ps = []") auto
  obtain b2 where 2: "(if ?ss \<noteq> [] then execute_sequential_nodes X ex ?ss else ret ()) b1 = (Inr (), b2)" "hit_all ?ss b1 b2"
    using sequential_hit [OF warm_build_hit [OF assms(1) 1(2)], of ?ss X ex] assms(2) hit_all_length [OF 1(2)]
    by (cases "?ss = []") auto
  have "execute_level X ex sched l b
      = bind_io (if ?ps \<noteq> [] then execute_parallel_nodes X ex sched ?ps else ret ())
      (\<lambda>_. if ?ss \<noteq> [] then execute_sequential_nodes X ex ?ss else ret ()) b"
    by (simp only: execute_level_def Let_def par_def)
  also have "\<dots> = (Inr (), b2)" using 1(1) 2(1) by (simp only: bind_io_Inr)
  finally show ?thesis
    using hit_all_mset [OF _ hit_all_trans [OF 1(2) 2(2)], of l]
    by (simp add: multiset_partition [of "mset l", symmetric])
qed

lemma run_levels_hit:
  assumes "warm_build b" and "\<forall>i \<in> set (concat ls). i < length (bnodes b)"
  shows "\<exists>b'. run_levels X ex sched k ls b = (Inr (), b') \<and> hit_all (concat ls) b b'"
  using assms
proof (induction ls arbitrary: b k)
  case (Cons l ls)
  obtain b1 where 1: "(if l = [] then ret () else execute_level X ex (sched k) l) b = (Inr (), b1)" "hit_all l b b1"
    using level_hit [OF Cons.prems(1), of l X ex "sched k"] Cons.prems(2) by (cases "l = []") auto
  obtain b2 where 2: "run_levels X ex sched (Suc k) ls b1 = (Inr (), b2)" "hit_all (concat ls) b1 b2"
    using Cons.IH [OF warm_build_hit [OF Cons.prems(1) 1(2)], of "Suc k"] Cons.prems(2) hit_all_length [OF 1(2)] by auto
  have "run_levels X ex sched k (l # ls) b = (Inr (), b2)"
    using 1(1) 2(1) by (simp only: run_levels.simps bind_io_Inr)
  then show ?case using hit_all_trans [OF 1(2) 2(2)] by auto
qed simp

lemma execute_hit:
  assumes "warm_build b"
  obtains st b' where "execute X ex sched b = (Inr st, b')" and "cache_hits st = length (bnodes b)"
    and "cache_misses st = 0" and "executed_nodes st = 0" and "same_world (b_world b) (b_world b')"
proof -
  have s: "warm_build (started X ex b)" "bnodes (started X ex b) = bnodes b"
    "cache_hits (b_stats (started X ex b)) = 0" "cache_misses (b_stats (started X ex b)) = 0"
    "executed_nodes (b_stats (started X ex b)) = 0" "same_world (b_world b) (b_world (started X ex b))"
    using assms by (simp_all add: warm_build_def started_def default_stats_def same_world_def)
  have "\<forall>i \<in> set (concat (levels (b_graph b))). i < length (bnodes (started X ex b))"
    by (simp only: set_levels s(2) atLeastLessThan_iff) simp
  from run_levels_hit [OF s(1) this] obtain b2 where
    2: "run_levels X ex sched 0 (levels (b_graph b)) (started X ex b) = (Inr (), b2)"
      "hit_all (concat (levels (b_graph b))) (started X ex b) b2" by blast
  let ?st = "(b_stats b2)\<lparr>total_execution_time_ms := xt_total_elapsed X\<rparr>"
  obtain b' where b': "execute X ex sched b = (Inr ?st, b')" "same_world (b_world b2) (b_world b')"
    using 2(1) by (simp add: execute_def started_def Let_def same_world_def)
  have h: "cache_hits (b_stats b2) = length (bnodes b)" "cache_misses (b_stats b2) = 0" "executed_nodes (b_stats b2) = 0"
    "same_world (b_world (started X ex b)) (b_world b2)"
    using 2(2) s(3-5) length_levels [of "b_graph b"] by (simp_all add: hit_all_def)
  show thesis
    by (rule that [OF b'(1)]) (use h s(6) b'(2) in \<open>simp_all add: same_world_def\<close>)
qed

section \<open>A small build\<close>

text \<open>A sandbox that counts its commands; \<open>false\<close> fails. Two commands, the second a parallel node that depends on the first.\<close>

definition toy_sandbox :: "nat sandbox" where
  "toy_sandbox = \<lparr>sb_prepare = (\<lambda>n. ret \<lparr>workspace_dir = ''w'', env_vars = []\<rparr>),
     sb_execute = (\<lambda>env n c. (Inr \<lparr>exit_code = (if node_content n = ''false'' then 1 else 0), exec_stdout = [7], exec_stderr = []\<rparr>, c + 1)),
     sb_cleanup = (\<lambda>env. ret ())\<rparr>"

definition toy_executor :: "(unit, nat) executor" where
  "toy_executor = \<lparr>ex_remote_cache = None, ex_observed = True, ex_reproducible = True, ex_dry_run = False,
     ex_sandbox = toy_sandbox, ex_remote_executor = None\<rparr>"

definition toy_externals :: externals where
  "toy_externals = \<lparr>xt_digest = (\<lambda>d. ''d''), xt_index_json = (\<lambda>t. Some []), xt_manifest_json = (\<lambda>m. Some ''m''),
     xt_walk = (\<lambda>f d. []), xt_lossy = (\<lambda>d. []), xt_now = 5, xt_system_time = 5, xt_elapsed = (\<lambda>i. 1), xt_total_elapsed = 2\<rparr>"

definition run_of :: "nat \<Rightarrow> string \<Rightarrow> nat list \<Rightarrow> node" where
  "run_of i cmd ds =
     \<lparr>node_id = i, node_name = cmd, node_content = cmd, node_kind = NK_Run, node_hash = ''h'' @ cmd, node_dirty = True, node_deps = ds,
      node_source_path = None, node_env = [], node_cache_hit = False, node_meta = default_metadata\<lparr>parallelizable := ds \<noteq> []\<rparr>\<rparr>"

definition toy_world :: "(unit, nat) world" where
  "toy_world = \<lparr>w_cache = \<lparr>hy_local = \<lparr>lc_fs = \<lparr>files = [], dirs = [''c''], faults = []\<rparr>, cache_dir = ''c'', store = [],
     index_path = ''c/index.json''\<rparr>, hy_remote = ()\<rparr>, w_box = 0, w_events = []\<rparr>"

definition toy_build :: "(unit, nat) build" where
  "toy_build = \<lparr>b_graph = \<lparr>graph_nodes = [run_of 0 ''ls'' [], run_of 1 ''cc'' [0]]\<rparr>, b_stats = default_stats, b_world = toy_world\<rparr>"

lemma toy_ready: "build_ready toy_build"
proof -
  have "\<not> is_dir (lc_fs (hy_local (w_cache toy_world))) (lc_path (hy_local (w_cache toy_world)) k)" if "key_ok k" for k
    using lc_path_ne [OF that, of "hy_local (w_cache toy_world)"]
    by (auto simp: toy_world_def is_dir_def lc_path_def artifact_filename_def path_join_def prefix_def)
  then have "live (w_cache toy_world)"
    by (simp add: live_def lc_live_def lc_ok_def) (simp add: toy_world_def is_dir_def path_join_def prefix_def)
  then show ?thesis by (simp add: build_ready_def toy_build_def run_of_def key_ok_def)
qed

lemma toy_digest: "key_ok (xt_digest toy_externals d)"
  by (simp add: toy_externals_def key_ok_def)

lemma toy_runs:
  obtains st b' where "execute toy_externals toy_executor (\<lambda>_. [0]) toy_build = (Inr st, b')"
proof -
  have "\<not> isl (fst (execute toy_externals toy_executor (\<lambda>_. [0]) toy_build))" by code_simp
  then show thesis using that by (metis isl_def obj_sumE prod.collapse)
qed

section \<open>Parallel and sequential execution\<close>

lemma apply_result_world: "apply_result X i r (b\<lparr>b_world := w\<rparr>) = (fst (apply_result X i r b), (snd (apply_result X i r b))\<lparr>b_world := w\<rparr>)"
  by (simp add: apply_result_def Let_def split: sum.split)

lemma apply_result_nodes:
  "apply_result X i r b = (Inr (), b') \<Longrightarrow> b_world b' = b_world b \<and> (\<forall>j. j \<noteq> i \<longrightarrow> bnodes b' ! j = bnodes b ! j)"
  by (auto simp: apply_result_def Let_def split: sum.splits)

lemma sequential_as_tasks:
  assumes "distinct ids" and "\<forall>i \<in> set ids. bnodes b ! i = graph_nodes g ! i"
    and "execute_sequential_nodes X ex ids b = (Inr (), b')"
  shows "\<exists>ts. finish_tasks X ex (map (make_task g) ids) (b_world b) = (ts, b_world b')
    \<and> (\<forall>w. apply_results X ts (b\<lparr>b_world := w\<rparr>) = (Inr (), b'\<lparr>b_world := w\<rparr>))"
  using assms
proof (induction ids arbitrary: b)
  case (Cons i ids)
  let ?n = "graph_nodes g ! i"
  obtain b1 where 1: "execute_one X ex i b = (Inr (), b1)" and 2: "execute_sequential_nodes X ex ids b1 = (Inr (), b')"
    using Cons.prems(3) by (auto simp: bind_io_Ok_iff)
  obtain r w where l: "execute_node_logic X ex ?n (emit ex (NodeStarted i (node_name ?n)) (b_world b)) = (r, w)"
    by (rule prod.exhaust)
  let ?w = "emit ex (outcome_event X i ?n r) w"
  have app: "apply_result X i r (b\<lparr>b_world := ?w\<rparr>) = (Inr (), b1)"
    using 1 l Cons.prems(2) by (simp add: execute_one_def Let_def)
  note n = apply_result_nodes [OF app]
  let ?t = "(make_task g i)\<lparr>t_phase := P_Done r\<rparr>"
  have run: "run_to_end X ex (make_task g i) (b_world b) = (?t, b_world b1)"
    using l n by (subst run_to_end_sequential) (simp_all add: make_task_def)
  have "\<forall>j \<in> set ids. bnodes b1 ! j = graph_nodes g ! j"
    using Cons.prems(1,2) n by auto
  from Cons.IH [OF _ this 2] obtain ts where
    ts: "finish_tasks X ex (map (make_task g) ids) (b_world b1) = (ts, b_world b')"
      "\<forall>w. apply_results X ts (b1\<lparr>b_world := w\<rparr>) = (Inr (), b'\<lparr>b_world := w\<rparr>)"
    using Cons.prems(1) by auto
  have "apply_results X (?t # ts) (b\<lparr>b_world := v\<rparr>) = (Inr (), b'\<lparr>b_world := v\<rparr>)" for v
    using app ts(2) apply_result_world [where X = X and i = i and r = r and b = "b\<lparr>b_world := ?w\<rparr>" and w = v] by (simp add: make_task_def)
  then show ?case using run ts(1) by auto
qed auto

lemma join_all_done:
  "list_all is_done (fst (join_all X ex sched ts w)) \<and> list_all2 kept ts (fst (join_all X ex sched ts w))"
proof (induction sched arbitrary: ts w)
  case Nil
  show ?case
  proof (induction ts arbitrary: w)
    case (Cons t ts)
    obtain t1 w1 where 1: "run_to_end X ex t w = (t1, w1)" by (rule prod.exhaust)
    then show ?case
      using Cons.IH [of w1] run_to_end_done [of X ex t w] run_to_end_kept [of t X ex w]
      by (cases "finish_tasks X ex ts w1") simp
  qed simp
next
  case (Cons i sched)
  show ?case
  proof (cases "i < length ts")
    case True
    obtain t1 w1 where 1: "task_step X ex (ts ! i) w = (t1, w1)" by (rule prod.exhaust)
    then have "kept (ts ! i) t1" using task_step_kept [of "ts ! i" X ex w] by simp
    then show ?thesis
      using Cons.IH [of "ts[i := t1]" w1] True 1
      by (auto simp: list_all2_conv_all_nth nth_list_update kept_def split: if_splits)
  qed (use Cons.IH in simp)
qed


text \<open>C27. Running the nodes of a level as tasks that are driven to their end one after the other is sequential
  execution: whenever the sequential loop succeeds, \<open>join_all\<close> under the empty schedule and the processing of its
  results give the same graph, statistics, cache, sandbox state and events.\<close>

theorem parallel_agrees_with_sequential:
  assumes "distinct ids" and "execute_sequential_nodes X ex ids b = (Inr (), b')"
  shows "execute_parallel_nodes X ex [] ids b = (Inr (), b')"
proof -
  obtain ts where "finish_tasks X ex (map (make_task (b_graph b)) ids) (b_world b) = (ts, b_world b')"
    "\<forall>w. apply_results X ts (b\<lparr>b_world := w\<rparr>) = (Inr (), b'\<lparr>b_world := w\<rparr>)"
    using sequential_as_tasks [OF assms(1) _ assms(2)] by blast
  then show ?thesis by (simp add: execute_parallel_nodes_def)
qed

theorem parallel_agrees_with_sequential_witness:
  "snd (execute_parallel_nodes toy_externals toy_executor [] [0, 1] toy_build)
     = snd (execute_sequential_nodes toy_externals toy_executor [0, 1] toy_build)"
proof -
  have "fst (execute_sequential_nodes toy_externals toy_executor [0, 1] toy_build) = Inr ()" by code_simp
  then obtain b' where "execute_sequential_nodes toy_externals toy_executor [0, 1] toy_build = (Inr (), b')"
    by (metis prod.collapse)
  from parallel_agrees_with_sequential [OF _ this] this show ?thesis by simp
qed

section \<open>Building twice\<close>

lemma execute_settles:
  assumes "build_ready b" and "\<And>d. key_ok (xt_digest X d)" and "execute X ex sched b = (Inr st, b')"
  shows "total_nodes st = length (bnodes b) \<and> cache_hits st + executed_nodes st = length (bnodes b)
    \<and> cache_misses st = executed_nodes st \<and> map static (bnodes b') = map static (bnodes b)
    \<and> (\<forall>n \<in> set (bnodes b'). ex_dry_run ex \<or> \<not> node_dirty n \<and> held (b_world b') n)"
proof -
  obtain b2 where a: "advanced ex [0..<length (bnodes b)] (started X ex b) b2"
    and e: "st = (b_stats b2)\<lparr>total_execution_time_ms := xt_total_elapsed X\<rparr>"
      "b_graph b' = b_graph b2" "w_cache (b_world b') = w_cache (b_world b2)"
    by (rule execute_advanced [OF assms])
  have s: "bnodes (started X ex b) = bnodes b" by (simp add: started_def)
  have st: "map static (bnodes b') = map static (bnodes b)" using a e(2) s by (simp add: advanced_def)
  have "ex_dry_run ex \<or> \<not> node_dirty n \<and> held (b_world b') n" if "n \<in> set (bnodes b')" for n
  proof -
    obtain i where i: "i < length (bnodes b')" "n = bnodes b' ! i" using \<open>n \<in> set (bnodes b')\<close> by (auto simp: in_set_conv_nth)
    then have len: "i < length (bnodes b)" using st by (metis length_map)
    have "node_hash n = node_hash (bnodes b ! i)"
      unfolding i(2) by (rule static_hash [OF map_static_nth [OF st i(1)]])
    moreover have "settled (started X ex b) b2 [0..<length (bnodes b)] i" if "\<not> ex_dry_run ex"
      using a len s that by (simp add: advanced_def)
    ultimately show ?thesis using len e(2,3) s i(2) by (auto simp: settled_def)
  qed
  moreover have "total_nodes st = length (bnodes b)" "cache_hits st + executed_nodes st = length (bnodes b)"
    "cache_misses st = executed_nodes st"
    using a e(1) by (simp_all add: advanced_def started_def default_stats_def)
  ultimately show ?thesis using st by blast
qed

lemma rebuild_hits:
  assumes "build_ready b" and "\<And>d. key_ok (xt_digest X d)" and "execute X ex sched b = (Inr st, b')" and "\<not> ex_dry_run ex"
    and "w_cache (b_world c) = w_cache (b_world b')" and "node_hash ` set (bnodes c) \<subseteq> node_hash ` set (bnodes b')"
  shows "\<exists>st2 c'. execute X2 ex2 sched2 c = (Inr st2, c') \<and> cache_hits st2 = length (bnodes c) \<and> executed_nodes st2 = 0
    \<and> w_cache (b_world c') = w_cache (b_world c) \<and> w_box (b_world c') = w_box (b_world c)"
proof -
  obtain b2 where a: "advanced ex [0..<length (bnodes b)] (started X ex b) b2"
    and e: "b_graph b' = b_graph b2" "w_cache (b_world b') = w_cache (b_world b2)"
    by (rule execute_advanced [OF assms(1-3)])
  have live: "live (w_cache (b_world c))" using a e(2) assms(5) by (auto simp: advanced_def dest: grown_live)
  have "held (b_world b') n" if "n \<in> set (bnodes b')" for n
    using execute_settles [OF assms(1-3)] assms(4) that by blast
  then have "node_hash ` set (bnodes b') \<subseteq> dom (view (w_cache (b_world c)))" unfolding assms(5) by auto
  then have "warm_build c"
    using live assms(6) unfolding warm_build_def by (meson imageI subset_iff)
  then show ?thesis by (rule execute_hit) (auto simp: same_world_def)
qed

section \<open>Properties\<close>

text \<open>C12. What a successful build does: every node is accounted for as a hit or as executed, nothing of the graph
  changes but the marks of the build, and unless it was a dry run every node is clean afterwards and its
  artifact is in the local cache.\<close>

theorem execute_accounts:
  assumes "build_ready b" and "\<And>d. key_ok (xt_digest X d)" and "execute X ex sched b = (Inr st, b')"
  shows "total_nodes st = length (bnodes b) \<and> cache_hits st + executed_nodes st = length (bnodes b)
    \<and> cache_misses st = executed_nodes st \<and> map static (bnodes b') = map static (bnodes b)
    \<and> (\<forall>n \<in> set (bnodes b'). ex_dry_run ex \<or> \<not> node_dirty n \<and> held (b_world b') n)"
  by (rule execute_settles [OF assms])

theorem execute_accounts_witness:
  "case execute toy_externals toy_executor (\<lambda>_. [0]) toy_build of
     (Inr st, b') \<Rightarrow> cache_hits st + executed_nodes st = 2 \<and> \<not> node_dirty (hd (bnodes b')) | _ \<Rightarrow> False"
proof (rule toy_runs)
  fix st b' assume r: "execute toy_externals toy_executor (\<lambda>_. [0]) toy_build = (Inr st, b')"
  note a = execute_accounts [OF toy_ready toy_digest r]
  have "length (bnodes b') = 2" using a by (metis length_map toy_build_def build.select_convs(1) build_graph.select_convs(1)
        length_Cons list.size(3) numeral_2_eq_2)
  then have "hd (bnodes b') \<in> set (bnodes b')" by (cases "bnodes b'") auto
  then show ?thesis using a r by (simp add: toy_executor_def toy_build_def)
qed

text \<open>Memoization end to end: after a successful build that was no dry run, any later build on the same cache of a
  graph whose nodes have the same hashes succeeds with every node a hit, whatever the executor's options and the
  schedule are; it executes no node and changes neither the cache nor the state commands work on.\<close>

theorem rebuild_runs_nothing:
  assumes "build_ready b" and "\<And>d. key_ok (xt_digest X d)" and "execute X ex sched b = (Inr st, b')" and "\<not> ex_dry_run ex"
    and "w_cache (b_world c) = w_cache (b_world b')" and "node_hash ` set (bnodes c) \<subseteq> node_hash ` set (bnodes b')"
  shows "\<exists>st2 c'. execute X2 ex2 sched2 c = (Inr st2, c') \<and> cache_hits st2 = length (bnodes c) \<and> executed_nodes st2 = 0
    \<and> w_cache (b_world c') = w_cache (b_world c) \<and> w_box (b_world c') = w_box (b_world c)"
  by (rule rebuild_hits [OF assms])

theorem rebuild_runs_nothing_witness:
  "case execute toy_externals toy_executor (\<lambda>_. [0]) toy_build of
     (Inr st, b') \<Rightarrow> executed_nodes (projr (fst (execute toy_externals toy_executor (\<lambda>_. []) b'))) = 0 | _ \<Rightarrow> False"
proof (rule toy_runs)
  fix st b' assume r: "execute toy_externals toy_executor (\<lambda>_. [0]) toy_build = (Inr st, b')"
  have "\<not> ex_dry_run toy_executor" by (simp add: toy_executor_def)
  from rebuild_runs_nothing [OF toy_ready toy_digest r this refl order_refl, of toy_externals toy_executor "\<lambda>_. []"]
  show ?thesis using r by auto
qed

text \<open>A failing node is not cached: when a node of a build without remote cache and remote executor ends in an error,
  it was not held, the build is no dry run, and the cache is exactly what it was.\<close>

theorem failed_node_not_cached:
  assumes "live (w_cache w)" and "ex_remote_cache ex = None" and "ex_remote_executor ex = None"
    and "execute_node_logic X ex n w = (Inl e, w')"
  shows "w_cache w' = w_cache w \<and> \<not> held w' n \<and> \<not> ex_dry_run ex \<and> is_runnable n"
proof -
  have c: "check_cache X ex n w = (if held w n then Some (Inr (False, True))
      else if ex_dry_run ex then Some (Inr (node_dirty n, False)) else None, w)"
    using get_artifact_local_only [OF assms(1), of "xt_index_json X" "xt_now X" "node_hash n"] assms(2)
    by (auto simp: check_cache_def on_cache_def on_part_def dom_def split: option.splits)
  obtain w2 where "run_node X ex n w = (Inl e, w2)" "w' = w2" "\<not> held w n" "\<not> ex_dry_run ex"
    using assms(4) c by (auto simp: execute_node_logic_def split: if_splits prod.splits sum.splits)
  moreover from this(1) have "is_runnable n \<and> w_cache w2 = w_cache w"
    using assms(3)
    by (auto simp: run_node_def normalize_artifact_def on_box_def on_part_def bind_io_def split: if_splits prod.splits sum.splits)
  ultimately show ?thesis by simp
qed

theorem failed_node_not_cached_witness:
  "w_cache (snd (execute_node_logic toy_externals toy_executor (run_of 0 ''false'' []) toy_world)) = w_cache toy_world"
proof -
  have "isl (fst (execute_node_logic toy_externals toy_executor (run_of 0 ''false'' []) toy_world))" by code_simp
  then obtain e w' where "execute_node_logic toy_externals toy_executor (run_of 0 ''false'' []) toy_world = (Inl e, w')"
    by (metis isl_def prod.collapse)
  moreover have "live (w_cache toy_world)" using toy_ready by (simp add: build_ready_def toy_build_def)
  ultimately show ?thesis
    using failed_node_not_cached [of toy_world toy_executor toy_externals "run_of 0 ''false'' []" e w'] by (simp add: toy_executor_def)
qed

end
