(* ===== verification/Auth.thy ===== *)
theory Auth
  imports Prelude
begin

text \<open>
  \<open>src/src/auth.rs\<close>: bearer tokens, the rate limiter and the authentication middleware. SHA-256 with
  hexadecimal output, Argon2 (which fails on unsuitable input; the code unwraps), Base64 and the insertion into
  the database are fields of \<open>auth_env\<close>; random bytes and the clock are arguments. Instants and durations are
  nanoseconds. A request is its headers (those that are text).
\<close>

section \<open>State\<close>

record stored_token =
  tk_hash :: string
  tk_description :: string
  tk_created_at :: int
  tk_is_admin :: bool

record rate_limit_bucket =
  bk_count :: u32
  window_start :: nat

record 'd auth_state =
  admin_token :: "string option"
  db_client :: "'d option"
  tokens :: "(string, stored_token) hashmap"
  rate_limit_buckets :: "(string, rate_limit_bucket) hashmap"

record 'd auth_env =
  sha256_hash :: "string \<Rightarrow> string"
  argon2_into :: "string \<Rightarrow> string \<Rightarrow> bytes option"
  base64_encode :: "bytes \<Rightarrow> string"
  db_insert :: "string \<times> string \<times> bool \<times> int \<Rightarrow> 'd \<Rightarrow> 'd"

definition auth_new :: "string option \<Rightarrow> 'd option \<Rightarrow> 'd auth_state" where
  "auth_new admin db = \<lparr>admin_token = admin, db_client = db, tokens = [], rate_limit_buckets = []\<rparr>"

section \<open>Tokens\<close>

definition verify_password :: "'d auth_env \<Rightarrow> string \<Rightarrow> string \<Rightarrow> bool outcome" where
  "verify_password env password stored =
     (case split_on CHR ''$'' stored of
        [salt, hash] \<Rightarrow>
          (case argon2_into env password salt of
             None \<Rightarrow> Panics
           | Some b \<Rightarrow> Returns (base64_encode env b = hash))
      | _ \<Rightarrow> Returns False)"

text \<open>The result of \<open>verify_password\<close> is bound to \<open>_\<close>.\<close>

definition is_valid_token :: "'d auth_env \<Rightarrow> string \<Rightarrow> 'd auth_state \<Rightarrow> bool outcome" where
  "is_valid_token env token s =
     (if admin_token s = Some token then Returns True
      else
        (case map_of (tokens s) (sha256_hash env token) of
           None \<Rightarrow> Returns False
         | Some st \<Rightarrow>
             (case verify_password env token (tk_hash st) of
                Returns _ \<Rightarrow> Returns True
              | Panics \<Rightarrow> Panics
              | Blocks \<Rightarrow> Blocks)))"

definition is_admin_token :: "'d auth_env \<Rightarrow> string \<Rightarrow> 'd auth_state \<Rightarrow> bool" where
  "is_admin_token env token s =
     (if admin_token s = Some token then True
      else (case map_of (tokens s) (sha256_hash env token) of Some st \<Rightarrow> tk_is_admin st | None \<Rightarrow> False))"

definition generate_token :: "'d auth_env \<Rightarrow> bytes \<Rightarrow> string" where
  "generate_token env random = base64_encode env random"

definition create_token ::
    "'d auth_env \<Rightarrow> int \<Rightarrow> bytes \<Rightarrow> bytes \<Rightarrow> string \<Rightarrow> bool \<Rightarrow> 'd auth_state \<Rightarrow> string outcome \<times> 'd auth_state" where
  "create_token env now random_token random_salt description is_admin s =
     (let token = generate_token env random_token;
          token_hash = sha256_hash env token;
          salt = base64_encode env random_salt
      in case argon2_into env token salt of
           None \<Rightarrow> (Panics, s)
         | Some b \<Rightarrow>
             (Returns token,
              s\<lparr>tokens := AList.update token_hash
                   \<lparr>tk_hash = salt @ ''$'' @ base64_encode env b, tk_description = description, tk_created_at = now,
                    tk_is_admin = is_admin\<rparr> (tokens s),
                db_client := map_option (db_insert env (token_hash, description, is_admin, now)) (db_client s)\<rparr>))"

section \<open>The rate limiter\<close>

definition check_rate_limit :: "nat \<Rightarrow> string \<Rightarrow> u32 \<Rightarrow> u64 \<Rightarrow> 'd auth_state \<Rightarrow> bool \<times> 'd auth_state" where
  "check_rate_limit now key max_requests window_secs s =
     (let window = unat window_secs * 10 ^ 9 in
      case map_of (rate_limit_buckets s) key of
        Some b \<Rightarrow>
          if now - window_start b > window
          then (True, s\<lparr>rate_limit_buckets := AList.update key \<lparr>bk_count = 1, window_start = now\<rparr> (rate_limit_buckets s)\<rparr>)
          else if bk_count b \<ge> max_requests then (False, s)
          else (True, s\<lparr>rate_limit_buckets := AList.update key (b\<lparr>bk_count := bk_count b + 1\<rparr>) (rate_limit_buckets s)\<rparr>)
      | None \<Rightarrow>
          (True, s\<lparr>rate_limit_buckets := AList.update key \<lparr>bk_count = 1, window_start = now\<rparr> (rate_limit_buckets s)\<rparr>))"

section \<open>Handlers\<close>

datatype auth_status = UNAUTHORIZED | TOO_MANY_REQUESTS

text \<open>Slicing the first 8 bytes of a shorter token is a panic.\<close>

definition create_token_handler ::
    "'d auth_env \<Rightarrow> int \<Rightarrow> bytes \<Rightarrow> bytes \<Rightarrow> string \<Rightarrow> 'd auth_state \<Rightarrow> string outcome \<times> 'd auth_state" where
  "create_token_handler env now random_token random_salt description s =
     (case create_token env now random_token random_salt description False s of
        (Returns token, s') \<Rightarrow> (if length token < 8 then Panics else Returns token, s')
      | (out, s') \<Rightarrow> (out, s'))"

text \<open>The first key (a hash of a token) that starts with the prefix is removed, in the iteration order \<open>iter\<close> of the
  hash map.\<close>

definition revoke_token_handler ::
    "((string, stored_token) hashmap \<Rightarrow> string list) \<Rightarrow> string \<Rightarrow> 'd auth_state \<Rightarrow> bool \<times> 'd auth_state" where
  "revoke_token_handler iter token_prefix s =
     (case filter (prefix token_prefix) (iter (tokens s)) of
        [] \<Rightarrow> (False, s)
      | key # _ \<Rightarrow> (True, s\<lparr>tokens := AList.delete key (tokens s)\<rparr>))"

definition list_tokens_handler :: "'d auth_state \<Rightarrow> (string \<times> string \<times> bool) list" where
  "list_tokens_handler s = []"

definition configure_rate_limit_handler :: "u32 \<Rightarrow> u64 \<Rightarrow> 'd auth_state \<Rightarrow> bool \<times> 'd auth_state" where
  "configure_rate_limit_handler max_requests window_secs s = (True, s)"

section \<open>The middleware\<close>

definition strip_prefix :: "string \<Rightarrow> string \<Rightarrow> string option" where
  "strip_prefix p s = (if prefix p s then Some (drop (length p) s) else None)"

definition client_ip :: "(string \<Rightarrow> string option) \<Rightarrow> string" where
  "client_ip headers = (case headers ''x-forwarded-for'' of Some ip \<Rightarrow> ip | None \<Rightarrow> ''unknown'')"

definition bearer :: "(string \<Rightarrow> string option) \<Rightarrow> string option" where
  "bearer headers = Option.bind (headers ''authorization'') (strip_prefix ''Bearer '')"

text \<open>The request is refused with a status or passed on with its token; \<open>now\<close> and \<open>now2\<close> are the
  instants of the two checks.\<close>

definition auth_middleware ::
    "'d auth_env \<Rightarrow> nat \<Rightarrow> nat \<Rightarrow> (string \<Rightarrow> string option) \<Rightarrow> 'd auth_state \<Rightarrow> (auth_status + string) outcome \<times> 'd auth_state" where
  "auth_middleware env now now2 headers s =
     (case check_rate_limit now (''unauth:'' @ client_ip headers) 100 60 s of
        (False, s1) \<Rightarrow> (Returns (Inl TOO_MANY_REQUESTS), s1)
      | (True, s1) \<Rightarrow>
          (case bearer headers of
             None \<Rightarrow> (Returns (Inl UNAUTHORIZED), s1)
           | Some token \<Rightarrow>
               (case is_valid_token env token s1 of
                  Panics \<Rightarrow> (Panics, s1)
                | Blocks \<Rightarrow> (Blocks, s1)
                | Returns False \<Rightarrow> (Returns (Inl UNAUTHORIZED), s1)
                | Returns True \<Rightarrow>
                    if length token < 8 then (Panics, s1)
                    else
                      (case check_rate_limit now2 (''auth:'' @ take 8 token) 1000 60 s1 of
                         (False, s2) \<Rightarrow> (Returns (Inl TOO_MANY_REQUESTS), s2)
                       | (True, s2) \<Rightarrow> (Returns (Inr token), s2)))))"

section \<open>Histories\<close>

text \<open>What can happen to the state: a token is created (\<open>issued\<close> collects them), one is revoked, a request
  passes the middleware.\<close>

inductive auth_reach :: "'d auth_env \<Rightarrow> string option \<Rightarrow> string set \<Rightarrow> 'd auth_state \<Rightarrow> bool" for env admin where
  reach_new: "auth_reach env admin {} (auth_new admin db)"
| reach_create: "auth_reach env admin issued s \<Longrightarrow> create_token env now rt rs d adm s = (Returns t, s') \<Longrightarrow>
    auth_reach env admin (insert t issued) s'"
| reach_revoke: "auth_reach env admin issued s \<Longrightarrow> auth_reach env admin issued (snd (revoke_token_handler iter p s))"
| reach_request: "auth_reach env admin issued s \<Longrightarrow> auth_reach env admin issued (snd (auth_middleware env now now2 headers s))"

section \<open>Lemmas\<close>

lemma check_rate_limit_frame [simp]:
  "tokens (snd (check_rate_limit now key m w s)) = tokens s"
  "admin_token (snd (check_rate_limit now key m w s)) = admin_token s"
  by (auto simp: check_rate_limit_def Let_def split: option.splits)

lemma check_rate_limit_eqD:
  "check_rate_limit now key m w s = (b, s') \<Longrightarrow> tokens s' = tokens s \<and> admin_token s' = admin_token s"
  by (metis check_rate_limit_frame snd_conv)

lemma is_valid_token_cong:
  "tokens s' = tokens s \<Longrightarrow> admin_token s' = admin_token s \<Longrightarrow> is_valid_token env t s' = is_valid_token env t s"
  by (simp add: is_valid_token_def)

lemma is_valid_token_frame [simp]:
  "is_valid_token env t (snd (check_rate_limit now key m w s)) = is_valid_token env t s"
  by (rule is_valid_token_cong) simp_all

lemma auth_middleware_frame [simp]:
  "tokens (snd (auth_middleware env now now2 headers s)) = tokens s"
  "admin_token (snd (auth_middleware env now now2 headers s)) = admin_token s"
proof -
  obtain b s1 where c: "check_rate_limit now (''unauth:'' @ client_ip headers) 100 60 s = (b, s1)" by (rule prod.exhaust)
  then have s1: "tokens s1 = tokens s" "admin_token s1 = admin_token s"
    using check_rate_limit_frame [of now "''unauth:'' @ client_ip headers" 100 60 s] by simp_all
  have "tokens s2 = tokens s1 \<and> admin_token s2 = admin_token s1" if "check_rate_limit n k m w s1 = (r, s2)" for n k m w r s2
    using check_rate_limit_frame [of n k m w s1] that by simp
  then show "tokens (snd (auth_middleware env now now2 headers s)) = tokens s"
    "admin_token (snd (auth_middleware env now now2 headers s)) = admin_token s"
    using s1 c by (auto simp: auth_middleware_def split: option.splits outcome.splits bool.splits prod.splits if_splits)
qed

lemma reach_tokens:
  "auth_reach env admin issued s \<Longrightarrow>
     admin_token s = admin \<and> dom (map_of (tokens s)) \<subseteq> sha256_hash env ` issued"
proof (induction rule: auth_reach.induct)
  case (reach_create issued s now rt rs d adm t s')
  then obtain h where "tokens s' = AList.update (sha256_hash env t) h (tokens s)" "admin_token s' = admin_token s"
    by (auto simp: create_token_def Let_def split: option.splits)
  then have "dom (map_of (tokens s')) = insert (sha256_hash env t) (dom (map_of (tokens s)))"
    by (auto simp: update_conv' split: if_splits)
  with reach_create.IH \<open>admin_token s' = admin_token s\<close> show ?case by auto
next
  case (reach_revoke issued s iter p)
  then show ?case by (auto simp: revoke_token_handler_def delete_conv' split: list.splits if_splits)
qed (simp_all add: auth_new_def)

text \<open>The count of granted checks of one key, over the instants of a sequence of checks.\<close>

fun granted :: "string \<Rightarrow> u32 \<Rightarrow> u64 \<Rightarrow> nat list \<Rightarrow> 'd auth_state \<Rightarrow> nat" where
  "granted key m w [] s = 0"
| "granted key m w (t # ts) s =
     (case check_rate_limit t key m w s of (ok, s') \<Rightarrow> (if ok then 1 else 0) + granted key m w ts s')"

text \<open>What a window still grants: nothing is granted beyond the limit before the window ends.\<close>

definition room :: "u32 \<Rightarrow> rate_limit_bucket \<Rightarrow> nat" where
  "room m b = unat m - unat (bk_count b)"

lemma granted_in_window:
  assumes "map_of (rate_limit_buckets s) key = Some b"
    and "\<And>t. t \<in> set ts \<Longrightarrow> t - window_start b \<le> unat w * 10 ^ 9"
  shows "granted key m w ts s \<le> room m b"
  using assms
proof (induction ts arbitrary: s b)
  case (Cons t ts)
  have window: "\<not> unat w * 10 ^ 9 < t - window_start b" using Cons.prems(2) [of t] by simp
  show ?case
  proof (cases "bk_count b \<ge> m")
    case True
    then have "check_rate_limit t key m w s = (False, s)"
      using Cons.prems(1) window by (simp add: check_rate_limit_def Let_def)
    then show ?thesis using Cons.IH [OF Cons.prems(1)] Cons.prems(2) by simp
  next
    case False
    then have less: "unat (bk_count b) < unat m" by (simp add: word_le_nat_alt)
    then have "unat (bk_count b + 1) = unat (bk_count b) + 1" by (rule unat_increment)
    moreover let ?s = "s\<lparr>rate_limit_buckets := AList.update key (b\<lparr>bk_count := bk_count b + 1\<rparr>) (rate_limit_buckets s)\<rparr>"
    have "check_rate_limit t key m w s = (True, ?s)"
      using Cons.prems(1) window False by (simp add: check_rate_limit_def Let_def)
    moreover have "granted key m w ts ?s \<le> room m (b\<lparr>bk_count := bk_count b + 1\<rparr>)"
      by (rule Cons.IH) (use Cons.prems(2) in \<open>auto simp: update_conv'\<close>)
    ultimately show ?thesis using less by (simp add: room_def)
  qed
qed simp

text \<open>A check that opens a window leaves room for one less than the limit.\<close>

lemma granted_fresh:
  assumes "\<And>u. u \<in> set ts \<Longrightarrow> u - t \<le> unat w * 10 ^ 9"
  shows "granted key m w ts (s\<lparr>rate_limit_buckets := AList.update key \<lparr>bk_count = 1, window_start = t\<rparr> (rate_limit_buckets s)\<rparr>)
    \<le> unat m - 1"
  using granted_in_window [of "s\<lparr>rate_limit_buckets := AList.update key \<lparr>bk_count = 1, window_start = t\<rparr> (rate_limit_buckets s)\<rparr>"
      key "\<lparr>bk_count = 1, window_start = t\<rparr>" ts w m] assms
  by (simp add: update_conv' room_def)

lemma granted_interval:
  fixes s :: "'d auth_state"
  assumes "sorted ts" and "\<And>t. t \<in> set ts \<Longrightarrow> t \<le> t0 + unat w * 10 ^ 9" and "\<And>t. t \<in> set ts \<Longrightarrow> t0 \<le> t"
  shows "granted key m w ts s \<le> (case map_of (rate_limit_buckets s) key of Some b \<Rightarrow> room m b | None \<Rightarrow> 0) + max 1 (unat m)"
  using assms
proof (induction ts arbitrary: s)
  case (Cons t ts)
  let ?fresh = "s\<lparr>rate_limit_buckets := AList.update key \<lparr>bk_count = 1, window_start = t\<rparr> (rate_limit_buckets s)\<rparr>"
  have "u - t \<le> unat w * 10 ^ 9" if "u \<in> set ts" for u
    using Cons.prems(2) [of u] Cons.prems(3) [of t] that by simp
  then have fresh: "granted key m w ts ?fresh \<le> unat m - 1" by (rule granted_fresh)
  show ?case
  proof (cases "map_of (rate_limit_buckets s) key")
    case None
    then have "check_rate_limit t key m w s = (True, ?fresh)" by (simp add: check_rate_limit_def)
    then show ?thesis using fresh None by simp
  next
    case (Some b)
    have ih: "granted key m w ts s' \<le> (case map_of (rate_limit_buckets s') key of Some b \<Rightarrow> room m b | None \<Rightarrow> 0) + max 1 (unat m)" for s' :: "'d auth_state"
      using Cons.IH [of s'] Cons.prems by simp
    consider (new) "t - window_start b > unat w * 10 ^ 9"
      | (full) "t - window_start b \<le> unat w * 10 ^ 9" "bk_count b \<ge> m"
      | (space) "t - window_start b \<le> unat w * 10 ^ 9" "\<not> bk_count b \<ge> m" by linarith
    then show ?thesis
    proof cases
      case new
      then have "check_rate_limit t key m w s = (True, ?fresh)" using Some by (simp add: check_rate_limit_def Let_def)
      then show ?thesis using fresh Some by simp
    next
      case full
      then have "check_rate_limit t key m w s = (False, s)" using Some by (auto simp: check_rate_limit_def Let_def)
      then show ?thesis using ih [of s] by simp
    next
      case space
      let ?b = "b\<lparr>bk_count := bk_count b + 1\<rparr>"
      let ?s = "s\<lparr>rate_limit_buckets := AList.update key ?b (rate_limit_buckets s)\<rparr>"
      have "unat (bk_count b) < unat m" using space by (simp add: word_le_nat_alt)
      moreover from this have "unat (bk_count b + 1) = unat (bk_count b) + 1" by (rule unat_increment)
      moreover have "check_rate_limit t key m w s = (True, ?s)" using Some space by (auto simp: check_rate_limit_def Let_def)
      moreover have "granted key m w ts ?s \<le> room m ?b + max 1 (unat m)" using ih [of ?s] by (simp add: update_conv')
      ultimately show ?thesis using Some by (simp add: room_def)
    qed
  qed
qed simp

section \<open>Properties\<close>

text \<open>A stored bucket has counted at least one check.\<close>

definition counted :: "'d auth_state \<Rightarrow> bool" where
  "counted s \<longleftrightarrow> (\<forall>key b. map_of (rate_limit_buckets s) key = Some b \<longrightarrow> 0 < unat (bk_count b))"

lemma check_rate_limit_counted:
  assumes "counted s" and "check_rate_limit now key m w s = (r, s')"
  shows "counted s'"
proof -
  have step: "0 < unat (bk_count b + 1)" if "\<not> bk_count b \<ge> m" for b
    using that unat_increment [of "bk_count b" m] by (simp add: word_le_nat_alt)
  show ?thesis using assms step
    by (auto simp: check_rate_limit_def counted_def Let_def update_conv' split: option.splits if_splits)
qed

lemma auth_middleware_counted:
  assumes "counted s"
  shows "counted (snd (auth_middleware env now now2 headers s))"
proof -
  obtain b s1 where c: "check_rate_limit now (''unauth:'' @ client_ip headers) 100 60 s = (b, s1)" by (rule prod.exhaust)
  note c1 = check_rate_limit_counted [OF assms c]
  show ?thesis
    using c c1 check_rate_limit_counted [OF c1]
    by (auto simp: auth_middleware_def split: option.splits outcome.splits bool.splits prod.splits if_splits)
qed

lemma reach_counted: "auth_reach env admin issued s \<Longrightarrow> counted s"
proof (induction rule: auth_reach.induct)
  case (reach_create issued s now rt rs d adm t s')
  then show ?case by (auto simp: create_token_def Let_def counted_def split: option.splits)
next
  case (reach_revoke issued s iter p)
  then show ?case by (auto simp: revoke_token_handler_def counted_def split: list.splits)
qed (simp_all add: auth_middleware_counted, simp add: auth_new_def counted_def)

text \<open>C39. The rate limiter bounds what it grants: in every reachable state, of any sequence of checks of one key that
  lie within one window's length at most one less than twice the limit are granted. The limiter uses fixed windows,
  so no smaller number holds: with a limit of two per minute, one check a second after the start and then two each at
  60 and at 62 seconds, three of the last four pass, although all lie within two seconds.\<close>

theorem rate_limit_bound:
  assumes "auth_reach env admin issued s" and "sorted ts"
    and "list_all (\<lambda>t. t0 \<le> t \<and> t \<le> t0 + unat w * 10 ^ 9) ts" and "0 < m"
  shows "granted key m w ts s \<le> 2 * unat m - 1
    \<and> granted key 2 60 [60 * 10 ^ 9, 60 * 10 ^ 9, 62 * 10 ^ 9, 62 * 10 ^ 9]
        (snd (check_rate_limit (10 ^ 9) key 2 60 (auth_new admin db :: 'd auth_state))) = 3"
proof
  have m: "1 \<le> unat m" using assms(4) by (simp add: word_less_nat_alt)
  then have "granted key m w ts s \<le> (case map_of (rate_limit_buckets s) key of Some b \<Rightarrow> room m b | None \<Rightarrow> 0) + unat m"
    using granted_interval [OF assms(2), of t0 w key m s] assms(3) by (simp add: list_all_iff max_def)
  also have "\<dots> \<le> 2 * unat m - 1"
    using reach_counted [OF assms(1)] m by (force simp: room_def counted_def split: option.split)
  finally show "granted key m w ts s \<le> 2 * unat m - 1" .
  show "granted key 2 60 [60 * 10 ^ 9, 60 * 10 ^ 9, 62 * 10 ^ 9, 62 * 10 ^ 9]
        (snd (check_rate_limit (10 ^ 9) key 2 60 (auth_new admin db :: 'd auth_state))) = 3"
    by (simp add: check_rate_limit_def auth_new_def Let_def word_le_nat_alt)
qed

theorem rate_limit_bound_witness:
  "granted ''ip'' 100 60 [0, 10 ^ 9, 2 * 10 ^ 9] (auth_new None (None :: unit option)) \<le> 199"
proof -
  have "sorted [0, 10 ^ 9, 2 * 10 ^ 9 :: nat]" "list_all (\<lambda>t. 0 \<le> t \<and> t \<le> 0 + unat (60 :: u64) * 10 ^ 9) [0, 10 ^ 9, 2 * 10 ^ 9]"
    "(0 :: u32) < 100" by simp_all
  from rate_limit_bound [OF reach_new this, THEN conjunct1]
  have "granted ''ip'' 100 60 [0, 10 ^ 9, 2 * 10 ^ 9] (auth_new None (None :: unit option)) \<le> 2 * unat (100 :: u32) - 1" .
  also have "2 * unat (100 :: u32) - 1 = 199" by simp
  finally show ?thesis .
qed

text \<open>C40. The middleware lets only known tokens through: a request that passes carries, after \<open>Bearer\<close>, the configured
  administrator token or a token with the SHA-256 of one that was issued by \<open>create_token\<close> and is still stored.\<close>

theorem middleware_admits_issued_tokens:
  assumes "auth_reach env admin issued s" and "auth_middleware env now now2 headers s = (Returns (Inr token), s')"
  shows "headers ''authorization'' = Some (''Bearer '' @ token)
    \<and> (admin = Some token \<or> sha256_hash env token \<in> dom (map_of (tokens s)) \<and> sha256_hash env token \<in> sha256_hash env ` issued)"
proof -
  obtain s1 where s1: "check_rate_limit now (''unauth:'' @ client_ip headers) 100 60 s = (True, s1)"
    and b: "bearer headers = Some token" and v: "is_valid_token env token s1 = Returns True"
    using assms(2)
    by (auto simp: auth_middleware_def split: prod.splits bool.splits option.splits outcome.splits if_splits)
  have "is_valid_token env token s = Returns True"
    using v check_rate_limit_eqD [OF s1] is_valid_token_cong by metis
  then have "admin_token s = Some token \<or> sha256_hash env token \<in> dom (map_of (tokens s))"
    by (auto simp: is_valid_token_def split: if_splits option.splits)
  moreover have "headers ''authorization'' = Some (''Bearer '' @ token)"
    using b by (auto simp: bearer_def strip_prefix_def prefix_def split: bind_splits if_splits)
  ultimately show ?thesis using reach_tokens [OF assms(1)] by blast
qed

definition toy_auth :: "unit auth_env" where
  "toy_auth = \<lparr>sha256_hash = (\<lambda>t. t), argon2_into = (\<lambda>p s. Some [1]), base64_encode = map (\<lambda>b. CHR ''x''), db_insert = (\<lambda>r d. d)\<rparr>"

definition toy_headers :: "string \<Rightarrow> string \<Rightarrow> string option" where
  "toy_headers t = [''authorization'' \<mapsto> ''Bearer '' @ t]"

lemma toy_created: "create_token toy_auth 0 (replicate 32 1) [2] ''ci'' False (auth_new None None)
    = (Returns (replicate 32 CHR ''x''), \<lparr>admin_token = None, db_client = None, tokens = [(replicate 32 CHR ''x'',
        \<lparr>tk_hash = ''x$x'', tk_description = ''ci'', tk_created_at = 0, tk_is_admin = False\<rparr>)], rate_limit_buckets = []\<rparr>)"
  by (simp add: create_token_def toy_auth_def auth_new_def generate_token_def Let_def)

definition toy_auth_state :: "unit auth_state" where
  "toy_auth_state = \<lparr>admin_token = None, db_client = None, tokens = [(replicate 32 CHR ''x'',
        \<lparr>tk_hash = ''x$x'', tk_description = ''ci'', tk_created_at = 0, tk_is_admin = False\<rparr>)], rate_limit_buckets = []\<rparr>"

theorem middleware_admits_issued_tokens_witness:
  "case auth_middleware toy_auth 1 2 (toy_headers (replicate 32 CHR ''x'')) toy_auth_state of
     (Returns (Inr token), s') \<Rightarrow> token = replicate 32 CHR ''x'' \<and> sha256_hash toy_auth token \<in> dom (map_of (tokens toy_auth_state))
   | _ \<Rightarrow> False"
proof -
  have reach: "auth_reach toy_auth None {replicate 32 CHR ''x''} toy_auth_state"
    using reach_create [OF reach_new toy_created] by (simp add: toy_auth_state_def)
  have "fst (auth_middleware toy_auth 1 2 (toy_headers (replicate 32 CHR ''x'')) toy_auth_state) = Returns (Inr (replicate 32 CHR ''x''))"
    by (simp add: auth_middleware_def bearer_def toy_headers_def strip_prefix_def toy_auth_state_def check_rate_limit_def
        is_valid_token_def verify_password_def toy_auth_def split_on_def client_ip_def)
  then obtain s' where m: "auth_middleware toy_auth 1 2 (toy_headers (replicate 32 CHR ''x'')) toy_auth_state
      = (Returns (Inr (replicate 32 CHR ''x'')), s')" by (metis prod.collapse)
  from middleware_admits_issued_tokens [OF reach m] show ?thesis unfolding m by simp
qed

text \<open>The middleware slices tokens unchecked: with an administrator token shorter than 8 bytes every request that
  carries it and passes the first rate limit panics, and no request is ever let through with it.\<close>

theorem short_admin_token_panics:
  assumes "admin_token s = Some token" and "length token < 8" and "bearer headers = Some token"
  shows "fst (auth_middleware env now now2 headers s) \<in> {Panics, Returns (Inl TOO_MANY_REQUESTS)}
    \<and> (fst (check_rate_limit now (''unauth:'' @ client_ip headers) 100 60 s) \<longrightarrow> fst (auth_middleware env now now2 headers s) = Panics)"
proof -
  obtain b s1 where c: "check_rate_limit now (''unauth:'' @ client_ip headers) 100 60 s = (b, s1)" by (rule prod.exhaust)
  have "admin_token s1 = Some token"
    using check_rate_limit_eqD [OF c] assms(1) by simp
  then show ?thesis using c assms(2,3) by (cases b) (simp_all add: auth_middleware_def is_valid_token_def)
qed

theorem short_admin_token_panics_witness:
  "fst (auth_middleware toy_auth 1 2 (toy_headers ''admin'') (auth_new (Some ''admin'') None)) = Panics"
proof -
  let ?s = "auth_new (Some ''admin'') (None :: unit option)"
  have "admin_token ?s = Some ''admin''" "length ''admin'' < 8" "bearer (toy_headers ''admin'') = Some ''admin''"
    "fst (check_rate_limit 1 (''unauth:'' @ client_ip (toy_headers ''admin'')) 100 60 ?s)"
    by (simp_all add: auth_new_def toy_headers_def bearer_def strip_prefix_def check_rate_limit_def)
  then show ?thesis using short_admin_token_panics [of ?s "''admin''" "toy_headers ''admin''" toy_auth 1 2] by blast
qed

end
