(* ===== verification/Scaling.thy ===== *)
theory Scaling
  imports Prelude Complex_Main "HOL-Library.Signed_Division"
begin

text \<open>
  \<open>src/src/auto_scaling.rs\<close> (and its twin \<open>src/src/network/scaling.rs\<close>): the autoscaler and the build queue that
  feeds it. Floating-point numbers are reals, so rounding is left out; a mean of nothing is \<open>None\<close> (not a
  number), with which every comparison is false. Times are milliseconds. The Kubernetes client is a state \<open>'k\<close> with
  the operation \<open>patch\<close>; \<open>fmt n x\<close> prints \<open>x\<close> with \<open>n\<close> decimals.

  The asynchronous locks are not reentrant. A call that waits for a lock it holds itself never continues
  (\<open>Blocks\<close>), and what it holds stays held.
\<close>

section \<open>Data\<close>

record scaling_metrics =
  sm_timestamp :: int
  sm_active_builds :: u32
  sm_queued_builds :: u32
  sm_worker_utilization :: real
  sm_cache_hit_rate :: real
  sm_avg_build_time_ms :: u64
  sm_memory_usage_mb :: u64
  sm_cpu_usage_percent :: real

record scaling_policy =
  min_replicas :: u32
  max_replicas :: u32
  target_utilization_percent :: real
  scale_up_threshold :: real
  scale_down_threshold :: real
  stabilization_window_secs :: u64
  cooldown_period_secs :: u64

datatype lock = Free | Writer

record 'k auto_scaler =
  metrics_history :: "scaling_metrics list"
  history_lock :: lock
  current_replicas :: u32
  sc_policy :: scaling_policy
  last_scale_time :: int
  k8s_client :: "'k option"

definition scaler_new :: "int \<Rightarrow> scaling_policy \<Rightarrow> 'k auto_scaler" where
  "scaler_new now p = \<lparr>metrics_history = [], history_lock = Free, current_replicas = min_replicas p, sc_policy = p,
     last_scale_time = now, k8s_client = None\<rparr>"

text \<open>In a cluster the client is set up, which can fail.\<close>

definition with_kubernetes :: "(string \<Rightarrow> string option) \<Rightarrow> 'k result \<Rightarrow> 'k auto_scaler \<Rightarrow> 'k auto_scaler result" where
  "with_kubernetes var try_default s =
     (case var ''KUBERNETES_SERVICE_HOST'' of
        None \<Rightarrow> Inr s
      | Some _ \<Rightarrow> (case try_default of Inl e \<Rightarrow> Inl e | Inr k \<Rightarrow> Inr (s\<lparr>k8s_client := Some k\<rparr>)))"

section \<open>Scaling\<close>

definition update_kubernetes_hpa :: "(u32 \<Rightarrow> ('k, unit) io) \<Rightarrow> u32 \<Rightarrow> ('k, unit) io" where
  "update_kubernetes_hpa patch n = patch n"

definition scale_to :: "(u32 \<Rightarrow> ('k, unit) io) \<Rightarrow> int \<Rightarrow> u32 \<Rightarrow> ('k auto_scaler, unit) io" where
  "scale_to patch now target s =
     (let s1 = s\<lparr>current_replicas := target, last_scale_time := now\<rparr> in
      case k8s_client s1 of
        None \<Rightarrow> (Inr (), s1)
      | Some k \<Rightarrow> (case update_kubernetes_hpa patch target k of (r, k') \<Rightarrow> (r, s1\<lparr>k8s_client := Some k'\<rparr>)))"

definition mean :: "real list \<Rightarrow> real option" where
  "mean xs = (if xs = [] then None else Some (sum_list xs / real (length xs)))"

definition above :: "real option \<Rightarrow> real \<Rightarrow> bool" where
  "above x t = (case x of Some v \<Rightarrow> v > t | None \<Rightarrow> False)"

definition below :: "real option \<Rightarrow> real \<Rightarrow> bool" where
  "below x t = (case x of Some v \<Rightarrow> v < t | None \<Rightarrow> False)"

text \<open>\<open>chrono::Duration::seconds\<close> panics out of range; the argument is cast to \<open>i64\<close>.\<close>

definition duration_seconds :: "u64 \<Rightarrow> int option" where
  "duration_seconds n = (let i = sint n in if \<bar>i\<bar> > (2 ^ 63 - 1) div 1000 then None else Some (i * 1000))"

definition target_replicas :: "scaling_policy \<Rightarrow> u32 \<Rightarrow> scaling_metrics list \<Rightarrow> u32" where
  "target_replicas p current history =
     (let recent = take (unat (stabilization_window_secs p)) (rev history);
          avg_utilization = mean (map sm_worker_utilization recent);
          avg_queued = mean (map (\<lambda>m. real (unat (sm_queued_builds m))) recent);
          should_scale_up = above avg_utilization (scale_up_threshold p) \<or> above avg_queued 5;
          should_scale_down = below avg_utilization (scale_down_threshold p) \<and> below avg_queued 1 \<and> current > min_replicas p
      in if should_scale_up \<and> current < max_replicas p then current + 1
         else if should_scale_down then current - 1
         else current)"

definition evaluate_scaling :: "(u32 \<Rightarrow> ('k, unit) io) \<Rightarrow> int \<Rightarrow> 'k auto_scaler \<Rightarrow> unit result outcome \<times> 'k auto_scaler" where
  "evaluate_scaling patch now s =
     (if history_lock s = Writer then (Blocks, s)
      else if length (metrics_history s) < 5 then (Returns (Inr ()), s)
      else
        (case duration_seconds (cooldown_period_secs (sc_policy s)) of
           None \<Rightarrow> (Panics, s)
         | Some cooldown \<Rightarrow>
             if now - last_scale_time s < cooldown then (Returns (Inr ()), s)
             else
               (let t = target_replicas (sc_policy s) (current_replicas s) (metrics_history s) in
                if t \<noteq> current_replicas s then (case scale_to patch now t s of (r, s') \<Rightarrow> (Returns r, s'))
                else (Returns (Inr ()), s))))"

text \<open>The history is locked for writing while the evaluation asks for a lock to read it.\<close>

definition record_metrics ::
    "(u32 \<Rightarrow> ('k, unit) io) \<Rightarrow> int \<Rightarrow> scaling_metrics \<Rightarrow> 'k auto_scaler \<Rightarrow> unit result outcome \<times> 'k auto_scaler" where
  "record_metrics patch now m s =
     (if history_lock s \<noteq> Free then (Blocks, s)
      else
        (let cutoff = now - 600 * 1000;
             s1 = s\<lparr>history_lock := Writer,
                    metrics_history := dropWhile (\<lambda>old. sm_timestamp old < cutoff) (metrics_history s) @ [m]\<rparr>
         in case evaluate_scaling patch now s1 of
              (Returns r, s2) \<Rightarrow> (Returns r, s2\<lparr>history_lock := Free\<rparr>)
            | (out, s2) \<Rightarrow> (out, s2)))"

record scaling_status =
  ss_current_replicas :: u32
  ss_target_replicas :: u32
  ss_average_utilization :: real
  ss_last_scale_time :: int
  ss_policy :: scaling_policy

definition get_scaling_status :: "'k auto_scaler \<Rightarrow> scaling_status outcome" where
  "get_scaling_status s =
     (if history_lock s = Writer then Blocks
      else Returns \<lparr>ss_current_replicas = current_replicas s, ss_target_replicas = current_replicas s,
        ss_average_utilization = (case mean (map sm_worker_utilization (metrics_history s)) of Some x \<Rightarrow> x | None \<Rightarrow> 0),
        ss_last_scale_time = last_scale_time s, ss_policy = sc_policy s\<rparr>)"

section \<open>Prediction\<close>

record resource_prediction =
  predicted_replicas :: u32
  confidence :: real
  reasoning :: string

text \<open>The regression over the samples, newest first, evaluated one step after the last; slope and value.\<close>

definition regression :: "real list \<Rightarrow> real \<times> real" where
  "regression ys =
     (let n = real (length ys);
          pts = map (\<lambda>(i, y). (real i, y)) (enumerate 0 ys);
          sum_x = sum_list (map fst pts);
          sum_y = sum_list (map snd pts);
          sum_xy = sum_list (map (\<lambda>(x, y). x * y) pts);
          sum_xx = sum_list (map (\<lambda>(x, y). x * x) pts);
          slope = (n * sum_xy - sum_x * sum_y) / (n * sum_xx - sum_x * sum_x);
          intercept = (sum_y - slope * sum_x) / n;
          next_x = fst (last pts) + 1
      in (slope, slope * next_x + intercept))"

text \<open>\<open>as u32\<close> saturates; a positive number divided by zero is infinite.\<close>

definition sat_u32 :: "int \<Rightarrow> u32" where
  "sat_u32 i = (if i \<le> 0 then 0 else if i \<ge> 2 ^ 32 - 1 then - 1 else word_of_int i)"

definition replicas_for :: "scaling_policy \<Rightarrow> real \<Rightarrow> u32" where
  "replicas_for p u =
     (if u > target_utilization_percent p / 100
      then min (max (if target_utilization_percent p = 0 then - 1
                     else sat_u32 \<lceil>u * 100 / target_utilization_percent p\<rceil>) (min_replicas p)) (max_replicas p)
      else min_replicas p)"

definition predict_resource_needs :: "(nat \<Rightarrow> real \<Rightarrow> string) \<Rightarrow> u64 \<Rightarrow> 'k auto_scaler \<Rightarrow> resource_prediction outcome" where
  "predict_resource_needs fmt time_window_secs s =
     (if history_lock s = Writer then Blocks
      else if metrics_history s = []
      then Returns \<lparr>predicted_replicas = min_replicas (sc_policy s), confidence = 0, reasoning = ''No historical data available''\<rparr>
      else
        (let recent = take (unat time_window_secs) (rev (map sm_worker_utilization (metrics_history s))) in
         if length recent < 2
         then Returns \<lparr>predicted_replicas = min_replicas (sc_policy s), confidence = 1 / 2, reasoning = ''Insufficient data for prediction''\<rparr>
         else
           (let (slope, u) = regression recent in
            Returns \<lparr>predicted_replicas = replicas_for (sc_policy s) u,
              confidence = (if length recent > 10 then 8 / 10 else 6 / 10),
              reasoning = ''Predicted utilization: '' @ fmt 1 (u * 100) @ ''%, slope: '' @ fmt 3 slope\<rparr>)))"

section \<open>The build queue\<close>

record build_request =
  br_id :: string
  br_priority :: u8
  br_estimated_duration_ms :: u64
  br_submitted_at :: int

record 'k queue_scaler =
  build_queue :: "build_request list"
  queue_lock :: lock
  qs_scaler :: "'k auto_scaler"

definition queue_new :: "'k auto_scaler \<Rightarrow> 'k queue_scaler" where
  "queue_new sc = \<lparr>build_queue = [], queue_lock = Free, qs_scaler = sc\<rparr>"

definition evaluate_queue_scaling :: "(u32 \<Rightarrow> ('k, unit) io) \<Rightarrow> int \<Rightarrow> 'k queue_scaler \<Rightarrow> unit result outcome \<times> 'k queue_scaler" where
  "evaluate_queue_scaling patch now q =
     (if queue_lock q = Writer then (Blocks, q)
      else
        (let m = \<lparr>sm_timestamp = now, sm_active_builds = 0, sm_queued_builds = of_nat (min (length (build_queue q)) (2 ^ 32 - 1)),
                  sm_worker_utilization = 0, sm_cache_hit_rate = 0, sm_avg_build_time_ms = 0, sm_memory_usage_mb = 0,
                  sm_cpu_usage_percent = 0\<rparr>
         in case record_metrics patch now m (qs_scaler q) of (out, sc) \<Rightarrow> (out, q\<lparr>qs_scaler := sc\<rparr>)))"

definition enqueue_build ::
    "(u32 \<Rightarrow> ('k, unit) io) \<Rightarrow> int \<Rightarrow> build_request \<Rightarrow> 'k queue_scaler \<Rightarrow> unit result outcome \<times> 'k queue_scaler" where
  "enqueue_build patch now r q =
     (if queue_lock q \<noteq> Free then (Blocks, q)
      else
        (case evaluate_queue_scaling patch now (q\<lparr>queue_lock := Writer, build_queue := build_queue q @ [r]\<rparr>) of
           (Returns x, q') \<Rightarrow> (Returns x, q'\<lparr>queue_lock := Free\<rparr>)
         | (out, q') \<Rightarrow> (out, q')))"

fun remove_request :: "string \<Rightarrow> build_request list \<Rightarrow> build_request option \<times> build_request list" where
  "remove_request i [] = (None, [])"
| "remove_request i (r # rs) =
     (if br_id r = i then (Some r, rs) else (case remove_request i rs of (x, rs') \<Rightarrow> (x, r # rs')))"

definition dequeue_build :: "string \<Rightarrow> 'k queue_scaler \<Rightarrow> build_request option outcome \<times> 'k queue_scaler" where
  "dequeue_build i q =
     (if queue_lock q \<noteq> Free then (Blocks, q)
      else (case remove_request i (build_queue q) of (x, rs) \<Rightarrow> (Returns x, q\<lparr>build_queue := rs\<rparr>)))"

record queue_stats =
  total_queued :: nat
  avg_wait_time_ms :: u64
  priority_distribution :: "(u8, nat) hashmap"

definition get_queue_stats :: "int \<Rightarrow> 'k queue_scaler \<Rightarrow> queue_stats outcome" where
  "get_queue_stats now q =
     (if queue_lock q = Writer then Blocks
      else Returns
        \<lparr>total_queued = length (build_queue q),
         avg_wait_time_ms = (if build_queue q = [] then 0
           else word_of_int (sum_list (map (\<lambda>r. now - br_submitted_at r) (build_queue q)) sdiv int (length (build_queue q)))),
         priority_distribution =
           fold (\<lambda>r acc. AList.update (br_priority r) (case map_of acc (br_priority r) of Some n \<Rightarrow> n + 1 | None \<Rightarrow> 1) acc)
             (build_queue q) []\<rparr>)"

section \<open>Properties\<close>

text \<open>The autoscaler never completes a measurement: recording metrics keeps the history locked while it asks for
  the same lock again, so the call does not return and changes no replica count; every later status request,
  prediction, evaluation or recording waits for ever as well. Queueing a build does the same to the queue.\<close>

theorem scaler_deadlocks:
  "fst (record_metrics patch now m s) = Blocks \<and> current_replicas (snd (record_metrics patch now m s)) = current_replicas s
   \<and> (let s' = snd (record_metrics patch now m s) in
        get_scaling_status s' = Blocks \<and> predict_resource_needs fmt w s' = Blocks
        \<and> evaluate_scaling patch' now' s' = (Blocks, s') \<and> record_metrics patch' now' m' s' = (Blocks, s'))
   \<and> fst (enqueue_build patch now r q) = Blocks
   \<and> (let q' = snd (enqueue_build patch now r q) in
        fst (dequeue_build i q') = Blocks \<and> get_queue_stats now' q' = Blocks \<and> enqueue_build patch' now' r' q' = (Blocks, q'))"
  by (cases "history_lock s"; cases "queue_lock q")
    (simp_all add: record_metrics_def evaluate_scaling_def get_scaling_status_def predict_resource_needs_def
      enqueue_build_def evaluate_queue_scaling_def dequeue_build_def get_queue_stats_def Let_def)

lemma target_replicas_bounds:
  assumes "min_replicas p \<le> c" and "c \<le> max_replicas p"
  shows "min_replicas p \<le> target_replicas p c h \<and> target_replicas p c h \<le> max_replicas p
    \<and> \<bar>int (unat (target_replicas p c h)) - int (unat c)\<bar> \<le> 1"
proof -
  consider (same) "target_replicas p c h = c" | (up) "target_replicas p c h = c + 1" "c < max_replicas p"
    | (down) "target_replicas p c h = c - 1" "min_replicas p < c"
    unfolding target_replicas_def Let_def by (metis (no_types, lifting))
  then show ?thesis
  proof cases
    case up
    then have "unat (c + 1) = unat c + 1" by (intro unat_increment [of c "max_replicas p"]) (simp add: word_less_nat_alt)
    with up assms show ?thesis by (simp add: word_less_nat_alt word_le_nat_alt)
  next
    case down
    then have "unat (c - 1) = unat c - 1" by (intro unat_decrement [of "min_replicas p"]) (simp add: word_less_nat_alt)
    with down assms show ?thesis by (simp add: word_less_nat_alt word_le_nat_alt) arith
  qed (use assms in simp)
qed

text \<open>A single evaluation is safe: started within the policy's bounds it leaves the replica count within them,
  moves it by at most one, without wrapping, and not at all during the cool-down period or on fewer than
  five measurements.\<close>

theorem evaluation_keeps_bounds:
  assumes "min_replicas (sc_policy s) \<le> current_replicas s" and "current_replicas s \<le> max_replicas (sc_policy s)"
    and "evaluate_scaling patch now s = (out, s')"
  shows "min_replicas (sc_policy s) \<le> current_replicas s' \<and> current_replicas s' \<le> max_replicas (sc_policy s)
    \<and> \<bar>int (unat (current_replicas s')) - int (unat (current_replicas s))\<bar> \<le> 1
    \<and> (current_replicas s' = current_replicas s \<or> length (metrics_history s) \<ge> 5 \<and>
         (\<exists>c. duration_seconds (cooldown_period_secs (sc_policy s)) = Some c \<and> c \<le> now - last_scale_time s))"
proof -
  let ?t = "target_replicas (sc_policy s) (current_replicas s) (metrics_history s)"
  have cases: "current_replicas s' = current_replicas s \<or> current_replicas s' = ?t \<and> length (metrics_history s) \<ge> 5 \<and>
         (\<exists>c. duration_seconds (cooldown_period_secs (sc_policy s)) = Some c \<and> c \<le> now - last_scale_time s)"
    using assms(3)
    by (auto simp: evaluate_scaling_def scale_to_def Let_def split: if_splits option.splits prod.splits)
  note t = target_replicas_bounds [OF assms(1,2), of "metrics_history s"]
  then show ?thesis using cases t assms(1,2) by auto
qed

definition toy_policy :: scaling_policy where
  "toy_policy = \<lparr>min_replicas = 1, max_replicas = 4, target_utilization_percent = 50, scale_up_threshold = 8 / 10,
     scale_down_threshold = 2 / 10, stabilization_window_secs = 60, cooldown_period_secs = 30\<rparr>"

definition busy :: "real \<Rightarrow> scaling_metrics" where
  "busy u = \<lparr>sm_timestamp = 0, sm_active_builds = 0, sm_queued_builds = 9, sm_worker_utilization = u, sm_cache_hit_rate = 0,
     sm_avg_build_time_ms = 0, sm_memory_usage_mb = 0, sm_cpu_usage_percent = 0\<rparr>"

theorem evaluation_keeps_bounds_witness:
  "current_replicas (snd (evaluate_scaling (\<lambda>n. ret ()) 90000
     ((scaler_new 0 toy_policy :: unit auto_scaler)\<lparr>metrics_history := replicate 5 (busy 1)\<rparr>))) \<le> 4"
proof -
  let ?s = "(scaler_new 0 toy_policy :: unit auto_scaler)\<lparr>metrics_history := replicate 5 (busy 1)\<rparr>"
  have "min_replicas (sc_policy ?s) \<le> current_replicas ?s" "current_replicas ?s \<le> max_replicas (sc_policy ?s)"
    "max_replicas (sc_policy ?s) = 4"
    by (simp_all add: scaler_new_def toy_policy_def)
  then show ?thesis using evaluation_keeps_bounds [of ?s "\<lambda>n. ret ()" 90000] by (metis prod.collapse)
qed

text \<open>The regression of samples on a line finds the line.\<close>

lemma sum_real_upt: "(\<Sum>i \<leftarrow> [0..<n]. real i) = real n * (real n - 1) / 2"
  by (induction n) (simp_all add: field_simps)

lemma sum_square_upt: "(\<Sum>i \<leftarrow> [0..<n]. real i * real i) = real n * (real n - 1) * (2 * real n - 1) / 6"
  by (induction n) (simp_all add: field_simps)

lemma sum_list_linear: "(\<Sum>i \<leftarrow> xs. c + d * f i) = real (length xs) * c + d * (\<Sum>i \<leftarrow> xs. f i)"
  by (induction xs) (simp_all add: field_simps)

lemma enumerate_map_upt: "enumerate 0 (map f [0..<n]) = map (\<lambda>i. (i, f i)) [0..<n]"
  by (simp add: enumerate_eq_zip zip_map2 zip_same_conv_map comp_def)

lemma regression_line:
  assumes "2 \<le> n"
  shows "regression (map (\<lambda>i. c + d * real i) [0..<n]) = (d, c + d * real n)"
proof -
  define X where "X = (\<Sum>i \<leftarrow> [0..<n]. real i)"
  define XX where "XX = (\<Sum>i \<leftarrow> [0..<n]. real i * real i)"
  have n: "real n \<ge> 2" using assms by simp
  have "real n * XX - X * X = real n * real n * ((real n * real n) - 1) / 12"
    unfolding XX_def X_def sum_real_upt sum_square_upt by (simp add: field_simps)
  moreover have "real n * real n > 1" using n by (smt (verit) mult_le_cancel_left2)
  then have "real n * real n * ((real n * real n) - 1) > 0" using n by (intro mult_pos_pos) simp_all
  ultimately have den: "real n * XX - X * X \<noteq> 0" by simp
  have y: "(\<Sum>i \<leftarrow> [0..<n]. c + d * real i) = real n * c + d * X" by (simp add: sum_list_linear X_def)
  have xy: "(\<Sum>i \<leftarrow> [0..<n]. real i * (c + d * real i)) = c * X + d * XX"
    unfolding X_def XX_def by (induction n) (simp_all add: field_simps)
  have "(real n * (c * X + d * XX) - X * (real n * c + d * X)) = d * (real n * XX - X * X)" by (simp add: algebra_simps)
  then have slope: "(real n * (c * X + d * XX) - X * (real n * c + d * X)) / (real n * XX - X * X) = d" using den by simp
  have last: "last (map (\<lambda>i. (real i, c + d * real i)) [0..<n]) = (real (n - 1), c + d * real (n - 1))"
    using assms by (simp add: last_map)
  have pts: "map (\<lambda>(i, y). (real i, y)) (enumerate 0 (map (\<lambda>i. c + d * real i) [0..<n]))
      = map (\<lambda>i. (real i, c + d * real i)) [0..<n]" (is "_ = ?pts")
    by (simp add: enumerate_map_upt comp_def)
  have sums: "sum_list (map fst ?pts) = X" "sum_list (map snd ?pts) = real n * c + d * X"
    "sum_list (map (\<lambda>(x, y). x * y) ?pts) = c * X + d * XX" "sum_list (map (\<lambda>(x, y). x * x) ?pts) = XX"
    using y xy by (simp_all add: comp_def X_def XX_def)
  have "regression (map (\<lambda>i. c + d * real i) [0..<n])
      = (d, d * (real (n - 1) + 1) + (real n * c + d * X - d * X) / real n)"
    by (simp only: regression_def Let_def pts sums last length_map length_upt diff_zero fst_conv slope)
  then show ?thesis using assms by (simp add: of_nat_diff field_simps)
qed

text \<open>The prediction looks backwards: the samples are numbered from the newest to the oldest, so on a utilization
  that has grown by \<open>b\<close> with every measurement the predicted ``next'' value is the one before the
  oldest sample, and the requested replicas are computed from it.\<close>

theorem prediction_extrapolates_into_the_past:
  assumes "2 \<le> n" and "map sm_worker_utilization (metrics_history s) = map (\<lambda>k. a + b * real k) [0..<n]"
    and "history_lock s = Free" and "n \<le> unat w"
  shows "\<exists>p. predict_resource_needs fmt w s = Returns p \<and> predicted_replicas p = replicas_for (sc_policy s) (a - b)"
proof -
  have "metrics_history s \<noteq> []" using assms(1,2) by auto
  have rev: "rev (map (\<lambda>k. a + b * real k) [0..<n]) = map (\<lambda>i. (a + b * real (n - 1)) + (- b) * real i) [0..<n]"
    using assms(1) by (intro nth_equalityI) (simp_all add: rev_nth of_nat_diff algebra_simps)
  then have "regression (take (unat w) (rev (map sm_worker_utilization (metrics_history s))))
      = (- b, (a + b * real (n - 1)) + (- b) * real n)"
    using regression_line [OF assms(1), of "a + b * real (n - 1)" "- b"] assms(2,4) by simp
  also have "(a + b * real (n - 1)) + (- b) * real n = a - b" using assms(1) by (simp add: of_nat_diff algebra_simps)
  finally have "regression (take (unat w) (rev (map sm_worker_utilization (metrics_history s)))) = (- b, a - b)" .
  moreover have "length (take (unat w) (rev (map sm_worker_utilization (metrics_history s)))) = n"
    unfolding assms(2) using assms(4) by simp
  ultimately show ?thesis
    using \<open>metrics_history s \<noteq> []\<close> assms(1,3) by (simp add: predict_resource_needs_def Let_def)
qed

theorem prediction_extrapolates_into_the_past_witness:
  "\<exists>p. predict_resource_needs (\<lambda>n x. []) 60
      ((scaler_new 0 toy_policy :: unit auto_scaler)\<lparr>metrics_history := [busy (3 / 10), busy (6 / 10), busy (9 / 10)]\<rparr>) = Returns p
    \<and> predicted_replicas p = 1"
proof -
  let ?s = "(scaler_new 0 toy_policy :: unit auto_scaler)\<lparr>metrics_history := [busy (3 / 10), busy (6 / 10), busy (9 / 10)]\<rparr>"
  have "map sm_worker_utilization (metrics_history ?s) = map (\<lambda>k. 3 / 10 + 3 / 10 * real k) [0..<3]"
    by (simp add: busy_def upt_rec)
  from prediction_extrapolates_into_the_past [OF _ this, of 60 "\<lambda>n x. []"]
  show ?thesis by (simp add: scaler_new_def replicas_for_def toy_policy_def)
qed

end
