(* ===== verification/Farm.thy ===== *)
theory Farm
  imports Hybrid_Live Sandbox
begin

text \<open>
  \<open>src/src/remote_exec\<close>: the build farm. The client that posts an action (\<open>client.rs\<close>), the scheduler that picks
  a worker (\<open>scheduler.rs\<close>, with its HTTP handlers in \<open>server.rs\<close>), and the worker that runs the action in a
  sandbox (\<open>worker.rs\<close>, \<open>worker_server.rs\<close>). Requests and results are carried as values: their JSON form is
  taken to be faithful. \<open>iter\<close> is the iteration order of the hash map of workers, \<open>rnd\<close> the random number,
  \<open>digest_bytes\<close> and \<open>digest\<close> are BLAKE3. The workspace of a worker and its cache directory are apart.
\<close>

section \<open>The client\<close>

text \<open>What comes back from a request: nothing, or a status with a body, parsed if it parses, and its text.\<close>

datatype 'a reply = No_reply | Reply nat "'a option" string

type_synonym 'n post = "string \<Rightarrow> action_request \<Rightarrow> 'n \<Rightarrow> action_result reply \<times> 'n"

definition client_execute :: "'n post \<Rightarrow> string \<Rightarrow> action_request \<Rightarrow> ('n, action_result) io" where
  "client_execute post endpoint action n =
     (case post (trim_end_slash endpoint @ ''/execute'') action n of
        (No_reply, n') \<Rightarrow> (Inl (Err ''Failed to send execution request to build farm''), n')
      | (Reply status body txt_body, n') \<Rightarrow>
          if \<not> (200 \<le> status \<and> status < 300)
          then (Inl (Err (''Build farm execution failed: '' @ show_nat status @ '' - '' @ txt_body)), n')
          else (case body of
                  None \<Rightarrow> (Inl (Err ''Failed to parse ActionResult from build farm''), n')
                | Some r \<Rightarrow> (Inr r, n')))"

section \<open>The scheduler\<close>

datatype scheduling_strategy = SS_LeastLoaded | SS_Random | SS_RoundRobin | SS_DataLocality

record scheduler =
  sd_strategy :: scheduling_strategy
  worker_endpoints :: "(string, string) hashmap"
  next_worker_idx :: u64

definition scheduler_new :: "scheduling_strategy \<Rightarrow> scheduler" where
  "scheduler_new st = \<lparr>sd_strategy = st, worker_endpoints = [], next_worker_idx = 0\<rparr>"

definition register_worker :: "string \<Rightarrow> string \<Rightarrow> scheduler \<Rightarrow> scheduler" where
  "register_worker worker_id endpoint s = s\<lparr>worker_endpoints := AList.update worker_id endpoint (worker_endpoints s)\<rparr>"

type_synonym order = "(string, string) hashmap \<Rightarrow> (string \<times> string) list"

definition get_available_workers :: "order \<Rightarrow> scheduler \<Rightarrow> (string \<times> string) list" where
  "get_available_workers iter s = iter (worker_endpoints s)"

definition next_in_turn :: "(string \<times> string) list \<Rightarrow> (scheduler, string) io" where
  "next_in_turn workers s =
     (Inr (snd (workers ! (unat (next_worker_idx s) mod length workers))), s\<lparr>next_worker_idx := next_worker_idx s + 1\<rparr>)"

definition select_worker ::
    "order \<Rightarrow> (bytes \<Rightarrow> bytes) \<Rightarrow> nat \<Rightarrow> action_request \<Rightarrow> (scheduler, string) io" where
  "select_worker iter digest_bytes rnd action s =
     (let workers = get_available_workers iter s in
      if workers = [] then (Inl (Err ''No available workers registered with scheduler''), s)
      else
        (case sd_strategy s of
           SS_Random \<Rightarrow> (Inr (snd (workers ! (rnd mod length workers))), s)
         | SS_RoundRobin \<Rightarrow> next_in_turn workers s
         | SS_LeastLoaded \<Rightarrow> next_in_turn workers s
         | SS_DataLocality \<Rightarrow>
             (let b = digest_bytes (as_bytes (cd_hash (ar_input_root_digest action)));
                  idx = (unat (b ! 0) + unat (b ! 1) * 256) mod length workers
              in (Inr (snd (workers ! idx)), s))))"

definition scheduler_execute ::
    "order \<Rightarrow> (bytes \<Rightarrow> bytes) \<Rightarrow> nat \<Rightarrow> 'n post \<Rightarrow> action_request \<Rightarrow> (scheduler \<times> 'n, action_result) io" where
  "scheduler_execute iter digest_bytes rnd post action =
     bind_io (on_part fst (\<lambda>s (_, n). (s, n)) (select_worker iter digest_bytes rnd action)) (\<lambda>endpoint.
     on_part snd (\<lambda>n (s, _). (s, n)) (client_execute post endpoint action))"

definition reply_of :: "'a result \<Rightarrow> 'a reply" where
  "reply_of r = (case r of Inr a \<Rightarrow> Reply 200 (Some a) [] | Inl (Err m) \<Rightarrow> Reply 500 None m)"

definition handle_execute ::
    "order \<Rightarrow> (bytes \<Rightarrow> bytes) \<Rightarrow> nat \<Rightarrow> 'n post \<Rightarrow> action_request \<Rightarrow> scheduler \<times> 'n \<Rightarrow> action_result reply \<times> (scheduler \<times> 'n)" where
  "handle_execute iter digest_bytes rnd post action s =
     (case scheduler_execute iter digest_bytes rnd post action s of (r, s') \<Rightarrow> (reply_of r, s'))"

text \<open>The JSON answer is the status and the worker's id.\<close>

definition handle_register_worker :: "string \<Rightarrow> string \<Rightarrow> scheduler \<Rightarrow> (string \<times> string) \<times> scheduler" where
  "handle_register_worker worker_id endpoint s = ((''registered'', worker_id), register_worker worker_id endpoint s)"

definition handle_list_workers :: "order \<Rightarrow> scheduler \<Rightarrow> string list" where
  "handle_list_workers iter s = map fst (get_available_workers iter s)"

section \<open>The worker\<close>

record ('r, 'o) worker_node =
  wk_id :: string
  wk_remote :: "'r remote_cache option"
  wk_sandbox :: "'o host sandbox"

record ('r, 'o) worker_state =
  wk_cache :: "'r hybrid"
  wk_host :: "'o host"

record worker_env =
  we_digest :: "bytes \<Rightarrow> string"
  we_index_json :: "index \<Rightarrow> bytes option"
  we_parse_manifest :: "bytes \<Rightarrow> artifact_manifest option"
  we_now :: int
  we_started :: int
  we_completed :: int

definition on_wk_host :: "('o host, 'a) io \<Rightarrow> (('r, 'o) worker_state, 'a) io" where
  "on_wk_host = on_part wk_host (\<lambda>h s. s\<lparr>wk_host := h\<rparr>)"

definition on_wk_cache :: "('r hybrid, 'a) io \<Rightarrow> (('r, 'o) worker_state, 'a) io" where
  "on_wk_cache = on_part wk_cache (\<lambda>c s. s\<lparr>wk_cache := c\<rparr>)"

text \<open>\<open>anyhow\<close>'s \<open>context\<close>: an error gets a new message.\<close>

definition with_context :: "string \<Rightarrow> ('s, 'a) io \<Rightarrow> ('s, 'a) io" where
  "with_context msg m s = (case m s of (Inl _, s') \<Rightarrow> (Inl (Err msg), s') | (Inr a, s') \<Rightarrow> (Inr a, s'))"

text \<open>The node handed to the sandbox; its content is the command joined by blanks.\<close>

definition action_node :: "action_request \<Rightarrow> node" where
  "action_node action =
     \<lparr>node_id = 0, node_name = ''remote-action-'' @ take 8 (cd_hash (ar_input_root_digest action)),
      node_content = join_with '' '' (ar_command action), node_kind = NK_Run,
      node_hash = cd_hash (ar_input_root_digest action), node_dirty = True, node_deps = [], node_source_path = None,
      node_env = ar_env action, node_cache_hit = False, node_meta = default_metadata\<rparr>"

definition worker_get :: "worker_env \<Rightarrow> ('r, 'o) worker_node \<Rightarrow> string \<Rightarrow> ('r hybrid, bytes option) io" where
  "worker_get E wk h = get_artifact (we_index_json E) (we_now E) (wk_remote wk) h"

definition reconstruct_inputs :: "worker_env \<Rightarrow> ('r, 'o) worker_node \<Rightarrow> string \<Rightarrow> string \<Rightarrow> (('r, 'o) worker_state, unit) io" where
  "reconstruct_inputs E wk dir root s =
     (case on_wk_cache (worker_get E wk root) s of
        (Inr (Some d), s1) \<Rightarrow>
          (case we_parse_manifest E d of
             Some manifest \<Rightarrow>
               with_context ''Failed to reconstruct inputs from manifest''
                 (on_part (\<lambda>s. (host_fs (wk_host s), wk_cache s)) (\<lambda>(f, c) s. s\<lparr>wk_host := (wk_host s)\<lparr>host_fs := f\<rparr>, wk_cache := c\<rparr>)
                   (reconstruct dir (worker_get E wk) manifest)) s1
           | None \<Rightarrow> (Inr (), s1))
      | (_, s1) \<Rightarrow> (Inr (), s1))"

text \<open>The loop over the output files: files that are not there, cannot be read or cannot be uploaded are left out.\<close>

fun capture_outputs ::
    "worker_env \<Rightarrow> ('r, 'o) worker_node \<Rightarrow> string \<Rightarrow> string list \<Rightarrow> (string, cas_digest) hashmap \<Rightarrow> ('r, 'o) worker_state
     \<Rightarrow> (string, cas_digest) hashmap \<times> ('r, 'o) worker_state" where
  "capture_outputs E wk dir [] out s = (out, s)"
| "capture_outputs E wk dir (p # ps) out s =
     (let full_path = path_join dir p in
      if path_exists (host_fs (wk_host s)) full_path \<and> is_file (host_fs (wk_host s)) full_path
      then
        (case on_wk_host (on_host_fs (read_file full_path)) s of
           (Inl _, s1) \<Rightarrow> capture_outputs E wk dir ps out s1
         | (Inr d, s1) \<Rightarrow>
             (case on_wk_cache (put_artifact (we_digest E) (we_index_json E) (we_now E) (wk_remote wk) (we_digest E d) d) s1 of
                (Inl _, s2) \<Rightarrow> capture_outputs E wk dir ps out s2
              | (Inr _, s2) \<Rightarrow>
                  capture_outputs E wk dir ps
                    (AList.update p \<lparr>cd_hash = we_digest E d, cd_size_bytes = int (length d)\<rparr> out) s2))
      else capture_outputs E wk dir ps out s)"

definition worker_run :: "worker_env \<Rightarrow> ('r, 'o) worker_node \<Rightarrow> action_request \<Rightarrow> (('r, 'o) worker_state, action_result) io" where
  "worker_run E wk action =
     (let n = action_node action in
      bind_io (with_context ''Failed to prepare sandbox for remote execution'' (on_wk_host (sb_prepare (wk_sandbox wk) n))) (\<lambda>env.
      bind_io (reconstruct_inputs E wk (workspace_dir env) (node_hash n)) (\<lambda>_.
      bind_io (with_context ''Failed to execute command in remote sandbox'' (on_wk_host (sb_execute (wk_sandbox wk) env n))) (\<lambda>res s.
      case capture_outputs E wk (workspace_dir env) (ar_output_files action) [] s of
        (out, s1) \<Rightarrow>
          bind_io (ignore_io (on_wk_host (sb_cleanup (wk_sandbox wk) env))) (\<lambda>_.
          ret \<lparr>ac_output_files = out, ac_exit_code = exit_code res, ac_stdout_raw = exec_stdout res, ac_stderr_raw = exec_stderr res,
               ac_execution_metadata = \<lparr>xm_worker_id = wk_id wk, xm_queued_timestamp = None,
                 xm_worker_start_timestamp = Some (we_started E), xm_worker_completed_timestamp = Some (we_completed E)\<rparr>\<rparr>) s1))))"

text \<open>Naming the node slices the digest at 8 bytes first.\<close>

definition worker_execute ::
    "worker_env \<Rightarrow> ('r, 'o) worker_node \<Rightarrow> action_request \<Rightarrow> ('r, 'o) worker_state \<Rightarrow> action_result result outcome \<times> ('r, 'o) worker_state" where
  "worker_execute E wk action s =
     (if length (cd_hash (ar_input_root_digest action)) < 8 then (Panics, s)
      else (case worker_run E wk action s of (r, s') \<Rightarrow> (Returns r, s')))"

text \<open>A handler that panics drops the connection.\<close>

definition handle_worker_execute ::
    "worker_env \<Rightarrow> ('r, 'o) worker_node \<Rightarrow> action_request \<Rightarrow> ('r, 'o) worker_state \<Rightarrow> action_result reply \<times> ('r, 'o) worker_state" where
  "handle_worker_execute E wk action s =
     (case worker_execute E wk action s of
        (Returns r, s') \<Rightarrow> (reply_of r, s')
      | (_, s') \<Rightarrow> (No_reply, s'))"

text \<open>The registration a starting worker sends to the scheduler.\<close>

definition worker_registration :: "('r, 'o) worker_node \<Rightarrow> nat \<Rightarrow> string \<times> string" where
  "worker_registration wk port = (wk_id wk, ''http://localhost:'' @ show_nat port)"

definition register_with_scheduler ::
    "(string \<Rightarrow> string \<times> string \<Rightarrow> 'n \<Rightarrow> unit reply \<times> 'n) \<Rightarrow> ('r, 'o) worker_node \<Rightarrow> string \<Rightarrow> nat \<Rightarrow> ('n, unit) io" where
  "register_with_scheduler post wk scheduler_url port n =
     (case post (trim_end_slash scheduler_url @ ''/workers/register'') (worker_registration wk port) n of
        (No_reply, n') \<Rightarrow> (Inl (Err ''Failed to register with scheduler''), n')
      | (Reply status _ txt_body, n') \<Rightarrow>
          if \<not> (200 \<le> status \<and> status < 300)
          then (Inl (Err (''Scheduler registration failed: '' @ show_nat status @ '' - '' @ txt_body)), n')
          else (Inr (), n'))"

end
