(* ===== verification/Remote_Build.thy ===== *)
theory Remote_Build
  imports Farm Executor
begin

text \<open>
  The build farm at work: workers behind the scheduler's network, the distribution of actions over them, what a
  worker reports as its outputs, and the command a worker runs for a node of the executor.
\<close>

section \<open>Workers behind a network\<close>

text \<open>The workers by the URL they serve; a request to any other URL gets no reply.\<close>

type_synonym ('r, 'o) farm = "(string, ('r, 'o) worker_node \<times> ('r, 'o) worker_state) hashmap"

definition farm_post :: "worker_env \<Rightarrow> ('r, 'o) farm post" where
  "farm_post E url action f =
     (case map_of f url of
        None \<Rightarrow> (No_reply, f)
      | Some (wk, s) \<Rightarrow>
          (case handle_worker_execute E wk action s of (r, s') \<Rightarrow> (r, AList.update url (wk, s') f)))"

section \<open>Distribution\<close>

fun select_workers ::
    "order \<Rightarrow> (bytes \<Rightarrow> bytes) \<Rightarrow> action_request list \<Rightarrow> (scheduler, string list) io" where
  "select_workers iter digest_bytes [] = ret []"
| "select_workers iter digest_bytes (a # as) =
     bind_io (select_worker iter digest_bytes 0 a) (\<lambda>e.
     bind_io (select_workers iter digest_bytes as) (\<lambda>es. ret (e # es)))"

lemma select_workers_in_turn:
  assumes "sd_strategy s \<in> {SS_RoundRobin, SS_LeastLoaded}" and "iter (worker_endpoints s) = ws" and "ws \<noteq> []"
    and "unat (next_worker_idx s) + length as < 2 ^ 64"
  shows "fst (select_workers iter digest_bytes as s)
    = Inr (map (\<lambda>i. snd (ws ! ((unat (next_worker_idx s) + i) mod length ws))) [0..<length as])"
  using assms(1,2,4)
proof (induction as arbitrary: s)
  case (Cons a as)
  let ?s = "s\<lparr>next_worker_idx := next_worker_idx s + 1\<rparr>"
  have sel: "select_worker iter digest_bytes 0 a s = (Inr (snd (ws ! (unat (next_worker_idx s) mod length ws))), ?s)"
    using Cons.prems assms(3) by (auto simp: select_worker_def get_available_workers_def Let_def next_in_turn_def)
  have idx: "unat (next_worker_idx s + 1) = unat (next_worker_idx s) + 1"
    using Cons.prems(3) by (intro unat_increment [where m = "18446744073709551615"]) simp
  obtain es s2 where rest: "select_workers iter digest_bytes as ?s = (es, s2)" by (rule prod.exhaust)
  then have "es = Inr (map (\<lambda>i. snd (ws ! ((unat (next_worker_idx s) + 1 + i) mod length ws))) [0..<length as])"
    using Cons.IH [of ?s] Cons.prems idx by simp
  moreover have "[0..<length (a # as)] = 0 # map Suc [0..<length as]"
    by (simp add: map_Suc_upt upt_conv_Cons del: upt_Suc)
  ultimately show ?case using sel rest by (simp add: bind_io_def comp_def del: upt_Suc)
qed simp

text \<open>Work is spread fairly: as long as the set of workers and its iteration order do not change, any \<open>n\<close>
  consecutive actions, \<open>n\<close> being the number of workers, reach every worker exactly once under the
  round-robin strategy, and under the least-loaded one, which is the same.\<close>

theorem round_robin_fair:
  assumes "sd_strategy s \<in> {SS_RoundRobin, SS_LeastLoaded}" and "iter (worker_endpoints s) = ws"
    and "length actions = length ws" and "ws \<noteq> []" and "unat (next_worker_idx s) + length ws < 2 ^ 64"
  shows "\<exists>es. fst (select_workers iter digest_bytes actions s) = Inr es \<and> mset es = mset (map snd ws)"
proof -
  let ?k = "unat (next_worker_idx s)"
  have "map (\<lambda>i. snd (ws ! ((?k + i) mod length ws))) [0..<length actions] = rotate ?k (map snd ws)"
    using assms(3,4) by (intro nth_equalityI) (simp_all add: nth_rotate)
  moreover have "mset (rotate ?k (map snd ws)) = mset (map snd ws)"
    unfolding rotate_drop_take by (metis append_take_drop_id mset_append union_commute)
  ultimately show ?thesis
    using select_workers_in_turn [where iter = iter and as = actions, OF assms(1,2,4)] assms(3,5) by simp
qed

definition toy_action :: action_request where
  "toy_action = \<lparr>ar_command = [''/bin/sh'', ''-c'', ''make all''], ar_env = [], ar_input_root_digest = \<lparr>cd_hash = ''12345678'', cd_size_bytes = 0\<rparr>,
     ar_timeout_secs = 600, ar_platform_properties = [], ar_output_files = [''o''], ar_output_directories = []\<rparr>"

definition two_workers :: scheduler where
  "two_workers = register_worker ''b'' ''http://b'' (register_worker ''a'' ''http://a'' (scheduler_new SS_RoundRobin))"

theorem round_robin_fair_witness:
  "\<exists>es. fst (select_workers (\<lambda>m. m) (\<lambda>b. b) [toy_action, toy_action] two_workers) = Inr es
     \<and> mset es = mset [''http://a'', ''http://b'']"
proof -
  have "sd_strategy two_workers \<in> {SS_RoundRobin, SS_LeastLoaded}"
    "(\<lambda>m. m) (worker_endpoints two_workers) = [(''a'', ''http://a''), (''b'', ''http://b'')]"
    "length [toy_action, toy_action] = length [(''a'', ''http://a''), (''b'', ''http://b'')]"
    "[(''a'', ''http://a''), (''b'', ''http://b'')] \<noteq> []"
    "unat (next_worker_idx two_workers) + length [(''a'', ''http://a''), (''b'', ''http://b'')] < 2 ^ 64"
    by (simp_all add: two_workers_def register_worker_def scheduler_new_def)
  from round_robin_fair [where iter = "\<lambda>m. m", OF this] show ?thesis by simp
qed

section \<open>Outputs\<close>

lemma on_wk_cache_eq: "on_wk_cache m s = (r, s') \<longleftrightarrow> (\<exists>c. m (wk_cache s) = (r, c) \<and> s' = s\<lparr>wk_cache := c\<rparr>)"
  by (simp add: on_wk_cache_def on_part_eq_iff)

lemma on_wk_host_eq: "on_wk_host m s = (r, s') \<longleftrightarrow> (\<exists>h. m (wk_host s) = (r, h) \<and> s' = s\<lparr>wk_host := h\<rparr>)"
  by (simp add: on_wk_host_def on_part_eq_iff)

lemma with_context_eq: "with_context msg m s = (r, s') \<Longrightarrow> \<exists>r1. m s = (r1, s') \<and> (\<forall>a. r = Inr a \<longrightarrow> r1 = Inr a)"
  by (auto simp: with_context_def split: prod.splits sum.splits)

text \<open>Every reported output is in the local cache of the worker under its digest.\<close>

definition outputs_held :: "worker_env \<Rightarrow> (string, cas_digest) hashmap \<Rightarrow> ('r, 'o) worker_state \<Rightarrow> bool" where
  "outputs_held E out s \<longleftrightarrow> (\<forall>p dg. map_of out p = Some dg \<longrightarrow>
     (\<exists>d. view (wk_cache s) (cd_hash dg) = Some d \<and> we_digest E d = cd_hash dg))"

lemma capture_outputs_held:
  assumes "live (wk_cache s)" and "\<And>d. key_ok (we_digest E d)" and "outputs_held E out s"
    and "capture_outputs E wk dir ps out s = (out', s')"
  shows "outputs_held E out' s'"
  using assms(1,3,4)
proof (induction ps arbitrary: out s)
  case (Cons p ps)
  let ?path = "path_join dir p"
  show ?case
  proof (cases "path_exists (host_fs (wk_host s)) ?path \<and> is_file (host_fs (wk_host s)) ?path")
    case False
    then have "capture_outputs E wk dir ps out s = (out', s')"
      using Cons.prems(3) by (simp only: capture_outputs.simps Let_def if_False)
    then show ?thesis using Cons.IH Cons.prems(1,2) by blast
  next
    case True
    obtain rd s1 where r: "on_wk_host (on_host_fs (read_file ?path)) s = (rd, s1)" by (rule prod.exhaust)
    then have s1: "wk_cache s1 = wk_cache s" by (auto simp: on_wk_host_eq)
    show ?thesis
    proof (cases rd)
      case (Inl e)
      then have "capture_outputs E wk dir ps out s1 = (out', s')" using Cons.prems(3) True r by simp
      then show ?thesis using Cons.IH [of s1 out] Cons.prems(1,2) s1 by (simp add: outputs_held_def)
    next
      case (Inr d)
      let ?put = "put_artifact (we_digest E) (we_index_json E) (we_now E) (wk_remote wk) (we_digest E d) d"
      obtain rp s2 where p: "on_wk_cache ?put s1 = (rp, s2)" by (rule prod.exhaust)
      then obtain c where c: "?put (wk_cache s) = (rp, c)" "s2 = s1\<lparr>wk_cache := c\<rparr>" by (auto simp: on_wk_cache_eq s1)
      have v: "live c" "view c = (view (wk_cache s))(we_digest E d \<mapsto> d)"
        using put_artifact_live [OF Cons.prems(1) assms(2) c(1)] by auto
      have keep: "outputs_held E out s2" using Cons.prems(2) v(2) c(2) by (auto simp: outputs_held_def)
      show ?thesis
      proof (cases rp)
        case (Inl e)
        then have "capture_outputs E wk dir ps out s2 = (out', s')" using Cons.prems(3) True r Inr p by simp
        then show ?thesis using Cons.IH [OF _ keep] v(1) c(2) by simp
      next
        case (Inr u)
        let ?out = "AList.update p \<lparr>cd_hash = we_digest E d, cd_size_bytes = int (length d)\<rparr> out"
        have "capture_outputs E wk dir ps ?out s2 = (out', s')"
          using Cons.prems(3) True r \<open>rd = Inr d\<close> p Inr by simp
        moreover have "outputs_held E ?out s2"
          using keep v(2) c(2) by (auto simp: outputs_held_def update_conv')
        moreover have "live (wk_cache s2)" using v(1) c(2) by simp
        ultimately show ?thesis using Cons.IH [of s2 ?out] by blast
      qed
    qed
  qed
qed simp

lemma worker_get_grown:
  "live c \<Longrightarrow> key_ok h \<Longrightarrow> worker_get E wk h c = (r, c') \<Longrightarrow> live c'"
  using get_artifact_live [of c h] by (auto simp: worker_get_def grown_def)

lemma reconstruct_files_live:
  assumes "live c" and "\<And>f. f \<in> set fl \<Longrightarrow> key_ok (fe_hash f)"
    and "reconstruct_files base (worker_get E wk) fl (s, c) = (r, (s', c'))"
  shows "live c'"
  using assms
proof (induction fl arbitrary: s c)
  case (Cons f fl)
  let ?p = "path_join base (fe_path f)"
  obtain r1 s1 where 1: "(case parent ?p of Some p \<Rightarrow> create_dir_all p | None \<Rightarrow> ret ()) s = (r1, s1)" by (rule prod.exhaust)
  obtain r2 c2 where 2: "worker_get E wk (fe_hash f) c = (r2, c2)" by (rule prod.exhaust)
  have live: "live c2" using worker_get_grown [OF Cons.prems(1) _ 2] Cons.prems(2) by simp
  show ?case
    using Cons.prems(3) 1 2 live Cons.prems(1) Cons.IH [OF live] Cons.prems(2)
    by (auto simp: Let_def bind_io_def on_part_def split: sum.splits option.splits prod.splits)
qed auto

lemma reconstruct_inputs_live:
  assumes "live (wk_cache s)" and "key_ok root"
    and "\<And>d m f. we_parse_manifest E d = Some m \<Longrightarrow> f \<in> set (am_files m) \<Longrightarrow> key_ok (fe_hash f)"
    and "reconstruct_inputs E wk dir root s = (r, s')"
  shows "live (wk_cache s')"
proof -
  obtain g c where g: "worker_get E wk root (wk_cache s) = (g, c)" by (rule prod.exhaust)
  have c: "live c" by (rule worker_get_grown [OF assms(1,2) g])
  have e: "on_wk_cache (worker_get E wk root) s = (g, s\<lparr>wk_cache := c\<rparr>)" using g by (simp add: on_wk_cache_eq)
  show ?thesis
  proof (cases "\<exists>d m. g = Inr (Some d) \<and> we_parse_manifest E d = Some m")
    case True
    then obtain d m where dm: "g = Inr (Some d)" "we_parse_manifest E d = Some m" by blast
    obtain rr f c2 where rec: "reconstruct_files dir (worker_get E wk) (am_files m) (host_fs (wk_host s), c) = (rr, (f, c2))"
      by (metis prod.exhaust)
    have "live c2" by (rule reconstruct_files_live [OF c _ rec]) (rule assms(3) [OF dm(2)])
    then show ?thesis
      using assms(4) e dm rec by (auto simp: reconstruct_inputs_def reconstruct_def with_context_def on_part_def split: sum.splits)
  next
    case False
    then show ?thesis using assms(4) e c by (auto simp: reconstruct_inputs_def split: sum.splits option.splits)
  qed
qed


text \<open>A worker in the directory \<open>w\<close> whose command leaves the file \<open>w/o\<close>.\<close>

definition toy_worker :: "(unit, unit) worker_node" where
  "toy_worker = \<lparr>wk_id = ''a'', wk_remote = None,
     wk_sandbox = local_sandbox (\<lambda>cmd env dir h. (Inr (Some 0, [], []), h\<lparr>host_fs := (host_fs h)\<lparr>files := [(''w/o'', [5])]\<rparr>\<rparr>)) ''w''\<rparr>"

definition toy_worker_env :: worker_env where
  "toy_worker_env = \<lparr>we_digest = (\<lambda>d. ''d''), we_index_json = (\<lambda>t. Some []), we_parse_manifest = (\<lambda>d. None), we_now = 0,
     we_started = 0, we_completed = 1\<rparr>"

definition toy_worker_state :: "(unit, unit) worker_state" where
  "toy_worker_state = \<lparr>wk_cache = \<lparr>hy_local = \<lparr>lc_fs = \<lparr>files = [], dirs = [''c''], faults = []\<rparr>, cache_dir = ''c'', store = [],
     index_path = ''c/index.json''\<rparr>, hy_remote = ()\<rparr>, wk_host = \<lparr>host_fs = \<lparr>files = [], dirs = [''w''], faults = []\<rparr>, host_os = ()\<rparr>\<rparr>"

lemma toy_worker_live: "live (wk_cache toy_worker_state)"
proof -
  have "\<not> is_dir (lc_fs (hy_local (wk_cache toy_worker_state))) (lc_path (hy_local (wk_cache toy_worker_state)) k)" if "key_ok k" for k
    using lc_path_ne [OF that, of "hy_local (wk_cache toy_worker_state)"]
    by (auto simp: toy_worker_state_def is_dir_def lc_path_def artifact_filename_def path_join_def prefix_def)
  then show ?thesis
    by (simp add: live_def lc_live_def lc_ok_def) (simp add: toy_worker_state_def is_dir_def path_join_def prefix_def)
qed


section \<open>The command\<close>

text \<open>Remote execution does not run the node's command: the executor sends \<open>/bin/sh\<close>, \<open>-c\<close> and the command as three
  arguments, the worker joins them by blanks, and its local sandbox hands the joined text to \<open>sh -c\<close> once
  more. Where a local build runs \<open>sh -c\<close> on the command, the worker runs it on the text
  \<open>/bin/sh -c\<close> followed by the unquoted command, whose words after the first are then no part of it.\<close>

theorem remote_command_unquoted:
  assumes "node_kind n = NK_Run"
  shows "local_execute shell env n = run_shell shell env (node_content n)
    \<and> local_execute shell env (action_node (remote_action n)) = run_shell shell env (''/bin/sh -c '' @ node_content n)"
  using assms by (simp add: local_execute_def action_node_def remote_action_def join_with_def)

definition toy_run_node :: node where
  "toy_run_node = \<lparr>node_id = 0, node_name = ''r'', node_content = ''make all'', node_kind = NK_Run, node_hash = ''12345678'',
     node_dirty = True, node_deps = [], node_source_path = None, node_env = [], node_cache_hit = False, node_meta = default_metadata\<rparr>"

theorem remote_command_unquoted_witness:
  "\<forall>h :: unit host.
     local_execute (\<lambda>cmd env dir h. (Inr (Some 0, as_bytes cmd, []), h)) \<lparr>workspace_dir = ''w'', env_vars = []\<rparr>
       (action_node (remote_action toy_run_node)) h
     = (Inr \<lparr>exit_code = 0, exec_stdout = as_bytes ''/bin/sh -c make all'', exec_stderr = []\<rparr>, h)"
proof -
  have k: "node_kind toy_run_node = NK_Run" by (simp add: toy_run_node_def)
  have c: "node_content toy_run_node = ''make all''" by (simp add: toy_run_node_def)
  show ?thesis
    unfolding remote_command_unquoted [OF k, THEN conjunct2] c by (simp add: run_shell_def bind_io_def)
qed

end
