(* ===== verification/Cache_Refinement.thy ===== *)
theory Cache_Refinement
  imports Hybrid_Live
begin

text \<open>
  What the builder may assume of its cache: the two-level cache of \<open>cache/hybrid.rs\<close> implements an abstract
  cache, a map of artifacts with one transition per operation. The abstract cache says nothing of files, layers,
  an index or a remote; a remote may fail or answer anything.
\<close>

section \<open>The abstract cache\<close>

datatype cache_op = Op_put string bytes | Op_get string | Op_prefetch "string list"

datatype cache_answer = Ans_put "unit result" | Ans_get "bytes option result" | Ans_none

type_synonym artifact_map = "string \<Rightarrow> bytes option"

text \<open>A stored artifact replaces what was held, also when the call fails at the remote. A lookup of a held
  artifact returns it and changes nothing. A lookup of another key may find the artifact elsewhere, and then
  holds it, may find nothing, or may fail, with or without holding the artifact. A prefetch adds artifacts only.\<close>

inductive abstract_step :: "artifact_map \<Rightarrow> cache_op \<Rightarrow> cache_answer \<Rightarrow> artifact_map \<Rightarrow> bool" where
  abs_put: "abstract_step m (Op_put k d) (Ans_put r) (m(k \<mapsto> d))"
| abs_hit: "m k = Some d \<Longrightarrow> abstract_step m (Op_get k) (Ans_get (Inr (Some d))) m"
| abs_fetch: "m k = None \<Longrightarrow> abstract_step m (Op_get k) (Ans_get (Inr (Some d))) (m(k \<mapsto> d))"
| abs_miss: "m k = None \<Longrightarrow> abstract_step m (Op_get k) (Ans_get (Inr None)) m"
| abs_fail: "m k = None \<Longrightarrow> m' = m \<or> m' = m(k \<mapsto> d) \<Longrightarrow> abstract_step m (Op_get k) (Ans_get (Inl e)) m'"
| abs_prefetch: "m \<subseteq>\<^sub>m m' \<Longrightarrow> dom m' \<subseteq> dom m \<union> set ks \<Longrightarrow> abstract_step m (Op_prefetch ks) Ans_none m'"

inductive_cases abstract_getE: "abstract_step m (Op_get k) a m'"

inductive abstract_run :: "artifact_map \<Rightarrow> cache_op list \<Rightarrow> cache_answer list \<Rightarrow> artifact_map \<Rightarrow> bool" where
  run_done: "abstract_run m [] [] m"
| run_step: "abstract_step m x a m1 \<Longrightarrow> abstract_run m1 xs as m2 \<Longrightarrow> abstract_run m (x # xs) (a # as) m2"

section \<open>The implementation\<close>

definition concrete_step ::
    "(bytes \<Rightarrow> string) \<Rightarrow> (index \<Rightarrow> bytes option) \<Rightarrow> (string list \<Rightarrow> string list) \<Rightarrow> int \<Rightarrow> 'r remote_cache option \<Rightarrow> cache_op
     \<Rightarrow> 'r hybrid \<Rightarrow> cache_answer \<times> 'r hybrid" where
  "concrete_step digest to_json order now remote x s =
     (case x of
        Op_put k d \<Rightarrow> (case put_artifact digest to_json now remote k d s of (r, s') \<Rightarrow> (Ans_put r, s'))
      | Op_get k \<Rightarrow> (case get_artifact to_json now remote k s of (r, s') \<Rightarrow> (Ans_get r, s'))
      | Op_prefetch ks \<Rightarrow> (Ans_none, prefetch_artifacts order to_json now remote ks s))"

fun concrete_run ::
    "(bytes \<Rightarrow> string) \<Rightarrow> (index \<Rightarrow> bytes option) \<Rightarrow> (string list \<Rightarrow> string list) \<Rightarrow> 'r remote_cache option \<Rightarrow> (int \<times> cache_op) list
     \<Rightarrow> 'r hybrid \<Rightarrow> cache_answer list \<times> 'r hybrid" where
  "concrete_run digest to_json order remote [] s = ([], s)"
| "concrete_run digest to_json order remote ((now, x) # xs) s =
     (case concrete_step digest to_json order now remote x s of (a, s1) \<Rightarrow>
        case concrete_run digest to_json order remote xs s1 of (as, s2) \<Rightarrow> (a # as, s2))"

fun op_keys :: "cache_op \<Rightarrow> string list" where
  "op_keys (Op_put k d) = [k]"
| "op_keys (Op_get k) = [k]"
| "op_keys (Op_prefetch ks) = ks"

section \<open>Simulation\<close>

lemma prefetch_task_live:
  assumes "live s" and "key_ok k" and "prefetch_task to_json now remote k s = (r, s')"
  shows "live s' \<and> (view s' = view s \<or> (\<exists>d. view s' = (view s)(k \<mapsto> d)))"
proof (cases remote)
  case None
  then show ?thesis using assms by (auto simp: prefetch_task_def)
next
  case (Some rc)
  let ?m = "bind_io (on_remote (rc_get rc k)) (\<lambda>r. case r of Some d \<Rightarrow> on_local (lc_put to_json now k d) | None \<Rightarrow> ret ())"
  obtain r1 s1 where m: "?m s = (r1, s1)" by (rule prod.exhaust)
  then have s1: "s' = s1" using assms(3) Some by (auto simp: prefetch_task_def ignore_io_def split: prod.splits)
  from m show ?thesis
  proof (cases rule: bind_io_cases)
    case (Err e)
    then show ?thesis using assms(1) s1 by (auto simp: on_remote_Ok live_def)
  next
    case (Ok x s2)
    then have s2: "live s2" "view s2 = view s" using assms(1) by (auto simp: on_remote_Ok live_def)
    show ?thesis
    proof (cases x)
      case None
      then show ?thesis using Ok s1 s2 by simp
    next
      case (Some d)
      then have "on_local (lc_put to_json now k d) s2 = (r1, s1)" using Ok(2) by simp
      then show ?thesis using put_local_grown [OF s2(1) assms(2)] s1 s2(2) by auto
    qed
  qed
qed

lemma prefetch_tasks_live:
  "live s \<Longrightarrow> list_all key_ok ks \<Longrightarrow>
     let s' = fold (\<lambda>h s. snd (prefetch_task to_json now remote h s)) ks s
     in live s' \<and> (\<forall>k. k \<notin> set ks \<longrightarrow> view s' k = view s k)"
proof (induction ks arbitrary: s)
  case (Cons k ks)
  obtain r s1 where t: "prefetch_task to_json now remote k s = (r, s1)" by (rule prod.exhaust)
  then have "live s1 \<and> (view s1 = view s \<or> (\<exists>d. view s1 = (view s)(k \<mapsto> d)))"
    using prefetch_task_live [OF Cons.prems(1) _ t] Cons.prems(2) by simp
  then show ?case using Cons.IH [of s1] Cons.prems(2) t by (auto simp: Let_def)
qed simp

lemma view_stored: "\<not> lc_exists (hy_local s) k \<Longrightarrow> view s k = None"
  by (simp add: lc_exists_def lc_view_def)

lemma prefetch_refines:
  assumes "live s" and "list_all key_ok ks" and "\<And>xs. set (order xs) \<subseteq> set xs"
  shows "live (prefetch_artifacts order to_json now remote ks s)
    \<and> abstract_step (view s) (Op_prefetch ks) Ans_none (view (prefetch_artifacts order to_json now remote ks s))"
proof -
  define hs where "hs = order (filter (\<lambda>h. \<not> lc_exists (hy_local s) h) ks)"
  define s' where "s' = fold (\<lambda>h s. snd (prefetch_task to_json now remote h s)) hs s"
  have hs: "set hs \<subseteq> {h \<in> set ks. \<not> lc_exists (hy_local s) h}"
    using assms(3) [of "filter (\<lambda>h. \<not> lc_exists (hy_local s) h) ks"] by (auto simp: hs_def)
  then have "list_all key_ok hs" using assms(2) by (auto simp: list_all_iff)
  then have p: "live s'" "\<And>k. k \<notin> set hs \<Longrightarrow> view s' k = view s k"
    using prefetch_tasks_live [OF assms(1), of hs to_json now remote] by (auto simp: s'_def Let_def)
  have "view s \<subseteq>\<^sub>m view s'"
    unfolding map_le_def using p(2) hs view_stored by (metis (mono_tags, lifting) domIff mem_Collect_eq subsetD)
  moreover have "dom (view s') \<subseteq> dom (view s) \<union> set ks"
    using p(2) hs by (fastforce simp: dom_def)
  ultimately show ?thesis using p(1) by (auto simp: prefetch_artifacts_def s'_def hs_def intro: abs_prefetch)
qed

lemma concrete_step_refines:
  assumes "live s" and "list_all key_ok (op_keys x)" and "\<And>xs. set (order xs) \<subseteq> set xs"
    and "concrete_step digest to_json order now remote x s = (a, s')"
  shows "live s' \<and> abstract_step (view s) x a (view s')"
proof (cases x)
  case (Op_put k d)
  then show ?thesis
    using assms put_artifact_live [OF assms(1), of k digest to_json now remote d]
    by (auto simp: concrete_step_def intro: abs_put split: prod.splits)
next
  case (Op_prefetch ks)
  then show ?thesis using assms prefetch_refines [OF assms(1) _ assms(3)] by (auto simp: concrete_step_def)
next
  case (Op_get k)
  then obtain r where g: "get_artifact to_json now remote k s = (r, s')" and a: "a = Ans_get r"
    using assms(4) by (auto simp: concrete_step_def split: prod.splits)
  show ?thesis
  proof (cases "view s k")
    case None
    have "live s'" and "view s' = view s \<and> (r = Inr None \<or> isl r) \<or> (\<exists>d. view s' = (view s)(k \<mapsto> d) \<and> (r = Inr (Some d) \<or> isl r))"
      using get_artifact_missed [OF assms(1) _ None g] assms(2) Op_get by auto
    then show ?thesis
      unfolding Op_get a using None by (cases r) (auto intro: abs_fetch abs_miss abs_fail)
  next
    case (Some d)
    then show ?thesis using g get_artifact_held [OF assms(1) Some] assms(1) by (auto simp: Op_get a intro: abs_hit)
  qed
qed

section \<open>Property\<close>

text \<open>C13. The two-level cache refines the abstract cache: started with a local cache that works, every sequence of
  stores, lookups and prefetches, at any times, with any remote or none and any order of the prefetch tasks, gives
  answers that the abstract cache can give, and ends in a state that stands for the map it ends with. In
  particular a stored artifact is what later lookups return until it is stored again.\<close>

theorem hybrid_refines_map:
  assumes "live s" and "list_all (\<lambda>(now, x). list_all key_ok (op_keys x)) xs" and "\<And>xs. set (order xs) \<subseteq> set xs"
    and "concrete_run digest to_json order remote xs s = (as, s')"
  shows "live s' \<and> abstract_run (view s) (map snd xs) as (view s')"
  using assms(1,2,4)
proof (induction xs arbitrary: s as)
  case (Cons y ys)
  obtain now x where y: "y = (now, x)" by (rule prod.exhaust)
  obtain a s1 where st: "concrete_step digest to_json order now remote x s = (a, s1)" by (rule prod.exhaust)
  obtain bs s2 where rn: "concrete_run digest to_json order remote ys s1 = (bs, s2)" by (rule prod.exhaust)
  have eq: "as = a # bs" "s' = s2" using Cons.prems(3) st rn y by auto
  have one: "live s1" "abstract_step (view s) x a (view s1)"
    using concrete_step_refines [OF Cons.prems(1) _ assms(3) st] Cons.prems(2) y by auto
  have "live s' \<and> abstract_run (view s1) (map snd ys) bs (view s')"
    using Cons.IH [OF one(1) _ rn [folded eq(2)]] Cons.prems(2) by simp
  then show ?case using one(2) y eq(1) by (auto intro: run_step)
qed (auto intro: run_done)

definition empty_hybrid :: "unit hybrid" where
  "empty_hybrid = \<lparr>hy_local = \<lparr>lc_fs = \<lparr>files = [], dirs = [''c''], faults = []\<rparr>, cache_dir = ''c'', store = [], index_path = ''c/index.json''\<rparr>,
     hy_remote = ()\<rparr>"

lemma empty_hybrid_live: "live empty_hybrid"
proof -
  have "\<not> is_dir (lc_fs (hy_local empty_hybrid)) (lc_path (hy_local empty_hybrid) k)" if "key_ok k" for k
    using lc_path_ne [OF that, of "hy_local empty_hybrid"]
    by (auto simp: empty_hybrid_def is_dir_def lc_path_def artifact_filename_def path_join_def prefix_def)
  then show ?thesis
    by (simp add: live_def lc_live_def lc_ok_def) (simp add: empty_hybrid_def is_dir_def path_join_def prefix_def)
qed

theorem hybrid_refines_map_witness:
  "\<exists>m. abstract_run (\<lambda>k. None) [Op_put ''a'' [1], Op_get ''a'', Op_get ''b'', Op_prefetch [''b'']]
     (fst (concrete_run (\<lambda>d. ''d'') (\<lambda>t. Some []) (\<lambda>xs. xs) None
        [(0, Op_put ''a'' [1]), (1, Op_get ''a''), (2, Op_get ''b''), (3, Op_prefetch [''b''])] empty_hybrid)) m"
proof -
  let ?xs = "[(0, Op_put ''a'' [1]), (1, Op_get ''a''), (2, Op_get ''b''), (3, Op_prefetch [''b''])]"
  have k: "list_all (\<lambda>(now, x). list_all key_ok (op_keys x)) ?xs" by (simp add: key_ok_def)
  have v: "view empty_hybrid = (\<lambda>k. None)" by (simp add: lc_view_def empty_hybrid_def fun_eq_iff)
  obtain as s' where r: "concrete_run (\<lambda>d. ''d'') (\<lambda>t. Some []) (\<lambda>xs. xs) None ?xs empty_hybrid = (as, s')"
    by (rule prod.exhaust)
  have "abstract_run (view empty_hybrid) (map snd ?xs) as (view s')"
    using hybrid_refines_map [OF empty_hybrid_live k _ r] by simp
  then show ?thesis unfolding r v by auto
qed

end
