(* ===== verification/Analysis.thy ===== *)
theory Analysis
  imports Graph Files
begin

text \<open>
  \<open>src/src/ai\<close>: the analysis that runs between parsing and change detection. It looks for files a copied source
  file refers to (\<open>ast.rs\<close>) and tunes the metadata of nodes (\<open>optimizer.rs\<close>); \<open>ci.rs\<close> only prints. The first
  groups of the matches of the regular expressions and the iteration order of hash sets are parameters.
\<close>

section \<open>Path names\<close>

definition file_name :: "string \<Rightarrow> string" where
  "file_name p = rev (takeWhile (\<lambda>c. c \<noteq> CHR ''/'') (rev p))"

text \<open>The name up to its last dot and the part after it; a leading dot does not count.\<close>

definition split_extension :: "string \<Rightarrow> string \<times> string option" where
  "split_extension n =
     (if n = ''..'' \<or> CHR ''.'' \<notin> set (tl n) then (n, None)
      else (rev (drop 1 (dropWhile (\<lambda>c. c \<noteq> CHR ''.'') (rev n))), Some (rev (takeWhile (\<lambda>c. c \<noteq> CHR ''.'') (rev n)))))"

definition extension :: "string \<Rightarrow> string option" where
  "extension p = snd (split_extension (file_name p))"

definition with_extension :: "string \<Rightarrow> string \<Rightarrow> string" where
  "with_extension p e =
     (if file_name p = [] \<or> file_name p = ''..'' then p
      else take (length p - length (file_name p)) p @ fst (split_extension (file_name p)) @ ''.'' @ e)"

section \<open>Hidden dependencies\<close>

record analyzer =
  an_js_imports :: "string \<Rightarrow> string list"
  an_js_requires :: "string \<Rightarrow> string list"
  an_rust_mods :: "string \<Rightarrow> string list"
  an_order :: "string list \<Rightarrow> string list"

text \<open>\<open>read_to_string(path).unwrap_or_default()\<close>.\<close>

definition read_or_empty :: "string \<Rightarrow> fs \<Rightarrow> string \<times> fs" where
  "read_or_empty p s = (case read_to_string p s of (Inr t, s') \<Rightarrow> (t, s') | (Inl _, s') \<Rightarrow> ([], s'))"

text \<open>The path is that of a file, so it has a parent.\<close>

definition parent_of :: "string \<Rightarrow> string" where
  "parent_of p = (case parent p of Some q \<Rightarrow> q | None \<Rightarrow> [])"

definition js_target :: "fs \<Rightarrow> string \<Rightarrow> string \<Rightarrow> string" where
  "js_target s path d =
     (let p = path_join (parent_of path) d in
      if path_exists s p then p
      else if path_exists s (with_extension p ''js'') then with_extension p ''js''
      else if path_exists s (with_extension p ''ts'') then with_extension p ''ts''
      else p)"

definition find_js_dependencies :: "analyzer \<Rightarrow> string \<Rightarrow> fs \<Rightarrow> string list \<times> fs" where
  "find_js_dependencies A path s =
     (case read_or_empty path s of (content, s1) \<Rightarrow>
        (map (js_target s1 path)
           (filter (prefix ''.'') (an_order A (remdups (an_js_imports A content @ an_js_requires A content)))), s1))"

definition rust_target :: "fs \<Rightarrow> string \<Rightarrow> string \<Rightarrow> string" where
  "rust_target s path mod_name =
     (let p = path_join (parent_of path) (mod_name @ ''.rs'') in
      if path_exists s p then p else path_join (path_join (parent_of path) mod_name) ''mod.rs'')"

definition find_rust_dependencies :: "analyzer \<Rightarrow> string \<Rightarrow> fs \<Rightarrow> string list \<times> fs" where
  "find_rust_dependencies A path s =
     (case read_or_empty path s of (content, s1) \<Rightarrow>
        (an_order A (remdups (filter (path_exists s1) (map (rust_target s1 path) (an_rust_mods A content)))), s1))"

definition node_extra_deps :: "analyzer \<Rightarrow> string \<Rightarrow> node \<Rightarrow> fs \<Rightarrow> string list \<times> fs" where
  "node_extra_deps A context_dir n s =
     (case node_kind n of
        NK_Copy src _ \<Rightarrow>
          (let full_src = path_join context_dir src in
           if path_exists s full_src \<and> is_file s full_src
           then
             (if extension full_src \<in> Some ` {''js'', ''ts'', ''jsx'', ''tsx''} then find_js_dependencies A full_src s
              else if extension full_src = Some ''rs'' then find_rust_dependencies A full_src s
              else ([], s))
           else ([], s))
      | _ \<Rightarrow> ([], s))"

fun collect_extra_deps :: "analyzer \<Rightarrow> string \<Rightarrow> node list \<Rightarrow> fs \<Rightarrow> (nat \<times> string list) list \<times> fs" where
  "collect_extra_deps A context_dir [] s = ([], s)"
| "collect_extra_deps A context_dir (n # ns) s =
     (case node_extra_deps A context_dir n s of (deps, s1) \<Rightarrow>
        case collect_extra_deps A context_dir ns s1 of (rest, s2) \<Rightarrow>
          (if deps = [] then rest else (node_id n, deps) # rest, s2))"

definition add_extra_deps :: "string list \<Rightarrow> node \<Rightarrow> node" where
  "add_extra_deps deps n =
     n\<lparr>node_meta := (node_meta n)\<lparr>tags := tags (node_meta n) @ map (\<lambda>d. ''deps:'' @ d) deps,
        extra_source_paths := extra_source_paths (node_meta n) @ deps\<rparr>\<rparr>"

definition apply_extra_deps :: "(nat \<times> string list) list \<Rightarrow> node list \<Rightarrow> node list" where
  "apply_extra_deps extra ns =
     fold (\<lambda>(i, deps) ns. if i < length ns then ns[i := add_extra_deps deps (ns ! i)] else ns) extra ns"

definition analyze_dependencies :: "analyzer \<Rightarrow> string \<Rightarrow> build_graph \<Rightarrow> fs \<Rightarrow> build_graph \<times> fs" where
  "analyze_dependencies A context_dir g s =
     (case collect_extra_deps A context_dir (graph_nodes g) s of (extra, s1) \<Rightarrow>
        (g\<lparr>graph_nodes := apply_extra_deps extra (graph_nodes g)\<rparr>, s1))"

section \<open>Tuning\<close>

definition predict_execution_time :: "string \<Rightarrow> u64" where
  "predict_execution_time content =
     (if str_contains ''npm install'' content \<or> str_contains ''cargo build'' content then 60000
      else if str_contains ''test'' content then 30000
      else 5000)"

definition optimize_node :: "node \<Rightarrow> node" where
  "optimize_node n =
     (let m = (if node_kind n = NK_Run \<and> (str_contains ''test'' (node_content n) \<or> str_contains ''build'' (node_content n))
               then (node_meta n)\<lparr>priority := 10, parallelizable := True\<rparr> else node_meta n)
      in n\<lparr>node_meta := m\<lparr>execution_time_ms := Some (predict_execution_time (node_content n))\<rparr>\<rparr>)"

definition optimize_graph :: "build_graph \<Rightarrow> env_fingerprint \<Rightarrow> build_graph" where
  "optimize_graph g env_fp = g\<lparr>graph_nodes := map optimize_node (graph_nodes g)\<rparr>"

definition ai_analyze :: "analyzer \<Rightarrow> env_fingerprint \<Rightarrow> string \<Rightarrow> build_graph \<Rightarrow> fs \<Rightarrow> build_graph \<times> fs" where
  "ai_analyze A env_fp context_dir g s =
     (case analyze_dependencies A context_dir g s of (g1, s1) \<Rightarrow> (optimize_graph g1 env_fp, s1))"

section \<open>The analysis changes metadata only\<close>

text \<open>A node without its metadata.\<close>

definition essence :: "node \<Rightarrow> node" where
  "essence n = n\<lparr>node_meta := default_metadata\<rparr>"

lemma essence_add [simp]: "essence (add_extra_deps deps n) = essence n"
  by (simp add: essence_def add_extra_deps_def)

lemma essence_optimize [simp]: "essence (optimize_node n) = essence n"
  by (simp add: essence_def optimize_node_def Let_def)

lemma essence_fields:
  assumes "essence m = essence n"
  shows "node_id m = node_id n" "node_name m = node_name n" "node_content m = node_content n" "node_kind m = node_kind n"
    "node_hash m = node_hash n" "node_dirty m = node_dirty n" "node_deps m = node_deps n"
    "node_source_path m = node_source_path n" "node_env m = node_env n" "node_cache_hit m = node_cache_hit n"
  using assms by (cases m; cases n; simp add: essence_def)+

lemma apply_extra_deps_essence: "map essence (apply_extra_deps extra ns) = map essence ns"
proof (induction extra arbitrary: ns)
  case (Cons x extra)
  have "map essence (ns[i := add_extra_deps deps (ns ! i)]) = map essence ns" for i deps
    by (cases "i < length ns") (simp_all add: map_update list_update_same_conv list_update_beyond)
  then show ?case using Cons by (cases x) (simp add: apply_extra_deps_def)
qed (simp add: apply_extra_deps_def)

lemma ai_analyze_essence: "map essence (graph_nodes (fst (ai_analyze A env_fp context_dir g s))) = map essence (graph_nodes g)"
  by (simp add: ai_analyze_def analyze_dependencies_def optimize_graph_def apply_extra_deps_essence comp_def split: prod.split)

end
