(* ===== verification/Export.thy ===== *)
theory Export
  imports Graph Files
begin

text \<open>
  \<open>src/src/export\<close>: the OCI image layout written after a build (\<open>mod.rs\<close>, \<open>oci_exporter.rs\<close>, \<open>layer.rs\<close>,
  \<open>config.rs\<close>, \<open>manifest.rs\<close>). SHA-256 with hexadecimal output, the tar archive of one entry, \<open>serde_json\<close> and
  the clock are fields of \<open>export_env\<close>. So is the gzip encoder: of the bytes it makes of a stream, \<open>xe_gz_written\<close>
  are in the file while the encoder is alive, and \<open>xe_gz_rest\<close> follow when it is dropped.
\<close>

section \<open>The documents\<close>

record layer_info =
  li_digest :: string
  li_size :: u64
  li_diff_id :: string

record oci_descriptor =
  od_media_type :: string
  od_digest :: string
  od_size :: u64

record oci_image_config =
  ic_env :: "string list"
  ic_cmd :: "string list option"
  ic_working_dir :: "string option"

record oci_root_fs =
  rf_type :: string
  rf_diff_ids :: "string list"

record oci_history =
  oh_created :: string
  oh_created_by :: string
  oh_empty_layer :: "bool option"

record oci_config =
  oc_architecture :: string
  oc_os :: string
  oc_config :: oci_image_config
  oc_rootfs :: oci_root_fs
  oc_history :: "oci_history list"

record oci_manifest =
  om_schema_version :: u32
  om_media_type :: string
  om_config :: oci_descriptor
  om_layers :: "oci_descriptor list"

record oci_index =
  ox_schema_version :: u32
  ox_manifests :: "oci_descriptor list"

record export_env =
  xe_sha256 :: "bytes \<Rightarrow> string"
  xe_tar :: "string \<Rightarrow> string \<Rightarrow> bytes"
  xe_gz_written :: "bytes \<Rightarrow> bytes"
  xe_gz_rest :: "bytes \<Rightarrow> bytes"
  xe_config_json :: "oci_config \<Rightarrow> string option"
  xe_manifest_json :: "oci_manifest \<Rightarrow> string option"
  xe_index_json :: "oci_index \<Rightarrow> string option"
  xe_now :: string

definition sha256_string :: "export_env \<Rightarrow> string \<Rightarrow> string" where
  "sha256_string E s = xe_sha256 E (as_bytes s)"

definition create_config :: "export_env \<Rightarrow> build_graph \<Rightarrow> layer_info list \<Rightarrow> bool \<Rightarrow> oci_config" where
  "create_config E g layers reproducible =
     (let timestamp = (if reproducible then ''1970-01-01T00:00:00Z'' else xe_now E)
      in \<lparr>oc_architecture = ''amd64'', oc_os = ''linux'',
          oc_config = \<lparr>ic_env = concat (map (\<lambda>n. map (\<lambda>(k, v). k @ ''='' @ v) (node_env n)) (graph_nodes g)),
            ic_cmd = Some [''/bin/sh''], ic_working_dir = Some ''/''\<rparr>,
          oc_rootfs = \<lparr>rf_type = ''layers'', rf_diff_ids = map li_diff_id layers\<rparr>,
          oc_history = map (\<lambda>n. \<lparr>oh_created = timestamp, oh_created_by = ''MemoBuild: '' @ node_name n, oh_empty_layer = Some False\<rparr>)
            (graph_nodes g)\<rparr>)"

section \<open>Layers\<close>

text \<open>The \<open>Debug\<close> text of a \<open>HashMap\<close>.\<close>

definition debug_map :: "(string, string) hashmap \<Rightarrow> string" where
  "debug_map m = ''{'' @ join_with '', '' (map (\<lambda>(k, v). debug_str k @ '': '' @ debug_str v) m) @ ''}''"

definition layer_content :: "node \<Rightarrow> string" where
  "layer_content n =
     ''Node: '' @ node_name n @ [CHR 0x0A] @ ''Hash: '' @ node_hash n @ [CHR 0x0A] @ ''Env: '' @ debug_map (node_env n)"

definition layer_stream :: "export_env \<Rightarrow> node \<Rightarrow> bytes" where
  "layer_stream E n = xe_tar E (''memobuild/node-'' @ show_nat (node_id n) @ ''.txt'') (layer_content n)"

definition blobs_dir :: "string \<Rightarrow> string" where
  "blobs_dir output_dir = path_join (path_join output_dir ''blobs'') ''sha256''"

text \<open>The encoder lives as long as the archive builder, to the end of the function. It writes the rest to the file
  it has open, under whatever name that file has by then, and ignores errors.\<close>

definition drop_encoder :: "string \<Rightarrow> bytes \<Rightarrow> fs \<Rightarrow> fs" where
  "drop_encoder p rest s =
     (case take_fault s of (f, s1) \<Rightarrow>
        case map_of (files s1) p of
          None \<Rightarrow> s1
        | Some d \<Rightarrow>
            s1\<lparr>files := AList.update p (d @ (case f of Fine \<Rightarrow> rest | Short n \<Rightarrow> take n rest | Refused \<Rightarrow> [])) (files s1)\<rparr>)"

text \<open>When writing the archive fails, the encoder's last attempt on drop is taken to fail as well.\<close>

definition create_layer_tar :: "export_env \<Rightarrow> string \<Rightarrow> node \<Rightarrow> (fs, layer_info) io" where
  "create_layer_tar E output_dir n =
     (let layers_dir = blobs_dir output_dir;
          layer_path = path_join layers_dir (''layer-'' @ show_nat (node_id n) @ ''.tar.gz'');
          stream = layer_stream E n
      in bind_io (create_dir_all layers_dir) (\<lambda>_.
         bind_io (write_file layer_path (xe_gz_written E stream)) (\<lambda>_ s.
         case read_file layer_path s of
           (Inl e, s1) \<Rightarrow> (Inl e, drop_encoder layer_path (xe_gz_rest E stream) s1)
         | (Inr d, s1) \<Rightarrow>
             (let digest = ''sha256:'' @ xe_sha256 E d;
                  digest_path = path_join layers_dir (drop 7 digest)
              in case rename_file layer_path digest_path s1 of
                   (Inl e, s2) \<Rightarrow> (Inl e, drop_encoder layer_path (xe_gz_rest E stream) s2)
                 | (Inr _, s2) \<Rightarrow>
                     (Inr \<lparr>li_digest = digest, li_size = of_nat (length d),
                           li_diff_id = ''sha256:'' @ sha256_string E (layer_content n)\<rparr>,
                      drop_encoder digest_path (xe_gz_rest E stream) s2)))))"

section \<open>The exporter\<close>

record oci_exporter =
  oe_output_dir :: string
  oe_layers :: "layer_info list"

definition exporter_new :: "string \<Rightarrow> oci_exporter" where
  "exporter_new output_dir = \<lparr>oe_output_dir = output_dir, oe_layers = []\<rparr>"

definition create_layer :: "export_env \<Rightarrow> oci_exporter \<Rightarrow> node \<Rightarrow> (fs, layer_info) io" where
  "create_layer E ex n = create_layer_tar E (oe_output_dir ex) n"

definition add_layer :: "layer_info \<Rightarrow> oci_exporter \<Rightarrow> oci_exporter" where
  "add_layer li ex = ex\<lparr>oe_layers := oe_layers ex @ [li]\<rparr>"

definition layer_descriptor :: "layer_info \<Rightarrow> oci_descriptor" where
  "layer_descriptor l =
     \<lparr>od_media_type = ''application/vnd.oci.image.layer.v1.tar+gzip'', od_digest = li_digest l, od_size = li_size l\<rparr>"

definition image_manifest :: "export_env \<Rightarrow> string \<Rightarrow> layer_info list \<Rightarrow> oci_manifest" where
  "image_manifest E config_json layers =
     \<lparr>om_schema_version = 2, om_media_type = ''application/vnd.oci.image.manifest.v1+json'',
      om_config = \<lparr>od_media_type = ''application/vnd.oci.image.config.v1+json'',
        od_digest = ''sha256:'' @ sha256_string E config_json, od_size = of_nat (length config_json)\<rparr>,
      om_layers = map layer_descriptor layers\<rparr>"

definition image_index :: "export_env \<Rightarrow> string \<Rightarrow> oci_index" where
  "image_index E manifest_json =
     \<lparr>ox_schema_version = 2, ox_manifests = [\<lparr>od_media_type = ''application/vnd.oci.image.manifest.v1+json'',
        od_digest = ''sha256:'' @ sha256_string E manifest_json, od_size = of_nat (length manifest_json)\<rparr>]\<rparr>"

definition from_json :: "string option \<Rightarrow> ('s, string) io" where
  "from_json j = (case j of None \<Rightarrow> bail ''serde_json'' | Some t \<Rightarrow> ret t)"

definition layout_text :: string where
  "layout_text = ''{'' @ debug_str ''imageLayoutVersion'' @ '': '' @ debug_str ''1.0.0'' @ ''}''"

definition write_manifest :: "export_env \<Rightarrow> oci_exporter \<Rightarrow> build_graph \<Rightarrow> bool \<Rightarrow> (fs, string) io" where
  "write_manifest E ex g reproducible =
     (let dir = oe_output_dir ex; blobs = blobs_dir dir
      in bind_io (create_dir_all dir) (\<lambda>_.
         bind_io (create_dir_all blobs) (\<lambda>_.
         bind_io (from_json (xe_config_json E (create_config E g (oe_layers ex) reproducible))) (\<lambda>config_json.
         bind_io (write_file (path_join blobs (drop 7 (''sha256:'' @ sha256_string E config_json))) (as_bytes config_json)) (\<lambda>_.
         bind_io (from_json (xe_manifest_json E (image_manifest E config_json (oe_layers ex)))) (\<lambda>manifest_json.
         bind_io (write_file (path_join blobs (drop 7 (''sha256:'' @ sha256_string E manifest_json))) (as_bytes manifest_json)) (\<lambda>_.
         bind_io (from_json (xe_index_json E (image_index E manifest_json))) (\<lambda>index_json.
         bind_io (write_file (path_join dir ''index.json'') (as_bytes index_json)) (\<lambda>_.
         bind_io (write_file (path_join dir ''oci-layout'') (as_bytes layout_text)) (\<lambda>_.
         ret dir))))))))))"

fun export_nodes :: "export_env \<Rightarrow> oci_exporter \<Rightarrow> node list \<Rightarrow> (fs, oci_exporter) io" where
  "export_nodes E ex [] = ret ex"
| "export_nodes E ex (n # ns) =
     bind_io (create_layer E ex n) (\<lambda>li. export_nodes E (add_layer li ex) ns)"

definition export_dir :: "string \<Rightarrow> string" where
  "export_dir image_name = path_join ''.memobuild-output'' (map (\<lambda>c. if c = CHR '':'' then CHR ''-'' else c) image_name)"

definition export_image :: "export_env \<Rightarrow> build_graph \<Rightarrow> string \<Rightarrow> bool \<Rightarrow> (fs, string) io" where
  "export_image E g image_name reproducible =
     bind_io (export_nodes E (exporter_new (export_dir image_name)) (graph_nodes g)) (\<lambda>ex.
     write_manifest E ex g reproducible)"

section \<open>Paths of the layout\<close>

definition hex_name :: "string \<Rightarrow> bool" where
  "hex_name h \<longleftrightarrow> h \<noteq> [] \<and> CHR ''/'' \<notin> set h \<and> CHR ''.'' \<notin> set h"

definition plain_dir :: "string \<Rightarrow> bool" where
  "plain_dir d \<longleftrightarrow> d \<noteq> [] \<and> last d \<noteq> CHR ''/''"

lemma blobs_dir_plain: "plain_dir dir \<Longrightarrow> blobs_dir dir = dir @ ''/blobs/sha256''"
  by (simp add: blobs_dir_def path_join_def plain_dir_def prefix_def)

lemma blob_path: "plain_dir dir \<Longrightarrow> hex_name h \<Longrightarrow> path_join (blobs_dir dir) h = dir @ ''/blobs/sha256/'' @ h"
  by (auto simp: blobs_dir_plain path_join_def hex_name_def prefix_def)

lemma layer_file_path:
  "plain_dir dir \<Longrightarrow> path_join (blobs_dir dir) (''layer-'' @ i @ ''.tar.gz'') = dir @ ''/blobs/sha256/layer-'' @ i @ ''.tar.gz''"
  by (simp add: blobs_dir_plain path_join_def prefix_def)

lemma top_file_path: "plain_dir dir \<Longrightarrow> f \<noteq> [] \<Longrightarrow> hd f \<noteq> CHR ''/'' \<Longrightarrow> path_join dir f = dir @ ''/'' @ f"
  by (cases f) (auto simp: path_join_def plain_dir_def prefix_def)

definition blob :: "string \<Rightarrow> fs \<Rightarrow> string \<Rightarrow> bytes option" where
  "blob dir s h = map_of (files s) (dir @ ''/blobs/sha256/'' @ h)"

lemma hex_name_not_layer: "hex_name h \<Longrightarrow> h \<noteq> ''layer-'' @ i @ ''.tar.gz''"
  by (auto simp: hex_name_def)

section \<open>What an export leaves behind\<close>

text \<open>The bytes of a layer's archive that are hashed, and those that end up in its file.\<close>

definition layer_hashed :: "export_env \<Rightarrow> node \<Rightarrow> bytes" where
  "layer_hashed E n = xe_gz_written E (layer_stream E n)"

definition layer_stored :: "export_env \<Rightarrow> node \<Rightarrow> bytes" where
  "layer_stored E n = layer_hashed E n @ xe_gz_rest E (layer_stream E n)"

definition info_of :: "export_env \<Rightarrow> node \<Rightarrow> layer_info" where
  "info_of E n = \<lparr>li_digest = ''sha256:'' @ xe_sha256 E (layer_hashed E n), li_size = of_nat (length (layer_hashed E n)),
     li_diff_id = ''sha256:'' @ sha256_string E (layer_content n)\<rparr>"

lemma drop_encoder_done:
  "faults s = [] \<Longrightarrow> map_of (files s) p = Some d \<Longrightarrow>
     faults (drop_encoder p rest s) = [] \<and> map_of (files (drop_encoder p rest s)) = (map_of (files s))(p \<mapsto> d @ rest)"
  by (simp add: drop_encoder_def update_conv')

lemma create_layer_tar_done:
  assumes "faults s = []" and "plain_dir dir" and "\<And>d. hex_name (xe_sha256 E d)"
    and "create_layer_tar E dir n s = (Inr li, s')"
  shows "faults s' = [] \<and> li = info_of E n
    \<and> (\<forall>h. hex_name h \<longrightarrow> blob dir s' h = ((blob dir s)(xe_sha256 E (layer_hashed E n) \<mapsto> layer_stored E n)) h)"
proof -
  define lp where "lp = path_join (blobs_dir dir) (''layer-'' @ show_nat (node_id n) @ ''.tar.gz'')"
  define w where "w = layer_hashed E n"
  define bp where "bp = path_join (blobs_dir dir) (xe_sha256 E w)"
  obtain u1 s1 u2 s2 where 1: "create_dir_all (blobs_dir dir) s = (Inr u1, s1)" and 2: "write_file lp w s1 = (Inr u2, s2)"
    and 3: "(case read_file lp s2 of
           (Inl e, s1) \<Rightarrow> (Inl e, drop_encoder lp (xe_gz_rest E (layer_stream E n)) s1)
         | (Inr d, s1) \<Rightarrow>
             (let digest = ''sha256:'' @ xe_sha256 E d;
                  digest_path = path_join (blobs_dir dir) (drop 7 digest)
              in case rename_file lp digest_path s1 of
                   (Inl e, s2) \<Rightarrow> (Inl e, drop_encoder lp (xe_gz_rest E (layer_stream E n)) s2)
                 | (Inr _, s2) \<Rightarrow>
                     (Inr \<lparr>li_digest = digest, li_size = of_nat (length d),
                           li_diff_id = ''sha256:'' @ sha256_string E (layer_content n)\<rparr>,
                      drop_encoder digest_path (xe_gz_rest E (layer_stream E n)) s2))) = (Inr li, s')"
    using assms(4) unfolding create_layer_tar_def Let_def lp_def w_def layer_hashed_def bind_io_Ok_iff by (elim exE conjE)
  note s1 = create_dir_all_done [OF assms(1) 1]
  note s2 = write_file_done [OF conjunct1 [OF s1] 2]
  then have rd: "read_file lp s2 = (Inr w, s2)" by (simp add: read_file_present)
  obtain u3 s3 where 4: "rename_file lp bp s2 = (Inr u3, s3)" and li: "li = info_of E n"
    and s': "s' = drop_encoder bp (xe_gz_rest E (layer_stream E n)) s3"
    using 3 rd by (auto simp: Let_def bp_def info_of_def w_def split: prod.splits sum.splits)
  have s3: "faults s3 = []" "map_of (files s3) = ((map_of (files s2))(lp := None))(bp \<mapsto> w)"
    using rename_file_done [OF _ 4] s2 by auto
  then have s'_files: "faults s' = []" "map_of (files s') = ((map_of (files s2))(lp := None))(bp \<mapsto> layer_stored E n)"
    using drop_encoder_done [of s3 bp w] s' by (auto simp: layer_stored_def w_def)
  have lp: "lp = dir @ ''/blobs/sha256/'' @ ''layer-'' @ show_nat (node_id n) @ ''.tar.gz''"
    unfolding lp_def using layer_file_path [OF assms(2)] by simp
  have bp: "bp = dir @ ''/blobs/sha256/'' @ xe_sha256 E w"
    unfolding bp_def by (rule blob_path [OF assms(2,3)])
  have "blob dir s' h = ((blob dir s)(xe_sha256 E w \<mapsto> layer_stored E n)) h" if "hex_name h" for h
  proof -
    have "dir @ ''/blobs/sha256/'' @ h \<noteq> lp" using hex_name_not_layer [OF that] by (simp add: lp)
    moreover have "dir @ ''/blobs/sha256/'' @ h = bp \<longleftrightarrow> h = xe_sha256 E w" by (simp add: bp)
    ultimately show ?thesis using s'_files(2) s2 s1 by (simp add: blob_def)
  qed
  with li s'_files(1) show ?thesis by (simp add: w_def)
qed

text \<open>The layers are written one after the other.\<close>

definition stored_layers :: "export_env \<Rightarrow> node list \<Rightarrow> (string \<Rightarrow> bytes option) \<Rightarrow> string \<Rightarrow> bytes option" where
  "stored_layers E ns m = fold (\<lambda>n m. m(xe_sha256 E (layer_hashed E n) \<mapsto> layer_stored E n)) ns m"

lemma stored_layers_simps [simp]:
  "stored_layers E [] m = m"
  "stored_layers E (n # ns) m = stored_layers E ns (m(xe_sha256 E (layer_hashed E n) \<mapsto> layer_stored E n))"
  by (simp_all add: stored_layers_def)

lemma stored_layers_cong: "m h = m' h \<Longrightarrow> stored_layers E ns m h = stored_layers E ns m' h"
proof (induction ns arbitrary: m m')
  case (Cons n ns)
  show ?case unfolding stored_layers_simps by (rule Cons.IH) (simp add: Cons.prems)
qed simp

lemma export_nodes_done:
  assumes "faults s = []" and "plain_dir (oe_output_dir ex)" and "\<And>d. hex_name (xe_sha256 E d)"
    and "export_nodes E ex ns s = (Inr ex', s')"
  shows "faults s' = [] \<and> ex' = ex\<lparr>oe_layers := oe_layers ex @ map (info_of E) ns\<rparr>
    \<and> (\<forall>h. hex_name h \<longrightarrow> blob (oe_output_dir ex) s' h = stored_layers E ns (blob (oe_output_dir ex) s) h)"
  using assms(1,2,4)
proof (induction ns arbitrary: s ex)
  case (Cons n ns)
  then obtain li s1 where c: "create_layer_tar E (oe_output_dir ex) n s = (Inr li, s1)"
    and r: "export_nodes E (add_layer li ex) ns s1 = (Inr ex', s')"
    by (auto simp: bind_io_Ok_iff create_layer_def)
  note one = create_layer_tar_done [OF Cons.prems(1,2) assms(3) c]
  have "faults s' = [] \<and> ex' = (add_layer li ex)\<lparr>oe_layers := oe_layers (add_layer li ex) @ map (info_of E) ns\<rparr>
    \<and> (\<forall>h. hex_name h \<longrightarrow> blob (oe_output_dir ex) s' h = stored_layers E ns (blob (oe_output_dir ex) s1) h)"
    using Cons.IH [OF _ _ r] one Cons.prems(2) by (simp add: add_layer_def)
  moreover have "stored_layers E ns (blob (oe_output_dir ex) s1) h = stored_layers E (n # ns) (blob (oe_output_dir ex) s) h"
    if "hex_name h" for h
    unfolding stored_layers_simps by (rule stored_layers_cong) (use one that in blast)
  ultimately show ?case using one by (auto simp: add_layer_def)
qed auto

lemma from_json_Ok: "from_json j s = (Inr t, s') \<longleftrightarrow> j = Some t \<and> s' = s"
  by (auto simp: from_json_def split: option.splits)

lemma write_manifest_done:
  assumes "faults s = []" and "plain_dir (oe_output_dir ex)" and "\<And>d. hex_name (xe_sha256 E d)"
    and "write_manifest E ex g r s = (Inr out, s')"
  obtains cj mj xj where "out = oe_output_dir ex"
    "xe_config_json E (create_config E g (oe_layers ex) r) = Some cj"
    "xe_manifest_json E (image_manifest E cj (oe_layers ex)) = Some mj"
    "xe_index_json E (image_index E mj) = Some xj"
    "map_of (files s') (out @ ''/index.json'') = Some (as_bytes xj)"
    "map_of (files s') (out @ ''/oci-layout'') = Some (as_bytes layout_text)"
    "\<And>h. hex_name h \<Longrightarrow> blob out s' h
       = ((blob out s)(sha256_string E cj \<mapsto> as_bytes cj, sha256_string E mj \<mapsto> as_bytes mj)) h"
proof -
  define dir where "dir = oe_output_dir ex"
  have plain: "plain_dir dir" using assms(2) by (simp add: dir_def)
  have hex: "hex_name (sha256_string E t)" for t unfolding sha256_string_def by (rule assms(3))
  obtain s1 s2 cj s4 mj s6 xj s8 where
    1: "create_dir_all dir s = (Inr (), s1)" and 2: "create_dir_all (blobs_dir dir) s1 = (Inr (), s2)"
    and cj: "xe_config_json E (create_config E g (oe_layers ex) r) = Some cj"
    and 4: "write_file (path_join (blobs_dir dir) (sha256_string E cj)) (as_bytes cj) s2 = (Inr (), s4)"
    and mj: "xe_manifest_json E (image_manifest E cj (oe_layers ex)) = Some mj"
    and 6: "write_file (path_join (blobs_dir dir) (sha256_string E mj)) (as_bytes mj) s4 = (Inr (), s6)"
    and xj: "xe_index_json E (image_index E mj) = Some xj"
    and 8: "write_file (path_join dir ''index.json'') (as_bytes xj) s6 = (Inr (), s8)"
    and 9: "write_file (path_join dir ''oci-layout'') (as_bytes layout_text) s8 = (Inr (), s')" and out: "out = dir"
    using assms(4) unfolding write_manifest_def Let_def dir_def [symmetric]
    by (auto simp: bind_io_Ok_iff from_json_Ok)
  note s1 = create_dir_all_done [OF assms(1) 1]
  note s2 = create_dir_all_done [OF conjunct1 [OF s1] 2]
  note s4 = write_file_done [OF conjunct1 [OF s2] 4 [unfolded blob_path [OF plain hex]]]
  note s6 = write_file_done [OF conjunct1 [OF s4] 6 [unfolded blob_path [OF plain hex]]]
  have top: "path_join dir ''index.json'' = dir @ ''/index.json''" "path_join dir ''oci-layout'' = dir @ ''/oci-layout''"
    using plain by (simp_all add: top_file_path)
  note s8 = write_file_done [OF conjunct1 [OF s6] 8 [unfolded top]]
  note s9 = write_file_done [OF conjunct1 [OF s8] 9 [unfolded top]]
  have blobs: "blob dir s' h = ((blob dir s)(sha256_string E cj \<mapsto> as_bytes cj, sha256_string E mj \<mapsto> as_bytes mj)) h" for h
  proof -
    have "blob dir s' h = blob dir s6 h" using s8 s9 by (simp add: blob_def)
    also have "\<dots> = ((blob dir s4)(sha256_string E mj \<mapsto> as_bytes mj)) h" using s6 by (simp add: blob_def)
    also have "blob dir s4 = (blob dir s)(sha256_string E cj \<mapsto> as_bytes cj)"
      using s4 s2 s1 by (simp add: blob_def fun_eq_iff)
    finally show ?thesis .
  qed
  show thesis
    by (rule that [of cj mj xj]) (use out cj mj xj s8 s9 blobs in \<open>simp_all add: dir_def\<close>)
qed

section \<open>An export goes through\<close>

text \<open>Nothing is in the way of a layout in \<open>dir\<close>: no fault, no file where a directory is needed and no directory
  where a file is written.\<close>

definition clear :: "string \<Rightarrow> fs \<Rightarrow> bool" where
  "clear dir s \<longleftrightarrow> plain_dir dir \<and> faults s = [] \<and> \<not> list_ex (is_file s) (ancestors (blobs_dir dir))
     \<and> (\<forall>n. file_name_ok n \<longrightarrow> \<not> is_dir s (path_join (blobs_dir dir) n))
     \<and> \<not> is_dir s (path_join dir ''index.json'') \<and> \<not> is_dir s (path_join dir ''oci-layout'')"

lemma blobs_dir_facts:
  assumes "plain_dir dir"
  shows "blobs_dir dir \<noteq> []" "last (blobs_dir dir) \<noteq> CHR ''/''"
    "set (ancestors dir) \<subseteq> set (ancestors (blobs_dir dir))"
  using assms by (auto simp: blobs_dir_plain ancestors_def in_set_prefixes prefix_def plain_dir_def nth_append)

lemma below_blobs: "plain_dir dir \<Longrightarrow> file_name_ok n \<Longrightarrow> path_join (blobs_dir dir) n = blobs_dir dir @ CHR ''/'' # n"
  using blobs_dir_facts [of dir] by (intro in_dir_path)

lemma not_ancestor:
  assumes "plain_dir dir"
  shows "file_name_ok n \<Longrightarrow> path_join (blobs_dir dir) n \<notin> set (ancestors (blobs_dir dir))"
    "path_join dir ''index.json'' \<notin> set (ancestors (blobs_dir dir))"
    "path_join dir ''oci-layout'' \<notin> set (ancestors (blobs_dir dir))"
  using assms ancestors_length [of "path_join (blobs_dir dir) n" "blobs_dir dir"]
  by (auto simp: below_blobs top_file_path) (auto simp: ancestors_def in_set_prefixes blobs_dir_plain prefix_def)

lemma clear_mkdir:
  assumes "clear dir s" and "set (ancestors p) \<subseteq> set (ancestors (blobs_dir dir))" and "p \<noteq> []"
  shows "\<exists>s'. create_dir_all p s = (Inr (), s') \<and> clear dir s' \<and> is_dir s' p \<and> (\<forall>q. is_dir s q \<longrightarrow> is_dir s' q)"
proof -
  let ?s = "s\<lparr>dirs := dirs s @ ancestors p\<rparr>"
  have plain: "plain_dir dir" using assms(1) by (simp add: clear_def)
  have "create_dir_all p s = (Inr (), ?s)"
    using assms(1,2) by (intro create_dir_all_fine) (auto simp: clear_def list_ex_iff)
  moreover have "clear dir ?s"
    using assms(1,2) not_ancestor [OF plain]
    unfolding clear_def is_dir_def list_ex_iff is_file_def by (auto simp: is_file_def)
  moreover have "is_dir ?s p" using self_ancestor [OF assms(3)] by (simp add: is_dir_def)
  ultimately show ?thesis by (auto simp: is_dir_def)
qed

lemma clear_files:
  assumes "clear dir s" and "\<And>p. p \<in> set (ancestors (blobs_dir dir)) \<Longrightarrow> map_of (files s) p = None \<Longrightarrow> map_of fl p = None"
  shows "clear dir (s\<lparr>files := fl\<rparr>)"
  using assms by (auto simp: clear_def is_dir_def is_file_def list_ex_iff)

lemma create_layer_tar_succeeds:
  assumes "clear dir s" and "\<And>d. hex_name (xe_sha256 E d)"
  shows "\<exists>li s'. create_layer_tar E dir n s = (Inr li, s') \<and> clear dir s'"
proof -
  have plain: "plain_dir dir" using assms(1) by (simp add: clear_def)
  note bd = blobs_dir_facts [OF plain]
  define lp where "lp = ''layer-'' @ show_nat (node_id n) @ ''.tar.gz''"
  let ?bp = "xe_sha256 E (layer_hashed E n)"
  have names: "file_name_ok lp" "file_name_ok ?bp"
    using show_nat_plain [of "node_id n"] assms(2) by (auto simp: lp_def file_name_ok_def hex_name_def)
  obtain s1 where 1: "create_dir_all (blobs_dir dir) s = (Inr (), s1)" "clear dir s1" "is_dir s1 (blobs_dir dir)"
    using clear_mkdir [OF assms(1), of "blobs_dir dir"] bd(1) by blast
  let ?s2 = "s1\<lparr>files := AList.update (path_join (blobs_dir dir) lp) (layer_hashed E n) (files s1)\<rparr>"
  have 2: "write_file (path_join (blobs_dir dir) lp) (layer_hashed E n) s1 = (Inr (), ?s2)"
    using 1 names(1) bd by (intro write_in_dir) (auto simp: clear_def)
  have c2: "clear dir ?s2"
    by (rule clear_files [OF 1(2)]) (use not_ancestor(1) [OF plain names(1)] in \<open>auto simp: update_conv' split: if_splits\<close>)
  have 3: "read_file (path_join (blobs_dir dir) lp) ?s2 = (Inr (layer_hashed E n), ?s2)"
    using c2 by (intro read_file_present) (auto simp: clear_def update_conv')
  let ?s3 = "?s2\<lparr>files := AList.update (path_join (blobs_dir dir) ?bp) (layer_hashed E n) (AList.delete (path_join (blobs_dir dir) lp) (files ?s2))\<rparr>"
  have 4: "rename_file (path_join (blobs_dir dir) lp) (path_join (blobs_dir dir) ?bp) ?s2 = (Inr (), ?s3)"
    using c2 1(3) names(2) bd by (intro rename_in_dir) (auto simp: clear_def update_conv' is_dir_def)
  have c3: "clear dir ?s3"
    by (rule clear_files [OF c2]) (use not_ancestor(1) [OF plain names(2)] in \<open>auto simp: update_conv' delete_conv' split: if_splits\<close>)
  have c4: "clear dir (drop_encoder (path_join (blobs_dir dir) ?bp) rest ?s3)" for rest
    using c3 not_ancestor(1) [OF plain names(2)]
    unfolding drop_encoder_def
    by (auto simp: clear_def update_conv' is_dir_def is_file_def list_ex_iff split: option.splits)
  show ?thesis
    unfolding create_layer_tar_def Let_def layer_hashed_def [symmetric] lp_def [symmetric]
    using 1(1) 2 3 4 c4 by simp
qed

lemma export_nodes_succeeds:
  assumes "clear (oe_output_dir ex) s" and "\<And>d. hex_name (xe_sha256 E d)"
  shows "\<exists>ex' s'. export_nodes E ex ns s = (Inr ex', s') \<and> clear (oe_output_dir ex) s' \<and> oe_output_dir ex' = oe_output_dir ex"
  using assms(1)
proof (induction ns arbitrary: ex s)
  case (Cons n ns)
  obtain li s1 where 1: "create_layer_tar E (oe_output_dir ex) n s = (Inr li, s1)" "clear (oe_output_dir ex) s1"
    using create_layer_tar_succeeds [OF Cons.prems assms(2)] by blast
  then show ?case using Cons.IH [of "add_layer li ex" s1] by (auto simp: create_layer_def add_layer_def)
qed simp

lemma write_blob_clear:
  assumes "clear dir s" and "is_dir s (blobs_dir dir)" and "hex_name h"
  shows "\<exists>s'. write_file (path_join (blobs_dir dir) h) d s = (Inr (), s') \<and> clear dir s' \<and> dirs s' = dirs s"
proof -
  have plain: "plain_dir dir" using assms(1) by (simp add: clear_def)
  have name: "file_name_ok h" using assms(3) by (simp add: hex_name_def file_name_ok_def)
  let ?s = "s\<lparr>files := AList.update (path_join (blobs_dir dir) h) d (files s)\<rparr>"
  have "write_file (path_join (blobs_dir dir) h) d s = (Inr (), ?s)"
    using assms(1,2) name blobs_dir_facts [OF plain] by (intro write_in_dir) (auto simp: clear_def)
  moreover have "clear dir ?s"
    by (rule clear_files [OF assms(1)]) (use not_ancestor(1) [OF plain name] in \<open>auto simp: update_conv' split: if_splits\<close>)
  ultimately show ?thesis by auto
qed

lemma write_top_clear:
  assumes "clear dir s" and "is_dir s dir" and "f \<in> {''index.json'', ''oci-layout''}"
  shows "\<exists>s'. write_file (path_join dir f) d s = (Inr (), s') \<and> clear dir s' \<and> dirs s' = dirs s"
proof -
  have plain: "plain_dir dir" using assms(1) by (simp add: clear_def)
  let ?s = "s\<lparr>files := AList.update (path_join dir f) d (files s)\<rparr>"
  have "write_file (path_join dir f) d s = (Inr (), ?s)"
    using assms plain by (intro write_in_dir) (auto simp: clear_def file_name_ok_def plain_dir_def)
  moreover have "path_join dir f \<notin> set (ancestors (blobs_dir dir))" using not_ancestor(2,3) [OF plain] assms(3) by auto
  then have "clear dir ?s"
    by (intro clear_files [OF assms(1)]) (auto simp: update_conv' split: if_splits)
  ultimately show ?thesis by auto
qed

text \<open>JSON printing of the three documents does not fail.\<close>

definition prints_json :: "export_env \<Rightarrow> bool" where
  "prints_json E \<longleftrightarrow> (\<forall>c. xe_config_json E c \<noteq> None) \<and> (\<forall>m. xe_manifest_json E m \<noteq> None) \<and> (\<forall>i. xe_index_json E i \<noteq> None)"

lemma export_image_succeeds:
  assumes "clear (export_dir image_name) s" and "\<And>d. hex_name (xe_sha256 E d)" and "prints_json E"
  shows "\<exists>s'. export_image E g image_name reproducible s = (Inr (export_dir image_name), s')"
proof -
  let ?dir = "export_dir image_name"
  obtain ex s1 where n: "export_nodes E (exporter_new ?dir) (graph_nodes g) s = (Inr ex, s1)" "clear ?dir s1" "oe_output_dir ex = ?dir"
    using export_nodes_succeeds [of "exporter_new ?dir" s E "graph_nodes g"] assms(1,2) by (auto simp: exporter_new_def)
  have plain: "plain_dir ?dir" using assms(1) by (simp add: clear_def)
  note bd = blobs_dir_facts [OF plain]
  have hex: "hex_name (sha256_string E t)" for t unfolding sha256_string_def by (rule assms(2))
  obtain s2 where 2: "create_dir_all ?dir s1 = (Inr (), s2)" "clear ?dir s2" "is_dir s2 ?dir"
    using clear_mkdir [OF n(2) bd(3)] plain by (auto simp: plain_dir_def)
  obtain s3 where 3: "create_dir_all (blobs_dir ?dir) s2 = (Inr (), s3)" "clear ?dir s3" "is_dir s3 (blobs_dir ?dir)" "is_dir s3 ?dir"
    using clear_mkdir [OF 2(2), of "blobs_dir ?dir"] bd(1) 2(3) by blast
  obtain cj where cj: "xe_config_json E (create_config E g (oe_layers ex) reproducible) = Some cj" using assms(3) unfolding prints_json_def by blast
  obtain mj where mj: "xe_manifest_json E (image_manifest E cj (oe_layers ex)) = Some mj" using assms(3) unfolding prints_json_def by blast
  obtain xj where xj: "xe_index_json E (image_index E mj) = Some xj" using assms(3) unfolding prints_json_def by blast
  obtain s4 where 4: "write_file (path_join (blobs_dir ?dir) (sha256_string E cj)) (as_bytes cj) s3 = (Inr (), s4)" "clear ?dir s4" "dirs s4 = dirs s3"
    using write_blob_clear [OF 3(2,3) hex] by blast
  have "is_dir s4 (blobs_dir ?dir)" using 4(3) 3(3) by (simp add: is_dir_def)
  then obtain s5 where 5: "write_file (path_join (blobs_dir ?dir) (sha256_string E mj)) (as_bytes mj) s4 = (Inr (), s5)" "clear ?dir s5" "dirs s5 = dirs s3"
    using write_blob_clear [OF 4(2) _ hex] 4(3) by metis
  have "is_dir s5 ?dir" using 5(3) 3(4) by (simp add: is_dir_def)
  then obtain s6 where 6: "write_file (path_join ?dir ''index.json'') (as_bytes xj) s5 = (Inr (), s6)" "clear ?dir s6" "dirs s6 = dirs s3"
    using write_top_clear [OF 5(2)] 5(3) by (metis insertI1)
  have "is_dir s6 ?dir" using 6(3) 3(4) by (simp add: is_dir_def)
  then obtain s7 where 7: "write_file (path_join ?dir ''oci-layout'') (as_bytes layout_text) s6 = (Inr (), s7)"
    using write_top_clear [OF 6(2)] by (metis insertI1 insertI2)
  show ?thesis
    using n(1,3) 2(1) 3(1) cj 4(1) mj 5(1) xj 6(1) 7
    by (simp add: export_image_def write_manifest_def Let_def from_json_def)
qed

section \<open>Properties\<close>

lemma export_image_done:
  assumes "faults s = []" and "plain_dir (export_dir image_name)" and "\<And>d. hex_name (xe_sha256 E d)"
    and "export_image E g image_name reproducible s = (Inr out, s')"
  obtains cj mj xj where "out = export_dir image_name"
    "xe_config_json E (create_config E g (map (info_of E) (graph_nodes g)) reproducible) = Some cj"
    "xe_manifest_json E (image_manifest E cj (map (info_of E) (graph_nodes g))) = Some mj"
    "xe_index_json E (image_index E mj) = Some xj"
    "map_of (files s') (out @ ''/index.json'') = Some (as_bytes xj)"
    "map_of (files s') (out @ ''/oci-layout'') = Some (as_bytes layout_text)"
    "\<And>h. hex_name h \<Longrightarrow> blob out s' h =
       ((stored_layers E (graph_nodes g) (blob out s))(sha256_string E cj \<mapsto> as_bytes cj, sha256_string E mj \<mapsto> as_bytes mj)) h"
proof -
  let ?ex = "exporter_new (export_dir image_name)"
  have plain: "plain_dir (oe_output_dir ?ex)"
    using assms(2) by (simp add: exporter_new_def)
  obtain ex s1 where n: "export_nodes E ?ex (graph_nodes g) s = (Inr ex, s1)" and w: "write_manifest E ex g reproducible s1 = (Inr out, s')"
    using assms(4) unfolding export_image_def bind_io_Ok_iff by blast
  note nodes = export_nodes_done [OF assms(1) plain assms(3) n]
  then have ex: "oe_output_dir ex = export_dir image_name" "oe_layers ex = map (info_of E) (graph_nodes g)"
    by (simp_all add: exporter_new_def)
  have s1: "blob (export_dir image_name) s1 h = stored_layers E (graph_nodes g) (blob (export_dir image_name) s) h" if "hex_name h" for h
    using nodes that by (simp add: exporter_new_def)
  show thesis
  proof (rule write_manifest_done [OF _ _ assms(3) w], goal_cases)
    case (3 cj mj xj)
    then show ?case using that [of cj mj xj] ex s1 by simp
  qed (use nodes plain in \<open>simp_all add: exporter_new_def\<close>)
qed

text \<open>C19. The layout an export leaves: when no fault occurs, nothing is in the way of the files and the documents can be
  printed, an export succeeds. It has then written \<open>index.json\<close>, which names the manifest, \<open>oci-layout\<close>, and, under
  the digests of their contents, the manifest and the configuration; the manifest names the configuration and one
  layer per node, in the order of the nodes. The blobs are exactly those that were there, the layers' files, the
  configuration and the manifest, later ones replacing earlier ones of the same name. A layer is named by the
  digest of what the gzip encoder had written by then, its file holds what the encoder wrote until it was dropped.\<close>

theorem exported_layout:
  assumes "clear (export_dir image_name) s" and "\<And>d. hex_name (xe_sha256 E d)" and "prints_json E"
  shows "\<exists>s' cj mj xj. let layers = map (info_of E) (graph_nodes g); out = export_dir image_name in
      export_image E g image_name reproducible s = (Inr out, s')
    \<and> xe_config_json E (create_config E g layers reproducible) = Some cj
    \<and> xe_manifest_json E (image_manifest E cj layers) = Some mj
    \<and> xe_index_json E (image_index E mj) = Some xj
    \<and> map_of (files s') (out @ ''/index.json'') = Some (as_bytes xj)
    \<and> map_of (files s') (out @ ''/oci-layout'') = Some (as_bytes layout_text)
    \<and> (\<forall>h. hex_name h \<longrightarrow> blob out s' h =
          ((stored_layers E (graph_nodes g) (blob out s))(sha256_string E cj \<mapsto> as_bytes cj, sha256_string E mj \<mapsto> as_bytes mj)) h)"
proof -
  obtain s' where run: "export_image E g image_name reproducible s = (Inr (export_dir image_name), s')"
    using export_image_succeeds [OF assms] by blast
  have "faults s = []" "plain_dir (export_dir image_name)" using assms(1) by (simp_all add: clear_def)
  then show ?thesis
  proof (rule export_image_done [OF _ _ assms(2) run], goal_cases)
    case (1 cj mj xj)
    then show ?case using run
      by (intro exI [of _ s'] exI [of _ cj] exI [of _ mj] exI [of _ xj]) (simp add: Let_def)
  qed
qed

text \<open>C25. Images lose their layers: the file is read and renamed before the encoder is dropped. A gzip encoder that holds
  short streams back has written no more than its header by then, so all layers of an image get the digest of
  the header. The file of that name then holds the archive of the last node only, the others are lost, and its
  contents do not have the digest it is named by.\<close>

theorem exported_layers_collapse:
  assumes "faults s = []" and "plain_dir (export_dir image_name)" and "\<And>d. hex_name (xe_sha256 E d)"
    and "export_image E g image_name reproducible s = (Inr out, s')"
    and "graph_nodes g \<noteq> []" and "\<And>n. n \<in> set (graph_nodes g) \<Longrightarrow> xe_gz_written E (layer_stream E n) = header"
    and "xe_gz_rest E (layer_stream E (last (graph_nodes g))) \<noteq> []"
    and "inj (xe_sha256 E)" and "\<And>c j. xe_config_json E c = Some j \<Longrightarrow> as_bytes j \<noteq> header"
    and "\<And>m j. xe_manifest_json E m = Some j \<Longrightarrow> as_bytes j \<noteq> header"
  shows "(\<forall>n \<in> set (graph_nodes g). li_digest (info_of E n) = ''sha256:'' @ xe_sha256 E header)
    \<and> blob out s' (xe_sha256 E header) = Some (layer_stored E (last (graph_nodes g)))
    \<and> xe_sha256 E (layer_stored E (last (graph_nodes g))) \<noteq> xe_sha256 E header"
proof -
  have h: "layer_hashed E n = header" if "n \<in> set (graph_nodes g)" for n
    using assms(6) [OF that] by (simp add: layer_hashed_def)
  have last: "stored_layers E ns m (xe_sha256 E header) = Some (layer_stored E (last ns))"
    if "ns \<noteq> []" "\<And>n. n \<in> set ns \<Longrightarrow> layer_hashed E n = header" for ns m
    using that by (induction ns arbitrary: m) auto
  have "blob out s' (xe_sha256 E header) = Some (layer_stored E (last (graph_nodes g)))"
  proof (rule export_image_done [OF assms(1-4)], goal_cases)
    case (1 cj mj xj)
    have "sha256_string E cj \<noteq> xe_sha256 E header" "sha256_string E mj \<noteq> xe_sha256 E header"
      using assms(9) [OF 1(2)] assms(10) [OF 1(3)] injD [OF assms(8)] by (auto simp: sha256_string_def)
    then show ?case using 1(7) [OF assms(3)] last [OF assms(5) h] by simp
  qed
  moreover have "layer_stored E (last (graph_nodes g)) \<noteq> header"
    using h [of "last (graph_nodes g)"] assms(5,7) by (simp add: layer_stored_def)
  ultimately show ?thesis using h injD [OF assms(8)] by (auto simp: info_of_def)
qed

section \<open>Witnesses\<close>

definition toy_sha :: "bytes \<Rightarrow> string" where
  "toy_sha d = CHR ''x'' # concat (map (\<lambda>b. [digit_char (unat b div 100), digit_char (unat b div 10 mod 10), digit_char (unat b mod 10)]) d)"

lemma byte_digits: "unat (b :: byte) div 100 < 10"
  using unsigned_less [where 'a = nat, of b] by simp

lemma toy_sha_Cons: "toy_sha (b # d) = CHR ''x'' # digit_char (unat b div 100) # digit_char (unat b div 10 mod 10)
    # digit_char (unat b mod 10) # tl (toy_sha d)"
  by (simp add: toy_sha_def)

lemma toy_sha_hex: "hex_name (toy_sha d)"
proof (induction d)
  case (Cons b d)
  have "CHR ''/'' \<notin> set (tl (toy_sha d)) \<and> CHR ''.'' \<notin> set (tl (toy_sha d))"
    using Cons by (cases "toy_sha d") (auto simp: hex_name_def)
  then show ?case using byte_digits [of b] unfolding toy_sha_Cons hex_name_def by simp
qed (simp add: toy_sha_def hex_name_def)

lemma three_digits: "(n :: nat) = 100 * (n div 100) + 10 * (n div 10 mod 10) + n mod 10"
proof -
  have "n div 100 = n div 10 div 10" using div_mult2_eq [of n 10 10] by simp
  then show ?thesis using mult_div_mod_eq [of 10 n] mult_div_mod_eq [of 10 "n div 10"] by linarith
qed

lemma toy_sha_inj: "inj toy_sha"
proof (rule injI)
  fix d e :: bytes assume "toy_sha d = toy_sha e"
  then show "d = e"
  proof (induction d arbitrary: e)
    case Nil
    then show ?case by (cases e) (simp_all add: toy_sha_def)
  next
    case (Cons b d)
    then obtain c e' where e: "e = c # e'" by (cases e) (simp_all add: toy_sha_def)
    have 1: "unat b div 100 = unat c div 100"
      by (rule digit_char_inj [OF byte_digits byte_digits]) (use Cons.prems in \<open>simp add: e toy_sha_Cons\<close>)
    have 2: "unat b div 10 mod 10 = unat c div 10 mod 10"
      by (rule digit_char_inj) (use Cons.prems in \<open>simp_all add: e toy_sha_Cons\<close>)
    have 3: "unat b mod 10 = unat c mod 10"
      by (rule digit_char_inj) (use Cons.prems in \<open>simp_all add: e toy_sha_Cons\<close>)
    have "unat b = unat c"
      using three_digits [of "unat b"] three_digits [of "unat c"] unfolding 1 2 3 by (rule trans [OF _ sym])
    moreover have "toy_sha d = toy_sha e'" using Cons.prems by (simp add: e toy_sha_def)
    ultimately show ?case using Cons.IH by (simp add: e word_unat_eq_iff)
  qed
qed

definition toy_export :: export_env where
  "toy_export = \<lparr>xe_sha256 = toy_sha, xe_tar = (\<lambda>name content. [1]), xe_gz_written = (\<lambda>d. [31, 139]),
     xe_gz_rest = (\<lambda>d. 0 # d), xe_config_json = (\<lambda>c. Some ''c''), xe_manifest_json = (\<lambda>m. Some ''m''), xe_index_json = (\<lambda>i. Some ''i''),
     xe_now = ''now''\<rparr>"

definition toy_image :: build_graph where
  "toy_image = \<lparr>graph_nodes = map (\<lambda>i. \<lparr>node_id = i, node_name = ''n'', node_content = [], node_kind = NK_Run, node_hash = ''h'',
     node_dirty = True, node_deps = [], node_source_path = None, node_env = [], node_cache_hit = False, node_meta = default_metadata\<rparr>) [0, 1]\<rparr>"

definition no_files :: fs where
  "no_files = \<lparr>files = [], dirs = [], faults = []\<rparr>"

lemma empty_clear:
  assumes "plain_dir dir"
  shows "clear dir no_files"
proof -
  have "path_join (blobs_dir dir) n \<noteq> []" "path_join (blobs_dir dir) n \<noteq> ''/''" if "file_name_ok n" for n
    using below_blobs [OF assms(1) that] blobs_dir_plain [OF assms(1)] by auto
  moreover have "path_join dir f \<noteq> [] \<and> path_join dir f \<noteq> ''/''" if "f \<noteq> []" "hd f \<noteq> CHR ''/''" for f
    using top_file_path [OF assms(1) that] assms(1) by (auto simp: plain_dir_def append_eq_Cons_conv)
  ultimately show ?thesis
    using assms(1) by (auto simp: clear_def no_files_def is_dir_def is_file_def list_ex_iff)
qed

lemma toy_clear: "clear (export_dir ''i'') no_files"
  by (rule empty_clear) (simp add: export_dir_def path_join_def plain_dir_def prefix_def)

lemma toy_export_sha: "hex_name (xe_sha256 toy_export d)"
  by (simp add: toy_export_def toy_sha_hex)

lemma toy_prints: "prints_json toy_export"
  by (simp add: prints_json_def toy_export_def)

theorem exported_layout_witness:
  "\<exists>s'. export_image toy_export toy_image ''i'' True no_files = (Inr ''.memobuild-output/i'', s')
     \<and> map_of (files s') ''.memobuild-output/i/index.json'' = Some (as_bytes ''i'')"
proof -
  have dir: "export_dir ''i'' = ''.memobuild-output/i''" by (simp add: export_dir_def path_join_def prefix_def)
  show ?thesis
    using exported_layout [OF toy_clear toy_export_sha toy_prints, of toy_image True]
    unfolding dir by (auto simp: Let_def toy_export_def)
qed

theorem exported_layers_collapse_witness:
  "\<exists>s'. export_image toy_export toy_image ''i'' True no_files = (Inr (export_dir ''i''), s')
     \<and> blob (export_dir ''i'') s' (toy_sha [31, 139]) = Some (layer_stored toy_export (graph_nodes toy_image ! 1))"
proof -
  obtain s' where run: "export_image toy_export toy_image ''i'' True no_files = (Inr (export_dir ''i''), s')"
    using export_image_succeeds [OF toy_clear toy_export_sha toy_prints] by blast
  have clear: "faults no_files = []" "plain_dir (export_dir ''i'')" using toy_clear by (simp_all add: clear_def)
  have "blob (export_dir ''i'') s' (xe_sha256 toy_export [31, 139]) = Some (layer_stored toy_export (last (graph_nodes toy_image)))"
    by (rule exported_layers_collapse [OF clear toy_export_sha run, THEN conjunct2, THEN conjunct1])
      (auto simp: toy_export_def toy_image_def toy_sha_inj as_bytes_def)
  then show ?thesis using run by (simp add: toy_export_def toy_image_def)
qed

end
