(* ===== verification/Pipeline.thy ===== *)
theory Pipeline
  imports Core Docker Analysis Incremental Export
begin

text \<open>
  \<open>src/src/main.rs\<close>: the commands \<open>graph\<close> and \<open>explain-cache\<close> and the part of \<open>build\<close> up to the export of the image
  (\<open>build_image\<close>; \<open>Commands\<close> adds the rest), which put the components together. The model is that of a call without
  \<open>--remote-exec\<close> and \<open>--sandbox\<close>; the audit log \<open>build\<close> writes to is dropped when it ends. The cache directory and the
  host the commands run on are apart.
\<close>

section \<open>Preparing the graph\<close>

record pipeline =
  pl_blake3 :: "bytes \<Rightarrow> string"
  pl_iter :: "(string \<times> nat) list \<Rightarrow> (string \<times> nat) list"
  pl_analyzer :: analyzer

text \<open>What \<open>build\<close> and \<open>explain-cache\<close> do to a Dockerfile before they use the hashes.\<close>

definition prepare :: "pipeline \<Rightarrow> env_fingerprint \<Rightarrow> string \<Rightarrow> string \<Rightarrow> fs \<Rightarrow> build_graph \<times> fs" where
  "prepare P env_fp context_dir dockerfile s =
     (let graph = build_graph_from_instructions (pl_iter P) (parse_dockerfile dockerfile) context_dir
      in case ai_analyze (pl_analyzer P) env_fp context_dir graph s of
           (g, s1) \<Rightarrow> (compute_composite_hashes (pl_blake3 P) (propagate_dirty (detect_changes g)) env_fp, s1))"

section \<open>The command \<open>graph\<close>\<close>

record graph_line =
  gl_name :: string
  gl_id :: nat
  gl_deps :: "string list"

definition run_graph :: "pipeline \<Rightarrow> string \<Rightarrow> string \<Rightarrow> (fs, graph_line list) io" where
  "run_graph P context_dir dockerfile_path =
     bind_io (read_to_string dockerfile_path) (\<lambda>dockerfile.
     let g = build_graph_from_instructions (pl_iter P) (parse_dockerfile dockerfile) context_dir
     in ret (map (\<lambda>n. \<lparr>gl_name = node_name n, gl_id = node_id n,
                      gl_deps = map (\<lambda>i. node_name (graph_nodes g ! i)) (node_deps n)\<rparr>) (graph_nodes g)))"

section \<open>The command \<open>explain-cache\<close>\<close>

record explanation =
  en_name :: string
  en_id :: nat
  en_cached :: bool
  en_hash :: string
  en_dirty_deps :: "string list"
  en_reasons :: "string list"

definition explain_node :: "local_cache \<Rightarrow> build_graph \<Rightarrow> node \<Rightarrow> explanation" where
  "explain_node c g n =
     (let is_cached = lc_exists c (node_hash n);
          dirty_deps = (if is_cached then []
            else map (\<lambda>i. node_name (graph_nodes g ! i)) (filter (\<lambda>i. \<not> lc_exists c (node_hash (graph_nodes g ! i))) (node_deps n)))
      in \<lparr>en_name = node_name n, en_id = node_id n, en_cached = is_cached, en_hash = node_hash n, en_dirty_deps = dirty_deps,
          en_reasons =
            (if is_cached then []
             else (if node_source_path n \<noteq> None then [''Source files changed or untracked''] else [])
                @ (if extra_source_paths (node_meta n) \<noteq> [] then [''AI-detected dependencies changed''] else [])
                @ (if dirty_deps \<noteq> [] then [''Dependencies are dirty (recursive)''] else []))\<rparr>)"

definition explains :: "string option \<Rightarrow> node \<Rightarrow> bool" where
  "explains target_node n =
     (case target_node of None \<Rightarrow> True | Some t \<Rightarrow> str_contains t (node_name n) \<or> show_nat (node_id n) = t)"

definition explain_cache :: "local_cache \<Rightarrow> build_graph \<Rightarrow> string option \<Rightarrow> explanation list" where
  "explain_cache c g target_node = map (explain_node c g) (filter (explains target_node) (graph_nodes g))"

text \<open>The command works on the host and on the cache directory, which it opens.\<close>

record 'o session =
  se_cache_fs :: fs
  se_host :: "'o host"

record ('o, 'v) build_system =
  bs_pipeline :: pipeline
  bs_env_fp :: env_fingerprint
  bs_externals :: externals
  bs_export :: export_env
  bs_shell :: "'o shell"
  bs_index_of_json :: "bytes \<Rightarrow> index option"
  bs_var :: "string \<Rightarrow> string option"
  bs_current_dir :: "string option"
  bs_order :: "string list \<Rightarrow> string list"
  bs_sched :: "nat \<Rightarrow> nat list"

definition create_cache :: "('o, 'v) build_system \<Rightarrow> fs \<Rightarrow> unit hybrid result" where
  "create_cache B s = (case lc_new (bs_index_of_json B) (bs_var B) s of Inl e \<Rightarrow> Inl e | Inr c \<Rightarrow> Inr \<lparr>hy_local = c, hy_remote = ()\<rparr>)"

definition run_explain_cache ::
    "('o, 'v) build_system \<Rightarrow> string \<Rightarrow> string \<Rightarrow> string option \<Rightarrow> ('o session, explanation list) io" where
  "run_explain_cache B context_dir dockerfile_path target_node s =
     (case create_cache B (se_cache_fs s) of
        Inl e \<Rightarrow> (Inl e, s)
      | Inr cache \<Rightarrow>
          (let s1 = s\<lparr>se_cache_fs := lc_fs (hy_local cache)\<rparr> in
           case read_to_string dockerfile_path (host_fs (se_host s1)) of
             (Inl e, f) \<Rightarrow> (Inl e, s1\<lparr>se_host := (se_host s1)\<lparr>host_fs := f\<rparr>\<rparr>)
           | (Inr dockerfile, f) \<Rightarrow>
               (case prepare (bs_pipeline B) (bs_env_fp B) context_dir dockerfile f of
                  (g, f1) \<Rightarrow> (Inr (explain_cache (hy_local cache) g target_node), s1\<lparr>se_host := (se_host s1)\<lparr>host_fs := f1\<rparr>\<rparr>))))"

section \<open>The command \<open>build\<close>\<close>

text \<open>The cache has no remote, so the manifests are not uploaded and the prefetch tasks end at once.\<close>

definition build_executor :: "('o, 'v) build_system \<Rightarrow> bool \<Rightarrow> bool \<Rightarrow> string \<Rightarrow> (unit, 'o host) executor" where
  "build_executor B reproducible dry_run context_dir =
     with_sandbox (local_sandbox (bs_shell B) context_dir)
       (with_dry_run dry_run (with_reproducible reproducible (new_executor (bs_shell B) (bs_current_dir B) None)))"

definition start_build :: "build_graph \<Rightarrow> (unit, 'o host) world \<Rightarrow> (unit, 'o host) build" where
  "start_build g w = \<lparr>b_graph = g, b_stats = default_stats, b_world = w\<rparr>"

definition build_image ::
    "('o, 'v) build_system \<Rightarrow> (node_metadata \<Rightarrow> 'v) \<Rightarrow> string \<Rightarrow> string \<Rightarrow> bool \<Rightarrow> bool \<Rightarrow> ('o session, string) io" where
  "build_image B to_value context_dir dockerfile_path reproducible dry_run s =
     (case create_cache B (se_cache_fs s) of
        Inl e \<Rightarrow> (Inl e, s)
      | Inr cache \<Rightarrow>
          (let s1 = s\<lparr>se_cache_fs := lc_fs (hy_local cache)\<rparr> in
           case read_to_string dockerfile_path (host_fs (se_host s1)) of
             (Inl e, f) \<Rightarrow> (Inl (Err (''Failed to read Dockerfile at '' @ dockerfile_path)), s1\<lparr>se_host := (se_host s1)\<lparr>host_fs := f\<rparr>\<rparr>)
           | (Inr dockerfile, f) \<Rightarrow>
               (case prepare (bs_pipeline B) (bs_env_fp B) context_dir dockerfile f of
                  (g0, f1) \<Rightarrow>
                    (let (g, manifests) = propagate_manifests to_value g0;
                         dirty = length (filter node_dirty (graph_nodes g));
                         X = bs_externals B;
                         cache1 = (if dirty > 0
                           then prefetch_artifacts (bs_order B) (xt_index_json X) (xt_now X) None (map node_hash (filter node_dirty (graph_nodes g))) cache
                           else cache);
                         w = \<lparr>w_cache = cache1, w_box = (se_host s1)\<lparr>host_fs := f1\<rparr>, w_events = []\<rparr>
                     in case execute X (build_executor B reproducible dry_run context_dir) (bs_sched B) (start_build g w) of
                          (r, b) \<Rightarrow>
                            (let s2 = \<lparr>se_cache_fs = lc_fs (hy_local (w_cache (b_world b))), se_host = w_box (b_world b)\<rparr> in
                             case r of
                               Inl e \<Rightarrow> (Inl e, s2)
                             | Inr stats \<Rightarrow>
                                 (case export_image (bs_export B) (b_graph b) ''memobuild-demo:latest'' reproducible (host_fs (se_host s2)) of
                                    (out, f2) \<Rightarrow> (out, s2\<lparr>se_host := (se_host s2)\<lparr>host_fs := f2\<rparr>\<rparr>)))))))"

end
