(* ===== verification/Build_Invariant.thy ===== *)
theory Build_Invariant
  imports Incremental
begin

text \<open>
  What holds of the world through a whole build, also one that fails: the locale \<open>build_invariant\<close> asks that the
  four things the executor of \<open>Executor\<close> does to the world keep it. It is interpreted on the local cache of the
  driver, which stays one that a later process can open, and on the set of nodes that were never touched.
\<close>

section \<open>Invariants of a build\<close>

locale build_invariant =
  fixes X :: externals and ex :: "('r, 'w) executor"
    and I :: "('r, 'w) world \<Rightarrow> bool" and P :: "nat \<Rightarrow> node \<Rightarrow> bool"
  assumes emitting: "I w \<Longrightarrow> I (emit ex ev w)"
    and looking: "I w \<Longrightarrow> P i n \<Longrightarrow> I (snd (check_cache X ex n w))"
    and running: "I w \<Longrightarrow> P i n \<Longrightarrow> I (snd (run_node X ex n w))"
    and storing: "I w \<Longrightarrow> P i n \<Longrightarrow> I (store_artifact X ex n d w)"
    and marking: "P i n \<Longrightarrow> P i (mark_node X i r n)"
begin

lemma task_step_inv: "I w \<Longrightarrow> P (t_id t) (t_node t) \<Longrightarrow> I (snd (task_step X ex t w)) \<and> P (t_id (fst (task_step X ex t w))) (t_node (fst (task_step X ex t w)))"
  using looking [of "emit ex (NodeStarted (t_id t) (node_name (t_node t))) w" "t_id t" "t_node t"]
    running [of w "t_id t" "t_node t"]
  by (auto simp: task_step_def settle_def emitting storing split: phase.splits prod.splits option.splits sum.splits)

lemma run_to_end_inv: "I w \<Longrightarrow> P (t_id t) (t_node t) \<Longrightarrow> I (snd (run_to_end X ex t w)) \<and> P (t_id (fst (run_to_end X ex t w))) (t_node (fst (run_to_end X ex t w)))"
  unfolding run_to_end_def using task_step_inv by (auto simp: case_prod_beta)

lemma finish_tasks_inv:
  "I w \<Longrightarrow> list_all (\<lambda>t. P (t_id t) (t_node t)) ts \<Longrightarrow> I (snd (finish_tasks X ex ts w))"
proof (induction ts arbitrary: w)
  case (Cons t ts)
  then show ?case using run_to_end_inv [of w t] by (simp add: case_prod_beta)
qed simp

lemma join_all_inv:
  "I w \<Longrightarrow> list_all (\<lambda>t. P (t_id t) (t_node t)) ts \<Longrightarrow> I (snd (join_all X ex sched ts w))"
proof (induction sched arbitrary: ts w)
  case Nil
  then show ?case by (simp add: finish_tasks_inv)
next
  case (Cons i sched)
  show ?case
  proof (cases "i < length ts")
    case True
    then have "I (snd (task_step X ex (ts ! i) w)) \<and> P (t_id (fst (task_step X ex (ts ! i) w))) (t_node (fst (task_step X ex (ts ! i) w)))"
      using Cons.prems by (intro task_step_inv) (simp_all add: list_all_length)
    moreover from this have "list_all (\<lambda>t. P (t_id t) (t_node t)) (ts[i := fst (task_step X ex (ts ! i) w)])"
      using Cons.prems(2) True by (auto simp: list_all_length nth_list_update)
    ultimately show ?thesis using Cons.IH True by (simp add: case_prod_beta)
  qed (use Cons in simp)
qed

definition sound :: "nat \<Rightarrow> ('r, 'w) build \<Rightarrow> bool" where
  "sound k b \<longleftrightarrow> I (b_world b) \<and> (\<forall>i < length (bnodes b). P i (bnodes b ! i)) \<and> length (bnodes b) = k"

lemma apply_result_inv:
  assumes "sound k b"
  shows "sound k (snd (apply_result X i r b))"
proof -
  have "P j ((bnodes b)[i := mark_node X i x (bnodes b ! i)] ! j)" if "j < k" for x j
    using assms that by (cases "i < length (bnodes b)") (auto simp: sound_def nth_list_update marking)
  then show ?thesis using assms by (auto simp: sound_def apply_result_def Let_def split: sum.split)
qed

lemma apply_results_inv: "sound k b \<Longrightarrow> sound k (snd (apply_results X ts b))"
  by (induction ts arbitrary: b) (auto intro!: bind_io_keeps [where Q = "sound k"] apply_result_inv)

lemma parallel_inv:
  assumes "sound k b" and "\<forall>i \<in> set ids. i < k"
  shows "sound k (snd (execute_parallel_nodes X ex sched ids b))"
proof -
  have "I (snd (join_all X ex sched (map (make_task (b_graph b)) ids) (b_world b)))"
    using assms by (intro join_all_inv) (auto simp: sound_def list_all_length make_task_def)
  then have "sound k (b\<lparr>b_world := snd (join_all X ex sched (map (make_task (b_graph b)) ids) (b_world b))\<rparr>)"
    using assms by (simp add: sound_def)
  then show ?thesis by (simp add: execute_parallel_nodes_def case_prod_beta apply_results_inv)
qed

lemma node_logic_inv:
  assumes "I w" and "P i n"
  shows "I (snd (execute_node_logic X ex n w))"
  using looking [OF assms] running [OF _ assms(2), of "snd (check_cache X ex n w)"]
    storing [OF _ assms(2), where w = "snd (run_node X ex n (snd (check_cache X ex n w)))"]
  by (auto simp: execute_node_logic_def split: prod.splits option.splits sum.splits)

lemma one_inv:
  assumes "sound k b" and "i < k"
  shows "sound k (snd (execute_one X ex i b))"
proof -
  let ?n = "bnodes b ! i"
  have "I (snd (execute_node_logic X ex ?n (emit ex (NodeStarted i (node_name ?n)) (b_world b))))"
    using assms by (intro node_logic_inv) (auto simp: sound_def list_all_length emitting)
  then show ?thesis
    using assms unfolding execute_one_def Let_def case_prod_beta
    by (intro apply_result_inv) (simp add: sound_def emitting)
qed

lemma sequential_inv:
  "sound k b \<Longrightarrow> \<forall>i \<in> set ids. i < k \<Longrightarrow> sound k (snd (execute_sequential_nodes X ex ids b))"
  by (induction ids arbitrary: b) (auto intro!: bind_io_keeps [where Q = "sound k"] one_inv)

lemma level_inv: "sound k b \<Longrightarrow> \<forall>i \<in> set l. i < k \<Longrightarrow> sound k (snd (execute_level X ex sched l b))"
  by (auto simp: execute_level_def Let_def simp del: filter_empty_conv
      intro!: bind_io_keeps [where Q = "sound k"] parallel_inv sequential_inv)

lemma run_levels_inv:
  "sound k b \<Longrightarrow> \<forall>i \<in> set (concat ls). i < k \<Longrightarrow> sound k (snd (run_levels X ex sched j ls b))"
  by (induction ls arbitrary: b j) (auto intro!: bind_io_keeps [where Q = "sound k"] level_inv)

lemma execute_keeps:
  assumes "I (b_world b)" and "\<forall>i < length (bnodes b). P i (bnodes b ! i)"
  shows "sound (length (bnodes b)) (snd (execute X ex sched b))"
proof -
  let ?k = "length (bnodes b)"
  have "sound ?k (started X ex b)" using assms by (simp add: sound_def started_def emitting)
  moreover have "\<forall>i \<in> set (concat (levels (b_graph b))). i < ?k"
    by (simp only: set_levels atLeastLessThan_iff) simp
  ultimately have s: "sound ?k (snd (run_levels X ex sched 0 (levels (b_graph b)) (started X ex b)))"
    by (rule run_levels_inv)
  obtain r b2 where r: "run_levels X ex sched 0 (levels (b_graph b)) (started X ex b) = (r, b2)" by (rule prod.exhaust)
  then show ?thesis
    using s by (cases r) (simp_all add: execute_def started_def Let_def sound_def emitting)
qed

end

section \<open>Builds whose commands succeed\<close>

text \<open>Nothing but a command can make a build fail: errors of the cache are taken for misses, and what it cannot store is
  dropped.\<close>

definition not_failed :: "task \<Rightarrow> bool" where
  "not_failed t \<longleftrightarrow> (\<forall>e. t_phase t \<noteq> P_Done (Inl e))"

lemma check_cache_Inr:
  assumes "check_cache X ex n w = (Some r, w')"
  shows "\<exists>x. r = Inr x"
proof -
  obtain g w1 where "on_cache (get_artifact (xt_index_json X) (xt_now X) (ex_remote_cache ex) (node_hash n)) w = (g, w1)"
    by (rule prod.exhaust)
  then show ?thesis using assms by (cases g rule: sum.exhaust) (auto simp: check_cache_def split: option.splits if_splits)
qed

lemma apply_results_succeed:
  "list_all is_done ts \<Longrightarrow> list_all not_failed ts \<Longrightarrow> \<exists>b'. apply_results X ts b = (Inr (), b')"
proof (induction ts arbitrary: b)
  case (Cons t ts)
  obtain x where x: "t_phase t = P_Done (Inr x)"
  proof (cases "t_phase t")
    case (P_Done r)
    then show thesis using Cons.prems(2) that by (cases r) (simp_all add: not_failed_def)
  qed (use Cons.prems(1) in \<open>simp_all add: is_done_def\<close>)
  obtain b1 where "apply_result X (t_id t) (Inr x) b = (Inr (), b1)" by (simp add: apply_result_def Let_def)
  with Cons x show ?case by simp
qed simp

locale build_succeeds = build_invariant +
  assumes succeeding: "I w \<Longrightarrow> P i n \<Longrightarrow> \<not> isl (fst (run_node X ex n w))"
begin

lemma task_step_ok:
  assumes "I w" and "P (t_id t) (t_node t)" and "not_failed t"
  shows "not_failed (fst (task_step X ex t w))"
proof (cases "t_phase t")
  case P_Lookup
  obtain res w1 where "check_cache X ex (t_node t) (emit ex (NodeStarted (t_id t) (node_name (t_node t))) w) = (res, w1)"
    by (rule prod.exhaust)
  then show ?thesis
    using P_Lookup check_cache_Inr by (cases res) (fastforce simp: task_step_def settle_def not_failed_def)+
next
  case P_Run
  obtain res w1 where "run_node X ex (t_node t) w = (res, w1)" by (rule prod.exhaust)
  then show ?thesis
    using P_Run succeeding [OF assms(1,2)] by (cases res) (simp_all add: task_step_def settle_def not_failed_def)
qed (use assms(3) in \<open>simp_all add: task_step_def settle_def not_failed_def\<close>)

abbreviation fine :: "task \<Rightarrow> bool" where
  "fine t \<equiv> P (t_id t) (t_node t) \<and> not_failed t"

lemma task_step_fine: "I w \<Longrightarrow> fine t \<Longrightarrow> I (snd (task_step X ex t w)) \<and> fine (fst (task_step X ex t w))"
  using task_step_inv task_step_ok by blast

lemma run_to_end_fine: "I w \<Longrightarrow> fine t \<Longrightarrow> I (snd (run_to_end X ex t w)) \<and> fine (fst (run_to_end X ex t w))"
  unfolding run_to_end_def by (simp add: case_prod_beta task_step_fine)

lemma finish_tasks_fine: "I w \<Longrightarrow> list_all fine ts \<Longrightarrow> list_all fine (fst (finish_tasks X ex ts w))"
proof (induction ts arbitrary: w)
  case (Cons t ts)
  then show ?case using run_to_end_fine [of w t] by (simp add: case_prod_beta)
qed simp

lemma join_all_fine: "I w \<Longrightarrow> list_all fine ts \<Longrightarrow> list_all fine (fst (join_all X ex sched ts w))"
proof (induction sched arbitrary: ts w)
  case Nil
  then show ?case by (simp add: finish_tasks_fine)
next
  case (Cons i sched)
  show ?case
  proof (cases "i < length ts")
    case True
    then have "I (snd (task_step X ex (ts ! i) w)) \<and> fine (fst (task_step X ex (ts ! i) w))"
      using Cons.prems by (intro task_step_fine) (simp_all add: list_all_length)
    moreover from this have "list_all fine (ts[i := fst (task_step X ex (ts ! i) w)])"
      using Cons.prems(2) True by (auto simp: list_all_length nth_list_update)
    ultimately show ?thesis using Cons.IH True by (simp add: case_prod_beta)
  qed (use Cons in simp)
qed

lemma parallel_ok:
  assumes "sound k b" and "\<forall>i \<in> set ids. i < k"
  shows "\<exists>b'. execute_parallel_nodes X ex sched ids b = (Inr (), b')"
proof -
  let ?ts = "fst (join_all X ex sched (map (make_task (b_graph b)) ids) (b_world b))"
  have "list_all fine ?ts"
    using assms by (intro join_all_fine) (auto simp: sound_def list_all_length make_task_def not_failed_def)
  then have "list_all not_failed ?ts" by (simp add: list_all_length)
  then show ?thesis
    using apply_results_succeed [OF conjunct1 [OF join_all_done]] by (simp add: execute_parallel_nodes_def case_prod_beta)
qed

lemma one_ok:
  assumes "sound k b" and "i < k"
  shows "\<exists>b'. execute_one X ex i b = (Inr (), b')"
proof -
  let ?n = "bnodes b ! i"
  let ?w = "emit ex (NodeStarted i (node_name ?n)) (b_world b)"
  have p: "I ?w" "P i ?n" using assms by (auto simp: sound_def emitting)
  have "\<exists>x w. execute_node_logic X ex ?n ?w = (Inr x, w)"
    using looking [OF p] succeeding [OF _ p(2), of "snd (check_cache X ex ?n ?w)"]
    by (auto simp: execute_node_logic_def isl_def split: prod.splits option.splits sum.splits dest: check_cache_Inr)
  then show ?thesis by (auto simp: execute_one_def Let_def apply_result_def)
qed

lemma sequential_ok:
  assumes "sound k b" and "\<forall>i \<in> set ids. i < k"
  shows "\<exists>b'. execute_sequential_nodes X ex ids b = (Inr (), b')"
  using assms
proof (induction ids arbitrary: b)
  case (Cons i ids)
  then obtain b1 where 1: "execute_one X ex i b = (Inr (), b1)" using one_ok by force
  then have "sound k b1" using one_inv [of k b i] Cons.prems by simp
  then show ?case using Cons 1 by simp
qed simp

lemma level_ok:
  assumes "sound k b" and "\<forall>i \<in> set l. i < k"
  shows "\<exists>b'. execute_level X ex sched l b = (Inr (), b')"
proof -
  define par where "par = (\<lambda>i. parallelizable (node_meta (bnodes b ! i)))"
  let ?p = "if filter par l \<noteq> [] then execute_parallel_nodes X ex sched (filter par l) else ret ()"
  let ?s = "if filter (\<lambda>i. \<not> par i) l \<noteq> [] then execute_sequential_nodes X ex (filter (\<lambda>i. \<not> par i) l) else ret ()"
  have in_k: "\<forall>i \<in> set (filter q l). i < k" for q using assms(2) by simp
  obtain b1 where 1: "?p b = (Inr (), b1)"
    using parallel_ok [OF assms(1) in_k, of sched par] by (cases "filter par l = []") (auto simp: ret_def)
  then have "sound k b1" using parallel_inv [OF assms(1) in_k, of sched par] assms(1) by (auto split: if_splits)
  then obtain b2 where "?s b1 = (Inr (), b2)"
    using sequential_ok [OF _ in_k, of b1 "\<lambda>i. \<not> par i"] by (cases "filter (\<lambda>i. \<not> par i) l = []") (auto simp: ret_def)
  moreover have "execute_level X ex sched l b = bind_io ?p (\<lambda>_. ?s) b"
    by (simp only: execute_level_def Let_def par_def)
  ultimately show ?thesis using 1 by (simp only: bind_io_Inr) blast
qed

lemma run_levels_ok:
  assumes "sound k b" and "\<forall>i \<in> set (concat ls). i < k"
  shows "\<exists>b'. run_levels X ex sched j ls b = (Inr (), b')"
  using assms
proof (induction ls arbitrary: b j)
  case (Cons l ls)
  let ?m = "if l = [] then ret () else execute_level X ex (sched j) l"
  have in_k: "\<forall>i \<in> set l. i < k" using Cons.prems(2) by simp
  obtain b1 where 1: "?m b = (Inr (), b1)"
    using level_ok [OF Cons.prems(1) in_k, of "sched j"] by (cases "l = []") (auto simp: ret_def)
  then have "sound k b1" using level_inv [OF Cons.prems(1) in_k, of "sched j"] Cons.prems(1) by (auto split: if_splits)
  then obtain b2 where "run_levels X ex sched (Suc j) ls b1 = (Inr (), b2)"
    using Cons.IH [of b1 "Suc j"] Cons.prems(2) by auto
  then show ?case using 1 by (simp only: run_levels.simps bind_io_Inr) blast
qed simp

lemma execute_succeeds:
  assumes "I (b_world b)" and "\<forall>i < length (bnodes b). P i (bnodes b ! i)"
  shows "\<exists>st b'. execute X ex sched b = (Inr st, b')"
proof -
  let ?k = "length (bnodes b)"
  have "sound ?k (started X ex b)" using assms by (simp add: sound_def started_def emitting)
  moreover have "\<forall>i \<in> set (concat (levels (b_graph b))). i < ?k"
    by (simp only: set_levels atLeastLessThan_iff) simp
  ultimately obtain b2 where "run_levels X ex sched 0 (levels (b_graph b)) (started X ex b) = (Inr (), b2)"
    using run_levels_ok by blast
  then show ?thesis by (simp add: execute_def started_def Let_def)
qed

end

end
