(* ===== verification/Build_Session.thy ===== *)
theory Build_Session
  imports Pipeline Build_Invariant
begin

text \<open>
  Properties of the commands in \<open>Pipeline\<close>: the shape of the graph that \<open>build\<close> prepares, what two runs of
  \<open>build\<close> in different processes do, and what \<open>explain-cache\<close> says about the next build.
\<close>

section \<open>The prepared graph\<close>

fun instr_content :: "instruction \<Rightarrow> string" where
  "instr_content (From img) = ''FROM '' @ img"
| "instr_content (Workdir dir) = ''WORKDIR '' @ dir"
| "instr_content (Copy src dst) = ''COPY '' @ src @ '' '' @ dst"
| "instr_content (Run cmd) = cmd"
| "instr_content (Env key val) = ''ENV '' @ key @ ''='' @ val"
| "instr_content (Cmd cmd) = ''CMD '' @ cmd"
| "instr_content (Git url target) = ''GIT '' @ url @ '' '' @ target"
| "instr_content (RunExtend cmd par) = cmd"
| "instr_content (CopyExtend src dst ts) = ''COPY_EXTEND '' @ src @ '' -> '' @ dst"
| "instr_content (Hook name params) = ''HOOK '' @ name @ '' '' @ debug_list params"
| "instr_content (Other s) = s"

fun instr_kind :: "instruction \<Rightarrow> node_kind" where
  "instr_kind (From img) = NK_From"
| "instr_kind (Workdir dir) = NK_Workdir"
| "instr_kind (Copy src dst) = NK_Copy src dst"
| "instr_kind (Run cmd) = NK_Run"
| "instr_kind (Env key val) = NK_Env"
| "instr_kind (Cmd cmd) = NK_Cmd"
| "instr_kind (Git url target) = NK_Git url target"
| "instr_kind (RunExtend cmd par) = NK_RunExtend cmd par"
| "instr_kind (CopyExtend src dst ts) = NK_CopyExtend src dst ts"
| "instr_kind (Hook name params) = NK_CustomHook name params"
| "instr_kind (Other s) = NK_Other"

text \<open>The source path of the two instructions that copy, the environment of \<open>ENV\<close>.\<close>

definition instr_source :: "string \<Rightarrow> instruction \<Rightarrow> string option" where
  "instr_source ctx x = (case x of Copy src _ \<Rightarrow> Some (copy_path ctx src) | CopyExtend src _ _ \<Rightarrow> Some (copy_path ctx src) | _ \<Rightarrow> None)"

definition instr_env :: "instruction \<Rightarrow> (string, string) hashmap" where
  "instr_env x = (case x of Env key val \<Rightarrow> [(key, val)] | _ \<Rightarrow> [])"

text \<open>Node \<open>i\<close> stands for the instruction \<open>x\<close>.\<close>

definition typed_node :: "string \<Rightarrow> nat \<Rightarrow> instruction \<Rightarrow> node \<Rightarrow> bool" where
  "typed_node ctx i x n \<longleftrightarrow>
     node_id n = i \<and> node_name n = debug_instr x \<and> node_content n = instr_content x \<and> node_kind n = instr_kind x
     \<and> node_source_path n = instr_source ctx x \<and> node_env n = instr_env x
     \<and> (\<forall>d \<in> set (node_deps n). d < i) \<and> distinct (node_deps n)"

definition typed_graph :: "string \<Rightarrow> instruction list \<Rightarrow> build_graph \<Rightarrow> bool" where
  "typed_graph ctx xs g \<longleftrightarrow> size_g g = length xs \<and> (\<forall>i < length xs. typed_node ctx i (xs ! i) (graph_nodes g ! i))"

lemma node_of_instr_typed:
  "node_id (node_of_instr iter ctx i S x) = i" "node_name (node_of_instr iter ctx i S x) = debug_instr x"
  "node_content (node_of_instr iter ctx i S x) = instr_content x" "node_kind (node_of_instr iter ctx i S x) = instr_kind x"
  "node_source_path (node_of_instr iter ctx i S x) = instr_source ctx x" "node_env (node_of_instr iter ctx i S x) = instr_env x"
  by (cases x; simp add: node_of_instr.simps mk_node_def instr_source_def instr_env_def)+

lemma docker_graph_typed:
  assumes "\<And>ys. mset (iter ys) = mset ys"
  shows "typed_graph ctx xs (docker_graph iter xs ctx)"
proof -
  have "set (deps_of (docker_graph iter xs ctx) i) \<subseteq> {d. d < i} \<and> distinct (deps_of (docker_graph iter xs ctx) i)"
    if "i < length xs" for i
    using docker_deps_set [where iter = iter and instrs = xs and root = ctx, OF assms that] docker_dep_less [OF that] by auto
  then show ?thesis
    by (fastforce simp: typed_graph_def typed_node_def docker_node node_of_instr_typed)
qed

text \<open>Passes that leave these fields alone keep the types.\<close>

definition shape :: "node \<Rightarrow> node" where
  "shape n = n\<lparr>node_dirty := False, node_cache_hit := False, node_hash := [], node_meta := default_metadata\<rparr>"

lemma shape_fields:
  assumes "shape m = shape n"
  shows "node_id m = node_id n" "node_name m = node_name n" "node_content m = node_content n" "node_kind m = node_kind n"
    "node_source_path m = node_source_path n" "node_env m = node_env n" "node_deps m = node_deps n"
  using assms by (cases m; cases n; simp add: shape_def)+

lemma typed_shape: "map shape (graph_nodes g') = map shape (graph_nodes g) \<Longrightarrow> typed_graph ctx xs g = typed_graph ctx xs g'"
proof -
  assume m: "map shape (graph_nodes g') = map shape (graph_nodes g)"
  then have len: "size_g g' = size_g g" by (metis length_map)
  have "shape (graph_nodes g' ! i) = shape (graph_nodes g ! i)" if "i < size_g g" for i
    using m that len by (metis nth_map)
  note f = shape_fields [OF this]
  show ?thesis by (auto simp: typed_graph_def typed_node_def len f)
qed

lemma static_shape: "static m = static n \<Longrightarrow> shape m = shape n"
  by (cases m; cases n) (simp add: static_def shape_def)

lemma essence_shape: "essence m = essence n \<Longrightarrow> shape m = shape n"
  by (cases m; cases n) (simp add: essence_def shape_def)

lemma prepare_shape:
  "map shape (graph_nodes (fst (prepare P fp ctx df f)))
     = map shape (graph_nodes (docker_graph (pl_iter P) (parse_dockerfile df) ctx))"
proof -
  let ?g = "docker_graph (pl_iter P) (parse_dockerfile df) ctx"
  obtain g1 f1 where a: "ai_analyze (pl_analyzer P) fp ctx ?g f = (g1, f1)" by (rule prod.exhaust)
  then have "map essence (graph_nodes g1) = map essence (graph_nodes ?g)"
    using ai_analyze_essence [of "pl_analyzer P" fp ctx ?g f] by simp
  then have "map shape (graph_nodes g1) = map shape (graph_nodes ?g)"
    by (rule map_cong_by) (rule essence_shape)
  moreover have "shape (n\<lparr>node_dirty := b, node_hash := h\<rparr>) = shape n" for n b h by (simp add: shape_def)
  ultimately show ?thesis by (simp add: prepare_def Let_def a changed_nodes comp_def)
qed

lemma prepare_hashes:
  "map node_hash (graph_nodes (fst (prepare P fp ctx df f)))
     = map (\<lambda>x. pl_blake3 P (as_bytes (instr_content x))) (parse_dockerfile df)"
proof -
  let ?g = "docker_graph (pl_iter P) (parse_dockerfile df) ctx"
  obtain g1 f1 where a: "ai_analyze (pl_analyzer P) fp ctx ?g f = (g1, f1)" by (rule prod.exhaust)
  then have "map essence (graph_nodes g1) = map essence (graph_nodes ?g)"
    using ai_analyze_essence [of "pl_analyzer P" fp ctx ?g f] by simp
  then have "map node_content (graph_nodes g1) = map node_content (graph_nodes ?g)"
    by (rule map_cong_by) (rule essence_fields)
  also have "\<dots> = map instr_content (parse_dockerfile df)"
    by (rule nth_equalityI) (simp_all add: docker_node node_of_instr_typed)
  finally show ?thesis by (simp add: prepare_def Let_def a changed_hashes comp_def)
qed

lemma prepare_dirty: "n \<in> set (graph_nodes (fst (prepare P fp ctx df f))) \<Longrightarrow> node_dirty n"
  by (auto simp: prepare_def Let_def changed_nodes split: prod.splits)

section \<open>The graph keeps its shape\<close>

text \<open>Whatever happens in a build, a node changes in its marks only.\<close>

interpretation marks: build_invariant X ex "\<lambda>w. True" "\<lambda>i n. static n = static (ns ! i)" for X ex ns
  by unfold_locales simp_all

lemma execute_static: "map static (bnodes (snd (execute X ex sched b))) = map static (bnodes b)"
proof -
  have "marks.sound (bnodes b) (length (bnodes b)) (snd (execute X ex sched b))"
    by (rule marks.execute_keeps) simp_all
  then show ?thesis by (intro nth_equalityI) (simp_all add: marks.sound_def)
qed

lemma propagate_manifests_shape: "map shape (graph_nodes (fst (propagate_manifests to_value g))) = map shape (graph_nodes g)"
  by (simp add: propagate_manifests_def Let_def shape_def comp_def)

lemma propagate_manifests_hashes: "map node_hash (graph_nodes (fst (propagate_manifests to_value g))) = map node_hash (graph_nodes g)"
  by (simp add: propagate_manifests_def Let_def comp_def)

section \<open>A cache that a later process can open\<close>

definition json_inverse :: "externals \<Rightarrow> (bytes \<Rightarrow> index option) \<Rightarrow> bool" where
  "json_inverse X of_json \<longleftrightarrow> (\<forall>t. \<exists>j. xt_index_json X t = Some j \<and> of_json j = Some t)"

text \<open>It also holds at least the keys \<open>K\<close>.\<close>

definition reopenable :: "externals \<Rightarrow> (bytes \<Rightarrow> index option) \<Rightarrow> string \<Rightarrow> string set \<Rightarrow> ('r, 'w) world \<Rightarrow> bool" where
  "reopenable X of_json d K w \<longleftrightarrow> (json_inverse X of_json \<longrightarrow>
     reopens of_json (hy_local (w_cache w)) \<and> cache_dir (hy_local (w_cache w)) = d
     \<and> K \<subseteq> dom (view (w_cache w)))"

lemma lc_ready_live: "lc_ready c \<Longrightarrow> lc_live c"
  by (simp add: lc_ready_def lc_live_def)

lemma reopens_ready: "reopens of_json c \<Longrightarrow> lc_ready c"
  by (simp add: reopens_def)

text \<open>The executor of the driver has no remote cache and no remote executor.\<close>

definition alone :: "('r, 'w) executor \<Rightarrow> bool" where
  "alone ex \<longleftrightarrow> ex_remote_cache ex = None \<and> ex_remote_executor ex = None"

lemma check_cache_alone:
  "alone ex \<Longrightarrow> live (w_cache w) \<Longrightarrow> w_cache (snd (check_cache X ex n w)) = w_cache w"
  using get_artifact_local_only [of "w_cache w" "xt_index_json X" "xt_now X" "node_hash n"]
  by (auto simp: alone_def check_cache_def on_cache_def on_part_def split: option.splits)

lemma run_node_alone: "alone ex \<Longrightarrow> w_cache (snd (run_node X ex n w)) = w_cache w"
  by (auto simp: alone_def run_node_def on_box_def on_part_def bind_io_def normalize_artifact_def split: prod.splits sum.splits)

lemma store_alone:
  assumes "alone ex" and "reopens of_json (hy_local (w_cache w))" and "json_inverse X of_json" and "key_ok (node_hash n)"
  shows "reopens of_json (hy_local (w_cache (store_artifact X ex n d w)))
    \<and> cache_dir (hy_local (w_cache (store_artifact X ex n d w))) = cache_dir (hy_local (w_cache w))
    \<and> dom (view (w_cache w)) \<subseteq> dom (view (w_cache (store_artifact X ex n d w)))"
proof -
  obtain enc where enc: "\<And>t. xt_index_json X t = Some (enc t)" "\<And>t. of_json (enc t) = Some t"
    using assms(3) unfolding json_inverse_def by metis
  obtain r c where p: "lc_put (xt_index_json X) (xt_now X) (node_hash n) d (hy_local (w_cache w)) = (r, c)" by (rule prod.exhaust)
  note k = lc_put_reopens [OF reopens_ready [OF assms(2)] assms(4) enc p]
  have "lc_view c = (lc_view (hy_local (w_cache w)))(node_hash n \<mapsto> d)"
    using lc_put_live [OF lc_ready_live [OF reopens_ready [OF assms(2)]] assms(4) p] by simp
  then show ?thesis
    using k p assms(1) by (auto simp: store_artifact_def put_artifact_def alone_def on_cache_def on_local_def on_part_def)
qed

lemma reopenable_cache: "w_cache w' = w_cache w \<Longrightarrow> reopenable X of_json d K w \<Longrightarrow> reopenable X of_json d K w'"
  by (simp add: reopenable_def)

lemma reopenable_store:
  assumes "alone ex" and "reopenable X of_json d K w" and "key_ok (node_hash n)"
  shows "reopenable X of_json d K (store_artifact X ex n x w)"
  unfolding reopenable_def
proof
  assume j: "json_inverse X of_json"
  then have r: "reopens of_json (hy_local (w_cache w))" "cache_dir (hy_local (w_cache w)) = d" "K \<subseteq> dom (view (w_cache w))"
    using assms(2) by (simp_all add: reopenable_def)
  show "reopens of_json (hy_local (w_cache (store_artifact X ex n x w)))
      \<and> cache_dir (hy_local (w_cache (store_artifact X ex n x w))) = d \<and> K \<subseteq> dom (view (w_cache (store_artifact X ex n x w)))"
    using store_alone [OF assms(1) r(1) j assms(3), of x] r(2,3) by (simp add: subset_trans)
qed

lemma reopenable_lookup:
  assumes "alone ex" and "reopenable X of_json d K w"
  shows "reopenable X of_json d K (snd (check_cache X ex n w))"
proof (cases "json_inverse X of_json")
  case True
  then have "reopens of_json (hy_local (w_cache w))" using assms(2) by (simp add: reopenable_def)
  then have "live (w_cache w)" using lc_ready_live [OF reopens_ready] by (simp add: live_def)
  from reopenable_cache [OF check_cache_alone [OF assms(1) this] assms(2)] show ?thesis .
qed (simp add: reopenable_def)

lemma build_executor_alone: "alone (build_executor B rep dry ctx)"
  by (simp add: alone_def build_executor_def new_executor_def with_sandbox_def with_dry_run_def with_reproducible_def)

interpretation kept_open: build_invariant X "build_executor B rep dry ctx" "reopenable X of_json d K" "\<lambda>i n. key_ok (node_hash n)"
  for X B rep dry ctx of_json d K
proof
  fix w :: "(unit, 'a host) world" and n :: node and x :: bytes and i :: nat and r :: "bool \<times> bool" and ev :: build_event
  assume w: "reopenable X of_json d K w"
  show "reopenable X of_json d K (emit (build_executor B rep dry ctx) ev w)"
    by (rule reopenable_cache [OF _ w]) simp
  show "reopenable X of_json d K (snd (check_cache X (build_executor B rep dry ctx) n w))"
    by (rule reopenable_lookup [OF build_executor_alone w])
  show "reopenable X of_json d K (snd (run_node X (build_executor B rep dry ctx) n w))"
    by (rule reopenable_cache [OF run_node_alone w]) (rule build_executor_alone)
  assume "key_ok (node_hash n)"
  then show "reopenable X of_json d K (store_artifact X (build_executor B rep dry ctx) n x w)"
    by (rule reopenable_store [OF build_executor_alone w])
qed (simp add: mark_node_def)

section \<open>One run of \<open>build\<close>\<close>

text \<open>The state of the executor when a run of \<open>build\<close> reaches it.\<close>

definition driver_graph :: "('o, 'v) build_system \<Rightarrow> (node_metadata \<Rightarrow> 'v) \<Rightarrow> string \<Rightarrow> string \<Rightarrow> fs \<Rightarrow> build_graph" where
  "driver_graph B to_value ctx df f = fst (propagate_manifests to_value (fst (prepare (bs_pipeline B) (bs_env_fp B) ctx df f)))"

definition driver_start ::
    "('o, 'v) build_system \<Rightarrow> (node_metadata \<Rightarrow> 'v) \<Rightarrow> string \<Rightarrow> string \<Rightarrow> fs \<Rightarrow> unit hybrid \<Rightarrow> 'o host \<Rightarrow> (unit, 'o host) build" where
  "driver_start B to_value ctx df f c h =
     start_build (driver_graph B to_value ctx df f)
       \<lparr>w_cache = c, w_box = h\<lparr>host_fs := snd (prepare (bs_pipeline B) (bs_env_fp B) ctx df f)\<rparr>, w_events = []\<rparr>"

lemma prefetch_alone: "prefetch_artifacts order to_json now None ks c = c"
proof -
  have "fold (\<lambda>h s. snd (prefetch_task to_json now None h s)) hs c = c" for hs
    by (induction hs) (simp_all add: prefetch_task_def ret_def)
  then show ?thesis by (simp add: prefetch_artifacts_def)
qed

lemma driver_hashes:
  "map node_hash (graph_nodes (driver_graph B to_value ctx df f))
     = map (\<lambda>x. pl_blake3 (bs_pipeline B) (as_bytes (instr_content x))) (parse_dockerfile df)"
  by (simp add: driver_graph_def propagate_manifests_hashes prepare_hashes)

lemma create_cache_new: "create_cache B f = Inr c \<longleftrightarrow> lc_new (bs_index_of_json B) (bs_var B) f = Inr (hy_local c)"
  by (cases c) (auto simp: create_cache_def split: sum.split)

lemma build_image_run:
  assumes "create_cache B (se_cache_fs s) = Inr c" and "read_to_string path (host_fs (se_host s)) = (Inr df, f)"
  shows "build_image B to_value ctx path rep dry s =
    (case execute (bs_externals B) (build_executor B rep dry ctx) (bs_sched B) (driver_start B to_value ctx df f c (se_host s)) of
       (r, b) \<Rightarrow>
         (let s2 = \<lparr>se_cache_fs = lc_fs (hy_local (w_cache (b_world b))), se_host = w_box (b_world b)\<rparr> in
          case r of
            Inl e \<Rightarrow> (Inl e, s2)
          | Inr stats \<Rightarrow>
              (case export_image (bs_export B) (b_graph b) ''memobuild-demo:latest'' rep (host_fs (se_host s2)) of
                 (out, f2) \<Rightarrow> (out, s2\<lparr>se_host := (se_host s2)\<lparr>host_fs := f2\<rparr>\<rparr>))))"
proof -
  obtain g0 f1 where 0: "prepare (bs_pipeline B) (bs_env_fp B) ctx df f = (g0, f1)" by (rule prod.exhaust)
  obtain g m where 1: "propagate_manifests to_value g0 = (g, m)" by (rule prod.exhaust)
  have run: "driver_start B to_value ctx df f c (se_host s)
      = start_build g \<lparr>w_cache = c, w_box = (se_host s)\<lparr>host_fs := f1\<rparr>, w_events = []\<rparr>"
    by (simp add: driver_start_def driver_graph_def 0 1)
  show ?thesis
    unfolding run by (simp add: build_image_def assms Let_def 0 1 prefetch_alone)
qed

lemma driver_ready:
  assumes "lc_ready (hy_local c)" and "\<And>d. key_ok (pl_blake3 (bs_pipeline B) d)"
  shows "build_ready (driver_start B to_value ctx df f c h)"
proof -
  have "node_hash ` set (graph_nodes (driver_graph B to_value ctx df f)) \<subseteq> {k. key_ok k}"
    using arg_cong [OF driver_hashes [of B to_value ctx df f], of set] assms(2) by auto
  then show ?thesis
    using lc_ready_live [OF assms(1)] by (auto simp: build_ready_def driver_start_def start_build_def live_def)
qed

text \<open>However a run ends, the cache it leaves opens again and holds what it held.\<close>

lemma driver_keeps_cache:
  assumes "create_cache B (se_cache_fs s) = Inr c" and "lc_ready (hy_local c)"
    and "json_inverse (bs_externals B) (bs_index_of_json B)" and "\<And>d. key_ok (pl_blake3 (bs_pipeline B) d)"
    and "execute (bs_externals B) (build_executor B rep dry ctx) (bs_sched B) (driver_start B to_value ctx df f c h) = (r, b')"
  shows "reopens (bs_index_of_json B) (hy_local (w_cache (b_world b')))
    \<and> get_cache_dir (bs_var B) = Inr (cache_dir (hy_local (w_cache (b_world b'))))
    \<and> dom (view c) \<subseteq> dom (view (w_cache (b_world b')))"
proof -
  let ?b = "driver_start B to_value ctx df f c h" and ?ex = "build_executor B rep dry ctx"
  note ready = driver_ready [OF assms(2,4), of to_value ctx df f h]
  note o = lc_new_reopens [OF assms(1) [unfolded create_cache_new] assms(2)]
  have "kept_open.sound (bs_externals B) (bs_index_of_json B) (cache_dir (hy_local c)) (dom (view c)) (length (bnodes ?b))
      (snd (execute (bs_externals B) ?ex (bs_sched B) ?b))"
    by (rule kept_open.execute_keeps)
      (use ready o in \<open>auto simp: reopenable_def driver_start_def start_build_def build_ready_def\<close>)
  then show ?thesis
    using assms(3,5) o by (simp add: kept_open.sound_def reopenable_def)
qed

text \<open>A run that succeeds holds every instruction of the Dockerfile.\<close>

lemma build_image_leaves:
  assumes "create_cache B (se_cache_fs s) = Inr c" and "lc_ready (hy_local c)"
    and "json_inverse (bs_externals B) (bs_index_of_json B)"
    and "\<And>d. key_ok (pl_blake3 (bs_pipeline B) d)" and "\<And>d. key_ok (xt_digest (bs_externals B) d)"
    and "read_to_string path (host_fs (se_host s)) = (Inr df, f)"
    and "build_image B to_value ctx path rep False s = (Inr out, s')"
  obtains c' where "se_cache_fs s' = lc_fs c'" and "reopens (bs_index_of_json B) c'"
    and "get_cache_dir (bs_var B) = Inr (cache_dir c')"
    and "(\<lambda>x. pl_blake3 (bs_pipeline B) (as_bytes (instr_content x))) ` set (parse_dockerfile df) \<subseteq> dom (lc_view c')"
proof -
  let ?b = "driver_start B to_value ctx df f c (se_host s)" and ?ex = "build_executor B rep False ctx"
  obtain r b' where e: "execute (bs_externals B) ?ex (bs_sched B) ?b = (r, b')" by (rule prod.exhaust)
  then obtain st where r: "r = Inr st" and s': "se_cache_fs s' = lc_fs (hy_local (w_cache (b_world b')))"
    using assms(7) unfolding build_image_run [OF assms(1,6)] by (cases r) (auto simp: Let_def split: prod.splits)
  note ready = driver_ready [OF assms(2,4), of to_value ctx df f "se_host s"]
  note fin = execute_settles [OF ready assms(5) e [unfolded r]]
  have "\<not> ex_dry_run ?ex" by (simp add: build_executor_def with_sandbox_def with_dry_run_def)
  then have "node_hash ` set (bnodes b') \<subseteq> dom (view (w_cache (b_world b')))" using fin by auto
  moreover have "map node_hash (bnodes b') = map node_hash (bnodes ?b)"
    using fin static_hashes by blast
  then have "node_hash ` set (bnodes b') = node_hash ` set (bnodes ?b)" by (metis set_map)
  moreover have "node_hash ` set (bnodes ?b)
      = (\<lambda>x. pl_blake3 (bs_pipeline B) (as_bytes (instr_content x))) ` set (parse_dockerfile df)"
    using arg_cong [OF driver_hashes [of B to_value ctx df f], of set] by (simp add: driver_start_def start_build_def)
  ultimately show thesis
    using that [OF s'] driver_keeps_cache [OF assms(1-4) e] by simp
qed

section \<open>A run over a cache that holds everything\<close>

lemma export_nodes_static:
  "map static ns' = map static ns \<Longrightarrow> export_nodes E ex ns' = export_nodes E ex ns"
proof (induction ns' arbitrary: ns ex)
  case (Cons n' ns')
  then obtain n ns1 where ns: "ns = n # ns1" "static n' = static n" by (cases ns) auto
  note f = shape_fields [OF static_shape [OF ns(2)]] static_hash [OF ns(2)]
  have "create_layer E ex n' = create_layer E ex n"
    by (simp only: create_layer_def create_layer_tar_def layer_stream_def layer_content_def f)
  then show ?case using Cons ns by simp
qed simp

lemma export_image_static:
  assumes "map static (graph_nodes g') = map static (graph_nodes g)"
  shows "export_image E g' name rep = export_image E g name rep"
proof -
  have m: "map node_env (graph_nodes g') = map node_env (graph_nodes g)" "map node_name (graph_nodes g') = map node_name (graph_nodes g)"
    by (rule map_cong_by [OF assms], erule shape_fields [OF static_shape])+
  have c: "create_config E h ls rep = create_config E h' ls rep"
    if "map node_env (graph_nodes h) = map node_env (graph_nodes h')" "map node_name (graph_nodes h) = map node_name (graph_nodes h')"
    for h h' ls
  proof -
    let ?e = "map (\<lambda>(k, v). k @ ''='' @ v)"
    let ?h = "\<lambda>t x. \<lparr>oh_created = t, oh_created_by = ''MemoBuild: '' @ x, oh_empty_layer = Some False\<rparr>"
    have "map (\<lambda>n. ?e (node_env n)) (graph_nodes h) = map (\<lambda>n. ?e (node_env n)) (graph_nodes h')"
      using arg_cong [OF that(1), of "map ?e"] by (simp add: comp_def)
    moreover have "map (\<lambda>n. ?h t (node_name n)) (graph_nodes h) = map (\<lambda>n. ?h t (node_name n)) (graph_nodes h')" for t
      using arg_cong [OF that(2), of "map (?h t)"] by (simp add: comp_def)
    ultimately show ?thesis by (simp add: create_config_def Let_def)
  qed
  show ?thesis
    by (simp add: export_image_def export_nodes_static [OF assms] write_manifest_def c [OF m])
qed

text \<open>What is left of a run when every node is a hit.\<close>

definition prepare_and_export ::
    "('o, 'v) build_system \<Rightarrow> (node_metadata \<Rightarrow> 'v) \<Rightarrow> string \<Rightarrow> string \<Rightarrow> bool \<Rightarrow> fs \<Rightarrow> 'o host \<Rightarrow> string result \<times> 'o host" where
  "prepare_and_export B to_value ctx df rep f h =
     (case export_image (bs_export B) (driver_graph B to_value ctx df f) ''memobuild-demo:latest'' rep
             (snd (prepare (bs_pipeline B) (bs_env_fp B) ctx df f)) of
        (out, f2) \<Rightarrow> (out, h\<lparr>host_fs := f2\<rparr>))"

lemma build_image_warm:
  assumes "create_cache B (se_cache_fs s) = Inr c" and "lc_ready (hy_local c)"
    and "read_to_string path (host_fs (se_host s)) = (Inr df, f)"
    and "(\<lambda>x. pl_blake3 (bs_pipeline B) (as_bytes (instr_content x))) ` set (parse_dockerfile df) \<subseteq> dom (view c)"
  shows "build_image B to_value ctx path rep dry s =
    (case prepare_and_export B to_value ctx df rep f (se_host s) of
       (out, h) \<Rightarrow> (out, \<lparr>se_cache_fs = lc_fs (hy_local c), se_host = h\<rparr>))"
proof -
  let ?b = "driver_start B to_value ctx df f c (se_host s)" and ?ex = "build_executor B rep dry ctx"
  have "node_hash ` set (bnodes ?b) \<subseteq> dom (view c)"
    using arg_cong [OF driver_hashes [of B to_value ctx df f], of set] assms(4) by (simp add: driver_start_def start_build_def)
  then have "warm_build ?b"
    using lc_ready_live [OF assms(2)] by (auto simp: warm_build_def live_def driver_start_def start_build_def)
  then obtain st b' where e: "execute (bs_externals B) ?ex (bs_sched B) ?b = (Inr st, b')" "same_world (b_world ?b) (b_world b')"
    by (rule execute_hit) blast
  have "map static (bnodes b') = map static (bnodes ?b)"
    using execute_static [of "bs_externals B" ?ex "bs_sched B" ?b] e(1) by simp
  from export_image_static [OF this]
  show ?thesis
    using e unfolding build_image_run [OF assms(1,3)]
    by (simp add: same_world_def driver_start_def start_build_def prepare_and_export_def case_prod_beta)
qed

lemma create_cache_again:
  assumes "reopens (bs_index_of_json B) c" and "get_cache_dir (bs_var B) = Inr (cache_dir c)"
  shows "create_cache B (lc_fs c) = Inr \<lparr>hy_local = mkdirs (cache_dir c) c, hy_remote = ()\<rparr>"
  using lc_new_again [OF assms] by (simp add: create_cache_def)

lemma in_mkdirs: "is_dir (f\<lparr>dirs := dirs f @ ds\<rparr>) q \<longleftrightarrow> is_dir f q \<or> q \<in> set ds" "is_file (f\<lparr>dirs := ds\<rparr>) = is_file f"
  by (auto simp: is_dir_def is_file_def fun_eq_iff)

lemma mkdirs_ready:
  assumes "lc_ready c"
  shows "lc_ready (mkdirs (cache_dir c) c)"
proof -
  have ix: "index_path c = path_join (cache_dir c) ''index.json''" using assms by (simp add: lc_ready_def lc_ok_def)
  have below: "path_join (cache_dir c) n \<notin> set (ancestors (cache_dir c))" if "file_name_ok n" for n
  proof
    assume "path_join (cache_dir c) n \<in> set (ancestors (cache_dir c))"
    from ancestors_length [OF this] length_path_join_le [OF that, of "cache_dir c"] that show False
      by (cases n) (auto simp: file_name_ok_def)
  qed
  have "lc_path c k \<notin> set (ancestors (cache_dir c))" if "key_ok k" for k
    unfolding lc_path_def using below [OF filename_ok [OF that]] .
  moreover have "index_path c \<notin> set (ancestors (cache_dir c))"
    unfolding ix by (rule below) (simp add: file_name_ok_def)
  moreover have "\<not> is_dir (lc_fs c) (path_join (cache_dir c) ''index.json'')"
    using assms ix by (simp add: lc_ready_def)
  ultimately show ?thesis
    using assms unfolding lc_ready_def lc_ok_def by (simp add: in_mkdirs)
qed

section \<open>Properties\<close>


text \<open>C2. After a successful build that was no dry run, a later build in a new process whose Dockerfile has no instruction
  text that the first had not runs no command and stores nothing: it is the preparation of the graph and the export of
  the image. Nothing else matters, neither the shell, the schedule and the clock nor the files on the host, so an edit
  of a file that a \<open>COPY\<close> copies does not make the build run again.\<close>

theorem second_build_runs_nothing:
  assumes "create_cache B (se_cache_fs s) = Inr c" and "lc_ready (hy_local c)"
    and "json_inverse (bs_externals B) (bs_index_of_json B)"
    and "\<And>d. key_ok (pl_blake3 (bs_pipeline B) d)" and "\<And>d. key_ok (xt_digest (bs_externals B) d)"
    and "read_to_string path (host_fs (se_host s)) = (Inr df, f)"
    and "build_image B to_value ctx path rep False s = (Inr out, s')"
    and "bs_index_of_json B2 = bs_index_of_json B" and "get_cache_dir (bs_var B2) = get_cache_dir (bs_var B)"
    and "pl_blake3 (bs_pipeline B2) = pl_blake3 (bs_pipeline B)"
    and "se_cache_fs s2 = se_cache_fs s'" and "read_to_string path2 (host_fs (se_host s2)) = (Inr df2, f2)"
    and "instr_content ` set (parse_dockerfile df2) \<subseteq> instr_content ` set (parse_dockerfile df)"
  shows "\<exists>dir. get_cache_dir (bs_var B) = Inr dir \<and>
    build_image B2 to_value2 ctx2 path2 rep2 dry2 s2 =
      (case prepare_and_export B2 to_value2 ctx2 df2 rep2 f2 (se_host s2) of
         (out2, h) \<Rightarrow> (out2, \<lparr>se_cache_fs = (se_cache_fs s2)\<lparr>dirs := dirs (se_cache_fs s2) @ ancestors dir\<rparr>, se_host = h\<rparr>))"
proof -
  obtain c' where c': "se_cache_fs s' = lc_fs c'" "reopens (bs_index_of_json B) c'"
    "get_cache_dir (bs_var B) = Inr (cache_dir c')"
    "(\<lambda>x. pl_blake3 (bs_pipeline B) (as_bytes (instr_content x))) ` set (parse_dockerfile df) \<subseteq> dom (lc_view c')"
    by (rule build_image_leaves [OF assms(1-7)])
  have new: "create_cache B2 (se_cache_fs s2) = Inr \<lparr>hy_local = mkdirs (cache_dir c') c', hy_remote = ()\<rparr>"
    using create_cache_again [of B2 c'] c' assms(8,9,11) by simp
  have "(\<lambda>x. pl_blake3 (bs_pipeline B2) (as_bytes (instr_content x))) ` set (parse_dockerfile df2)
      = (\<lambda>t. pl_blake3 (bs_pipeline B) (as_bytes t)) ` (instr_content ` set (parse_dockerfile df2))"
    by (simp add: assms(10) image_image)
  also have "\<dots> \<subseteq> (\<lambda>t. pl_blake3 (bs_pipeline B) (as_bytes t)) ` (instr_content ` set (parse_dockerfile df))"
    by (rule image_mono [OF assms(13)])
  also have "\<dots> \<subseteq> dom (lc_view c')" using c'(4) by (simp add: image_image)
  finally show ?thesis
    using build_image_warm [OF new _ assms(12), of to_value2 ctx2 rep2 dry2] mkdirs_ready [OF reopens_ready [OF c'(2)]] c'(1,3) assms(11)
    by (simp add: lc_view_mkdirs)
qed


interpretation unfailing: build_succeeds X ex "\<lambda>w. True" "\<lambda>i n. \<forall>m w. static m = static n \<longrightarrow> \<not> isl (fst (run_node X ex m w))"
  for X ex
  by unfold_locales auto



section \<open>A small session\<close>

text \<open>Commands that do nothing to the host and succeed.\<close>

definition quiet :: "'o shell \<Rightarrow> bool" where
  "quiet sh \<longleftrightarrow> (\<forall>cmd env dir h. \<exists>out err_out. sh cmd env dir h = (Inr (Some 0, out, err_out), h))"

lemma run_shell_quiet: "quiet sh \<Longrightarrow> \<exists>out err_out. run_shell sh env cmd h = (Inr \<lparr>exit_code = 0, exec_stdout = out, exec_stderr = err_out\<rparr>, h)"
  unfolding quiet_def run_shell_def by (metis (mono_tags, lifting) bind_io_Inr case_prod_conv option.simps(5) ret_apply)

lemma run_node_quiet:
  assumes "quiet (bs_shell B)"
  shows "\<exists>d. run_node X (build_executor B rep dry ctx) n w = (Inr d, w)"
proof -
  have ex: "ex_remote_executor (build_executor B rep dry ctx) = None"
    "ex_sandbox (build_executor B rep dry ctx) = local_sandbox (bs_shell B) ctx"
    by (simp_all add: build_executor_def new_executor_def with_sandbox_def with_dry_run_def with_reproducible_def)
  have local: "\<exists>d. run_local X (local_sandbox (bs_shell B) ctx) n h = (Inr d, h)" if "is_runnable n" for h
  proof -
    let ?env = "\<lparr>workspace_dir = ctx, env_vars = node_env n\<rparr>"
    have "\<exists>r. local_execute (bs_shell B) ?env n h = (Inr r, h) \<and> exit_code r = 0"
      using that run_shell_quiet [OF assms] by (cases "node_kind n") (fastforce simp: is_runnable_def local_execute_def)+
    then obtain r where "local_execute (bs_shell B) ?env n h = (Inr r, h)" "exit_code r = 0" by blast
    then show ?thesis
      by (simp add: run_local_def local_sandbox_def local_prepare_def local_cleanup_def)
  qed
  have "\<exists>d. on_box (run_local X (local_sandbox (bs_shell B) ctx) n) w = (Inr d, w)" if run: "is_runnable n"
  proof -
    obtain d where "run_local X (local_sandbox (bs_shell B) ctx) n (w_box w) = (Inr d, w_box w)"
      using local [OF run] by blast
    then show ?thesis by (simp add: on_box_def on_part_def)
  qed
  then show ?thesis
    unfolding run_node_def ex by (cases "is_runnable n") (auto simp: normalize_artifact_def)
qed

interpretation quietly: build_succeeds X "build_executor B rep dry ctx" "\<lambda>w. w_box w = h"
    "\<lambda>i n. quiet (bs_shell B)" for X B rep dry ctx h
proof
  fix w :: "(unit, 'a host) world" and n :: node and x :: bytes
  assume w: "w_box w = h"
  show "w_box (snd (check_cache X (build_executor B rep dry ctx) n w)) = h"
    using w by (auto simp: check_cache_def on_cache_def on_part_def split: prod.splits sum.splits option.splits)
  show "w_box (store_artifact X (build_executor B rep dry ctx) n x w) = h"
    using w by (simp add: store_artifact_def on_cache_def on_part_def split: prod.split)
  assume "quiet (bs_shell B)"
  then show "w_box (snd (run_node X (build_executor B rep dry ctx) n w)) = h"
    "\<not> isl (fst (run_node X (build_executor B rep dry ctx) n w))"
    using run_node_quiet [of B X rep dry ctx n w] w by auto
qed simp_all

text \<open>Without faults the preparation only reads.\<close>

lemma read_or_empty_pure: "faults f = [] \<Longrightarrow> snd (read_or_empty p f) = f"
  using read_file_faults [of f p]
  by (auto simp: read_or_empty_def read_to_string_def bind_io_def ret_def bail_def split: prod.splits sum.splits if_splits)

lemma node_extra_deps_pure: "faults f = [] \<Longrightarrow> snd (node_extra_deps A ctx n f) = f"
  using read_or_empty_pure [of f]
  by (auto simp: node_extra_deps_def find_js_dependencies_def find_rust_dependencies_def Let_def case_prod_beta split: node_kind.split)

lemma collect_extra_deps_pure: "faults f = [] \<Longrightarrow> snd (collect_extra_deps A ctx ns f) = f"
  by (induction ns) (simp_all add: case_prod_beta node_extra_deps_pure)

lemma prepare_pure: "faults f = [] \<Longrightarrow> snd (prepare P fp ctx df f) = f"
  by (simp add: prepare_def Let_def ai_analyze_def analyze_dependencies_def case_prod_beta collect_extra_deps_pure)

text \<open>A build over quiet commands goes through and leaves an image on the host.\<close>

lemma quiet_build_succeeds:
  assumes "create_cache B (se_cache_fs s) = Inr c" and "read_to_string path (host_fs (se_host s)) = (Inr df, f)"
    and "quiet (bs_shell B)" and "clear (export_dir ''memobuild-demo:latest'') f"
    and "\<And>d. hex_name (xe_sha256 (bs_export B) d)" and "prints_json (bs_export B)"
  obtains out s' where "build_image B to_value ctx path rep dry s = (Inr out, s')"
proof -
  let ?b = "driver_start B to_value ctx df f c (se_host s)" and ?ex = "build_executor B rep dry ctx"
  have pure: "snd (prepare (bs_pipeline B) (bs_env_fp B) ctx df f) = f" using assms(4) by (intro prepare_pure) (simp add: clear_def)
  obtain st b' where e: "execute (bs_externals B) ?ex (bs_sched B) ?b = (Inr st, b')"
    using quietly.execute_succeeds [where B = B and b = ?b and h = "w_box (b_world ?b)"] assms(3) by blast
  have "quietly.sound (w_box (b_world ?b)) B (length (bnodes ?b)) (snd (execute (bs_externals B) ?ex (bs_sched B) ?b))"
    using assms(3) by (intro quietly.execute_keeps) simp_all
  then have "w_box (b_world b') = w_box (b_world ?b)" using e by (simp add: quietly.sound_def)
  then have "host_fs (w_box (b_world b')) = f" by (simp add: driver_start_def start_build_def pure)
  then show thesis
    using export_image_succeeds [OF assms(4-6), of "b_graph b'" rep] e that
    unfolding build_image_run [OF assms(1,2)] by auto
qed

definition toy_system :: "(unit, unit) build_system" where
  "toy_system = \<lparr>
     bs_pipeline = \<lparr>pl_blake3 = toy_sha, pl_iter = id,
       pl_analyzer = \<lparr>an_js_imports = (\<lambda>t. []), an_js_requires = (\<lambda>t. []), an_rust_mods = (\<lambda>t. []), an_order = id\<rparr>\<rparr>,
     bs_env_fp = env_fingerprint.make [] [] ''linux'' ''x86_64'',
     bs_externals = toy_externals\<lparr>xt_index_json := (\<lambda>t. Some (encode_bytes t))\<rparr>, bs_export = toy_export,
     bs_shell = (\<lambda>cmd env dir h. (Inr (Some 0, as_bytes cmd, []), h)), bs_index_of_json = (\<lambda>j. Some (decode_bytes j)),
     bs_var = (\<lambda>v. Some ''/c''), bs_current_dir = None, bs_order = id, bs_sched = (\<lambda>k. [])\<rparr>"

text \<open>A Dockerfile and the file it copies.\<close>

definition toy_files :: "bytes \<Rightarrow> fs" where
  "toy_files a = \<lparr>files = [(''f'', as_bytes ''COPY a b''), (''a'', a)], dirs = [], faults = []\<rparr>"

definition toy_session :: "unit session" where
  "toy_session = \<lparr>se_cache_fs = no_files, se_host = \<lparr>host_fs = toy_files [1], host_os = ()\<rparr>\<rparr>"

lemma toy_files_clear: "clear (export_dir ''memobuild-demo:latest'') (toy_files a)"
proof -
  let ?dir = "export_dir ''memobuild-demo:latest''"
  have dir: "?dir = ''.memobuild-output/memobuild-demo-latest''" by (simp add: export_dir_def path_join_def prefix_def)
  then have "plain_dir ?dir" by (simp add: plain_dir_def prefix_def)
  from empty_clear [OF this] have "clear ?dir (no_files\<lparr>files := files (toy_files a)\<rparr>)"
  proof (rule clear_files)
    fix p assume "p \<in> set (ancestors (blobs_dir ?dir))"
    then have "p \<noteq> []" "prefix p (blobs_dir ?dir)" by (auto simp: ancestors_def in_set_prefixes)
    then have "hd p = CHR ''.''" by (cases p) (auto simp: dir blobs_dir_def path_join_def prefix_def)
    then show "map_of (files (toy_files a)) p = None" by (auto simp: toy_files_def)
  qed
  then show ?thesis by (simp add: no_files_def toy_files_def)
qed

lemma toy_read: "read_to_string ''f'' (toy_files a) = (Inr ''COPY a b'', toy_files a)"
proof -
  have "read_file ''f'' (toy_files a) = (Inr (as_bytes ''COPY a b''), toy_files a)"
    by (intro read_file_present) (simp_all add: toy_files_def)
  moreover have "utf8_ok (as_bytes ''COPY a b'')" "bytes_text (as_bytes ''COPY a b'') = ''COPY a b''"
    by code_simp simp
  ultimately show ?thesis by (simp add: read_to_string_def)
qed

lemma toy_cache: "create_cache toy_system no_files
    = Inr \<lparr>hy_local = mkdirs ''/c'' (demo_cache\<lparr>lc_fs := no_files\<rparr>), hy_remote = ()\<rparr>"
  by (simp add: create_cache_def lc_new_def toy_system_def get_cache_dir_def no_files_def create_dir_all_def demo_cache_def
      load_index_def path_exists_def is_file_def is_dir_def path_join_def prefix_def ancestors_def bind_io_def)

lemma toy_cache_ready: "lc_ready (mkdirs ''/c'' (demo_cache\<lparr>lc_fs := no_files\<rparr>))"
proof -
  have "mkdirs ''/c'' (demo_cache\<lparr>lc_fs := no_files\<rparr>) = demo_cache"
    by (simp add: demo_cache_def no_files_def ancestors_def)
  then show ?thesis using demo_cache_ready by simp
qed

lemma toy_sha_key: "key_ok (toy_sha d)"
  using toy_sha_hex [of d] by (simp add: key_ok_def hex_name_def)

lemma toy_json: "json_inverse (bs_externals toy_system) (bs_index_of_json toy_system)"
  by (simp add: json_inverse_def toy_system_def)

lemma toy_quiet: "quiet (bs_shell toy_system)"
  by (simp add: quiet_def toy_system_def)

section \<open>Witnesses\<close>


theorem second_build_runs_nothing_witness:
  "let s' = snd (build_image toy_system (\<lambda>m. ()) ''.'' ''f'' True False toy_session);
       s2 = \<lparr>se_cache_fs = se_cache_fs s', se_host = \<lparr>host_fs = toy_files [2], host_os = ()\<rparr>\<rparr>
   in \<forall>sh. build_image (toy_system\<lparr>bs_shell := sh\<rparr>) (\<lambda>m. ()) ''.'' ''f'' True False s2
     = build_image toy_system (\<lambda>m. ()) ''.'' ''f'' True False s2"
proof -
  let ?c = "\<lparr>hy_local = mkdirs ''/c'' (demo_cache\<lparr>lc_fs := no_files\<rparr>), hy_remote = ()\<rparr>"
  have c: "create_cache toy_system (se_cache_fs toy_session) = Inr ?c" using toy_cache by (simp add: toy_session_def)
  have rd: "read_to_string ''f'' (host_fs (se_host toy_session)) = (Inr ''COPY a b'', toy_files [1])"
    by (simp add: toy_session_def toy_read)
  have sha: "\<And>d. hex_name (xe_sha256 (bs_export toy_system) d)" "prints_json (bs_export toy_system)"
    using toy_export_sha toy_prints by (simp_all add: toy_system_def)
  obtain out s' where run: "build_image toy_system (\<lambda>m. ()) ''.'' ''f'' True False toy_session = (Inr out, s')"
    by (rule quiet_build_succeeds [OF c rd toy_quiet toy_files_clear sha])
  define s2 where "s2 = \<lparr>se_cache_fs = se_cache_fs s', se_host = \<lparr>host_fs = toy_files [2], host_os = ()\<rparr>\<rparr>"
  have h: "lc_ready (hy_local ?c)" "\<And>d. key_ok (pl_blake3 (bs_pipeline toy_system) d)"
    using toy_cache_ready by (simp_all add: toy_system_def toy_sha_key)
  have dig: "\<And>d. key_ok (xt_digest (bs_externals toy_system) d)" by (simp add: toy_system_def toy_externals_def key_ok_def)
  note second = second_build_runs_nothing [OF c h(1) toy_json h(2) dig rd run, where ?s2.0 = s2 and ?path2.0 = "''f''"
      and ?df2.0 = "''COPY a b''" and ?f2.0 = "toy_files [2]" and ?ctx2.0 = "''.''" and ?to_value2.0 = "\<lambda>m. ()"
      and ?rep2.0 = True and ?dry2.0 = False]
  have rd2: "read_to_string ''f'' (host_fs (se_host s2)) = (Inr ''COPY a b'', toy_files [2])"
    by (simp add: s2_def toy_read)
  have "build_image (toy_system\<lparr>bs_shell := sh\<rparr>) (\<lambda>m. ()) ''.'' ''f'' True False s2
     = build_image toy_system (\<lambda>m. ()) ''.'' ''f'' True False s2" for sh
    using second [where ?B2.0 = "toy_system\<lparr>bs_shell := sh\<rparr>"] second [where ?B2.0 = toy_system] rd2
    by (auto simp: s2_def prepare_and_export_def driver_graph_def)
  then show ?thesis by (simp add: run s2_def)
qed




end
