(* ===== verification/Registry.thy ===== *)
theory Registry
  imports Export
begin

text \<open>
  \<open>src/src/export/registry.rs\<close>: pushing an image layout to an OCI registry and pulling one. The registry and the
  network are the record \<open>registry_api\<close> of the four kinds of request, each with the bearer token and the URL;
  \<open>None\<close> is a request that failed. The JSON readers are parameters. Slicing \<open>[7..]\<close> off a digest shorter than
  seven bytes panics.
\<close>

section \<open>Client\<close>

record 'n registry_api =
  ra_head :: "string option \<Rightarrow> string \<Rightarrow> 'n \<Rightarrow> nat option \<times> 'n"
  ra_get :: "string option \<Rightarrow> string \<Rightarrow> 'n \<Rightarrow> (nat \<times> bytes) option \<times> 'n"
  ra_post :: "string option \<Rightarrow> string \<Rightarrow> 'n \<Rightarrow> (nat \<times> string option) option \<times> 'n"
  ra_put :: "string option \<Rightarrow> string \<Rightarrow> bytes \<Rightarrow> 'n \<Rightarrow> nat option \<times> 'n"

record registry_client =
  rg_base_url :: string
  rg_repo :: string
  rg_token :: "string option"

record registry_json =
  rj_index_digest :: "string \<Rightarrow> string option option"
  rj_manifest :: "string \<Rightarrow> oci_manifest option"
  rj_body_text :: "bytes \<Rightarrow> string"

definition registry_new :: "string \<Rightarrow> string \<Rightarrow> registry_client" where
  "registry_new registry repo =
     \<lparr>rg_base_url = (if str_contains ''://'' registry then registry @ ''/v2'' else ''https://'' @ registry @ ''/v2''),
      rg_repo = repo, rg_token = None\<rparr>"

definition set_token :: "string \<Rightarrow> registry_client \<Rightarrow> registry_client" where
  "set_token token c = c\<lparr>rg_token := Some token\<rparr>"

definition is_success :: "nat \<Rightarrow> bool" where
  "is_success status \<longleftrightarrow> 200 \<le> status \<and> status < 300"

type_synonym 'n site = "fs \<times> 'n"

definition on_disk :: "(fs, 'a) io \<Rightarrow> ('n site, 'a) io" where
  "on_disk = on_part fst (\<lambda>f (_, n). (f, n))"

text \<open>A request whose failure the caller passes on.\<close>

definition request :: "('n \<Rightarrow> 'a option \<times> 'n) \<Rightarrow> ('n site, 'a) io" where
  "request r = (\<lambda>(f, n). case r n of (None, n') \<Rightarrow> (Inl (Err ''reqwest''), (f, n')) | (Some a, n') \<Rightarrow> (Inr a, (f, n')))"

definition repo_url :: "registry_client \<Rightarrow> string \<Rightarrow> string" where
  "repo_url c path = rg_base_url c @ ''/'' @ rg_repo c @ path"

section \<open>Upload\<close>

definition blob_exists :: "'n registry_api \<Rightarrow> registry_client \<Rightarrow> string \<Rightarrow> ('n site, bool) io" where
  "blob_exists api c digest =
     bind_io (request (ra_head api (rg_token c) (repo_url c (''/blobs/'' @ digest)))) (\<lambda>status. ret (is_success status))"

text \<open>The part of the base URL before the first \<open>/v2\<close>.\<close>

fun before :: "string \<Rightarrow> string \<Rightarrow> string" where
  "before p [] = []"
| "before p (c # s) = (if prefix p (c # s) then [] else c # before p s)"

definition upload_url :: "registry_client \<Rightarrow> string \<Rightarrow> string \<Rightarrow> string" where
  "upload_url c location digest =
     (if prefix ''/'' location then before ''/v2'' (rg_base_url c) @ location @ ''&digest='' @ digest
      else location @ ''&digest='' @ digest)"

definition put_blob :: "'n registry_api \<Rightarrow> registry_client \<Rightarrow> string \<Rightarrow> string \<Rightarrow> string \<Rightarrow> ('n site, unit) io" where
  "put_blob api c digest path location =
     bind_io (on_disk (read_file path)) (\<lambda>file_content.
     bind_io (request (ra_put api (rg_token c) (upload_url c location digest) file_content)) (\<lambda>status.
     if \<not> is_success status then bail (''Failed to upload blob: '' @ show_nat status) else ret ()))"

definition start_upload :: "'n registry_api \<Rightarrow> registry_client \<Rightarrow> string \<Rightarrow> string \<Rightarrow> ('n site, unit) io" where
  "start_upload api c digest path =
     bind_io (request (ra_post api (rg_token c) (repo_url c ''/blobs/uploads/''))) (\<lambda>(status, location).
     if \<not> is_success status then bail (''Failed to initiate blob upload: '' @ show_nat status)
     else (case location of None \<Rightarrow> bail ''No Location header in upload initiation'' | Some l \<Rightarrow> put_blob api c digest path l))"

definition upload_blob :: "'n registry_api \<Rightarrow> registry_client \<Rightarrow> string \<Rightarrow> string \<Rightarrow> ('n site, unit) io" where
  "upload_blob api c digest path =
     bind_io (blob_exists api c digest) (\<lambda>present. if present then ret () else start_upload api c digest path)"

definition upload_manifest :: "'n registry_api \<Rightarrow> registry_client \<Rightarrow> string \<Rightarrow> string \<Rightarrow> ('n site, unit) io" where
  "upload_manifest api c digest content =
     bind_io (request (ra_put api (rg_token c) (repo_url c ''/manifests/latest'') (as_bytes content))) (\<lambda>status.
     if \<not> is_success status then bail (''Failed to upload manifest: '' @ show_nat status) else ret ())"

text \<open>The path of a blob of a layout; the slice of the digest may panic.\<close>

definition with_blob_path :: "string \<Rightarrow> string \<Rightarrow> (string \<Rightarrow> ('s, 'a) pio) \<Rightarrow> ('s, 'a) pio" where
  "with_blob_path dir digest k = (if length digest < 7 then panic else k (path_join (blobs_dir dir) (drop 7 digest)))"

fun push_layers :: "'n registry_api \<Rightarrow> registry_client \<Rightarrow> string \<Rightarrow> oci_descriptor list \<Rightarrow> ('n site, unit) pio" where
  "push_layers api c dir [] = from_io (ret ())"
| "push_layers api c dir (l # ls) =
     bind_pio (with_blob_path dir (od_digest l) (\<lambda>path. from_io (upload_blob api c (od_digest l) path))) (\<lambda>_.
     push_layers api c dir ls)"

definition push_blobs :: "'n registry_api \<Rightarrow> registry_client \<Rightarrow> string \<Rightarrow> string \<Rightarrow> string \<Rightarrow> oci_manifest \<Rightarrow> ('n site, unit) pio" where
  "push_blobs api c layout_dir manifest_digest manifest_content manifest =
     bind_pio (push_layers api c layout_dir (om_layers manifest)) (\<lambda>_.
     bind_pio (with_blob_path layout_dir (od_digest (om_config manifest)) (\<lambda>config_path.
         from_io (upload_blob api c (od_digest (om_config manifest)) config_path))) (\<lambda>_.
     from_io (upload_manifest api c manifest_digest manifest_content)))"

definition push_from :: "'n registry_api \<Rightarrow> registry_json \<Rightarrow> registry_client \<Rightarrow> string \<Rightarrow> string \<Rightarrow> ('n site, unit) pio" where
  "push_from api J c layout_dir manifest_digest =
     with_blob_path layout_dir manifest_digest (\<lambda>manifest_path.
     bind_pio (from_io (on_disk (read_to_string manifest_path))) (\<lambda>manifest_content.
     case rj_manifest J manifest_content of
       None \<Rightarrow> from_io (bail ''serde_json'')
     | Some manifest \<Rightarrow> push_blobs api c layout_dir manifest_digest manifest_content manifest))"

definition push :: "'n registry_api \<Rightarrow> registry_json \<Rightarrow> registry_client \<Rightarrow> string \<Rightarrow> ('n site, unit) pio" where
  "push api J c layout_dir =
     bind_pio (from_io (on_disk (read_to_string (path_join layout_dir ''index.json'')))) (\<lambda>index_content.
     case rj_index_digest J index_content of
       None \<Rightarrow> from_io (bail ''serde_json'')
     | Some None \<Rightarrow> from_io (bail ''No manifest found in index.json'')
     | Some (Some manifest_digest) \<Rightarrow> push_from api J c layout_dir manifest_digest)"

section \<open>Download\<close>

text \<open>The request comes first, the digest is sliced for the path after it.\<close>

definition download_blob :: "'n registry_api \<Rightarrow> registry_client \<Rightarrow> string \<Rightarrow> string \<Rightarrow> ('n site, unit) pio" where
  "download_blob api c digest output_dir =
     bind_pio (from_io (request (ra_get api (rg_token c) (repo_url c (''/blobs/'' @ digest))))) (\<lambda>(status, body).
     if \<not> is_success status
     then from_io (bail (''Failed to download blob '' @ digest @ '': '' @ show_nat status))
     else with_blob_path output_dir digest (\<lambda>blob_path. from_io (on_disk (write_file blob_path body))))"

fun download_layers :: "'n registry_api \<Rightarrow> registry_client \<Rightarrow> string \<Rightarrow> oci_descriptor list \<Rightarrow> ('n site, unit) pio" where
  "download_layers api c output_dir [] = from_io (ret ())"
| "download_layers api c output_dir (l # ls) =
     bind_pio (download_blob api c (od_digest l) output_dir) (\<lambda>_. download_layers api c output_dir ls)"

definition pull_files :: "export_env \<Rightarrow> 'n registry_api \<Rightarrow> registry_client \<Rightarrow> string \<Rightarrow> string \<Rightarrow> oci_manifest \<Rightarrow> ('n site, unit) pio" where
  "pull_files E api c output_dir manifest_content manifest =
     with_blob_path output_dir (''sha256:'' @ sha256_string E manifest_content) (\<lambda>manifest_path.
     bind_pio (from_io (on_disk (write_file manifest_path (as_bytes manifest_content)))) (\<lambda>_.
     bind_pio (download_blob api c (od_digest (om_config manifest)) output_dir) (\<lambda>_.
     bind_pio (download_layers api c output_dir (om_layers manifest)) (\<lambda>_.
     from_io (
       bind_io (from_json (xe_index_json E (image_index E manifest_content))) (\<lambda>index_json.
       bind_io (on_disk (write_file (path_join output_dir ''index.json'') (as_bytes index_json))) (\<lambda>_.
       on_disk (write_file (path_join output_dir ''oci-layout'') (as_bytes layout_text)))))))))"

definition pull :: "export_env \<Rightarrow> 'n registry_api \<Rightarrow> registry_json \<Rightarrow> registry_client \<Rightarrow> string \<Rightarrow> string \<Rightarrow> ('n site, unit) pio" where
  "pull E api J c tag output_dir =
     bind_pio (from_io (on_disk (create_dir_all (blobs_dir output_dir)))) (\<lambda>_.
     bind_pio (from_io (request (ra_get api (rg_token c) (repo_url c (''/manifests/'' @ tag))))) (\<lambda>(status, body).
     if \<not> is_success status then from_io (bail (''Failed to fetch manifest: '' @ show_nat status))
     else
       (let manifest_content = rj_body_text J body
        in case rj_manifest J manifest_content of
             None \<Rightarrow> from_io (bail ''serde_json'')
           | Some manifest \<Rightarrow> pull_files E api c output_dir manifest_content manifest)))"

section \<open>Lemmas\<close>

lemma on_disk_Ok: "on_disk m (f, n) = (r, fn') \<longleftrightarrow> (\<exists>f'. m f = (r, f') \<and> fn' = (f', n))"
  by (auto simp: on_disk_def on_part_def split: prod.splits)

lemma request_Ok: "request r (f, n) = (Inr a, fn') \<longleftrightarrow> (\<exists>n'. r n = (Some a, n') \<and> fn' = (f, n'))"
  by (auto simp: request_def split: prod.splits option.splits)

lemma with_blob_path_Ok:
  "with_blob_path dir digest k s = (Returns (Inr a), s') \<longleftrightarrow>
     7 \<le> length digest \<and> k (path_join (blobs_dir dir) (drop 7 digest)) s = (Returns (Inr a), s')"
  by (auto simp: with_blob_path_def)

lemmas site_Ok = bind_pio_Ok_iff from_io_Ok_iff bind_io_Ok_iff on_disk_Ok request_Ok with_blob_path_Ok

text \<open>What a registry has confirmed stays confirmed, and each blob is confirmed before the manifest is sent.\<close>

definition confirms :: "'n registry_api \<Rightarrow> registry_client \<Rightarrow> ('n \<Rightarrow> string \<Rightarrow> bool) \<Rightarrow> bool" where
  "confirms api c confirmed \<longleftrightarrow>
     (\<forall>d n st n'. ra_head api (rg_token c) (repo_url c (''/blobs/'' @ d)) n = (Some st, n') \<longrightarrow> is_success st \<longrightarrow> confirmed n' d)
   \<and> (\<forall>location d b n st n'. ra_put api (rg_token c) (upload_url c location d) b n = (Some st, n') \<longrightarrow> is_success st \<longrightarrow> confirmed n' d)
   \<and> (\<forall>d n tok url b. confirmed n d \<longrightarrow> confirmed (snd (ra_head api tok url n)) d \<and> confirmed (snd (ra_post api tok url n)) d
        \<and> confirmed (snd (ra_put api tok url b n)) d)"

lemma blob_exists_confirms:
  assumes "confirms api c confirmed" and "blob_exists api c digest (f, n) = (Inr b, (f', n'))"
  shows "(b \<longrightarrow> confirmed n' digest) \<and> (\<forall>d. confirmed n d \<longrightarrow> confirmed n' d)"
proof -
  obtain st where h: "ra_head api (rg_token c) (repo_url c (''/blobs/'' @ digest)) n = (Some st, n')" and b: "b = is_success st"
    using assms(2) unfolding blob_exists_def by (auto simp: site_Ok)
  have "confirmed (snd (ra_head api (rg_token c) (repo_url c (''/blobs/'' @ digest)) n)) d" if "confirmed n d" for d
    using assms(1) that unfolding confirms_def by blast
  then show ?thesis using assms(1) h b unfolding confirms_def by (metis snd_conv)
qed

lemma upload_blob_confirms:
  assumes "confirms api c confirmed" and "upload_blob api c digest path (f, n) = (Inr (), (f', n'))"
  shows "confirmed n' digest \<and> (\<forall>d. confirmed n d \<longrightarrow> confirmed n' d)"
proof -
  obtain b f1 n1 where e: "blob_exists api c digest (f, n) = (Inr b, (f1, n1))"
    and k: "(if b then ret () else start_upload api c digest path) (f1, n1) = (Inr (), (f', n'))"
    using assms(2) by (auto simp: upload_blob_def bind_io_Ok_iff)
  note he = blob_exists_confirms [OF assms(1) e]
  show ?thesis
  proof (cases b)
    case True
    then show ?thesis using k he by simp
  next
    case False
    then obtain st l n2 where po: "ra_post api (rg_token c) (repo_url c ''/blobs/uploads/'') n1 = (Some (st, Some l), n2)"
      and k2: "put_blob api c digest path l (f1, n2) = (Inr (), (f', n'))"
      using k by (auto simp: start_upload_def site_Ok split: if_splits option.splits)
    from k2 obtain d st2 where pu: "ra_put api (rg_token c) (upload_url c l digest) d n2 = (Some st2, n')" "is_success st2"
      by (auto simp: put_blob_def site_Ok split: if_splits)
    have "confirmed n' digest" using assms(1) pu unfolding confirms_def by blast
    moreover have "confirmed n' e" if "confirmed n e" for e
      using assms(1) he that po pu unfolding confirms_def by (metis snd_conv)
    ultimately show ?thesis by blast
  qed
qed

lemma push_layers_confirms:
  assumes "confirms api c confirmed" and "push_layers api c dir ls (f, n) = (Returns (Inr ()), (f', n'))"
  shows "(\<forall>l \<in> set ls. confirmed n' (od_digest l)) \<and> (\<forall>d. confirmed n d \<longrightarrow> confirmed n' d)"
  using assms(2)
proof (induction ls arbitrary: f n)
  case (Cons l ls)
  then obtain f1 n1 where u: "upload_blob api c (od_digest l) (path_join (blobs_dir dir) (drop 7 (od_digest l))) (f, n) = (Inr (), (f1, n1))"
    and r: "push_layers api c dir ls (f1, n1) = (Returns (Inr ()), (f', n'))"
    by (auto simp: site_Ok)
  show ?case using upload_blob_confirms [OF assms(1) u] Cons.IH [OF r] by auto
qed (simp add: from_io_def)

section \<open>Properties\<close>

text \<open>C22. The manifest is published last: when a push succeeds, the manifest it sends is the file that \<open>index.json\<close> of the
  layout names, and in the state of the registry it is sent to, each of its layers and its configuration has been
  confirmed by the registry, by a positive answer to \<open>HEAD\<close> or to the upload of the blob.\<close>

theorem push_publishes_last:
  assumes "confirms api c confirmed" and "push api J c layout_dir (f, n) = (Returns (Inr ()), (f', n'))"
  shows "\<exists>index_content f1 manifest_digest manifest_content f2 manifest n1 st.
      read_to_string (path_join layout_dir ''index.json'') f = (Inr index_content, f1)
    \<and> read_to_string (path_join (blobs_dir layout_dir) (drop 7 manifest_digest)) f1 = (Inr manifest_content, f2)
    \<and> rj_index_digest J index_content = Some (Some manifest_digest)
    \<and> rj_manifest J manifest_content = Some manifest
    \<and> (\<forall>d \<in> set (om_config manifest # om_layers manifest). confirmed n1 (od_digest d))
    \<and> ra_put api (rg_token c) (repo_url c ''/manifests/latest'') (as_bytes manifest_content) n1 = (Some st, n') \<and> is_success st"
proof -
  obtain ic f1 where ic: "read_to_string (path_join layout_dir ''index.json'') f = (Inr ic, f1)"
    and k: "(case rj_index_digest J ic of
       None \<Rightarrow> from_io (bail ''serde_json'')
     | Some None \<Rightarrow> from_io (bail ''No manifest found in index.json'')
     | Some (Some manifest_digest) \<Rightarrow> push_from api J c layout_dir manifest_digest) (f1, n) = (Returns (Inr ()), (f', n'))"
    using assms(2) unfolding push_def by (auto simp: site_Ok)
  then obtain md where md: "rj_index_digest J ic = Some (Some md)"
    by (auto simp: from_io_def split: option.splits)
  with k obtain mc f2 where rm: "read_to_string (path_join (blobs_dir layout_dir) (drop 7 md)) f1 = (Inr mc, f2)"
    and k2: "(case rj_manifest J mc of
           None \<Rightarrow> from_io (bail ''serde_json'')
         | Some manifest \<Rightarrow> push_blobs api c layout_dir md mc manifest) (f2, n) = (Returns (Inr ()), (f', n'))"
    by (auto simp: push_from_def site_Ok)
  then obtain m where m: "rj_manifest J mc = Some m" by (auto simp: from_io_def split: option.splits)
  with k2 obtain f3 n3 f4 n4 st where
    ls: "push_layers api c layout_dir (om_layers m) (f2, n) = (Returns (Inr ()), (f3, n3))"
    and cf: "upload_blob api c (od_digest (om_config m)) (path_join (blobs_dir layout_dir) (drop 7 (od_digest (om_config m)))) (f3, n3) = (Inr (), (f4, n4))"
    and pm: "ra_put api (rg_token c) (repo_url c ''/manifests/latest'') (as_bytes mc) n4 = (Some st, n')" "is_success st"
    by (auto simp: push_blobs_def upload_manifest_def site_Ok split: if_splits)
  have "\<forall>d \<in> set (om_config m # om_layers m). confirmed n4 (od_digest d)"
    using push_layers_confirms [OF assms(1) ls] upload_blob_confirms [OF assms(1) cf] by auto
  then show ?thesis using ic rm md m pm by blast
qed

text \<open>The body of the successful answer for a blob, from a registry whose answers to \<open>GET\<close> do not change its state.\<close>

definition served :: "'n registry_api \<Rightarrow> registry_client \<Rightarrow> 'n \<Rightarrow> string \<Rightarrow> bytes option" where
  "served api c n digest =
     (case fst (ra_get api (rg_token c) (repo_url c (''/blobs/'' @ digest)) n) of
        Some (status, body) \<Rightarrow> if is_success status then Some body else None
      | None \<Rightarrow> None)"

definition sha_digest :: "string \<Rightarrow> bool" where
  "sha_digest d \<longleftrightarrow> (\<exists>h. hex_name h \<and> d = ''sha256:'' @ h)"

lemma download_blob_done:
  assumes "faults f = []" and "plain_dir out" and "\<And>tok url n. snd (ra_get api tok url n) = n" and "sha_digest digest"
    and "download_blob api c digest out (f, n) = (Returns (Inr ()), (f', n'))"
  shows "n' = n \<and> faults f' = [] \<and> served api c n digest \<noteq> None
    \<and> (\<forall>h. hex_name h \<longrightarrow> blob out f' h = (if digest = ''sha256:'' @ h then served api c n digest else blob out f h))"
proof -
  obtain h where h: "hex_name h" "digest = ''sha256:'' @ h" using assms(4) by (auto simp: sha_digest_def)
  obtain st body n1 where g: "ra_get api (rg_token c) (repo_url c (''/blobs/'' @ digest)) n = (Some (st, body), n1)" "is_success st"
    and w: "write_file (path_join (blobs_dir out) (drop 7 digest)) body f = (Inr (), f')" and n': "n' = n1"
    using assms(5) by (auto simp: download_blob_def site_Ok split: if_splits)
  have n1: "n1 = n" using assms(3) [of "rg_token c" "repo_url c (''/blobs/'' @ digest)" n] g(1) by simp
  have "path_join (blobs_dir out) (drop 7 digest) = out @ ''/blobs/sha256/'' @ h"
    using blob_path [OF assms(2) h(1)] h(2) by simp
  note f' = write_file_done [OF assms(1) w [unfolded this]]
  have sv: "served api c n digest = Some body" using g by (simp add: served_def)
  have "blob out f' k = (if digest = ''sha256:'' @ k then Some body else blob out f k)" for k
    using f' h(2) by (simp add: blob_def)
  then show ?thesis unfolding sv using f' n' n1 by blast
qed

lemma download_layers_done:
  assumes "plain_dir out" and "\<And>tok url n. snd (ra_get api tok url n) = n"
    and "faults f = []" and "list_all (\<lambda>l. sha_digest (od_digest l)) ls"
    and "download_layers api c out ls (f, n) = (Returns (Inr ()), (f', n'))"
  shows "n' = n \<and> faults f' = [] \<and> (\<forall>l \<in> set ls. served api c n (od_digest l) \<noteq> None)
    \<and> (\<forall>h. hex_name h \<longrightarrow> blob out f' h =
          (if \<exists>l \<in> set ls. od_digest l = ''sha256:'' @ h then served api c n (''sha256:'' @ h) else blob out f h))"
  using assms(3-5)
proof (induction ls arbitrary: f n)
  case (Cons l ls)
  then obtain f1 n1 where d: "download_blob api c (od_digest l) out (f, n) = (Returns (Inr ()), (f1, n1))"
    and r: "download_layers api c out ls (f1, n1) = (Returns (Inr ()), (f', n'))"
    by (auto simp: site_Ok)
  note one = download_blob_done [OF Cons.prems(1) assms(1,2) _ d]
  have one: "n1 = n" "faults f1 = []" "served api c n (od_digest l) \<noteq> None"
    "\<And>h. hex_name h \<Longrightarrow> blob out f1 h = (if od_digest l = ''sha256:'' @ h then served api c n (od_digest l) else blob out f h)"
    using download_blob_done [OF Cons.prems(1) assms(1,2) _ d] Cons.prems(2) by simp_all
  have "n' = n \<and> faults f' = [] \<and> (\<forall>l \<in> set ls. served api c n (od_digest l) \<noteq> None)
    \<and> (\<forall>h. hex_name h \<longrightarrow> blob out f' h =
          (if \<exists>l \<in> set ls. od_digest l = ''sha256:'' @ h then served api c n (''sha256:'' @ h) else blob out f1 h))"
    using Cons.IH [OF one(2) _ r] Cons.prems(2) one(1) by simp
  then show ?case using one(3,4) by auto
qed (simp add: from_io_def)

lemma pull_done:
  assumes "faults f = []" and "plain_dir out" and "\<And>tok url n. snd (ra_get api tok url n) = n"
    and "pull E api J c tag out (f, n) = (Returns (Inr ()), (f', n'))"
  obtains st body m where "fst (ra_get api (rg_token c) (repo_url c (''/manifests/'' @ tag)) n) = Some (st, body)" "is_success st"
    "rj_manifest J (rj_body_text J body) = Some m"
    "list_all (\<lambda>d. sha_digest (od_digest d)) (om_config m # om_layers m) \<Longrightarrow>
       \<forall>d \<in> set (om_config m # om_layers m). served api c n (od_digest d) \<noteq> None
          \<and> blob out f' (drop 7 (od_digest d)) = served api c n (od_digest d)"
proof -
  obtain f1 st body n1 where 1: "create_dir_all (blobs_dir out) f = (Inr (), f1)"
    and g: "ra_get api (rg_token c) (repo_url c (''/manifests/'' @ tag)) n = (Some (st, body), n1)" "is_success st"
    and k: "(case rj_manifest J (rj_body_text J body) of
             None \<Rightarrow> from_io (bail ''serde_json'')
           | Some manifest \<Rightarrow> pull_files E api c out (rj_body_text J body) manifest) (f1, n1) = (Returns (Inr ()), (f', n'))"
    using assms(4) by (auto simp: pull_def Let_def site_Ok split: if_splits)
  then obtain m where m: "rj_manifest J (rj_body_text J body) = Some m" by (auto simp: from_io_def split: option.splits)
  with k obtain p f2 f3 n3 f4 n4 xj f5 where
    w: "write_file p (as_bytes (rj_body_text J body)) f1 = (Inr (), f2)"
    and cf: "download_blob api c (od_digest (om_config m)) out (f2, n1) = (Returns (Inr ()), (f3, n3))"
    and ls: "download_layers api c out (om_layers m) (f3, n3) = (Returns (Inr ()), (f4, n4))"
    and x: "write_file (path_join out ''index.json'') (as_bytes xj) f4 = (Inr (), f5)"
    and o: "write_file (path_join out ''oci-layout'') (as_bytes layout_text) f5 = (Inr (), f')"
    by (auto simp: pull_files_def site_Ok from_json_Ok)
  have n1: "n1 = n" using assms(3) [of "rg_token c" "repo_url c (''/manifests/'' @ tag)" n] g(1) by simp
  note f1 = create_dir_all_done [OF assms(1) 1]
  note f2 = write_file_done [OF conjunct1 [OF f1] w]
  show thesis
  proof (rule that [of st body m])
    assume a: "list_all (\<lambda>d. sha_digest (od_digest d)) (om_config m # om_layers m)"
    have c3: "n3 = n" "faults f3 = []" "served api c n (od_digest (om_config m)) \<noteq> None"
      "\<And>h. hex_name h \<Longrightarrow> blob out f3 h = (if od_digest (om_config m) = ''sha256:'' @ h then served api c n (od_digest (om_config m)) else blob out f2 h)"
      using download_blob_done [OF conjunct1 [OF f2] assms(2,3) _ cf] a n1 by simp_all
    have l4: "faults f4 = []" "\<forall>l \<in> set (om_layers m). served api c n (od_digest l) \<noteq> None"
      "\<And>h. hex_name h \<Longrightarrow> blob out f4 h =
          (if \<exists>l \<in> set (om_layers m). od_digest l = ''sha256:'' @ h then served api c n (''sha256:'' @ h) else blob out f3 h)"
      using download_layers_done [OF assms(2,3) c3(2) _ ls] a c3(1) by simp_all
    have top: "path_join out ''index.json'' = out @ ''/index.json''" "path_join out ''oci-layout'' = out @ ''/oci-layout''"
      using assms(2) by (simp_all add: top_file_path)
    note f5 = write_file_done [OF l4(1) x [unfolded top]]
    note f6 = write_file_done [OF conjunct1 [OF f5] o [unfolded top]]
    have same: "blob out f' h = blob out f4 h" for h using f5 f6 by (simp add: blob_def)
    show "\<forall>d \<in> set (om_config m # om_layers m). served api c n (od_digest d) \<noteq> None
          \<and> blob out f' (drop 7 (od_digest d)) = served api c n (od_digest d)"
    proof
      fix d assume d: "d \<in> set (om_config m # om_layers m)"
      then obtain h where h: "hex_name h" "od_digest d = ''sha256:'' @ h" using a by (auto simp: sha_digest_def list_all_iff)
      then show "served api c n (od_digest d) \<noteq> None \<and> blob out f' (drop 7 (od_digest d)) = served api c n (od_digest d)"
        using d c3(3,4) l4(2,3) by (auto simp: same)
    qed
  qed (use g m in simp_all)
qed

text \<open>A pull trusts the registry: after a successful pull of an image whose digests are well formed, the configuration and
  every layer of the manifest are in the layout under their digests, with exactly the bytes the registry sent for
  them. Nothing compares these bytes, or the manifest, with the digests.\<close>

theorem pull_stores_what_is_sent:
  assumes "faults f = []" and "plain_dir out" and "\<And>tok url n. snd (ra_get api tok url n) = n"
    and "pull E api J c tag out (f, n) = (Returns (Inr ()), (f', n'))"
  shows "\<exists>st body m. fst (ra_get api (rg_token c) (repo_url c (''/manifests/'' @ tag)) n) = Some (st, body) \<and> is_success st
    \<and> rj_manifest J (rj_body_text J body) = Some m
    \<and> (list_all (\<lambda>d. sha_digest (od_digest d)) (om_config m # om_layers m) \<longrightarrow>
         (\<forall>d \<in> set (om_config m # om_layers m). served api c n (od_digest d) \<noteq> None
            \<and> blob out f' (drop 7 (od_digest d)) = served api c n (od_digest d)))"
  by (rule pull_done [OF assms]) blast

section \<open>Witnesses\<close>

text \<open>A registry that records the addresses of what it is sent, and one that answers every request with the same bytes.\<close>

definition toy_registry :: "string list registry_api" where
  "toy_registry = \<lparr>ra_head = (\<lambda>tok url n. (Some 404, n)), ra_get = (\<lambda>tok url n. (Some (200, [7]), n)),
     ra_post = (\<lambda>tok url n. (Some (202, Some ''/up''), n)), ra_put = (\<lambda>tok url b n. (Some 201, url # n))\<rparr>"

definition toy_descriptor :: "string \<Rightarrow> oci_descriptor" where
  "toy_descriptor h = \<lparr>od_media_type = [], od_digest = ''sha256:'' @ h, od_size = 1\<rparr>"

definition toy_json :: registry_json where
  "toy_json = \<lparr>rj_index_digest = (\<lambda>t. Some (Some ''sha256:m'')),
     rj_manifest = (\<lambda>t. Some \<lparr>om_schema_version = 2, om_media_type = [], om_config = toy_descriptor ''c'', om_layers = [toy_descriptor ''l'']\<rparr>),
     rj_body_text = (\<lambda>b. ''{}'')\<rparr>"

definition toy_layout :: fs where
  "toy_layout = \<lparr>files = [(''o/index.json'', []), (''o/blobs/sha256/m'', []), (''o/blobs/sha256/c'', []), (''o/blobs/sha256/l'', [])],
     dirs = [''o'', ''o/blobs'', ''o/blobs/sha256''], faults = []\<rparr>"

lemma toy_confirms: "confirms toy_registry c (\<lambda>n d. \<exists>u \<in> set n. suffix d u)"
proof -
  have "suffix d (upload_url c location d)" for location d by (auto simp: upload_url_def suffix_def)
  then show ?thesis by (auto simp: confirms_def toy_registry_def is_success_def)
qed

theorem push_publishes_last_witness:
  "\<exists>f' n1. push toy_registry toy_json (registry_new ''r'' ''i'') ''o'' (toy_layout, [])
       = (Returns (Inr ()), (f', ''https://r/v2/i/manifests/latest'' # n1)) \<and> (\<exists>u \<in> set n1. suffix ''sha256:l'' u)"
proof -
  have "fst (push toy_registry toy_json (registry_new ''r'' ''i'') ''o'' (toy_layout, [])) = Returns (Inr ())"
    by code_simp
  then obtain f' n' where run: "push toy_registry toy_json (registry_new ''r'' ''i'') ''o'' (toy_layout, []) = (Returns (Inr ()), (f', n'))"
    by (metis prod.exhaust fst_conv)
  have url: "repo_url (registry_new ''r'' ''i'') ''/manifests/latest'' = ''https://r/v2/i/manifests/latest''"
    by (simp add: repo_url_def registry_new_def)
  from push_publishes_last [OF toy_confirms run] obtain mc m n1 st where
    m: "rj_manifest toy_json mc = Some m" "\<forall>d \<in> set (om_config m # om_layers m). \<exists>u \<in> set n1. suffix (od_digest d) u"
    and put: "ra_put toy_registry (rg_token (registry_new ''r'' ''i'')) ''https://r/v2/i/manifests/latest'' (as_bytes mc) n1 = (Some st, n')"
    unfolding url by blast
  have "toy_descriptor ''l'' \<in> set (om_config m # om_layers m)" using m(1) by (auto simp: toy_json_def)
  then have "\<exists>u \<in> set n1. suffix (od_digest (toy_descriptor ''l'')) u" using m(2) by blast
  moreover have "n' = ''https://r/v2/i/manifests/latest'' # n1" using put by (simp add: toy_registry_def)
  ultimately show ?thesis unfolding run by (auto simp: toy_descriptor_def)
qed

theorem pull_stores_what_is_sent_witness:
  "\<exists>f' n'. pull toy_export toy_registry toy_json (registry_new ''r'' ''i'') ''latest'' ''o'' (no_files, []) = (Returns (Inr ()), (f', n'))
     \<and> blob ''o'' f' ''l'' = Some [7] \<and> ''sha256:l'' \<noteq> ''sha256:'' @ toy_sha [7]"
proof -
  have "fst (pull toy_export toy_registry toy_json (registry_new ''r'' ''i'') ''latest'' ''o'' (no_files, [])) = Returns (Inr ())"
    by code_simp
  then obtain f' n' where run: "pull toy_export toy_registry toy_json (registry_new ''r'' ''i'') ''latest'' ''o'' (no_files, []) = (Returns (Inr ()), (f', n'))"
    by (metis prod.exhaust fst_conv)
  have pre: "faults no_files = []" "plain_dir ''o''" "\<And>tok url n. snd (ra_get toy_registry tok url n) = n"
    by (simp_all add: no_files_def plain_dir_def toy_registry_def)
  from pull_stores_what_is_sent [OF pre run] obtain body m where m: "rj_manifest toy_json (rj_body_text toy_json body) = Some m"
    and k: "list_all (\<lambda>d. sha_digest (od_digest d)) (om_config m # om_layers m) \<longrightarrow>
         (\<forall>d \<in> set (om_config m # om_layers m). served toy_registry (registry_new ''r'' ''i'') [] (od_digest d) \<noteq> None
            \<and> blob ''o'' f' (drop 7 (od_digest d)) = served toy_registry (registry_new ''r'' ''i'') [] (od_digest d))"
    by blast
  have ds: "om_config m # om_layers m = [toy_descriptor ''c'', toy_descriptor ''l'']" using m by (auto simp: toy_json_def)
  have "sha_digest (od_digest (toy_descriptor h))" if "hex_name h" for h
    using that by (auto simp: sha_digest_def toy_descriptor_def)
  then have "list_all (\<lambda>d. sha_digest (od_digest d)) (om_config m # om_layers m)" unfolding ds by (simp add: hex_name_def)
  then have "blob ''o'' f' (drop 7 (od_digest (toy_descriptor ''l''))) = served toy_registry (registry_new ''r'' ''i'') [] (od_digest (toy_descriptor ''l''))"
    using k unfolding ds by simp
  then have "blob ''o'' f' ''l'' = served toy_registry (registry_new ''r'' ''i'') [] ''sha256:l''" by (simp add: toy_descriptor_def)
  also have "served toy_registry (registry_new ''r'' ''i'') [] ''sha256:l'' = Some [7]"
    by (simp add: served_def toy_registry_def is_success_def)
  finally have A: "blob ''o'' f' ''l'' = Some [7]" .
  have B: "''sha256:l'' \<noteq> ''sha256:'' @ toy_sha [7]" by (simp add: toy_sha_def)
  show ?thesis by (rule exI [of _ f'], rule exI [of _ n'], intro conjI) (rule run, rule A, rule B)
qed

end
