(* ===== verification/Sbom.thy ===== *)
theory Sbom
  imports Files
begin

text \<open>
  \<open>src/src/sbom.rs\<close>: the bill of materials of an image, made of the Dockerfile's sources, the packages of the lock files
  in the context and the blobs under it. SHA-256 with hexadecimal output, the clock, the fresh identifier, the order in
  which a directory is read and \<open>serde_json\<close> are fields of \<open>sbom_env\<close>. A JSON object of \<open>serde_json\<close> is a map sorted
  by key.
\<close>

section \<open>The documents\<close>

datatype json =
  JNull | JBool bool | JNumber string | JString string | JArray "json list" | JObject "(string \<times> json) list"

fun json_get :: "string \<Rightarrow> json \<Rightarrow> json option" where
  "json_get k (JObject m) = map_of m k"
| "json_get k _ = None"

fun json_as_str :: "json \<Rightarrow> string option" where
  "json_as_str (JString s) = Some s"
| "json_as_str _ = None"

record component =
  co_type :: string
  co_name :: string
  co_version :: string
  co_purl :: "string option"
  co_hash :: string
  co_licenses :: "string list"

record dependency =
  dp_name :: string
  dp_version :: string
  dp_purl :: string
  dp_sha256 :: string
  dp_licenses :: "string list"

record sbom_layer =
  sl_digest :: string
  sl_size :: u64
  sl_media_type :: string

record tool =
  tl_name :: string
  tl_version :: string

record sbom_metadata =
  sm_timestamp :: string
  sm_tools :: "tool list"
  sm_component :: component

record sbom =
  sb_bom_format :: string
  sb_spec_version :: string
  sb_serial_number :: string
  sb_version :: int
  sb_metadata :: sbom_metadata
  sb_components :: "component list"
  sb_dependencies :: "dependency list"
  sb_layers :: "sbom_layer list"

datatype output_format = Format_Json | Format_Xml

record sbom_env =
  sv_sha256 :: "bytes \<Rightarrow> string"
  sv_now :: string
  sv_uuid :: string
  sv_order :: "string list \<Rightarrow> string list"
  sv_parse :: "string \<Rightarrow> json option"
  sv_json :: "sbom \<Rightarrow> string option"

definition sbom_hash :: "sbom_env \<Rightarrow> bytes \<Rightarrow> string" where
  "sbom_hash E d = ''sha256:'' @ sv_sha256 E d"

section \<open>Sources of the Dockerfile\<close>

text \<open>\<open>&hash[7..19]\<close> is in range: a SHA-256 in hexadecimal has 64 digits.\<close>

definition copied_component :: "sbom_env \<Rightarrow> string \<Rightarrow> bytes option \<Rightarrow> component" where
  "copied_component E source d =
     (case d of
        Some d \<Rightarrow>
          (let hash = sbom_hash E d
           in \<lparr>co_type = ''file'', co_name = source, co_version = ''1.0.0'',
               co_purl = Some (''pkg:generic/'' @ source @ ''@'' @ take 12 (drop 7 hash)), co_hash = hash, co_licenses = []\<rparr>)
      | None \<Rightarrow>
          \<lparr>co_type = ''file'', co_name = source, co_version = ''1.0.0'', co_purl = None, co_hash = ''sha256:missing'', co_licenses = []\<rparr>)"

definition copy_source :: "string \<Rightarrow> string option" where
  "copy_source line =
     (let stripped = trim line
      in if prefix ''COPY '' stripped \<or> prefix ''ADD '' stripped
         then (case split_whitespace stripped of _ # source # _ \<Rightarrow> Some source | _ \<Rightarrow> None)
         else None)"

fun collect_sources :: "sbom_env \<Rightarrow> string \<Rightarrow> string list \<Rightarrow> (fs, component list) io" where
  "collect_sources E context_dir [] = ret []"
| "collect_sources E context_dir (line # rest) =
     (case copy_source line of
        None \<Rightarrow> collect_sources E context_dir rest
      | Some source \<Rightarrow>
          bind_io (\<lambda>s. if path_exists s (path_join context_dir source)
                       then bind_io (read_file (path_join context_dir source)) (\<lambda>d. ret (copied_component E source (Some d))) s
                       else ret (copied_component E source None) s) (\<lambda>c.
          bind_io (collect_sources E context_dir rest) (\<lambda>cs. ret (c # cs))))"

definition collect_dockerfile_components :: "sbom_env \<Rightarrow> string \<Rightarrow> string \<Rightarrow> (fs, component list) io" where
  "collect_dockerfile_components E context_dir dockerfile = collect_sources E context_dir (lines dockerfile)"

section \<open>Packages of the lock files\<close>

definition strip_pre :: "string \<Rightarrow> string \<Rightarrow> string option" where
  "strip_pre p s = (if prefix p s then Some (drop (length p) s) else None)"

definition trim_end_char :: "char \<Rightarrow> string \<Rightarrow> string" where
  "trim_end_char c s = rev (dropWhile (\<lambda>d. d = c) (rev s))"

definition trim_start_char :: "char \<Rightarrow> string \<Rightarrow> string" where
  "trim_start_char c s = dropWhile (\<lambda>d. d = c) s"

record cargo_state =
  cs_in_package :: bool
  cs_name :: "string option"
  cs_version :: "string option"
  cs_deps :: "dependency list"

definition cargo_dependency :: "sbom_env \<Rightarrow> string \<Rightarrow> string \<Rightarrow> dependency" where
  "cargo_dependency E name version =
     \<lparr>dp_name = name, dp_version = version, dp_purl = ''pkg:cargo/'' @ name @ ''/'' @ version,
      dp_sha256 = sbom_hash E (as_bytes (name @ ''@'' @ version)), dp_licenses = []\<rparr>"

definition quoted_value :: "string \<Rightarrow> string \<Rightarrow> string option \<Rightarrow> string option" where
  "quoted_value key stripped old =
     (case strip_pre (key @ '' = '' @ [CHR 0x22]) stripped of Some v \<Rightarrow> Some (trim_end_char (CHR 0x22) v) | None \<Rightarrow> old)"

definition cargo_line :: "sbom_env \<Rightarrow> string \<Rightarrow> cargo_state \<Rightarrow> cargo_state" where
  "cargo_line E line c =
     (let stripped = trim line
      in if stripped = ''[[package]]'' then c\<lparr>cs_in_package := True, cs_name := None, cs_version := None\<rparr>
         else if cs_in_package c
         then (let c1 = c\<lparr>cs_name := quoted_value ''name'' stripped (cs_name c),
                          cs_version := quoted_value ''version'' stripped (cs_version c)\<rparr>
               in case (cs_name c1, cs_version c1) of
                    (Some name, Some version) \<Rightarrow>
                      c1\<lparr>cs_deps := cs_deps c1 @ [cargo_dependency E name version], cs_in_package := False\<rparr>
                  | _ \<Rightarrow> c1)
         else c)"

definition cargo_start :: cargo_state where
  "cargo_start = \<lparr>cs_in_package = False, cs_name = None, cs_version = None, cs_deps = []\<rparr>"

definition cargo_deps :: "sbom_env \<Rightarrow> string \<Rightarrow> dependency list" where
  "cargo_deps E content = cs_deps (fold (cargo_line E) (lines content) cargo_start)"

definition npm_path :: "string \<Rightarrow> string \<Rightarrow> string" where
  "npm_path outer name = (if outer = [] then name else outer @ ''/'' @ name)"

definition npm_dependency :: "sbom_env \<Rightarrow> string \<Rightarrow> string \<Rightarrow> string \<Rightarrow> dependency" where
  "npm_dependency E outer name version =
     \<lparr>dp_name = npm_path outer name, dp_version = version,
      dp_purl = ''pkg:npm/'' @ trim_start_char CHR ''/'' outer @ ''/'' @ name,
      dp_sha256 = sbom_hash E (as_bytes (name @ ''@'' @ version)), dp_licenses = []\<rparr>"

lemma json_get_size: "json_get k j = Some c \<Longrightarrow> size c < size j"
proof (cases j)
  case (JObject m)
  assume "json_get k j = Some c"
  then have "(k, c) \<in> set m" by (simp add: JObject map_of_SomeD)
  then have "size c < Suc (size_list (size_prod (\<lambda>_. 0) size) m)"
    by (induction m) auto
  then show ?thesis by (simp add: JObject)
qed simp_all

lemma in_object_size: "(k, c) \<in> set m \<Longrightarrow> size c < size (JObject m)"
  by (induction m) auto

fun npm_version :: "json \<Rightarrow> string option" where
  "npm_version details = (case json_get ''version'' details of Some v \<Rightarrow> json_as_str v | None \<Rightarrow> None)"

function npm_deps :: "sbom_env \<Rightarrow> string \<Rightarrow> json \<Rightarrow> dependency list" where
  "npm_deps E outer node =
     (case node of
        JObject m \<Rightarrow>
          concat (map (\<lambda>(name, details).
            (case npm_version details of Some version \<Rightarrow> [npm_dependency E outer name version] | None \<Rightarrow> [])
            @ (case json_get ''dependencies'' details of
                 Some child \<Rightarrow> npm_deps E (npm_path outer name) child
               | None \<Rightarrow> [])) m)
      | _ \<Rightarrow> [])"
  by pat_completeness auto
termination
  by (relation "measure (\<lambda>(E, outer, node). size node)")
    (auto dest!: json_get_size in_object_size)

declare npm_deps.simps [simp del]

definition collect_cargo :: "sbom_env \<Rightarrow> string \<Rightarrow> (fs, dependency list) io" where
  "collect_cargo E context_dir s =
     (let cargo_lock = path_join context_dir ''Cargo.lock''
      in if path_exists s cargo_lock
         then bind_io (read_to_string cargo_lock) (\<lambda>content. ret (cargo_deps E content)) s
         else ret [] s)"

definition collect_npm :: "sbom_env \<Rightarrow> string \<Rightarrow> (fs, dependency list) io" where
  "collect_npm E context_dir s =
     (let package_lock = path_join context_dir ''package-lock.json''
      in if path_exists s package_lock
         then bind_io (read_to_string package_lock) (\<lambda>content.
              case sv_parse E content of
                None \<Rightarrow> bail ''serde_json''
              | Some lockfile \<Rightarrow>
                  ret (case json_get ''dependencies'' lockfile of Some root \<Rightarrow> npm_deps E [] root | None \<Rightarrow> [])) s
         else ret [] s)"

definition collect_dependencies :: "sbom_env \<Rightarrow> string \<Rightarrow> (fs, dependency list) io" where
  "collect_dependencies E context_dir =
     bind_io (collect_cargo E context_dir) (\<lambda>cargo. bind_io (collect_npm E context_dir) (\<lambda>npm. ret (cargo @ npm)))"

section \<open>Layers\<close>

text \<open>The names in a directory, in the order \<open>read_dir\<close> gives them. A file of it is a regular file.\<close>

definition dir_entries :: "(string list \<Rightarrow> string list) \<Rightarrow> string \<Rightarrow> fs \<Rightarrow> string list" where
  "dir_entries order d s =
     order (remdups (map (\<lambda>p. drop (length d + 1) p)
       (filter (\<lambda>p. parent p = Some d \<and> length d + 1 < length p) (map fst (files s) @ dirs s))))"

fun layers_of :: "string \<Rightarrow> string list \<Rightarrow> (fs, sbom_layer list) io" where
  "layers_of d [] = ret []"
| "layers_of d (n # ns) = (\<lambda>s.
     if is_file s (path_join d n)
     then bind_io (\<lambda>s. case take_fault s of (f, s1) \<Rightarrow>
            (case map_of (files s1) (path_join d n) of
               Some c \<Rightarrow> if f = Fine then (Inr (length c), s1) else (Inl (Err ''metadata''), s1)
             | None \<Rightarrow> (Inl (Err ''metadata''), s1))) (\<lambda>len.
          bind_io (layers_of d ns) (\<lambda>ls.
          ret (\<lparr>sl_digest = ''sha256:'' @ n, sl_size = of_nat len,
                sl_media_type = ''application/vnd.oci.image.layer.v1.tar+gzip''\<rparr> # ls))) s
     else layers_of d ns s)"

definition collect_layers :: "sbom_env \<Rightarrow> string \<Rightarrow> (fs, sbom_layer list) io" where
  "collect_layers E context_dir s =
     (let oci_blobs = path_join (path_join context_dir ''blobs'') ''sha256''
      in if path_exists s oci_blobs
         then (case take_fault s of (f, s1) \<Rightarrow>
                 if f = Fine \<and> is_dir s oci_blobs then layers_of oci_blobs (dir_entries (sv_order E) oci_blobs s1) s1
                 else (Inl (Err ''read_dir''), s1))
         else ret [] s)"

section \<open>The generator\<close>

definition generate_sbom ::
    "sbom_env \<Rightarrow> string \<Rightarrow> string \<Rightarrow> sbom_layer list \<Rightarrow> dependency list \<Rightarrow> component list \<Rightarrow> sbom" where
  "generate_sbom E image_name image_digest layers deps file_components =
     \<lparr>sb_bom_format = ''CycloneDX'', sb_spec_version = ''1.5'', sb_serial_number = ''urn:uuid:'' @ sv_uuid E, sb_version = 1,
      sb_metadata = \<lparr>sm_timestamp = sv_now E, sm_tools = [\<lparr>tl_name = ''memobuild'', tl_version = ''0.2.0''\<rparr>],
        sm_component = \<lparr>co_type = ''application'', co_name = image_name,
          co_version = (if 12 \<le> length image_digest then take 12 image_digest else image_digest),
          co_purl = Some (''oci://'' @ image_name @ ''@'' @ image_digest), co_hash = image_digest, co_licenses = []\<rparr>\<rparr>,
      sb_components = file_components
        @ map (\<lambda>dep. \<lparr>co_type = ''library'', co_name = dp_name dep, co_version = dp_version dep,
                      co_purl = Some (dp_purl dep), co_hash = dp_sha256 dep, co_licenses = dp_licenses dep\<rparr>) deps,
      sb_dependencies = deps, sb_layers = layers\<rparr>"

definition generate_from_context :: "sbom_env \<Rightarrow> string \<Rightarrow> string \<Rightarrow> string \<Rightarrow> string \<Rightarrow> (fs, sbom) io" where
  "generate_from_context E image_name image_digest context_dir dockerfile_path =
     bind_io (read_to_string dockerfile_path) (\<lambda>dockerfile.
     bind_io (collect_dockerfile_components E context_dir dockerfile) (\<lambda>file_components.
     bind_io (collect_dependencies E context_dir) (\<lambda>deps.
     bind_io (collect_layers E context_dir) (\<lambda>layers.
     ret (generate_sbom E image_name image_digest layers deps file_components)))))"

definition xml_line :: "string \<Rightarrow> string" where
  "xml_line l = l @ [CHR 0x0A]"

definition xml_element :: "string \<Rightarrow> string \<Rightarrow> string" where
  "xml_element tag content = ''<'' @ tag @ ''>'' @ content @ ''</'' @ tag @ ''>''"

definition sbom_to_xml :: "sbom \<Rightarrow> string" where
  "sbom_to_xml b =
     xml_line (''<?xml version='' @ debug_str ''1.0'' @ '' encoding='' @ debug_str ''UTF-8'' @ ''?>'')
     @ xml_line (''<bom serialNumber='' @ [CHR 0x22] @ sb_serial_number b @ [CHR 0x22] @ '' version='' @ debug_str ''1''
         @ '' xmlns='' @ debug_str ''http://cyclonedx.org/schema/bom/1.5'' @ ''>'')
     @ xml_line ''  <metadata>''
     @ xml_line (''    '' @ xml_element ''timestamp'' (sm_timestamp (sb_metadata b)))
     @ xml_line ''    <tools>''
     @ concat (map (\<lambda>t. xml_line ''      <tool>'' @ xml_line (''        '' @ xml_element ''name'' (tl_name t))
         @ xml_line (''        '' @ xml_element ''version'' (tl_version t)) @ xml_line ''      </tool>'') (sm_tools (sb_metadata b)))
     @ xml_line ''    </tools>''
     @ xml_line ''    <component>'' @ xml_line (''      '' @ xml_element ''name'' (co_name (sm_component (sb_metadata b))))
     @ xml_line (''      '' @ xml_element ''version'' (co_version (sm_component (sb_metadata b)))) @ xml_line ''    </component>''
     @ xml_line ''  </metadata>''
     @ xml_line ''</bom>''"

definition sbom_text :: "sbom_env \<Rightarrow> output_format \<Rightarrow> sbom \<Rightarrow> ('s, string) io" where
  "sbom_text E fmt b =
     (case fmt of
        Format_Xml \<Rightarrow> ret (sbom_to_xml b)
      | Format_Json \<Rightarrow> (case sv_json E b of Some t \<Rightarrow> ret t | None \<Rightarrow> bail ''Failed to serialize SBOM''))"

definition save_sbom :: "sbom_env \<Rightarrow> sbom \<Rightarrow> string \<Rightarrow> output_format \<Rightarrow> (fs, unit) io" where
  "save_sbom E b path fmt = bind_io (sbom_text E fmt b) (\<lambda>output. write_file path (as_bytes output))"

text \<open>The command \<open>sbom\<close>; the result is what it prints besides its messages.\<close>

definition sbom_generate_cmd ::
    "sbom_env \<Rightarrow> string \<Rightarrow> string \<Rightarrow> string \<Rightarrow> string \<Rightarrow> string \<Rightarrow> (fs, string option) io" where
  "sbom_generate_cmd E name context_dir dockerfile output format =
     bind_io (generate_from_context E name name context_dir dockerfile) (\<lambda>b.
     let parsed_format = (if format = ''xml'' then Format_Xml else Format_Json)
     in if output = ''-'' then bind_io (sbom_text E parsed_format b) (\<lambda>serialized. ret (Some serialized))
        else bind_io (save_sbom E b output parsed_format) (\<lambda>_. ret None))"

section \<open>What a lock file says\<close>

text \<open>A package of a lock file as it is printed: its name, its version and any further lines.\<close>

record lock_package =
  lp_name :: string
  lp_version :: string
  lp_rest :: "string list"

definition lock_lines :: "lock_package \<Rightarrow> string list" where
  "lock_lines p = [''[[package]]'', ''name = '' @ [CHR 0x22] @ lp_name p @ [CHR 0x22], ''version = '' @ [CHR 0x22] @ lp_version p @ [CHR 0x22]]
     @ lp_rest p"

definition lock_text :: "string list \<Rightarrow> lock_package list \<Rightarrow> string" where
  "lock_text preface ps = concat (map (\<lambda>l. l @ [CHR 0x0A]) (preface @ concat (map lock_lines ps)))"

definition plain_line :: "string \<Rightarrow> bool" where
  "plain_line l \<longleftrightarrow> list_all (\<lambda>c. c \<noteq> CHR 0x0A) l \<and> strip_cr l = l \<and> trim l \<noteq> ''[[package]]''"

definition lock_value :: "string \<Rightarrow> bool" where
  "lock_value v \<longleftrightarrow> list_all (\<lambda>c. c \<noteq> CHR 0x0A \<and> c \<noteq> CHR 0x22) v"

definition lock_package_ok :: "lock_package \<Rightarrow> bool" where
  "lock_package_ok p \<longleftrightarrow> lock_value (lp_name p) \<and> lock_value (lp_version p) \<and> list_all plain_line (lp_rest p)"

lemma trim_quoted: "\<not> is_ws c \<Longrightarrow> trim (c # v @ [CHR 0x22]) = c # v @ [CHR 0x22]"
  by (rule trim_trimmed) (simp add: trimmed_def is_ws_def)

lemma unquote: "lock_value v \<Longrightarrow> trim_end_char (CHR 0x22) (v @ [CHR 0x22]) = v"
proof -
  assume "lock_value v"
  then have "dropWhile (\<lambda>d. d = CHR 0x22) (rev v) = rev v"
    by (cases v rule: rev_cases) (auto simp: lock_value_def)
  then show ?thesis by (simp add: trim_end_char_def)
qed

lemma outside_package:
  "list_all plain_line ls \<Longrightarrow> \<not> cs_in_package c \<Longrightarrow> fold (cargo_line E) ls c = c"
  by (induction ls) (simp_all add: cargo_line_def plain_line_def)

lemma cargo_header: "cargo_line E ''[[package]]'' c = c\<lparr>cs_in_package := True, cs_name := None, cs_version := None\<rparr>"
  by (simp add: cargo_line_def trimmed_def is_ws_def)

lemma cargo_name_line:
  assumes "lock_value v"
  shows "cargo_line E (''name = '' @ [CHR 0x22] @ v @ [CHR 0x22]) (c\<lparr>cs_in_package := True, cs_name := None, cs_version := None\<rparr>)
    = c\<lparr>cs_in_package := True, cs_name := Some v, cs_version := None\<rparr>"
  using unquote [OF assms] trim_quoted [of "CHR ''n''" "''ame = '' @ [CHR 0x22] @ v"]
  by (simp add: cargo_line_def quoted_value_def strip_pre_def is_ws_def)

lemma cargo_version_line:
  assumes "lock_value v"
  shows "cargo_line E (''version = '' @ [CHR 0x22] @ v @ [CHR 0x22]) (c\<lparr>cs_in_package := True, cs_name := Some n, cs_version := None\<rparr>)
    = c\<lparr>cs_in_package := False, cs_name := Some n, cs_version := Some v, cs_deps := cs_deps c @ [cargo_dependency E n v]\<rparr>"
  using unquote [OF assms] trim_quoted [of "CHR ''v''" "''ersion = '' @ [CHR 0x22] @ v"]
  by (simp add: cargo_line_def quoted_value_def strip_pre_def is_ws_def)

lemma one_package:
  assumes "lock_package_ok p"
  shows "fold (cargo_line E) (lock_lines p) c
    = c\<lparr>cs_in_package := False, cs_name := Some (lp_name p), cs_version := Some (lp_version p),
        cs_deps := cs_deps c @ [cargo_dependency E (lp_name p) (lp_version p)]\<rparr>"
  using assms cargo_name_line [of "lp_name p"] cargo_version_line [of "lp_version p"]
  by (simp add: lock_lines_def lock_package_ok_def cargo_header outside_package)

lemma all_packages:
  "list_all lock_package_ok ps \<Longrightarrow>
     cs_deps (fold (cargo_line E) (concat (map lock_lines ps)) c)
       = cs_deps c @ map (\<lambda>p. cargo_dependency E (lp_name p) (lp_version p)) ps"
  by (induction ps arbitrary: c) (simp_all add: one_package)

lemma quoted_line_plain:
  "lock_value v \<Longrightarrow> list_all (\<lambda>c. c \<noteq> CHR 0x0A) k \<Longrightarrow>
     list_all (\<lambda>c. c \<noteq> CHR 0x0A) (k @ [CHR 0x22] @ v @ [CHR 0x22]) \<and> strip_cr (k @ [CHR 0x22] @ v @ [CHR 0x22]) = k @ [CHR 0x22] @ v @ [CHR 0x22]"
  by (auto simp: lock_value_def strip_cr_def list_all_iff)

lemma lock_text_lines:
  assumes "list_all plain_line preface" and "list_all lock_package_ok ps"
  shows "lines (lock_text preface ps) = preface @ concat (map lock_lines ps)"
proof -
  let ?ok = "\<lambda>l. list_all (\<lambda>c. c \<noteq> CHR 0x0A) l \<and> strip_cr l = l"
  have "list_all ?ok (lock_lines p)" if "lock_package_ok p" for p
    using that quoted_line_plain [of "lp_name p" "''name = ''"] quoted_line_plain [of "lp_version p" "''version = ''"]
    unfolding lock_lines_def lock_package_ok_def by (auto simp: plain_line_def list_all_iff strip_cr_def)
  then have "list_all ?ok (preface @ concat (map lock_lines ps))"
    using assms by (fastforce simp: list_all_iff plain_line_def)
  then show ?thesis unfolding lock_text_def by (rule lines_unlines)
qed

section \<open>What a bill of materials says\<close>

definition readable :: "string \<Rightarrow> fs \<Rightarrow> bool" where
  "readable p s = (case map_of (files s) p of Some d \<Rightarrow> utf8_ok d | None \<Rightarrow> False)"

definition text_of :: "string \<Rightarrow> fs \<Rightarrow> string" where
  "text_of p s = bytes_text (the (map_of (files s) p))"

definition copied_sources :: "string \<Rightarrow> string list" where
  "copied_sources dockerfile = List.map_filter copy_source (lines dockerfile)"

definition not_a_file :: "string \<Rightarrow> fs \<Rightarrow> string \<Rightarrow> bool" where
  "not_a_file context_dir s source \<longleftrightarrow> path_exists s (path_join context_dir source) \<and> \<not> is_file s (path_join context_dir source)"

definition source_component :: "sbom_env \<Rightarrow> string \<Rightarrow> fs \<Rightarrow> string \<Rightarrow> component" where
  "source_component E context_dir s source =
     copied_component E source
       (if path_exists s (path_join context_dir source) then map_of (files s) (path_join context_dir source) else None)"

lemma read_file_missing: "faults s = [] \<Longrightarrow> map_of (files s) p = None \<Longrightarrow> read_file p s = (Inl (Err ''read''), s)"
  by (simp add: read_file_def)

lemma read_to_string_readable:
  "faults s = [] \<Longrightarrow>
     (if readable p s then read_to_string p s = (Inr (text_of p s), s)
      else (\<exists>e. read_to_string p s = (Inl e, s)))"
  by (auto simp: readable_def text_of_def read_to_string_def read_file_present read_file_missing bind_io_def split: option.splits)

lemma collect_sources_spec:
  assumes "faults s = []"
  shows "collect_sources E ctx ls s =
    (if list_ex (not_a_file ctx s) (List.map_filter copy_source ls) then (Inl (Err ''read''), s)
     else (Inr (map (source_component E ctx s) (List.map_filter copy_source ls)), s))"
proof (induction ls)
  case (Cons l ls)
  show ?case
  proof (cases "copy_source l")
    case None
    then show ?thesis using Cons by (simp add: map_filter_simps)
  next
    case (Some src)
    let ?p = "path_join ctx src"
    consider (absent) "\<not> path_exists s ?p" | (dir) "path_exists s ?p" "map_of (files s) ?p = None"
      | (here) d where "path_exists s ?p" "map_of (files s) ?p = Some d" by fastforce
    then show ?thesis
    proof cases
      case absent
      with Some Cons assms show ?thesis
        by (auto simp: bind_io_def source_component_def not_a_file_def map_filter_simps)
    next
      case dir
      with Some assms show ?thesis
        by (simp add: bind_io_def read_file_missing not_a_file_def is_file_def map_filter_simps)
    next
      case here
      with Some Cons assms show ?thesis
        by (auto simp: bind_io_def read_file_present source_component_def not_a_file_def is_file_def map_filter_simps)
    qed
  qed
qed (simp add: map_filter_simps)

definition layer_entry :: "string \<Rightarrow> fs \<Rightarrow> string \<Rightarrow> sbom_layer" where
  "layer_entry d s n = \<lparr>sl_digest = ''sha256:'' @ n, sl_size = of_nat (length (the (map_of (files s) (path_join d n)))),
     sl_media_type = ''application/vnd.oci.image.layer.v1.tar+gzip''\<rparr>"

lemma layers_of_spec:
  assumes "faults s = []"
  shows "layers_of d ns s = (Inr (map (layer_entry d s) (filter (\<lambda>n. is_file s (path_join d n)) ns)), s)"
  using assms by (induction ns) (auto simp: bind_io_def is_file_def layer_entry_def)

definition context_layers :: "sbom_env \<Rightarrow> string \<Rightarrow> fs \<Rightarrow> sbom_layer list" where
  "context_layers E context_dir s =
     (let d = path_join (path_join context_dir ''blobs'') ''sha256''
      in if path_exists s d then map (layer_entry d s) (filter (\<lambda>n. is_file s (path_join d n)) (dir_entries (sv_order E) d s)) else [])"

definition context_deps :: "sbom_env \<Rightarrow> string \<Rightarrow> fs \<Rightarrow> dependency list" where
  "context_deps E context_dir s =
     (let cargo = path_join context_dir ''Cargo.lock''; npm = path_join context_dir ''package-lock.json''
      in (if path_exists s cargo then cargo_deps E (text_of cargo s) else [])
         @ (if path_exists s npm
            then (case json_get ''dependencies'' (the (sv_parse E (text_of npm s))) of Some root \<Rightarrow> npm_deps E [] root | None \<Rightarrow> [])
            else []))"

definition sbom_possible :: "sbom_env \<Rightarrow> string \<Rightarrow> string \<Rightarrow> fs \<Rightarrow> bool" where
  "sbom_possible E context_dir dockerfile_path s \<longleftrightarrow>
     readable dockerfile_path s \<and> \<not> list_ex (not_a_file context_dir s) (copied_sources (text_of dockerfile_path s))
     \<and> (let cargo = path_join context_dir ''Cargo.lock'' in path_exists s cargo \<longrightarrow> readable cargo s)
     \<and> (let npm = path_join context_dir ''package-lock.json''
        in path_exists s npm \<longrightarrow> readable npm s \<and> sv_parse E (text_of npm s) \<noteq> None)
     \<and> (let d = path_join (path_join context_dir ''blobs'') ''sha256'' in path_exists s d \<longrightarrow> is_dir s d)"

lemma collect_layers_spec:
  assumes "faults s = []"
  shows "collect_layers E ctx s =
    (if path_exists s (path_join (path_join ctx ''blobs'') ''sha256'') \<and> \<not> is_dir s (path_join (path_join ctx ''blobs'') ''sha256'')
     then (Inl (Err ''read_dir''), s) else (Inr (context_layers E ctx s), s))"
  using assms by (simp add: collect_layers_def context_layers_def Let_def layers_of_spec)

lemma collect_dependencies_spec:
  assumes "faults s = []"
  shows "if (path_exists s (path_join ctx ''Cargo.lock'') \<longrightarrow> readable (path_join ctx ''Cargo.lock'') s)
      \<and> (path_exists s (path_join ctx ''package-lock.json'') \<longrightarrow> readable (path_join ctx ''package-lock.json'') s
           \<and> sv_parse E (text_of (path_join ctx ''package-lock.json'') s) \<noteq> None)
    then collect_dependencies E ctx s = (Inr (context_deps E ctx s), s)
    else (\<exists>e. collect_dependencies E ctx s = (Inl e, s))"
  using read_to_string_readable [OF assms, of "path_join ctx ''Cargo.lock''"]
    read_to_string_readable [OF assms, of "path_join ctx ''package-lock.json''"]
  by (auto simp: collect_dependencies_def collect_cargo_def collect_npm_def context_deps_def Let_def bind_io_def
      split: if_splits option.splits)

lemma generate_from_context_spec:
  assumes "faults s = []"
  shows "if sbom_possible E ctx dfp s
    then generate_from_context E name dig ctx dfp s
      = (Inr (generate_sbom E name dig (context_layers E ctx s) (context_deps E ctx s)
           (map (source_component E ctx s) (copied_sources (text_of dfp s)))), s)
    else (\<exists>e. generate_from_context E name dig ctx dfp s = (Inl e, s))"
  using read_to_string_readable [OF assms, of dfp] collect_sources_spec [OF assms, of E ctx "lines (text_of dfp s)"]
    collect_dependencies_spec [OF assms, of ctx E] collect_layers_spec [OF assms, of E ctx]
  by (auto simp: sbom_possible_def generate_from_context_def collect_dockerfile_components_def copied_sources_def Let_def bind_io_def
      split: if_splits)

section \<open>Properties\<close>

text \<open>C21. Reading a Cargo lock file: of a file printed from a list of packages, with any lines before the first one and after
  each version that are not package headers, the generator makes one dependency per package, in their order, with
  the package's name and version, the URL and the checksum made of the two.\<close>

theorem cargo_lock_roundtrip:
  assumes "list_all plain_line preface" and "list_all lock_package_ok ps"
  shows "cargo_deps E (lock_text preface ps) = map (\<lambda>p. cargo_dependency E (lp_name p) (lp_version p)) ps"
proof -
  have "fold (cargo_line E) (preface @ concat (map lock_lines ps)) cargo_start = fold (cargo_line E) (concat (map lock_lines ps)) cargo_start"
    using outside_package [OF assms(1), of cargo_start E] by (simp add: cargo_start_def)
  then show ?thesis
    using all_packages [OF assms(2), of E cargo_start] lock_text_lines [OF assms]
    by (simp add: cargo_deps_def) (simp add: cargo_start_def)
qed

text \<open>C20. The bill of materials of a context: while no fault occurs it can be made if, and only if, the Dockerfile is readable,
  no source of a COPY or ADD line is there without being a file (a directory makes it fail), the lock files that are there
  can be read and parsed, and the place of the blobs is a directory when it is there. Its components are then the
  sources, in the order of the lines, with the digests of the files, or marked as missing, and after them the packages of
  the two lock files; its layers are the files under the blobs of the context; nothing is changed.\<close>

theorem sbom_describes_context:
  assumes "faults s = []"
  shows "(case generate_from_context E name dig ctx dfp s of
      (Inr b, s') \<Rightarrow> sbom_possible E ctx dfp s \<and> s' = s \<and> sb_dependencies b = context_deps E ctx s \<and> sb_layers b = context_layers E ctx s
        \<and> map co_name (sb_components b) = copied_sources (text_of dfp s) @ map dp_name (context_deps E ctx s)
        \<and> map co_hash (sb_components b)
            = map (\<lambda>src. if path_exists s (path_join ctx src) then sbom_hash E (the (map_of (files s) (path_join ctx src))) else ''sha256:missing'')
                (copied_sources (text_of dfp s)) @ map dp_sha256 (context_deps E ctx s)
        \<and> co_hash (sm_component (sb_metadata b)) = dig
    | (Inl e, s') \<Rightarrow> \<not> sbom_possible E ctx dfp s \<and> s' = s)"
proof (cases "sbom_possible E ctx dfp s")
  case True
  then have "list_all (\<lambda>src. \<not> not_a_file ctx s src) (copied_sources (text_of dfp s))"
    by (simp add: sbom_possible_def list_all_iff list_ex_iff)
  then have "map (\<lambda>src. co_hash (source_component E ctx s src)) (copied_sources (text_of dfp s))
      = map (\<lambda>src. if path_exists s (path_join ctx src) then sbom_hash E (the (map_of (files s) (path_join ctx src))) else ''sha256:missing'')
          (copied_sources (text_of dfp s))"
    by (auto simp: list_all_iff not_a_file_def is_file_def source_component_def copied_component_def Let_def)
  moreover have "co_name (source_component E ctx s src) = src" for src
    by (simp add: source_component_def copied_component_def Let_def split: option.splits)
  ultimately show ?thesis
    using generate_from_context_spec [OF assms, of E ctx dfp name dig] True by (simp add: generate_sbom_def comp_def)
qed (use generate_from_context_spec [OF assms, of E ctx dfp name dig] in auto)

text \<open>What the format leaves out, and what stops the generator.\<close>

lemma xml_lists_no_components: "sbom_to_xml (b\<lparr>sb_components := cs, sb_dependencies := ds, sb_layers := ls\<rparr>) = sbom_to_xml b"
  by (simp add: sbom_to_xml_def)

lemma directory_copy_fails:
  assumes "faults s = []" and "source \<in> set (copied_sources (text_of dfp s))" and "path_exists s (path_join ctx source)"
    and "\<not> is_file s (path_join ctx source)"
  shows "\<exists>e. generate_from_context E name dig ctx dfp s = (Inl e, s)"
proof -
  have "\<not> sbom_possible E ctx dfp s"
    using assms(2-4) by (auto simp: sbom_possible_def list_ex_iff not_a_file_def)
  then show ?thesis using generate_from_context_spec [OF assms(1), of E ctx dfp name dig] by simp
qed

section \<open>Witnesses\<close>

definition toy_sbom :: sbom_env where
  "toy_sbom = \<lparr>sv_sha256 = (\<lambda>d. show_nat (length d)), sv_now = ''now'', sv_uuid = ''u'', sv_order = (\<lambda>ns. ns),
     sv_parse = (\<lambda>t. None), sv_json = (\<lambda>b. Some ''sbom'')\<rparr>"

theorem cargo_lock_roundtrip_witness:
  "cargo_deps toy_sbom (lock_text [''version = 3'', []] [\<lparr>lp_name = ''serde'', lp_version = ''1.0.2'', lp_rest = [[]]\<rparr>, \<lparr>lp_name = ''syn'', lp_version = ''2.0'', lp_rest = []\<rparr>])
     = [cargo_dependency toy_sbom ''serde'' ''1.0.2'', cargo_dependency toy_sbom ''syn'' ''2.0'']"
  by (subst cargo_lock_roundtrip)
    (simp_all add: plain_line_def strip_cr_def trim_def trim_start_def trim_end_def is_ws_def lock_package_ok_def lock_value_def)

text \<open>A context with a Dockerfile that copies one file, one missing file and a directory, or not the latter.\<close>

definition toy_context :: "string \<Rightarrow> fs" where
  "toy_context extra = \<lparr>files = [(''c/Dockerfile'', as_bytes (''COPY a /a'' @ [CHR 0x0A] @ ''ADD b /b'' @ [CHR 0x0A] @ extra)), (''c/a'', [1, 2])],
     dirs = [''c'', ''c/src''], faults = []\<rparr>"

theorem sbom_describes_context_witness:
  "\<exists>b. fst (generate_from_context toy_sbom ''i'' ''d'' ''c'' ''c/Dockerfile'' (toy_context [])) = Inr b
     \<and> map co_hash (sb_components b) = [''sha256:2'', ''sha256:missing'']
     \<and> isl (fst (generate_from_context toy_sbom ''i'' ''d'' ''c'' ''c/Dockerfile'' (toy_context ''COPY src /src'')))"
proof -
  have f: "faults (toy_context x) = []" for x by (simp add: toy_context_def)
  have 1: "sbom_possible toy_sbom ''c'' ''c/Dockerfile'' (toy_context [])" by code_simp
  have 2: "\<not> sbom_possible toy_sbom ''c'' ''c/Dockerfile'' (toy_context ''COPY src /src'')" by code_simp
  have 3: "map (\<lambda>src. if path_exists (toy_context []) (path_join ''c'' src) then sbom_hash toy_sbom (the (map_of (files (toy_context [])) (path_join ''c'' src))) else ''sha256:missing'')
       (copied_sources (text_of ''c/Dockerfile'' (toy_context []))) @ map dp_sha256 (context_deps toy_sbom ''c'' (toy_context []))
     = [''sha256:2'', ''sha256:missing'']" by code_simp
  let ?run = "\<lambda>x. generate_from_context toy_sbom ''i'' ''d'' ''c'' ''c/Dockerfile'' (toy_context x)"
  note C = sbom_describes_context [OF f, where E = toy_sbom and name = "''i''" and dig = "''d''" and ctx = "''c''" and dfp = "''c/Dockerfile''"]
  obtain r1 s1 where 4: "?run [] = (r1, s1)" by (rule prod.exhaust)
  obtain r2 s2 where 5: "?run ''COPY src /src'' = (r2, s2)" by (rule prod.exhaust)
  obtain b where "r1 = Inr b" "map co_hash (sb_components b) = [''sha256:2'', ''sha256:missing'']"
    using C [of "[]", unfolded 3 4 prod.case] 1 by (cases r1) (simp_all only: sum.case not_True_eq_False simp_thms)
  moreover have "isl r2"
    using C [of "''COPY src /src''", unfolded 5 prod.case] 2 by (cases r2) (simp_all only: sum.case sum.disc simp_thms)
  ultimately show ?thesis unfolding 4 5 by auto
qed

end
