(* ===== verification/Attest.thy ===== *)
theory Attest
  imports Sbom
begin

text \<open>
  \<open>src/src/slsa.rs\<close>, \<open>src/src/slsa/in_toto.rs\<close> and \<open>src/src/verify.rs\<close>: the provenance of an artifact, its attestation and
  what the verification commands look at. SHA-256 with hexadecimal output, the clock (as the text of a date, and as the
  seconds since 1970), the fresh identifier and \<open>serde_json\<close> are fields of \<open>attest_env\<close>. The identity token, the image
  and the signature are not looked at, as in the code.
\<close>

section \<open>Provenance\<close>

record environment_variable =
  ev_name :: string
  ev_value :: string

record input_artifact =
  ia_uri :: string
  ia_digest :: string

record invocation_params =
  ip_command :: "string list"
  ip_environment :: "environment_variable list"
  ip_inputs :: "input_artifact list"

record material =
  mt_uri :: string
  mt_digest :: string

record product =
  pd_uri :: string
  pd_digest :: string

record build_definition =
  bd_build_platform :: string
  bd_invocation_config :: invocation_params
  bd_resolved_dependencies :: "material list"

record provenance_metadata =
  pm_invocation_id :: string
  pm_started_at :: string
  pm_finished_at :: string

record run_details =
  rd_builder_id :: string
  rd_metadata :: provenance_metadata
  rd_environment :: "environment_variable list"

record predicate =
  pr_build_type :: string
  pr_build_definition :: build_definition
  pr_run_details :: run_details

record provenance =
  pv_type :: string
  pv_predicate :: predicate
  pv_subject :: "product list"

record signature =
  sg_keyid :: "string option"
  sg_sig :: string

record attestation =
  at_payload_type :: string
  at_payload :: string
  at_signatures :: "signature list"

record attest_env =
  av_sha256 :: "bytes \<Rightarrow> string"
  av_uuid :: string
  av_started :: string
  av_finished :: string
  av_seconds :: u64
  av_provenance_json :: "provenance \<Rightarrow> string option"
  av_attestation_json :: "attestation \<Rightarrow> string option"

record provenance_generator =
  pg_builder_id :: string
  pg_build_type :: string

definition generator_new :: "string \<Rightarrow> provenance_generator" where
  "generator_new builder_id = \<lparr>pg_builder_id = builder_id, pg_build_type = ''https://memobuild.build/nrelab.io/v1''\<rparr>"

definition default_invocation :: invocation_params where
  "default_invocation = \<lparr>ip_command = [], ip_environment = [], ip_inputs = []\<rparr>"

definition generate_provenance ::
    "attest_env \<Rightarrow> provenance_generator \<Rightarrow> string \<Rightarrow> string \<Rightarrow> string \<Rightarrow> string \<Rightarrow> invocation_params \<Rightarrow> provenance" where
  "generate_provenance A g source_uri source_digest artifact_uri artifact_digest params =
     \<lparr>pv_type = ''https://in-toto.io/attestation/v1'',
      pv_predicate = \<lparr>pr_build_type = pg_build_type g,
        pr_build_definition = \<lparr>bd_build_platform = ''memobuild'', bd_invocation_config = params,
          bd_resolved_dependencies = [\<lparr>mt_uri = source_uri, mt_digest = source_digest\<rparr>]\<rparr>,
        pr_run_details = \<lparr>rd_builder_id = pg_builder_id g,
          rd_metadata = \<lparr>pm_invocation_id = av_uuid A, pm_started_at = av_started A, pm_finished_at = av_finished A\<rparr>,
          rd_environment = ip_environment params\<rparr>\<rparr>,
      pv_subject = [\<lparr>pd_uri = artifact_uri, pd_digest = artifact_digest\<rparr>]\<rparr>"

section \<open>Signing\<close>

text \<open>\<open>u64::to_le_bytes\<close>.\<close>

definition to_le_bytes :: "u64 \<Rightarrow> bytes" where
  "to_le_bytes t = map (\<lambda>i. ucast (drop_bit (8 * i) t)) [0..<8]"

definition sign_dsse :: "attest_env \<Rightarrow> string \<Rightarrow> signature" where
  "sign_dsse A payload =
     \<lparr>sg_keyid = Some (''memobuild-key-'' @ show_nat (unat (av_seconds A))),
      sg_sig = av_sha256 A (as_bytes payload @ to_le_bytes (av_seconds A))\<rparr>"

definition verify_dsse :: "string \<Rightarrow> signature \<Rightarrow> bool" where
  "verify_dsse payload s = (length (sg_sig s) = 64)"

definition sign_provenance :: "attest_env \<Rightarrow> provenance \<Rightarrow> ('s, attestation) io" where
  "sign_provenance A p =
     (case av_provenance_json A p of
        None \<Rightarrow> bail ''serde_json''
      | Some payload \<Rightarrow>
          ret \<lparr>at_payload_type = ''application/vnd.in-toto+json'', at_payload = payload, at_signatures = [sign_dsse A payload]\<rparr>)"

definition generate_signed_provenance ::
    "attest_env \<Rightarrow> provenance_generator \<Rightarrow> string \<Rightarrow> string \<Rightarrow> string \<Rightarrow> string \<Rightarrow> invocation_params \<Rightarrow> ('s, attestation) io" where
  "generate_signed_provenance A g source_uri source_digest artifact_uri artifact_digest params =
     sign_provenance A (generate_provenance A g source_uri source_digest artifact_uri artifact_digest params)"

definition save_attestation :: "attest_env \<Rightarrow> attestation \<Rightarrow> string \<Rightarrow> (fs, unit) io" where
  "save_attestation A att path =
     (case av_attestation_json A att of
        None \<Rightarrow> bail ''Failed to serialize attestation''
      | Some json \<Rightarrow> write_file path (as_bytes json))"

definition verify_attestation :: "attestation \<Rightarrow> bool" where
  "verify_attestation att = (case at_signatures att of [] \<Rightarrow> False | s # _ \<Rightarrow> verify_dsse (at_payload att) s)"

definition slsa_generate_cmd :: "attest_env \<Rightarrow> string \<Rightarrow> string \<Rightarrow> string \<Rightarrow> string \<Rightarrow> string \<Rightarrow> string \<Rightarrow> (fs, unit) io" where
  "slsa_generate_cmd A source_uri source_digest artifact_uri artifact_digest output builder_id =
     bind_io (generate_signed_provenance A (generator_new builder_id) source_uri source_digest artifact_uri artifact_digest default_invocation)
       (\<lambda>att. save_attestation A att output)"

text \<open>An in-toto statement; the keys of an object are sorted.\<close>

definition create_statement :: "string \<Rightarrow> json \<Rightarrow> (string \<times> string) list \<Rightarrow> json" where
  "create_statement predicate_type predicate subject =
     JObject
      [(''@context'', JArray [JString ''https://www.w3.org/2018/credentials/v1'', JString ''https://slsa.dev/provenance/v1'']),
       (''@type'', JString ''https://in-toto.io/Statement/v1''),
       (''predicate'', predicate),
       (''predicateType'', JString predicate_type),
       (''subject'', JArray (map (\<lambda>(name, digest).
          JObject [(''digest'', JObject [(''sha256'', JString digest)]), (''name'', JString name)]) subject))]"

section \<open>Verification of images\<close>

record cosign_verifier =
  cv_registry :: string
  cv_require_signed :: bool
  cv_rekor_url :: string
  cv_fulcio_url :: string

record rekor_entry =
  rk_uuid :: string
  rk_integrated_time :: int
  rk_log_index :: int
  rk_body :: string

record verification_result =
  vr_verified :: bool
  vr_message :: string
  vr_rekor_entry :: "rekor_entry option"

record verification_policy =
  vp_require_signed :: bool
  vp_include_rekor :: bool
  vp_certificate_identity :: "string option"
  vp_certificate_oidc_issuer :: "string option"

definition cosign_new :: "(string \<Rightarrow> string option) \<Rightarrow> string \<Rightarrow> cosign_verifier" where
  "cosign_new var registry =
     \<lparr>cv_registry = registry,
      cv_require_signed = (case var ''MEMOBUILD_REQUIRE_SIGNED'' of Some v \<Rightarrow> v = ''true'' | None \<Rightarrow> False),
      cv_rekor_url = (case var ''MEMOBUILD_REKOR_URL'' of Some v \<Rightarrow> v | None \<Rightarrow> ''https://rekor.sigstore.dev''),
      cv_fulcio_url = (case var ''MEMOBUILD_FULCIO_URL'' of Some v \<Rightarrow> v | None \<Rightarrow> ''https://fulcio.sigstore.dev'')\<rparr>"

definition verify_image :: "cosign_verifier \<Rightarrow> string \<Rightarrow> verification_result" where
  "verify_image v image_name =
     (if cv_require_signed v
      then \<lparr>vr_verified = False,
            vr_message = ''Verification not implemented - set MEMOBUILD_REQUIRE_SIGNED=false for development'', vr_rekor_entry = None\<rparr>
      else \<lparr>vr_verified = True,
            vr_message = ''Signature verification skipped (MEMOBUILD_REQUIRE_SIGNED=false)'', vr_rekor_entry = None\<rparr>)"

definition verify_signature :: "cosign_verifier \<Rightarrow> string \<Rightarrow> string \<Rightarrow> bool" where
  "verify_signature v payload sig = (\<not> cv_require_signed v)"

definition check_rekor :: "cosign_verifier \<Rightarrow> string \<Rightarrow> rekor_entry option" where
  "check_rekor v digest = (if str_contains ''sigstore.dev'' (cv_rekor_url v) then None else None)"

definition verify_keyless :: "string \<Rightarrow> string \<Rightarrow> verification_result" where
  "verify_keyless image_name oidc_token =
     \<lparr>vr_verified = False, vr_message = ''Keyless verification not implemented'', vr_rekor_entry = None\<rparr>"

text \<open>The commands, with the lines they print.\<close>

definition verify_cmd :: "(string \<Rightarrow> string option) \<Rightarrow> string \<Rightarrow> verification_policy \<Rightarrow> string list" where
  "verify_cmd var image_name policy =
     (let r = verify_image (cosign_new var []) image_name
      in [''Verifying image: '' @ image_name, ''Verified: '' @ show_bool (vr_verified r), ''Message: '' @ vr_message r,
          if vp_require_signed policy then ''Policy: Signature required'' else ''Policy: Signature optional'']
         @ (if vp_include_rekor policy then [''Rekor verification is enabled''] else []))"

definition run_verify :: "(string \<Rightarrow> string option) \<Rightarrow> string \<Rightarrow> bool \<Rightarrow> bool \<Rightarrow> string option \<Rightarrow> string list" where
  "run_verify var image_name require_signed include_rekor oidc_token =
     verify_cmd var image_name \<lparr>vp_require_signed = require_signed, vp_include_rekor = include_rekor,
       vp_certificate_identity = oidc_token, vp_certificate_oidc_issuer = var ''MEMOBUILD_OIDC_ISSUER''\<rparr>
     @ (case oidc_token of Some token \<Rightarrow> [''Keyless verification: '' @ vr_message (verify_keyless image_name token)] | None \<Rightarrow> [])"

section \<open>Lemmas\<close>

lemma length_to_le_bytes [simp]: "length (to_le_bytes t) = 8"
  by (simp add: to_le_bytes_def)

lemma signed_verifies:
  assumes "\<And>d. length (av_sha256 A d) = 64" and "sign_provenance A p s = (Inr att, s')"
  shows "verify_attestation att"
  using assms by (auto simp: sign_provenance_def verify_attestation_def verify_dsse_def sign_dsse_def ret_def bail_def split: option.splits)

text \<open>The payload is not looked at: it can be replaced under a signature.\<close>

lemma replaced_payload_verifies: "verify_attestation (att\<lparr>at_payload := forged\<rparr>) = verify_attestation att"
  by (simp add: verify_attestation_def verify_dsse_def split: list.splits)

text \<open>The option \<open>--require-signed\<close> of the command changes one printed line, and never what is verified.\<close>

lemma required_signature_skipped:
  "var ''MEMOBUILD_REQUIRE_SIGNED'' = None \<Longrightarrow> ''Verified: true'' \<in> set (run_verify var image_name True rekor token)"
  by (simp add: run_verify_def verify_cmd_def Let_def cosign_new_def verify_image_def show_bool_def)

end
