(* ===== verification/Commands.thy ===== *)
theory Commands
  imports Build_Session Attest Registry
begin

text \<open>
  \<open>src/src/main.rs\<close>: the command \<open>build\<close> to its end (the documents written beside the image, the push) and the commands
  \<open>sbom\<close>, \<open>attest\<close> and \<open>pull\<close>, and how the URL of a database is read. A command's state is the session of
  \<open>Pipeline\<close> and the registries on the network. SHA-256 is the one of the bill of materials.
\<close>

section \<open>The end of \<open>build\<close>\<close>

record 'n publisher =
  pb_sbom :: sbom_env
  pb_attest :: attest_env
  pb_registry :: "'n registry_api"
  pb_registry_json :: registry_json

type_synonym ('o, 'n) command_state = "'o session \<times> 'n"

definition on_session :: "('o session, 'a) io \<Rightarrow> (('o, 'n) command_state, 'a) pio" where
  "on_session m = from_io (on_part fst (\<lambda>s (_, n). (s, n)) m)"

text \<open>The part of the state the network commands work on: the file system of the host, and the registries.\<close>

definition with_host_fs :: "fs \<Rightarrow> 'o session \<Rightarrow> 'o session" where
  "with_host_fs f s = s\<lparr>se_host := (se_host s)\<lparr>host_fs := f\<rparr>\<rparr>"

definition on_site :: "('n site, 'a) pio \<Rightarrow> (('o, 'n) command_state, 'a) pio" where
  "on_site m = (\<lambda>(s, n). case m (host_fs (se_host s), n) of (r, (f, n')) \<Rightarrow> (r, (with_host_fs f s, n')))"

definition compute_image_digest :: "sbom_env \<Rightarrow> string \<Rightarrow> (fs, string) io" where
  "compute_image_digest E output_dir s =
     (case read_to_string (path_join output_dir ''index.json'') s of
        (Inl e, s1) \<Rightarrow> (Inl (Err (''Failed to read OCI index from '' @ path_join output_dir ''index.json'')), s1)
      | (Inr index_contents, s1) \<Rightarrow> (Inr (sbom_hash E (as_bytes index_contents)), s1))"

definition build_provenance :: "attest_env \<Rightarrow> string \<Rightarrow> string \<Rightarrow> provenance" where
  "build_provenance A context_dir image_digest =
     generate_provenance A (generator_new ''memobuild-builder'') (''git+file://'' @ context_dir) image_digest
       ''oci://memobuild-demo:latest'' image_digest default_invocation"

definition document_image :: "'n publisher \<Rightarrow> string \<Rightarrow> string \<Rightarrow> string \<Rightarrow> (fs, unit) io" where
  "document_image D context_dir dockerfile_path output_dir =
     bind_io (compute_image_digest (pb_sbom D) output_dir) (\<lambda>image_digest.
     bind_io (generate_from_context (pb_sbom D) ''memobuild-demo:latest'' image_digest context_dir dockerfile_path) (\<lambda>b.
     bind_io (save_sbom (pb_sbom D) b (path_join output_dir ''sbom.json'') Format_Json) (\<lambda>_.
     bind_io (sign_provenance (pb_attest D) (build_provenance (pb_attest D) context_dir image_digest)) (\<lambda>att.
     save_attestation (pb_attest D) att (path_join output_dir ''attestation.json'')))))"

definition build_client :: "(string \<Rightarrow> string option) \<Rightarrow> registry_client" where
  "build_client var =
     (let registry_url = (case var ''MEMOBUILD_REGISTRY'' of Some u \<Rightarrow> u | None \<Rightarrow> ''localhost:5000'');
          repo = (case var ''MEMOBUILD_REPO'' of Some r \<Rightarrow> r | None \<Rightarrow> ''memobuild-demo'');
          client = registry_new registry_url repo
      in case var ''MEMOBUILD_TOKEN'' of Some t \<Rightarrow> set_token t client | None \<Rightarrow> client)"

definition run_build ::
    "('o, 'v) build_system \<Rightarrow> 'n publisher \<Rightarrow> (node_metadata \<Rightarrow> 'v) \<Rightarrow> string \<Rightarrow> string \<Rightarrow> bool \<Rightarrow> bool \<Rightarrow> bool
      \<Rightarrow> (('o, 'n) command_state, unit) pio" where
  "run_build B D to_value context_dir dockerfile_path push_it reproducible dry_run =
     bind_pio (on_session (build_image B to_value context_dir dockerfile_path reproducible dry_run)) (\<lambda>output_dir.
     bind_pio (on_site (from_io (on_disk (document_image D context_dir dockerfile_path output_dir)))) (\<lambda>_.
     if push_it then on_site (push (pb_registry D) (pb_registry_json D) (build_client (bs_var B)) output_dir)
     else from_io (ret ())))"

section \<open>The commands \<open>sbom\<close>, \<open>attest\<close> and \<open>pull\<close>\<close>

definition run_sbom :: "sbom_env \<Rightarrow> string \<Rightarrow> string \<Rightarrow> string \<Rightarrow> string \<Rightarrow> string \<Rightarrow> (fs, string option) io" where
  "run_sbom E name context_dir dockerfile_path output format =
     sbom_generate_cmd E name context_dir (path_join context_dir dockerfile_path) output format"

definition run_attest :: "attest_env \<Rightarrow> string \<Rightarrow> string \<Rightarrow> string \<Rightarrow> (fs, unit) io" where
  "run_attest A source_uri artifact_uri output =
     bind_io (sign_provenance A (generate_provenance A (generator_new ''memobuild-builder'') source_uri ''sha256:unknown''
       artifact_uri ''sha256:unknown'' default_invocation)) (\<lambda>att. save_attestation A att output)"

definition split_once :: "char \<Rightarrow> string \<Rightarrow> (string \<times> string) option" where
  "split_once c s = (if c \<in> set s then Some (takeWhile (\<lambda>d. d \<noteq> c) s, tl (dropWhile (\<lambda>d. d \<noteq> c) s)) else None)"

definition parse_image_name :: "string \<Rightarrow> string \<times> string \<times> string" where
  "parse_image_name full_name =
     (let (registry_repo, tag) = (case split_once CHR '':'' full_name of Some p \<Rightarrow> p | None \<Rightarrow> (full_name, ''latest''));
          (registry, repo) = (case split_once CHR ''/'' registry_repo of Some p \<Rightarrow> p | None \<Rightarrow> (''index.docker.io'', registry_repo))
      in (registry, repo, tag))"

definition pull_dir :: "string \<Rightarrow> string \<Rightarrow> string" where
  "pull_dir current_dir full_name =
     path_join (path_join (path_join current_dir ''.memobuild-cache'') ''images'')
       (map (\<lambda>c. if c = CHR '':'' \<or> c = CHR ''/'' then CHR ''-'' else c) full_name)"

definition run_pull :: "export_env \<Rightarrow> string option \<Rightarrow> 'n registry_api \<Rightarrow> registry_json \<Rightarrow> string \<Rightarrow> ('n site, unit) pio" where
  "run_pull E current_dir api J full_name =
     (case parse_image_name full_name of (registry, repo, tag) \<Rightarrow>
        case current_dir of
          None \<Rightarrow> from_io (bail ''current_dir'')
        | Some d \<Rightarrow> pull E api J (registry_new registry repo) tag (pull_dir d full_name))"

section \<open>The URL of a database\<close>

record postgres_config =
  pg_host :: string
  pg_port :: "16 word"
  pg_database :: string
  pg_user :: string
  pg_password :: string
  pg_max_connections :: nat
  pg_min_idle :: "nat option"

text \<open>\<open>str::trim_start_matches\<close> with a non-empty string, and \<open>str::parse\<close> of an unsigned integer of 16 bits.\<close>

function trim_start_str :: "string \<Rightarrow> string \<Rightarrow> string" where
  "trim_start_str p s = (if p \<noteq> [] \<and> prefix p s then trim_start_str p (drop (length p) s) else s)"
  by pat_completeness auto
termination
  by (relation "measure (\<lambda>(p, s). length s)") (auto simp: prefix_def)

declare trim_start_str.simps [simp del]

definition digit_value :: "char \<Rightarrow> nat option" where
  "digit_value c = (if CHR ''0'' \<le> c \<and> c \<le> CHR ''9'' then Some (of_char c - 48) else None)"

fun digits_value :: "nat \<Rightarrow> string \<Rightarrow> nat option" where
  "digits_value acc [] = Some acc"
| "digits_value acc (c # s) = (case digit_value c of None \<Rightarrow> None | Some d \<Rightarrow> digits_value (10 * acc + d) s)"

definition parse_u16 :: "string \<Rightarrow> 16 word option" where
  "parse_u16 s =
     (let ds = (if prefix ''+'' s then tl s else s)
      in if ds = [] then None
         else (case digits_value 0 ds of Some n \<Rightarrow> if n < 2 ^ 16 then Some (of_nat n) else None | None \<Rightarrow> None))"

definition parse_postgres_url :: "string \<Rightarrow> postgres_config result" where
  "parse_postgres_url url =
     (let parts = split_on CHR ''@'' (trim_start_str ''postgres://'' (trim_start_str ''postgresql://'' url))
      in if length parts \<noteq> 2 then Inl (Err ''Invalid PostgreSQL URL format'')
         else
           (let auth_parts = split_on CHR '':'' (parts ! 0)
            in if length auth_parts \<noteq> 2 then Inl (Err ''Invalid auth format in PostgreSQL URL'')
               else
                 (let host_db = split_on CHR ''/'' (parts ! 1)
                  in if length host_db \<noteq> 2 then Inl (Err ''Invalid host/database format in PostgreSQL URL'')
                     else
                       (let host_port = split_on CHR '':'' (host_db ! 0)
                        in case parse_u16 (if 2 \<le> length host_port then host_port ! 1 else ''5432'') of
                             None \<Rightarrow> Inl (Err ''invalid digit found in string'')
                           | Some port \<Rightarrow>
                               Inr \<lparr>pg_host = host_port ! 0, pg_port = port, pg_database = host_db ! 1, pg_user = auth_parts ! 0,
                                    pg_password = auth_parts ! 1, pg_max_connections = 20, pg_min_idle = Some 5\<rparr>))))"

section \<open>Lemmas\<close>

text \<open>Splitting at a character that separates plain parts.\<close>

lemma split_acc_plain: "c \<notin> set w \<Longrightarrow> split_acc c v w = [v @ w]"
  by (induction w arbitrary: v) auto

lemma split_acc_at: "c \<notin> set w \<Longrightarrow> split_acc c v (w @ c # s) = (v @ w) # split_acc c [] s"
  by (induction w arbitrary: v) auto

lemma split_on_two: "c \<notin> set w \<Longrightarrow> c \<notin> set v \<Longrightarrow> split_on c (w @ c # v) = [w, v]"
  by (simp add: split_on_def split_acc_at split_acc_plain)

lemma digit_value_char: "d < 10 \<Longrightarrow> digit_value (digit_char d) = Some d"
  by (auto simp: digit_value_def digit_char_def less_eq_char_def take_bit_eq_mod)

lemma digits_value_append: "digits_value acc (s @ t) = (case digits_value acc s of Some a \<Rightarrow> digits_value a t | None \<Rightarrow> None)"
  by (induction s arbitrary: acc) (auto split: option.splits)

lemma digits_value_show: "digits_value 0 (show_nat n) = Some n"
proof (induction n rule: show_nat.induct)
  case (1 n)
  show ?case
    using 1 by (subst show_nat.simps) (auto simp: digits_value_append digit_value_char)
qed

lemma show_nat_digits: "c \<in> set (show_nat n) \<Longrightarrow> \<exists>d < 10. c = digit_char d"
proof (induction n rule: show_nat.induct)
  case (1 n)
  show ?case using 1 by (cases "n < 10") (auto simp: show_nat.simps [of n], rule exI [of _ "n mod 10"], simp)
qed

lemma digit_char_in: "d < 10 \<Longrightarrow> CHR ''0'' \<le> digit_char d \<and> digit_char d \<le> CHR ''9''"
  by (auto simp: digit_char_def less_eq_char_def take_bit_eq_mod)

lemma show_nat_chars: "c \<in> set (show_nat n) \<Longrightarrow> CHR ''0'' \<le> c \<and> c \<le> CHR ''9''"
  using show_nat_digits digit_char_in by blast

lemma parse_u16_show: "n < 2 ^ 16 \<Longrightarrow> parse_u16 (show_nat n) = Some (of_nat n)"
proof -
  assume n: "n < 2 ^ 16"
  have "\<not> prefix ''+'' (show_nat n)"
    using show_nat_chars [of "CHR ''+''" n] by (auto simp: prefix_def less_eq_char_def)
  then show ?thesis using n by (simp add: parse_u16_def Let_def digits_value_show)
qed

lemma show_5432: "show_nat 5432 = ''5432''"
  by (simp add: show_nat.simps digit_char_def char_of_def bit_0)

definition url_part :: "string \<Rightarrow> bool" where
  "url_part s \<longleftrightarrow> CHR ''@'' \<notin> set s \<and> CHR '':'' \<notin> set s \<and> CHR ''/'' \<notin> set s"

lemma trim_start_str_other: "\<not> prefix p s \<Longrightarrow> trim_start_str p s = s"
  by (simp add: trim_start_str.simps)

lemma trim_start_str_once: "p \<noteq> [] \<Longrightarrow> \<not> prefix p s \<Longrightarrow> trim_start_str p (p @ s) = s"
  by (simp add: trim_start_str.simps [of p "p @ s"] trim_start_str_other)

lemma url_part_no_scheme:
  assumes "url_part u" and "url_part w" and "CHR '':'' \<notin> set p"
  shows "\<not> prefix (p @ ''://'') (u @ '':'' @ w @ ''@'' @ s)"
proof
  assume "prefix (p @ ''://'') (u @ '':'' @ w @ ''@'' @ s)"
  then obtain z where z: "u @ CHR '':'' # w @ CHR ''@'' # s = p @ CHR '':'' # CHR ''/'' # CHR ''/'' # z"
    by (auto simp: prefix_def)
  have tw: "takeWhile (\<lambda>c. c \<noteq> CHR '':'') (x @ CHR '':'' # y) = x" if "CHR '':'' \<notin> set x" for x y
    using that by (induction x) auto
  have "u = p" using tw [of u] tw [of p] assms(1,3) z by (metis url_part_def)
  with z have "w @ CHR ''@'' # s = CHR ''/'' # CHR ''/'' # z" by simp
  then show False using assms(2) by (cases w) (auto simp: url_part_def)
qed

lemma strip_schemes:
  assumes "url_part u" and "url_part w" and "scheme = ''postgresql://'' \<or> scheme = ''postgres://''"
  shows "trim_start_str ''postgres://'' (trim_start_str ''postgresql://'' (scheme @ u @ '':'' @ w @ ''@'' @ s)) = u @ '':'' @ w @ ''@'' @ s"
proof -
  have n: "\<not> prefix ''postgresql://'' (u @ '':'' @ w @ ''@'' @ s)" "\<not> prefix ''postgres://'' (u @ '':'' @ w @ ''@'' @ s)"
    using url_part_no_scheme [OF assms(1,2), of "''postgresql''" s] url_part_no_scheme [OF assms(1,2), of "''postgres''" s] by simp_all
  have "\<not> prefix ''postgresql://'' (''postgres://'' @ u @ '':'' @ w @ ''@'' @ s)" by (simp add: prefix_def)
  then show ?thesis
    using assms(3) n trim_start_str_once [of "''postgresql://''" "u @ '':'' @ w @ ''@'' @ s"] trim_start_str_once [of "''postgres://''" "u @ '':'' @ w @ ''@'' @ s"]
      trim_start_str_other [of "''postgresql://''" "''postgres://'' @ u @ '':'' @ w @ ''@'' @ s"]
      trim_start_str_other [of "''postgres://''" "u @ '':'' @ w @ ''@'' @ s"] by auto
qed

lemma as_bytes_text: "map_of (files s) p = Some d \<Longrightarrow> as_bytes (text_of p s) = d"
  by (simp add: text_of_def)

text \<open>What is needed to write the documents beside an image whose index is \<open>d\<close>.\<close>

definition ready_for_documents :: "'n publisher \<Rightarrow> string \<Rightarrow> bytes \<Rightarrow> fs \<Rightarrow> bool" where
  "ready_for_documents D out d f \<longleftrightarrow>
     faults f = [] \<and> plain_dir out \<and> is_dir f out \<and> \<not> is_dir f (path_join out ''sbom.json'') \<and> \<not> is_dir f (path_join out ''attestation.json'')
     \<and> map_of (files f) (path_join out ''index.json'') = Some d \<and> utf8_ok d
     \<and> (\<forall>b. sv_json (pb_sbom D) b \<noteq> None) \<and> (\<forall>p. av_provenance_json (pb_attest D) p \<noteq> None)
     \<and> (\<forall>a. av_attestation_json (pb_attest D) a \<noteq> None)"

lemma compute_image_digest_ready:
  "ready_for_documents D out d f \<Longrightarrow> compute_image_digest (pb_sbom D) out f = (Inr (sbom_hash (pb_sbom D) d), f)"
  using read_to_string_readable [of f "path_join out ''index.json''"] as_bytes_text [of f "path_join out ''index.json''" d]
  by (simp add: ready_for_documents_def compute_image_digest_def readable_def)

lemma document_names_ok: "file_name_ok ''sbom.json''" "file_name_ok ''attestation.json''"
  by (simp_all add: file_name_ok_def)

lemma documents_apart: "plain_dir out \<Longrightarrow> path_join out ''sbom.json'' \<noteq> path_join out ''attestation.json''"
  by (simp add: path_join_def prefix_def)

text \<open>The documents of an image: the printed bill of materials and attestation.\<close>

definition attestation_of :: "attest_env \<Rightarrow> string \<Rightarrow> string \<Rightarrow> attestation" where
  "attestation_of A ctx digest =
     (let payload = the (av_provenance_json A (build_provenance A ctx digest))
      in \<lparr>at_payload_type = ''application/vnd.in-toto+json'', at_payload = payload, at_signatures = [sign_dsse A payload]\<rparr>)"

lemma write_documents:
  assumes "ready_for_documents D out d f"
  shows "\<exists>f'. bind_io (save_sbom (pb_sbom D) b (path_join out ''sbom.json'') Format_Json) (\<lambda>_.
       bind_io (sign_provenance (pb_attest D) (build_provenance (pb_attest D) ctx dig)) (\<lambda>att.
       save_attestation (pb_attest D) att (path_join out ''attestation.json''))) f = (Inr (), f')
     \<and> map_of (files f') = (map_of (files f))(path_join out ''sbom.json'' \<mapsto> as_bytes (the (sv_json (pb_sbom D) b)),
         path_join out ''attestation.json'' \<mapsto> as_bytes (the (av_attestation_json (pb_attest D) (attestation_of (pb_attest D) ctx dig))))"
proof -
  note r = assms [unfolded ready_for_documents_def plain_dir_def]
  obtain jb jp ja where j: "sv_json (pb_sbom D) b = Some jb" "av_provenance_json (pb_attest D) (build_provenance (pb_attest D) ctx dig) = Some jp"
    "av_attestation_json (pb_attest D) (attestation_of (pb_attest D) ctx dig) = Some ja"
    using r by (meson not_None_eq)
  let ?f1 = "f\<lparr>files := AList.update (path_join out ''sbom.json'') (as_bytes jb) (files f)\<rparr>"
  let ?f2 = "?f1\<lparr>files := AList.update (path_join out ''attestation.json'') (as_bytes ja) (files ?f1)\<rparr>"
  have 1: "save_sbom (pb_sbom D) b (path_join out ''sbom.json'') Format_Json f = (Inr (), ?f1)"
    using r write_in_dir [OF document_names_ok(1), of out f "as_bytes jb"] by (simp add: save_sbom_def sbom_text_def j)
  have 2: "sign_provenance (pb_attest D) (build_provenance (pb_attest D) ctx dig) = ret (attestation_of (pb_attest D) ctx dig)"
    using j(2) by (simp add: sign_provenance_def attestation_of_def)
  have 3: "save_attestation (pb_attest D) (attestation_of (pb_attest D) ctx dig) (path_join out ''attestation.json'') ?f1 = (Inr (), ?f2)"
    using r write_in_dir [OF document_names_ok(2), of out ?f1 "as_bytes ja"] by (auto simp: save_attestation_def j is_dir_def)
  have "map_of (files ?f2) = (map_of (files f))(path_join out ''sbom.json'' \<mapsto> as_bytes jb, path_join out ''attestation.json'' \<mapsto> as_bytes ja)"
    by (simp add: update_conv')
  then show ?thesis by (intro exI [of _ ?f2]) (simp add: 1 2 3 j)
qed

text \<open>The bill of materials of an image in a context that allows one.\<close>

definition image_sbom :: "sbom_env \<Rightarrow> string \<Rightarrow> string \<Rightarrow> string \<Rightarrow> fs \<Rightarrow> sbom" where
  "image_sbom E digest ctx dfp f =
     generate_sbom E ''memobuild-demo:latest'' digest (context_layers E ctx f) (context_deps E ctx f)
       (map (source_component E ctx f) (copied_sources (text_of dfp f)))"

lemma document_image_spec:
  assumes "ready_for_documents D out d f"
  shows "if sbom_possible (pb_sbom D) ctx dfp f
    then \<exists>f'. document_image D ctx dfp out f = (Inr (), f')
      \<and> map_of (files f') = (map_of (files f))
          (path_join out ''sbom.json'' \<mapsto> as_bytes (the (sv_json (pb_sbom D) (image_sbom (pb_sbom D) (sbom_hash (pb_sbom D) d) ctx dfp f))),
           path_join out ''attestation.json'' \<mapsto>
             as_bytes (the (av_attestation_json (pb_attest D) (attestation_of (pb_attest D) ctx (sbom_hash (pb_sbom D) d)))))
    else \<exists>e. document_image D ctx dfp out f = (Inl e, f)"
proof -
  have f: "faults f = []" using assms by (simp add: ready_for_documents_def)
  let ?dig = "sbom_hash (pb_sbom D) d" and ?img = "''memobuild-demo:latest''"
  note gen = generate_from_context_spec [OF f, of "pb_sbom D" ctx dfp ?img ?dig]
  have doc: "document_image D ctx dfp out f = (case generate_from_context (pb_sbom D) ?img ?dig ctx dfp f of
        (Inl e, f') \<Rightarrow> (Inl e, f')
      | (Inr b, f') \<Rightarrow> bind_io (save_sbom (pb_sbom D) b (path_join out ''sbom.json'') Format_Json) (\<lambda>_.
          bind_io (sign_provenance (pb_attest D) (build_provenance (pb_attest D) ctx ?dig)) (\<lambda>att.
          save_attestation (pb_attest D) att (path_join out ''attestation.json''))) f')"
    unfolding document_image_def bind_io_Inr [where m = "compute_image_digest (pb_sbom D) out", OF compute_image_digest_ready [OF assms]]
    by (subst bind_io_def) (rule refl)
  show ?thesis
  proof (cases "sbom_possible (pb_sbom D) ctx dfp f")
    case True
    have g: "generate_from_context (pb_sbom D) ?img ?dig ctx dfp f = (Inr (image_sbom (pb_sbom D) ?dig ctx dfp f), f)"
      using gen unfolding if_P [OF True] image_sbom_def .
    show ?thesis
      unfolding if_P [OF True] doc g prod.case sum.case by (rule write_documents [OF assms])
  next
    case False
    obtain e where g: "generate_from_context (pb_sbom D) ?img ?dig ctx dfp f = (Inl e, f)"
      using gen unfolding if_not_P [OF False] by blast
    show ?thesis unfolding if_not_P [OF False] doc g prod.case sum.case by blast
  qed
qed

lemma with_same_fs: "with_host_fs (host_fs (se_host s)) s = s"
  by (simp add: with_host_fs_def)

section \<open>Properties\<close>

text \<open>The URL of a database: of a URL put together from a user, a password, a host, a port and a database name that
  contain none of the separators, under either scheme, the parser gives back the parts and the fixed sizes of the pool;
  without a port it gives 5432.\<close>

theorem postgres_url_roundtrip:
  assumes "url_part user" and "url_part pass" and "url_part host" and "url_part db"
    and "scheme = ''postgresql://'' \<or> scheme = ''postgres://''"
  shows "let config = (\<lambda>p. \<lparr>pg_host = host, pg_port = p, pg_database = db, pg_user = user, pg_password = pass,
         pg_max_connections = 20, pg_min_idle = Some 5\<rparr>)
     in parse_postgres_url (scheme @ user @ '':'' @ pass @ ''@'' @ host @ '':'' @ show_nat (unat port) @ ''/'' @ db) = Inr (config port)
      \<and> parse_postgres_url (scheme @ user @ '':'' @ pass @ ''@'' @ host @ ''/'' @ db) = Inr (config 5432)"
proof -
  let ?auth = "user @ '':'' @ pass"
  have port: "CHR ''/'' \<notin> set (show_nat (unat port))" "CHR ''@'' \<notin> set (show_nat (unat port))" "CHR '':'' \<notin> set (show_nat (unat port))"
    using show_nat_chars [of _ "unat port"] by (fastforce simp: less_eq_char_def)+
  have auth: "split_on CHR '':'' ?auth = [user, pass]" "CHR ''@'' \<notin> set ?auth"
    using assms(1,2) split_on_two [of "CHR '':''" user pass] by (auto simp: url_part_def)
  let ?config = "\<lambda>p. \<lparr>pg_host = host, pg_port = p, pg_database = db, pg_user = user, pg_password = pass,
         pg_max_connections = 20, pg_min_idle = Some 5\<rparr>"
  have main: "parse_postgres_url (scheme @ user @ '':'' @ pass @ ''@'' @ hp @ ''/'' @ db) = Inr (?config p)"
    if "CHR ''@'' \<notin> set hp" "CHR ''/'' \<notin> set hp" "split_on CHR '':'' hp = host # ps"
      "parse_u16 (case ps of [] \<Rightarrow> ''5432'' | x # _ \<Rightarrow> x) = Some p" for hp ps p
  proof -
    have "split_on CHR ''@'' (?auth @ CHR ''@'' # hp @ ''/'' @ db) = [?auth, hp @ ''/'' @ db]"
      using auth(2) that(1) assms(4) by (intro split_on_two) (auto simp: url_part_def)
    moreover have "split_on CHR ''/'' (hp @ CHR ''/'' # db) = [hp, db]"
      using that(2) assms(4) by (intro split_on_two) (auto simp: url_part_def)
    ultimately show ?thesis
      using strip_schemes [OF assms(1,2,5), of "hp @ ''/'' @ db"] auth(1) that(3,4)
      by (cases ps) (simp_all add: parse_postgres_url_def Let_def)
  qed
  have "split_on CHR '':'' (host @ '':'' @ show_nat (unat port)) = [host, show_nat (unat port)]"
    using assms(3) port(3) split_on_two [of "CHR '':''" host "show_nat (unat port)"] by (simp add: url_part_def)
  moreover have "CHR ''@'' \<notin> set (host @ '':'' @ show_nat (unat port))" "CHR ''/'' \<notin> set (host @ '':'' @ show_nat (unat port))"
    using assms(3) port by (simp_all add: url_part_def)
  moreover have "parse_u16 (show_nat (unat port)) = Some port"
  proof -
    have port_nat: "(of_nat (unat port) :: 16 word) = port" by simp
    have "unat port < 2 ^ 16" using unsigned_less [where 'a = nat, of port] by simp
    from parse_u16_show [OF this] show ?thesis by (metis port_nat)
  qed
  ultimately have 1: "parse_postgres_url (scheme @ user @ '':'' @ pass @ ''@'' @ (host @ '':'' @ show_nat (unat port)) @ ''/'' @ db) = Inr (?config port)"
    by (intro main) (assumption, assumption, assumption, simp only: list.case)
  have "split_on CHR '':'' host = [host]"
    using assms(3) by (simp add: url_part_def split_on_def split_acc_plain)
  moreover have "CHR ''@'' \<notin> set host" "CHR ''/'' \<notin> set host"
    using assms(3) by (simp_all add: url_part_def)
  moreover have "parse_u16 ''5432'' = Some 5432"
    using parse_u16_show [of 5432] by (simp add: show_5432)
  ultimately have 2: "parse_postgres_url (scheme @ user @ '':'' @ pass @ ''@'' @ host @ ''/'' @ db) = Inr (?config 5432)"
    by (intro main) (assumption, assumption, assumption, simp only: list.case)
  from 1 2 show ?thesis unfolding Let_def append_assoc by (rule conjI)
qed


text \<open>An image name with a port is taken apart at the colon before the port.\<close>

lemma port_is_taken_for_tag: "parse_image_name ''localhost:5000/app:v1'' = (''index.docker.io'', ''localhost'', ''5000/app:v1'')"
  by code_simp

text \<open>A directory among the sources of the Dockerfile stops the build after the image is exported.\<close>

lemma directory_copy_stops_build:
  assumes "build_image B to_value ctx dfp rep dry s = (Inr out, s1)" and "ready_for_documents D out d (host_fs (se_host s1))"
    and "source \<in> set (copied_sources (text_of dfp (host_fs (se_host s1))))"
    and "path_exists (host_fs (se_host s1)) (path_join ctx source)" and "\<not> is_file (host_fs (se_host s1)) (path_join ctx source)"
  shows "\<exists>e. run_build B D to_value ctx dfp push_it rep dry (s, n) = (Returns (Inl e), (s1, n))"
proof -
  let ?f = "host_fs (se_host s1)"
  have "\<not> sbom_possible (pb_sbom D) ctx dfp ?f"
    using assms(3-5) by (auto simp: sbom_possible_def list_ex_iff not_a_file_def)
  then obtain e where "document_image D ctx dfp out ?f = (Inl e, ?f)"
    using document_image_spec [OF assms(2), of ctx dfp] by auto
  then show ?thesis
    using assms(1) by (simp add: run_build_def bind_pio_def on_session_def on_site_def on_disk_def on_part_def from_io_def with_same_fs)
qed

section \<open>Witnesses\<close>

theorem postgres_url_roundtrip_witness:
  "parse_postgres_url ''postgres://u:p@h:80/d'' = Inr \<lparr>pg_host = ''h'', pg_port = 80, pg_database = ''d'', pg_user = ''u'',
     pg_password = ''p'', pg_max_connections = 20, pg_min_idle = Some 5\<rparr>"
proof -
  have p: "show_nat (unat (80 :: 16 word)) = ''80''" by (simp add: show_nat.simps digit_char_def char_of_def bit_0)
  have "parse_postgres_url (''postgres://'' @ ''u'' @ '':'' @ ''p'' @ ''@'' @ ''h'' @ '':'' @ show_nat (unat (80 :: 16 word)) @ ''/'' @ ''d'')
      = Inr \<lparr>pg_host = ''h'', pg_port = 80, pg_database = ''d'', pg_user = ''u'', pg_password = ''p'', pg_max_connections = 20, pg_min_idle = Some 5\<rparr>"
    by (rule postgres_url_roundtrip [unfolded Let_def, THEN conjunct1]) (simp_all add: url_part_def)
  then show ?thesis unfolding p by simp
qed

definition const_system :: "(unit, unit) build_system" where
  "const_system = toy_system\<lparr>bs_externals := toy_externals\<lparr>xt_index_json := (\<lambda>t. Some [0])\<rparr>, bs_index_of_json := (\<lambda>j. None),
     bs_pipeline := (bs_pipeline toy_system)\<lparr>pl_blake3 := (\<lambda>d. ''h'')\<rparr>,
     bs_export := toy_export\<lparr>xe_sha256 := (\<lambda>d. show_nat (length d))\<rparr>\<rparr>"

definition toy_publisher :: "unit publisher" where
  "toy_publisher = \<lparr>pb_sbom = toy_sbom,
     pb_attest = \<lparr>av_sha256 = (\<lambda>d. replicate 64 CHR ''0''), av_uuid = ''u'', av_started = ''t'', av_finished = ''t'', av_seconds = 0,
       av_provenance_json = (\<lambda>p. Some ''p''), av_attestation_json = (\<lambda>a. Some ''a'')\<rparr>,
     pb_registry = \<lparr>ra_head = (\<lambda>t u n. (None, n)), ra_get = (\<lambda>t u n. (None, n)), ra_post = (\<lambda>t u n. (None, n)), ra_put = (\<lambda>t u b n. (None, n))\<rparr>,
     pb_registry_json = \<lparr>rj_index_digest = (\<lambda>t. None), rj_manifest = (\<lambda>t. None), rj_body_text = (\<lambda>b. [])\<rparr>\<rparr>"

lemma toy_image_built:
  "case build_image const_system (\<lambda>m. ()) ''.'' ''f'' True False toy_session of (r, s1) \<Rightarrow>
     (let out = ''.memobuild-output/memobuild-demo-latest''; f = host_fs (se_host s1)
      in r = Inr out \<and> faults f = [] \<and> plain_dir out \<and> is_dir f out \<and> \<not> is_dir f (path_join out ''sbom.json'')
         \<and> \<not> is_dir f (path_join out ''attestation.json'') \<and> map_of (files f) (path_join out ''index.json'') = Some [105]
         \<and> utf8_ok [105] \<and> sbom_possible toy_sbom ''.'' ''f'' f)"
  by code_simp


end
