(* ===== verification/Hasher.thy ===== *)
theory Hasher
  imports Files
begin

text \<open>
  \<open>src/src/hasher\<close>: digests of files and of directory trees, and the ignore rules. The incremental BLAKE3 hasher is the
  bytes it was given so far, and \<open>hv_blake3\<close> the digest of them in hexadecimal. The patterns of the crate \<open>glob\<close> are
  the parameters \<open>hv_pattern\<close> and \<open>hv_matches\<close>; the order in which a directory is traversed and the number of
  bytes a read returns are parameters too.
\<close>

section \<open>Ignore rules\<close>

record 'p hash_env =
  hv_blake3 :: "bytes \<Rightarrow> string"
  hv_pattern :: "string \<Rightarrow> 'p option"
  hv_matches :: "'p \<Rightarrow> string \<Rightarrow> bool"
  hv_order :: "string list \<Rightarrow> string list"
  hv_read :: "nat \<Rightarrow> nat"

type_synonym 'p ignore_rules = "'p list"

definition ignore_empty :: "'p ignore_rules" where
  "ignore_empty = []"

definition ignore_parse :: "'p hash_env \<Rightarrow> string \<Rightarrow> 'p ignore_rules" where
  "ignore_parse V content =
     List.map_filter (hv_pattern V) (filter (\<lambda>l. l \<noteq> [] \<and> \<not> prefix ''#'' l) (map trim (lines content)))"

definition ignore_from_file :: "'p hash_env \<Rightarrow> string \<Rightarrow> fs \<Rightarrow> 'p ignore_rules \<times> fs" where
  "ignore_from_file V path s =
     (case read_to_string path s of (Inr c, s1) \<Rightarrow> (ignore_parse V c, s1) | (Inl _, s1) \<Rightarrow> (ignore_empty, s1))"

text \<open>\<open>Path::ancestors\<close> starts with the path itself and ends with the empty path, which is passed over.\<close>

definition is_ignored :: "'p hash_env \<Rightarrow> 'p ignore_rules \<Rightarrow> string \<Rightarrow> bool" where
  "is_ignored V ps path =
     list_ex (\<lambda>a. a \<noteq> [] \<and> a \<noteq> ''.'' \<and> list_ex (\<lambda>p. hv_matches V p a) ps) (rev (ancestors path))"

section \<open>Files\<close>

definition chunk_size :: nat where
  "chunk_size = 64 * 1024"

text \<open>A read returns between one and \<open>chunk_size\<close> bytes of those that are left, and none at the end.\<close>

definition read_len :: "'p hash_env \<Rightarrow> nat \<Rightarrow> nat" where
  "read_len V left = max 1 (min (hv_read V left) (min chunk_size left))"

function hash_loop :: "'p hash_env \<Rightarrow> bytes \<Rightarrow> bytes \<Rightarrow> (fs, string) io" where
  "hash_loop V hasher left s =
     (case take_fault s of (f, s1) \<Rightarrow>
        if f \<noteq> Fine then (Inl (Err ''Read error''), s1)
        else if left = [] then (Inr (hv_blake3 V hasher), s1)
        else hash_loop V (hasher @ take (read_len V (length left)) left) (drop (read_len V (length left)) left) s1)"
  by pat_completeness auto
termination
  by (relation "measure (\<lambda>(V, hasher, left, s). length left)") (auto simp: read_len_def)

declare hash_loop.simps [simp del]

definition hash_file :: "'p hash_env \<Rightarrow> string \<Rightarrow> (fs, string) io" where
  "hash_file V path s =
     (case take_fault s of (f, s1) \<Rightarrow>
        case map_of (files s1) path of
          Some d \<Rightarrow> if f = Fine then hash_loop V [] d s1 else (Inl (Err ''Cannot open file for hashing''), s1)
        | None \<Rightarrow> (Inl (Err ''Cannot open file for hashing''), s1))"

section \<open>Directories\<close>

text \<open>\<open>Path::strip_prefix\<close>, and the components by which paths are ordered.\<close>

definition path_under :: "string \<Rightarrow> string" where
  "path_under root = (if last root = CHR ''/'' then root else root @ ''/'')"

definition strip_path :: "string \<Rightarrow> string \<Rightarrow> string option" where
  "strip_path root p =
     (if p = root then Some [] else if prefix (path_under root) p then Some (drop (length (path_under root)) p) else None)"

definition components :: "string \<Rightarrow> string list" where
  "components p = (if prefix ''/'' p then [''/''] else []) @ filter (\<lambda>c. c \<noteq> []) (split_on CHR ''/'' p)"

definition rel_path :: "string \<Rightarrow> string \<Rightarrow> string" where
  "rel_path root p = (case strip_path root p of Some r \<Rightarrow> r | None \<Rightarrow> p)"

text \<open>The regular files of a walk; entries that cannot be read are passed over.\<close>

definition walk_dir :: "'p hash_env \<Rightarrow> string \<Rightarrow> 'p ignore_rules \<Rightarrow> fs \<Rightarrow> string list" where
  "walk_dir V root ps s =
     sort_key components
       (filter (\<lambda>p. \<not> is_ignored V ps (rel_path root p))
         (filter (\<lambda>p. root \<noteq> [] \<and> strip_path root p \<noteq> None) (hv_order V (remdups (map fst (files s))))))"

fun hash_files :: "'p hash_env \<Rightarrow> string \<Rightarrow> string list \<Rightarrow> (fs, (string \<times> string) list) io" where
  "hash_files V root [] = ret []"
| "hash_files V root (p # ps) =
     bind_io (hash_file V p) (\<lambda>h. bind_io (hash_files V root ps) (\<lambda>rest. ret ((rel_path root p, h) # rest)))"

definition top_stream :: "(string \<times> string) list \<Rightarrow> bytes" where
  "top_stream results = fold (\<lambda>(rel, h) hasher. hasher @ as_bytes rel @ as_bytes h) results []"

definition hash_dir :: "'p hash_env \<Rightarrow> string \<Rightarrow> 'p ignore_rules \<Rightarrow> (fs, string) io" where
  "hash_dir V root ps s =
     bind_io (hash_files V root (walk_dir V root ps s)) (\<lambda>results. ret (hv_blake3 V (top_stream results))) s"

definition hash_path :: "'p hash_env \<Rightarrow> string \<Rightarrow> 'p ignore_rules \<Rightarrow> (fs, string) io" where
  "hash_path V path ps s =
     (if is_dir s path then hash_dir V path ps s
      else if is_file s path then hash_file V path s
      else (Inr (hv_blake3 V (as_bytes path)), s))"

section \<open>Lemmas\<close>

lemma hash_loop_whole: "faults s = [] \<Longrightarrow> hash_loop V hasher left s = (Inr (hv_blake3 V (hasher @ left)), s)"
proof (induction V hasher left s rule: hash_loop.induct)
  case (1 V hasher left s)
  show ?case
    using 1 by (subst hash_loop.simps) (auto simp: read_len_def)
qed

lemma hash_file_whole: "faults s = [] \<Longrightarrow> map_of (files s) p = Some d \<Longrightarrow> hash_file V p s = (Inr (hv_blake3 V d), s)"
  by (simp add: hash_file_def hash_loop_whole)

definition content :: "fs \<Rightarrow> string \<Rightarrow> bytes" where
  "content s p = the (map_of (files s) p)"

lemma hash_files_whole:
  assumes "faults s = []" and "\<And>p. p \<in> set ps \<Longrightarrow> map_of (files s) p \<noteq> None"
  shows "hash_files V root ps s = (Inr (map (\<lambda>p. (rel_path root p, hv_blake3 V (content s p))) ps), s)"
  using assms
proof (induction ps)
  case (Cons p ps)
  obtain d where "map_of (files s) p = Some d" using Cons.prems(2) [of p] by auto
  then have "hash_file V p s = (Inr (hv_blake3 V (content s p)), s)"
    using hash_file_whole [OF Cons.prems(1)] by (simp add: content_def)
  with Cons show ?case by simp
qed simp

definition entry_bytes :: "'p hash_env \<Rightarrow> string \<times> bytes \<Rightarrow> bytes" where
  "entry_bytes V = (\<lambda>(rel, d). as_bytes rel @ as_bytes (hv_blake3 V d))"

lemma fold_entries: "fold (\<lambda>(rel, h) hasher. hasher @ as_bytes rel @ as_bytes h) rs acc = acc @ concat (map (\<lambda>(rel, h). as_bytes rel @ as_bytes h) rs)"
  by (induction rs arbitrary: acc) auto

lemma top_stream_entries: "top_stream (map (\<lambda>p. (f p, hv_blake3 V (g p))) ps) = concat (map (\<lambda>p. entry_bytes V (f p, g p)) ps)"
  by (simp add: top_stream_def fold_entries entry_bytes_def comp_def)

text \<open>A relative path as a walk finds it, and the files below a root by their relative paths.\<close>

definition plain_rel :: "string \<Rightarrow> bool" where
  "plain_rel r \<longleftrightarrow> r \<noteq> [] \<and> list_all (\<lambda>c. c \<noteq> []) (split_on CHR ''/'' r)"

definition plain_root :: "string \<Rightarrow> bool" where
  "plain_root root \<longleftrightarrow> root \<noteq> [] \<and> last root \<noteq> CHR ''/''"

definition tree :: "string \<Rightarrow> fs \<Rightarrow> string \<Rightarrow> bytes option" where
  "tree root s r = map_of (files s) (root @ ''/'' @ r)"

lemma join_split: "concat (map (\<lambda>w. w @ [c]) (split_acc c v s)) = v @ s @ [c]"
  by (induction s arbitrary: v) auto

lemma split_on_inj: "split_on c s = split_on c t \<Longrightarrow> s = t"
  using join_split [of c "[]" s] join_split [of c "[]" t] by (metis append_Nil append_same_eq split_on_def)

lemma split_acc_sep: "split_acc c v (s @ c # t) = split_acc c v s @ split_acc c [] t"
  by (induction s arbitrary: v) auto

lemma plain_rel_hd: "plain_rel r \<Longrightarrow> \<not> prefix ''/'' r"
  by (cases r) (auto simp: plain_rel_def split_on_def)

lemma components_plain: "plain_rel r \<Longrightarrow> components r = split_on CHR ''/'' r"
  using plain_rel_hd [of r] by (simp add: components_def plain_rel_def list_all_iff filter_id_conv)

lemma components_below:
  assumes "root \<noteq> []"
  shows "components (root @ ''/'' @ r) = components root @ filter (\<lambda>c. c \<noteq> []) (split_on CHR ''/'' r)"
  using assms by (cases root) (auto simp: components_def split_on_def split_acc_sep)

lemma strip_below: "plain_root root \<Longrightarrow> plain_rel r \<Longrightarrow> strip_path root (root @ ''/'' @ r) = Some r"
  by (simp add: strip_path_def path_under_def plain_root_def)

lemma strip_someD: "plain_root root \<Longrightarrow> strip_path root p = Some r \<Longrightarrow> p = root \<and> r = [] \<or> p = root @ ''/'' @ r"
  by (auto simp: strip_path_def path_under_def plain_root_def prefix_def split: if_splits)

text \<open>What a walk finds: each file below the root that is not ignored, once, in the order of the relative paths.\<close>

definition same_order :: "(string list \<Rightarrow> string list) \<Rightarrow> bool" where
  "same_order order \<longleftrightarrow> (\<forall>xs. mset (order xs) = mset xs)"

definition found :: "'p hash_env \<Rightarrow> string \<Rightarrow> 'p ignore_rules \<Rightarrow> fs \<Rightarrow> string list" where
  "found V root ps s = map (rel_path root) (walk_dir V root ps s)"

definition plain_tree :: "string \<Rightarrow> fs \<Rightarrow> bool" where
  "plain_tree root s \<longleftrightarrow> plain_root root \<and> \<not> is_file s root \<and> (\<forall>r. tree root s r \<noteq> None \<longrightarrow> plain_rel r)"

lemma same_order_set: "same_order order \<Longrightarrow> set (order xs) = set xs"
  unfolding same_order_def by (metis set_mset_mset)

lemma same_order_distinct: "same_order order \<Longrightarrow> distinct (order xs) = distinct xs"
  unfolding same_order_def by (metis mset_eq_imp_distinct_iff)

lemma in_walk:
  assumes "plain_tree root s" and "same_order (hv_order V)"
  shows "p \<in> set (walk_dir V root ps s) \<longleftrightarrow> (\<exists>r. p = root @ ''/'' @ r \<and> tree root s r \<noteq> None \<and> \<not> is_ignored V ps r)"
proof
  note pl = assms(1) [unfolded plain_tree_def]
  assume p: "p \<in> set (walk_dir V root ps s)"
  then obtain r where r: "strip_path root p = Some r" "\<not> is_ignored V ps r"
    by (auto simp: walk_dir_def rel_path_def)
  have f: "map_of (files s) p \<noteq> None"
    using p same_order_set [OF assms(2)] by (auto simp: walk_dir_def map_of_eq_None_iff)
  then have "p \<noteq> root" using pl by (auto simp: is_file_def)
  then have "p = root @ ''/'' @ r" using strip_someD [OF _ r(1)] pl by auto
  with f r(2) show "\<exists>r. p = root @ ''/'' @ r \<and> tree root s r \<noteq> None \<and> \<not> is_ignored V ps r" by (auto simp: tree_def)
next
  note pl = assms(1) [unfolded plain_tree_def]
  assume "\<exists>r. p = root @ ''/'' @ r \<and> tree root s r \<noteq> None \<and> \<not> is_ignored V ps r"
  then obtain r where r: "p = root @ ''/'' @ r" "tree root s r \<noteq> None" "\<not> is_ignored V ps r" by blast
  then have "strip_path root p = Some r" using strip_below [of root r] pl by simp
  moreover have "p \<in> fst ` set (files s)" using r(1,2) by (auto simp: tree_def map_of_eq_None_iff)
  ultimately show "p \<in> set (walk_dir V root ps s)"
    using same_order_set [OF assms(2)] pl r(3) by (auto simp: walk_dir_def rel_path_def plain_root_def)
qed

lemma in_walk_rel:
  assumes "plain_tree root s" and "same_order (hv_order V)" and "p \<in> set (walk_dir V root ps s)"
  shows "p = root @ ''/'' @ rel_path root p" and "plain_rel (rel_path root p)"
proof -
  obtain r where r: "p = root @ ''/'' @ r" "tree root s r \<noteq> None" using assms(3) in_walk [OF assms(1,2)] by blast
  then have "plain_rel r" "strip_path root p = Some r"
    using assms(1) strip_below [of root r] by (auto simp: plain_tree_def)
  then show "p = root @ ''/'' @ rel_path root p" "plain_rel (rel_path root p)" using r(1) by (simp_all add: rel_path_def)
qed

lemma found_set:
  assumes "plain_tree root s" and "same_order (hv_order V)"
  shows "set (found V root ps s) = {r. tree root s r \<noteq> None \<and> \<not> is_ignored V ps r}"
proof -
  have "rel_path root (root @ ''/'' @ r) = r" if "tree root s r \<noteq> None" for r
    using that assms(1) strip_below [of root r] by (auto simp: plain_tree_def rel_path_def)
  then show ?thesis
    unfolding found_def set_map using in_walk [OF assms, of _ ps] by (auto simp: image_iff) metis+
qed

lemma found_distinct:
  assumes "plain_tree root s" and "same_order (hv_order V)"
  shows "distinct (found V root ps s)"
proof -
  have "distinct (walk_dir V root ps s)"
    using same_order_distinct [OF assms(2)] by (simp add: walk_dir_def)
  moreover have "inj_on (rel_path root) (set (walk_dir V root ps s))"
    using in_walk_rel(1) [OF assms] by (metis inj_onI)
  ultimately show ?thesis by (simp add: found_def distinct_map)
qed

lemma append_le_iff: "(xs @ ys :: string list) \<le> xs @ zs \<longleftrightarrow> ys \<le> zs"
  by (induction xs) simp_all

lemma sorted_drop_prefix: "sorted (map (\<lambda>r. (xs :: string list) @ f r) rs) = sorted (map f rs)"
  by (induction rs) (simp_all add: append_le_iff)

lemma found_sorted:
  assumes "plain_tree root s" and "same_order (hv_order V)"
  shows "sorted (map (split_on CHR ''/'') (found V root ps s))"
proof -
  have "components p = components root @ split_on CHR ''/'' (rel_path root p)" if p: "p \<in> set (walk_dir V root ps s)" for p
  proof -
    note r = in_walk_rel [OF assms p]
    have "components (root @ ''/'' @ rel_path root p) = components root @ split_on CHR ''/'' (rel_path root p)"
      using assms(1) r(2) by (subst components_below) (auto simp: plain_tree_def plain_root_def plain_rel_def list_all_iff filter_id_conv)
    then show ?thesis using r(1) by simp
  qed
  then have "map components (walk_dir V root ps s) = map (\<lambda>p. components root @ split_on CHR ''/'' (rel_path root p)) (walk_dir V root ps s)"
    by (rule map_cong [OF refl])
  moreover have "sorted (map components (walk_dir V root ps s))" by (simp add: walk_dir_def)
  ultimately have "sorted (map (\<lambda>p. components root @ split_on CHR ''/'' (rel_path root p)) (walk_dir V root ps s))" by (rule subst)
  then show ?thesis by (simp only: sorted_drop_prefix found_def map_map comp_def)
qed

lemma same_listing:
  assumes "plain_tree r1 s1" and "plain_tree r2 s2" and "same_order (hv_order V1)" and "same_order (hv_order V2)"
    and "tree r1 s1 = tree r2 s2" and "hv_matches V1 = hv_matches V2"
  shows "found V1 r1 ps s1 = found V2 r2 ps s2"
proof -
  let ?k = "split_on CHR ''/'' :: string \<Rightarrow> string list"
  have inj: "inj ?k" by (rule injI) (rule split_on_inj)
  have "set (found V1 r1 ps s1) = set (found V2 r2 ps s2)"
    using found_set [OF assms(1,3)] found_set [OF assms(2,4)] assms(5,6) by (simp add: is_ignored_def)
  then have "map ?k (found V1 r1 ps s1) = map ?k (found V2 r2 ps s2)"
    using found_sorted [OF assms(1,3)] found_sorted [OF assms(2,4)] found_distinct [OF assms(1,3)] found_distinct [OF assms(2,4)]
    by (intro sorted_distinct_set_unique) (simp_all add: distinct_map inj_on_subset [OF inj])
  then show ?thesis by (rule map_injective) (rule inj)
qed

lemma hash_dir_whole:
  assumes "plain_tree root s" and "same_order (hv_order V)" and "faults s = []"
  shows "hash_dir V root ps s
    = (Inr (hv_blake3 V (concat (map (\<lambda>r. entry_bytes V (r, the (tree root s r))) (found V root ps s)))), s)"
proof -
  have "map_of (files s) p \<noteq> None" if "p \<in> set (walk_dir V root ps s)" for p
    using in_walk [OF assms(1,2)] that by (auto simp: tree_def)
  then have h: "hash_files V root (walk_dir V root ps s) s
      = (Inr (map (\<lambda>p. (rel_path root p, hv_blake3 V (content s p))) (walk_dir V root ps s)), s)"
    by (rule hash_files_whole [OF assms(3)])
  have "content s p = the (tree root s (rel_path root p))" if "p \<in> set (walk_dir V root ps s)" for p
    using in_walk_rel(1) [OF assms(1,2) that] by (simp add: content_def tree_def)
  then have "map (\<lambda>p. entry_bytes V (rel_path root p, content s p)) (walk_dir V root ps s)
      = map (\<lambda>r. entry_bytes V (r, the (tree root s r))) (found V root ps s)"
    by (simp add: found_def)
  then show ?thesis by (simp add: hash_dir_def h top_stream_entries)
qed

section \<open>Properties\<close>

text \<open>C28. The digest of a directory tree depends on the files below it alone: two trees that hold the same files with the same
  contents have the same digest wherever they are, in whatever order their directories are traversed, and however many
  bytes each read returns; the rules leave out the same files of both.\<close>

theorem directory_hash_relocates:
  assumes "plain_tree r1 s1" and "plain_tree r2 s2" and "faults s1 = []" and "faults s2 = []" and "tree r1 s1 = tree r2 s2"
    and "same_order (hv_order V1)" and "same_order (hv_order V2)" and "hv_matches V1 = hv_matches V2" and "hv_blake3 V1 = hv_blake3 V2"
  shows "\<exists>h. hash_dir V1 r1 ps s1 = (Inr h, s1) \<and> hash_dir V2 r2 ps s2 = (Inr h, s2)"
  using hash_dir_whole [OF assms(1,6,3), of ps] hash_dir_whole [OF assms(2,7,4), of ps]
    same_listing [OF assms(1,2,6,7,5,8), of ps] assms(5,9)
  by (simp add: entry_bytes_def)

text \<open>The names and digests are hashed without separators: a file whose name contains a digest can stand for two files.\<close>

definition two_files :: "'p hash_env \<Rightarrow> bytes \<Rightarrow> bytes \<Rightarrow> (string \<times> bytes) list" where
  "two_files V x y = [(''a'', x), (''b'', y)]"

definition one_file :: "'p hash_env \<Rightarrow> bytes \<Rightarrow> bytes \<Rightarrow> (string \<times> bytes) list" where
  "one_file V x y = [(''a'' @ hv_blake3 V x @ ''b'', y)]"

lemma tree_hash_ambiguous:
  "hv_blake3 V (concat (map (entry_bytes V) (two_files V x y))) = hv_blake3 V (concat (map (entry_bytes V) (one_file V x y)))"
  by (simp add: two_files_def one_file_def entry_bytes_def as_bytes_def)

section \<open>Witness\<close>

definition toy_hash :: "(string list \<Rightarrow> string list) \<Rightarrow> (nat \<Rightarrow> nat) \<Rightarrow> string hash_env" where
  "toy_hash order rd = \<lparr>hv_blake3 = (\<lambda>d. show_nat (length d)), hv_pattern = Some, hv_matches = (=), hv_order = order, hv_read = rd\<rparr>"

definition toy_tree :: "string \<Rightarrow> fs" where
  "toy_tree root = \<lparr>files = [(root @ ''/a'', [1, 2]), (root @ ''/d/b'', [3])], dirs = [root, root @ ''/d''], faults = []\<rparr>"

lemma toy_tree_plain: "plain_root root \<Longrightarrow> plain_tree root (toy_tree root)"
  by (auto simp: plain_tree_def tree_def toy_tree_def is_file_def plain_rel_def split_on_def split: if_splits)

theorem directory_hash_relocates_witness:
  "\<exists>h. hash_dir (toy_hash id (\<lambda>n. n)) ''x'' [] (toy_tree ''x'') = (Inr h, toy_tree ''x'')
     \<and> hash_dir (toy_hash rev (\<lambda>n. 1)) ''y/z'' [] (toy_tree ''y/z'') = (Inr h, toy_tree ''y/z'')"
  by (rule directory_hash_relocates)
    (auto simp: toy_tree_plain plain_root_def same_order_def toy_hash_def fun_eq_iff tree_def, auto simp: toy_tree_def)

end
