(* ===== verification/Redis.thy ===== *)
theory Redis
  imports Hybrid
begin

text \<open>
  \<open>src/src/cache_redis.rs\<close>: the \<open>RemoteCache\<close> over a Redis server. The client library is the record \<open>redis_api\<close> of
  the commands the code sends; a time to live is handed on as the signed number it is cast to. \<open>serde_json\<close> is a
  parameter. That the commands act on one map of keys, as long as nothing expires, is \<open>redis_behaves\<close>; with it the cache
  meets the contract of the layered protocol.
\<close>

section \<open>The cache\<close>

record 'c redis_api =
  rd_exists :: "string \<Rightarrow> ('c, bool) io"
  rd_get :: "string \<Rightarrow> ('c, bytes option) io"
  rd_set :: "string \<Rightarrow> bytes \<Rightarrow> int option \<Rightarrow> ('c, unit) io"
  rd_del :: "string list \<Rightarrow> ('c, unit) io"
  rd_publish :: "string \<Rightarrow> string \<Rightarrow> ('c, unit) io"
  rd_scan :: "string \<Rightarrow> ('c, string list list) io"

record redis_cache =
  rs_ttl_secs :: u64
  rs_key_prefix :: string

record redis_json =
  rz_print :: "string list \<Rightarrow> string option"
  rz_parse :: "string \<Rightarrow> string list option"

definition redis_new :: "('c, unit) io \<Rightarrow> u64 \<Rightarrow> string option \<Rightarrow> ('c, redis_cache) io" where
  "redis_new connect ttl_secs key_prefix =
     bind_io connect (\<lambda>_. ret \<lparr>rs_ttl_secs = ttl_secs, rs_key_prefix = (case key_prefix of Some p \<Rightarrow> p | None \<Rightarrow> ''memobuild'')\<rparr>)"

definition blob_key :: "redis_cache \<Rightarrow> string \<Rightarrow> string" where
  "blob_key c hash = rs_key_prefix c @ '':cache:'' @ hash"

definition layer_key :: "redis_cache \<Rightarrow> string \<Rightarrow> string" where
  "layer_key c hash = rs_key_prefix c @ '':layer:'' @ hash"

definition node_layers_key :: "redis_cache \<Rightarrow> string \<Rightarrow> string" where
  "node_layers_key c hash = rs_key_prefix c @ '':node:'' @ hash @ '':layers''"

definition redis_set :: "'c redis_api \<Rightarrow> redis_cache \<Rightarrow> string \<Rightarrow> bytes \<Rightarrow> ('c, unit) io" where
  "redis_set R c key d = (if rs_ttl_secs c > 0 then rd_set R key d (Some (sint (rs_ttl_secs c))) else rd_set R key d None)"

definition redis_has :: "'c redis_api \<Rightarrow> redis_cache \<Rightarrow> string \<Rightarrow> ('c, bool) io" where
  "redis_has R c hash = rd_exists R (blob_key c hash)"

definition redis_get :: "'c redis_api \<Rightarrow> redis_cache \<Rightarrow> string \<Rightarrow> ('c, bytes option) io" where
  "redis_get R c hash = rd_get R (blob_key c hash)"

definition redis_put :: "'c redis_api \<Rightarrow> redis_cache \<Rightarrow> string \<Rightarrow> bytes \<Rightarrow> ('c, unit) io" where
  "redis_put R c hash d = redis_set R c (blob_key c hash) d"

definition redis_has_layer :: "'c redis_api \<Rightarrow> redis_cache \<Rightarrow> string \<Rightarrow> ('c, bool) io" where
  "redis_has_layer R c hash = rd_exists R (layer_key c hash)"

definition redis_get_layer :: "'c redis_api \<Rightarrow> redis_cache \<Rightarrow> string \<Rightarrow> ('c, bytes option) io" where
  "redis_get_layer R c hash = rd_get R (layer_key c hash)"

definition redis_put_layer :: "'c redis_api \<Rightarrow> redis_cache \<Rightarrow> string \<Rightarrow> bytes \<Rightarrow> ('c, unit) io" where
  "redis_put_layer R c hash d = redis_set R c (layer_key c hash) d"

definition redis_get_node_layers :: "'c redis_api \<Rightarrow> redis_json \<Rightarrow> redis_cache \<Rightarrow> string \<Rightarrow> ('c, string list option) io" where
  "redis_get_node_layers R Z c hash =
     bind_io (rd_get R (node_layers_key c hash)) (\<lambda>v.
     case v of
       None \<Rightarrow> ret None
     | Some d \<Rightarrow>
         if utf8_ok d
         then (case rz_parse Z (bytes_text d) of Some layers \<Rightarrow> ret (Some layers) | None \<Rightarrow> bail ''serde_json'')
         else bail ''Parse Error'')"

definition redis_register_node_layers :: "'c redis_api \<Rightarrow> redis_json \<Rightarrow> redis_cache \<Rightarrow> string \<Rightarrow> string list \<Rightarrow> u64 \<Rightarrow> ('c, unit) io" where
  "redis_register_node_layers R Z c hash layers total_size =
     (case rz_print Z layers of
        None \<Rightarrow> bail ''serde_json''
      | Some j \<Rightarrow> redis_set R c (node_layers_key c hash) (as_bytes j))"

definition redis_remote_cache :: "'c redis_api \<Rightarrow> redis_json \<Rightarrow> redis_cache \<Rightarrow> 'c remote_cache" where
  "redis_remote_cache R Z c =
     \<lparr>rc_has = redis_has R c, rc_get = redis_get R c, rc_put = redis_put R c, rc_has_layer = redis_has_layer R c,
      rc_get_layer = redis_get_layer R c, rc_put_layer = redis_put_layer R c,
      rc_get_node_layers = redis_get_node_layers R Z c, rc_register_node_layers = redis_register_node_layers R Z c,
      rc_report_build_event = (\<lambda>e. ret ()), rc_report_dag = (\<lambda>g. ret ()), rc_report_analytics = (\<lambda>d h t. ret ())\<rparr>"

text \<open>A failed notification is only logged.\<close>

definition publish_evict :: "'c redis_api \<Rightarrow> redis_cache \<Rightarrow> string \<Rightarrow> ('c, unit) io" where
  "publish_evict R c hash = ignore_io (rd_publish R (rs_key_prefix c @ '':evict'') hash)"

definition redis_evict :: "'c redis_api \<Rightarrow> redis_cache \<Rightarrow> string \<Rightarrow> ('c, unit) io" where
  "redis_evict R c hash =
     bind_io (rd_del R [blob_key c hash]) (\<lambda>_.
     bind_io (rd_del R [layer_key c hash]) (\<lambda>_.
     bind_io (rd_del R [node_layers_key c hash]) (\<lambda>_. publish_evict R c hash)))"

definition redis_flush :: "'c redis_api \<Rightarrow> redis_cache \<Rightarrow> ('c, unit) io" where
  "redis_flush R c =
     bind_io (rd_scan R (rs_key_prefix c @ '':*'')) (\<lambda>pages.
     if concat pages = [] then ret () else rd_del R (concat pages))"

section \<open>What the server does\<close>

definition redis_behaves :: "'c redis_api \<Rightarrow> ('c \<Rightarrow> string \<Rightarrow> bytes option) \<Rightarrow> bool" where
  "redis_behaves R kv \<longleftrightarrow>
     (\<forall>k s r s'. rd_exists R k s = (r, s') \<longrightarrow> kv s' = kv s \<and> (\<forall>b. r = Inr b \<longrightarrow> b = (kv s k \<noteq> None)))
   \<and> (\<forall>k s r s'. rd_get R k s = (r, s') \<longrightarrow> kv s' = kv s \<and> (\<forall>v. r = Inr v \<longrightarrow> v = kv s k))
   \<and> (\<forall>k d s s'. rd_set R k d None s = (Inr (), s') \<longrightarrow> kv s' = (kv s)(k \<mapsto> d))
   \<and> (\<forall>ks s s'. rd_del R ks s = (Inr (), s') \<longrightarrow> kv s' = kv s |` (- set ks))
   \<and> (\<forall>ch m s. kv (snd (rd_publish R ch m s)) = kv s)"

definition redis_json_ok :: "redis_json \<Rightarrow> bool" where
  "redis_json_ok Z \<longleftrightarrow> (\<forall>ls j. rz_print Z ls = Some j \<longrightarrow> utf8_ok (as_bytes j) \<and> rz_parse Z j = Some ls)"

definition redis_nodes :: "redis_json \<Rightarrow> redis_cache \<Rightarrow> (string \<Rightarrow> bytes option) \<Rightarrow> string \<Rightarrow> string list option" where
  "redis_nodes Z c m h = Option.bind (m (node_layers_key c h)) (\<lambda>d. if utf8_ok d then rz_parse Z (bytes_text d) else None)"

lemma exists_reads: "redis_behaves R kv \<Longrightarrow> rd_exists R k s = (r, s') \<Longrightarrow> kv s' = kv s \<and> (\<forall>b. r = Inr b \<longrightarrow> b = (kv s k \<noteq> None))"
  unfolding redis_behaves_def by (elim conjE) blast

lemma get_reads: "redis_behaves R kv \<Longrightarrow> rd_get R k s = (r, s') \<Longrightarrow> kv s' = kv s \<and> (\<forall>v. r = Inr v \<longrightarrow> v = kv s k)"
  unfolding redis_behaves_def by (elim conjE) blast

lemma set_writes: "redis_behaves R kv \<Longrightarrow> rd_set R k d None s = (Inr (), s') \<Longrightarrow> kv s' = (kv s)(k \<mapsto> d)"
  unfolding redis_behaves_def by (elim conjE) blast

lemma del_deletes:
  assumes "redis_behaves R kv" and "rd_del R ks s = (Inr (), s')"
  shows "kv s' = kv s |` (- set ks)"
proof -
  have "\<forall>ks s s'. rd_del R ks s = (Inr (), s') \<longrightarrow> kv s' = kv s |` (- set ks)"
    using assms(1) unfolding redis_behaves_def by (elim conjE)
  with assms(2) show ?thesis by metis
qed

lemma publish_keeps: "redis_behaves R kv \<Longrightarrow> kv (snd (rd_publish R ch m s)) = kv s"
  unfolding redis_behaves_def by (elim conjE) blast

lemma keys_apart:
  "layer_key c h \<noteq> node_layers_key c h'" "layer_key c h \<noteq> blob_key c h'" "node_layers_key c h \<noteq> blob_key c h'"
  by (simp_all add: layer_key_def node_layers_key_def blob_key_def)

lemma keys_inj:
  "layer_key c h = layer_key c h' \<longleftrightarrow> h = h'" "node_layers_key c h = node_layers_key c h' \<longleftrightarrow> h = h'"
  "blob_key c h = blob_key c h' \<longleftrightarrow> h = h'"
  by (simp_all add: layer_key_def node_layers_key_def blob_key_def)

text \<open>What the contract is about: a server that behaves as one map, without a time to live.\<close>

definition redis_steady :: "'c redis_api \<Rightarrow> redis_json \<Rightarrow> redis_cache \<Rightarrow> ('c \<Rightarrow> string \<Rightarrow> bytes option) \<Rightarrow> bool" where
  "redis_steady R Z c kv \<longleftrightarrow> redis_behaves R kv \<and> redis_json_ok Z \<and> rs_ttl_secs c = 0"

lemma steady_set: "redis_steady R Z c kv \<Longrightarrow> redis_set R c k d s = (Inr (), s') \<Longrightarrow> kv s' = (kv s)(k \<mapsto> d)"
  using set_writes [of R kv k d s s'] by (simp add: redis_steady_def redis_set_def)

lemma nodes_after_set: "redis_nodes Z c (m(layer_key c h \<mapsto> d)) = redis_nodes Z c m"
  by (simp add: redis_nodes_def fun_eq_iff keys_apart not_sym [OF keys_apart(1)])

lemma register_steady:
  assumes "redis_steady R Z c kv" and "redis_register_node_layers R Z c h ls n s = (Inr (), s')"
  shows "\<exists>j. rz_parse Z j = Some ls \<and> utf8_ok (as_bytes j) \<and> kv s' = (kv s)(node_layers_key c h \<mapsto> as_bytes j)"
proof -
  obtain j where j: "rz_print Z ls = Some j" using assms(2) by (auto simp: redis_register_node_layers_def split: option.splits)
  then have "kv s' = (kv s)(node_layers_key c h \<mapsto> as_bytes j)"
    using assms steady_set by (auto simp: redis_register_node_layers_def)
  moreover have "utf8_ok (as_bytes j) \<and> rz_parse Z j = Some ls"
    using assms(1) j unfolding redis_steady_def redis_json_ok_def by blast
  ultimately show ?thesis by blast
qed

lemma node_layers_read:
  assumes "redis_steady R Z c kv" and "redis_get_node_layers R Z c h s = (r, s')"
  shows "kv s' = kv s \<and> (\<forall>v. r = Inr v \<longrightarrow> v = redis_nodes Z c (kv s) h)"
proof -
  obtain r1 s1 where g: "rd_get R (node_layers_key c h) s = (r1, s1)" by (rule prod.exhaust)
  have k: "kv s1 = kv s" "\<And>v. r1 = Inr v \<Longrightarrow> v = kv s (node_layers_key c h)"
    using get_reads [OF _ g] assms(1) by (auto simp: redis_steady_def)
  show ?thesis
  proof (cases r1)
    case (Inl e)
    then show ?thesis using assms(2) g k(1) by (auto simp: redis_get_node_layers_def)
  next
    case (Inr v)
    then have "v = kv s (node_layers_key c h)" by (rule k(2))
    with Inr show ?thesis using assms(2) g k(1)
      by (auto simp: redis_get_node_layers_def redis_nodes_def split: option.splits if_splits)
  qed
qed

interpretation redis: remote_cache_laws "redis_remote_cache R Z c" "\<lambda>s. redis_steady R Z c kv"
  "\<lambda>s h. kv s (layer_key c h)" "\<lambda>s. redis_nodes Z c (kv s)" "\<lambda>s h. kv s (blob_key c h)" "\<lambda>h. True"
  for R :: "'c redis_api" and Z c kv
proof unfold_locales
  fix s s' :: 'c and h :: string
  assume st: "redis_steady R Z c kv"
  then have b: "redis_behaves R kv" by (simp add: redis_steady_def)
  have frame: "redis_steady R Z c kv \<and> (\<lambda>h. kv s' (layer_key c h)) = (\<lambda>h. kv s (layer_key c h))
      \<and> redis_nodes Z c (kv s') = redis_nodes Z c (kv s) \<and> (\<lambda>h. kv s' (blob_key c h)) = (\<lambda>h. kv s (blob_key c h))"
    if "kv s' = kv s" using st that by simp
  { fix r assume "rc_has_layer (redis_remote_cache R Z c) h s = (r, s')"
    then have "rd_exists R (layer_key c h) s = (r, s')" by (simp add: redis_remote_cache_def redis_has_layer_def)
    from exists_reads [OF b this] show "redis_steady R Z c kv \<and> (\<lambda>h. kv s' (layer_key c h)) = (\<lambda>h. kv s (layer_key c h))
      \<and> redis_nodes Z c (kv s') = redis_nodes Z c (kv s) \<and> (\<lambda>h. kv s' (blob_key c h)) = (\<lambda>h. kv s (blob_key c h))"
      by (rule frame [OF conjunct1]) }
  { assume "rc_has_layer (redis_remote_cache R Z c) h s = (Inr True, s')"
    then have "rd_exists R (layer_key c h) s = (Inr True, s')" by (simp add: redis_remote_cache_def redis_has_layer_def)
    from exists_reads [OF b this] show "kv s (layer_key c h) \<noteq> None" by blast }
  { fix r assume "rc_get_layer (redis_remote_cache R Z c) h s = (r, s')"
    then have "rd_get R (layer_key c h) s = (r, s')" by (simp add: redis_remote_cache_def redis_get_layer_def)
    from get_reads [OF b this] show "redis_steady R Z c kv \<and> (\<lambda>h. kv s' (layer_key c h)) = (\<lambda>h. kv s (layer_key c h))
      \<and> redis_nodes Z c (kv s') = redis_nodes Z c (kv s) \<and> (\<lambda>h. kv s' (blob_key c h)) = (\<lambda>h. kv s (blob_key c h))"
      by (rule frame [OF conjunct1]) }
  { fix v assume "rc_get_layer (redis_remote_cache R Z c) h s = (Inr v, s')"
    then have "rd_get R (layer_key c h) s = (Inr v, s')" by (simp add: redis_remote_cache_def redis_get_layer_def)
    from get_reads [OF b this] show "v = kv s (layer_key c h)" by blast }
  { fix d assume "rc_put_layer (redis_remote_cache R Z c) h d s = (Inr (), s')"
    then have "kv s' = (kv s)(layer_key c h \<mapsto> d)"
      using steady_set [OF st] by (simp add: redis_remote_cache_def redis_put_layer_def)
    then have "redis_nodes Z c (kv s') = redis_nodes Z c (kv s)" "(\<lambda>h. kv s' (layer_key c h)) = (\<lambda>h. kv s (layer_key c h))(h \<mapsto> d)"
      by (simp only: nodes_after_set, simp add: fun_eq_iff keys_inj)
    then show "redis_steady R Z c kv \<and> redis_nodes Z c (kv s') = redis_nodes Z c (kv s)
      \<and> ((\<lambda>h. kv s' (layer_key c h)) = (\<lambda>h. kv s (layer_key c h))(h \<mapsto> d)
         \<or> kv s (layer_key c h) \<noteq> None \<and> (\<lambda>h. kv s' (layer_key c h)) = (\<lambda>h. kv s (layer_key c h)))"
      using st by simp }
  { fix r assume "rc_get_node_layers (redis_remote_cache R Z c) h s = (r, s')"
    then have "kv s' = kv s" using node_layers_read [OF st] by (simp add: redis_remote_cache_def)
    then show "redis_steady R Z c kv \<and> (\<lambda>h. kv s' (layer_key c h)) = (\<lambda>h. kv s (layer_key c h))
      \<and> redis_nodes Z c (kv s') = redis_nodes Z c (kv s) \<and> (\<lambda>h. kv s' (blob_key c h)) = (\<lambda>h. kv s (blob_key c h))"
      by (rule frame) }
  { fix v assume "rc_get_node_layers (redis_remote_cache R Z c) h s = (Inr v, s')"
    then show "v = redis_nodes Z c (kv s) h" using node_layers_read [OF st] by (simp add: redis_remote_cache_def) }
  { fix ls n assume "rc_register_node_layers (redis_remote_cache R Z c) h ls n s = (Inr (), s')"
    then obtain j where j: "rz_parse Z j = Some ls" "utf8_ok (as_bytes j)" "kv s' = (kv s)(node_layers_key c h \<mapsto> as_bytes j)"
      using register_steady [OF st, of h ls n s s'] by (auto simp: redis_remote_cache_def)
    then have "redis_nodes Z c (kv s') = (redis_nodes Z c (kv s))(h \<mapsto> ls)"
      by (auto simp: redis_nodes_def fun_eq_iff keys_inj)
    then show "redis_steady R Z c kv \<and> (\<lambda>h. kv s' (layer_key c h)) = (\<lambda>h. kv s (layer_key c h))
      \<and> redis_nodes Z c (kv s') = (redis_nodes Z c (kv s))(h \<mapsto> ls)"
      using st j(3) by (simp add: keys_apart) }
  { fix r assume "rc_get (redis_remote_cache R Z c) h s = (r, s')"
    then have "rd_get R (blob_key c h) s = (r, s')" by (simp add: redis_remote_cache_def redis_get_def)
    from get_reads [OF b this] show "redis_steady R Z c kv \<and> (\<lambda>h. kv s' (layer_key c h)) = (\<lambda>h. kv s (layer_key c h))
      \<and> redis_nodes Z c (kv s') = redis_nodes Z c (kv s) \<and> (\<lambda>h. kv s' (blob_key c h)) = (\<lambda>h. kv s (blob_key c h))"
      by (rule frame [OF conjunct1]) }
  { fix v assume "rc_get (redis_remote_cache R Z c) h s = (Inr v, s')"
    then have "rd_get R (blob_key c h) s = (Inr v, s')" by (simp add: redis_remote_cache_def redis_get_def)
    from get_reads [OF b this] show "v = kv s (blob_key c h)" by blast }
qed

section \<open>Properties\<close>


text \<open>Flushing a namespace deletes what the scan finds, the keys of longer namespaces with the same beginning included.\<close>

lemma flush_reaches_other_namespace:
  "rs_key_prefix c' = rs_key_prefix c @ '':'' @ x \<Longrightarrow> prefix (rs_key_prefix c @ '':'') (blob_key c' h)"
  by (simp add: blob_key_def)

section \<open>Witness\<close>

definition toy_redis :: "(string, bytes) hashmap redis_api" where
  "toy_redis = \<lparr>rd_exists = (\<lambda>k s. (Inr (map_of s k \<noteq> None), s)), rd_get = (\<lambda>k s. (Inr (map_of s k), s)),
     rd_set = (\<lambda>k d ex s. (Inr (), AList.update k d s)), rd_del = (\<lambda>ks s. (Inr (), AList.restrict (- set ks) s)),
     rd_publish = (\<lambda>ch m s. (Inr (), s)), rd_scan = (\<lambda>p s. (Inr [map fst s], s))\<rparr>"

lemma toy_redis_behaves: "redis_behaves toy_redis map_of"
  by (simp add: redis_behaves_def toy_redis_def update_conv' restr_conv')

definition toy_redis_json :: redis_json where
  "toy_redis_json = \<lparr>rz_print = (\<lambda>ls. Some (encode_str ls)), rz_parse = (\<lambda>t. Some (decode_str t))\<rparr>"

lemma utf8_ones: "utf8_ok (as_bytes (replicate n CHR ''1''))"
  by (induction n) (simp_all add: as_bytes_def)

lemma toy_redis_json_ok: "redis_json_ok toy_redis_json"
  by (simp add: redis_json_ok_def toy_redis_json_def encode_str_def utf8_ones) (simp add: decode_str_def)

definition toy_redis_cache :: redis_cache where
  "toy_redis_cache = \<lparr>rs_ttl_secs = 0, rs_key_prefix = ''m''\<rparr>"

lemma toy_redis_steady: "redis_steady toy_redis toy_redis_json toy_redis_cache map_of"
  using toy_redis_behaves toy_redis_json_ok by (simp add: redis_steady_def toy_redis_cache_def)

definition toy_redis_machine :: "(string, bytes) hashmap hybrid" where
  "toy_redis_machine = \<lparr>hy_local = demo_cache, hy_remote = []\<rparr>"

lemma toy_chunks: "chunks CHUNK_SIZE [7 :: 8 word] = [[7]]"
  using chunks_step [of "[7 :: 8 word]" CHUNK_SIZE] by (simp add: CHUNK_SIZE_def)


end
