(* ===== verification/Cluster_Server.thy ===== *)
theory Cluster_Server
  imports Cluster Scaling Http
begin

text \<open>
  \<open>src/src/cluster_server.rs\<close>: the routes of the clustered cache server over the distributed cache, the cluster and the
  autoscaler, and \<open>start_cluster_server\<close> of \<open>src/src/main.rs\<close>, which sets them up. The routes of the cache take the
  requests of the HTTP client, so that the client of \<open>Http\<close> can be run against them; the command gives the server such a
  client of itself as its local cache. The extractors of \<open>axum\<close> have decoded the request by then.
\<close>

section \<open>Cache routes\<close>

definition answer_present :: "('s, bool) io \<Rightarrow> 's \<Rightarrow> response \<times> 's" where
  "answer_present m s =
     (case m s of
        (Inr True, s') \<Rightarrow> ((OK, Empty), s')
      | (Inr False, s') \<Rightarrow> ((NOT_FOUND, Empty), s')
      | (Inl _, s') \<Rightarrow> ((INTERNAL_SERVER_ERROR, Empty), s'))"

definition answer_blob :: "('s, bytes option) io \<Rightarrow> 's \<Rightarrow> response \<times> 's" where
  "answer_blob m s =
     (case m s of
        (Inr (Some d), s') \<Rightarrow> ((OK, Blob d), s')
      | (Inr None, s') \<Rightarrow> ((NOT_FOUND, Empty), s')
      | (Inl _, s') \<Rightarrow> ((INTERNAL_SERVER_ERROR, Empty), s'))"

definition answer_done :: "status \<Rightarrow> ('s, unit) io \<Rightarrow> 's \<Rightarrow> response \<times> 's" where
  "answer_done c m s = (case m s of (Inr _, s') \<Rightarrow> ((c, Empty), s') | (Inl _, s') \<Rightarrow> ((INTERNAL_SERVER_ERROR, Empty), s'))"

definition cs_check_cache :: "'s remote_cache \<Rightarrow> string \<Rightarrow> 's \<Rightarrow> response \<times> 's" where
  "cs_check_cache rc hash = answer_present (rc_has rc hash)"

definition cs_get_artifact :: "'s remote_cache \<Rightarrow> string \<Rightarrow> 's \<Rightarrow> response \<times> 's" where
  "cs_get_artifact rc hash = answer_blob (rc_get rc hash)"

definition cs_put_artifact :: "'s remote_cache \<Rightarrow> string \<Rightarrow> bytes \<Rightarrow> 's \<Rightarrow> response \<times> 's" where
  "cs_put_artifact rc hash d = answer_done CREATED (rc_put rc hash d)"

definition cs_check_layer :: "'s remote_cache \<Rightarrow> string \<Rightarrow> 's \<Rightarrow> response \<times> 's" where
  "cs_check_layer rc hash = answer_present (rc_has_layer rc hash)"

definition cs_get_layer :: "'s remote_cache \<Rightarrow> string \<Rightarrow> 's \<Rightarrow> response \<times> 's" where
  "cs_get_layer rc hash = answer_blob (rc_get_layer rc hash)"

definition cs_put_layer :: "'s remote_cache \<Rightarrow> string \<Rightarrow> bytes \<Rightarrow> 's \<Rightarrow> response \<times> 's" where
  "cs_put_layer rc hash d = answer_done CREATED (rc_put_layer rc hash d)"

definition cs_get_node_layers :: "'s remote_cache \<Rightarrow> string \<Rightarrow> 's \<Rightarrow> response \<times> 's" where
  "cs_get_node_layers rc hash s =
     (case rc_get_node_layers rc hash s of
        (Inr layers, s') \<Rightarrow> ((OK, Layers layers), s')
      | (Inl _, s') \<Rightarrow> ((INTERNAL_SERVER_ERROR, Empty), s'))"

definition cs_register_node_layers :: "'s remote_cache \<Rightarrow> string \<Rightarrow> string list \<Rightarrow> u64 \<Rightarrow> 's \<Rightarrow> response \<times> 's" where
  "cs_register_node_layers rc hash layers total_size = answer_done OK (rc_register_node_layers rc hash layers total_size)"

text \<open>The other routes of the ordinary server do not exist here.\<close>

definition cache_route :: "'s remote_cache \<Rightarrow> request \<Rightarrow> 's \<Rightarrow> response \<times> 's" where
  "cache_route rc req =
     (case req of
        Head_cache h \<Rightarrow> cs_check_cache rc h
      | Get_cache h \<Rightarrow> cs_get_artifact rc h
      | Put_cache h d \<Rightarrow> cs_put_artifact rc h d
      | Head_layer h \<Rightarrow> cs_check_layer rc h
      | Get_layer h \<Rightarrow> cs_get_layer rc h
      | Put_layer h d \<Rightarrow> cs_put_layer rc h d
      | Get_node_layers h \<Rightarrow> cs_get_node_layers rc h
      | Post_node_layers h ls n \<Rightarrow> cs_register_node_layers rc h ls n
      | _ \<Rightarrow> (\<lambda>s. ((NOT_FOUND, Empty), s)))"

section \<open>The server\<close>

record ('r, 'k) cluster_app =
  ca_cluster :: cache_cluster
  ca_cache :: "'r distributed"
  ca_scaler :: "'k auto_scaler"

record ('r, 'k) cluster_env =
  ce_local :: "'r remote_cache"
  ce_clients :: "string \<Rightarrow> 'r remote_cache"
  ce_hash :: "string \<Rightarrow> u64"
  ce_now :: int
  ce_patch :: "u32 \<Rightarrow> ('k, unit) io"
  ce_fmt :: "nat \<Rightarrow> real \<Rightarrow> string"

record add_node_request =
  an_id :: string
  an_address :: string
  an_weight :: "u32 option"
  an_region :: "string option"

datatype cluster_request =
    Cache_request request
  | Cluster_status
  | Add_node add_node_request
  | Remove_node string
  | Scaling_status
  | Post_metrics scaling_metrics
  | Predict "u64 option"
  | Health

datatype cluster_reply =
    Cache_reply response
  | Status_reply cluster_status
  | Said string
  | Scaling_reply scaling_status
  | Prediction_reply resource_prediction
  | Failed_reply status

definition dist_env_of :: "('r, 'k) cluster_env \<Rightarrow> cache_cluster \<Rightarrow> 'r dist_env" where
  "dist_env_of V c = \<lparr>de_local = ce_local V, de_clients = ce_clients V, de_cluster = c, de_hash = ce_hash V\<rparr>"

definition serve_cache :: "('r, 'k) cluster_env \<Rightarrow> request \<Rightarrow> ('r, 'k) cluster_app \<Rightarrow> response \<times> ('r, 'k) cluster_app" where
  "serve_cache V req s =
     (case cache_route (distributed_cache (dist_env_of V (ca_cluster s))) req (ca_cache s) of
        (r, c) \<Rightarrow> (r, s\<lparr>ca_cache := c\<rparr>))"

definition cs_get_cluster_status :: "('r, 'k) cluster_app \<Rightarrow> cluster_reply" where
  "cs_get_cluster_status s = Status_reply (get_cluster_status (ca_cluster s))"

definition cs_add_cluster_node :: "('r, 'k) cluster_env \<Rightarrow> add_node_request \<Rightarrow> ('r, 'k) cluster_app \<Rightarrow> ('r, 'k) cluster_app" where
  "cs_add_cluster_node V req s =
     s\<lparr>ca_cluster := cluster_add_node (ce_hash V) (ce_now V)
        \<lparr>cn_id = an_id req, cn_address = an_address req,
         cn_weight = (case an_weight req of Some w \<Rightarrow> w | None \<Rightarrow> 100), cn_region = an_region req\<rparr> (ca_cluster s)\<rparr>"

definition cs_remove_cluster_node :: "string \<Rightarrow> ('r, 'k) cluster_app \<Rightarrow> ('r, 'k) cluster_app" where
  "cs_remove_cluster_node nid s = s\<lparr>ca_cluster := cluster_remove_node nid (ca_cluster s)\<rparr>"

definition map_outcome :: "('a \<Rightarrow> 'b) \<Rightarrow> 'a outcome \<Rightarrow> 'b outcome" where
  "map_outcome f r = (case r of Returns x \<Rightarrow> Returns (f x) | Panics \<Rightarrow> Panics | Blocks \<Rightarrow> Blocks)"

definition cs_get_scaling_status :: "('r, 'k) cluster_app \<Rightarrow> cluster_reply outcome" where
  "cs_get_scaling_status s = map_outcome Scaling_reply (get_scaling_status (ca_scaler s))"

definition cs_record_scaling_metrics ::
    "('r, 'k) cluster_env \<Rightarrow> scaling_metrics \<Rightarrow> ('r, 'k) cluster_app \<Rightarrow> cluster_reply outcome \<times> ('r, 'k) cluster_app" where
  "cs_record_scaling_metrics V m s =
     (case record_metrics (ce_patch V) (ce_now V) m (ca_scaler s) of
        (out, sc) \<Rightarrow>
          (map_outcome (\<lambda>r. case r of Inr _ \<Rightarrow> Said ''metrics_recorded'' | Inl _ \<Rightarrow> Failed_reply INTERNAL_SERVER_ERROR) out,
           s\<lparr>ca_scaler := sc\<rparr>))"

definition cs_predict_resources :: "('r, 'k) cluster_env \<Rightarrow> u64 option \<Rightarrow> ('r, 'k) cluster_app \<Rightarrow> cluster_reply outcome" where
  "cs_predict_resources V window s =
     map_outcome Prediction_reply
       (predict_resource_needs (ce_fmt V) (case window of Some w \<Rightarrow> w | None \<Rightarrow> 3600) (ca_scaler s))"

definition cluster_route ::
    "('r, 'k) cluster_env \<Rightarrow> cluster_request \<Rightarrow> ('r, 'k) cluster_app \<Rightarrow> cluster_reply outcome \<times> ('r, 'k) cluster_app" where
  "cluster_route V req s =
     (case req of
        Cache_request q \<Rightarrow> (case serve_cache V q s of (r, s') \<Rightarrow> (Returns (Cache_reply r), s'))
      | Cluster_status \<Rightarrow> (Returns (cs_get_cluster_status s), s)
      | Add_node q \<Rightarrow> (Returns (Said ''node_added''), cs_add_cluster_node V q s)
      | Remove_node nid \<Rightarrow> (Returns (Said ''node_removed''), cs_remove_cluster_node nid s)
      | Scaling_status \<Rightarrow> (cs_get_scaling_status s, s)
      | Post_metrics m \<Rightarrow> cs_record_scaling_metrics V m s
      | Predict w \<Rightarrow> (cs_predict_resources V w s, s)
      | Health \<Rightarrow> (Returns (Said ''healthy''), s))"

section \<open>Starting a cluster server\<close>

text \<open>\<open>str::replace\<close> with a non-empty pattern.\<close>

function str_replace :: "string \<Rightarrow> string \<Rightarrow> string \<Rightarrow> string" where
  "str_replace p r s =
     (if s = [] then []
      else if p \<noteq> [] \<and> prefix p s then r @ str_replace p r (drop (length p) s)
      else hd s # str_replace p r (tl s))"
  by pat_completeness auto
termination
  by (relation "measure (\<lambda>(p, r, s). length s)") (auto simp: prefix_def)

declare str_replace.simps [simp del]

definition peer_node :: "string \<Rightarrow> cluster_node" where
  "peer_node peer_addr =
     \<lparr>cn_id = ''peer-'' @ str_replace '':'' ''-'' (str_replace ''http://'' [] peer_addr), cn_address = peer_addr,
      cn_weight = 100, cn_region = Some ''peer''\<rparr>"

definition add_peers :: "(string \<Rightarrow> u64) \<Rightarrow> int \<Rightarrow> string \<Rightarrow> cache_cluster \<Rightarrow> cache_cluster" where
  "add_peers hash now peers_str c =
     fold (\<lambda>peer c. let a = trim peer in if a = [] then c else cluster_add_node hash now (peer_node a) c) (split_on CHR '','' peers_str) c"

definition start_policy :: scaling_policy where
  "start_policy = \<lparr>min_replicas = 1, max_replicas = 10, target_utilization_percent = 70, scale_up_threshold = 8 / 10,
     scale_down_threshold = 3 / 10, stabilization_window_secs = 300, cooldown_period_secs = 60\<rparr>"

definition start_scaler :: "(string \<Rightarrow> string option) \<Rightarrow> 'k result \<Rightarrow> int \<Rightarrow> 'k auto_scaler" where
  "start_scaler var try_default now =
     (case with_kubernetes var try_default (scaler_new now start_policy) of
        Inr scaler \<Rightarrow> scaler
      | Inl _ \<Rightarrow> scaler_new now start_policy)"

definition start_cluster_app ::
    "(string \<Rightarrow> u64) \<Rightarrow> (string \<Rightarrow> string option) \<Rightarrow> 'k result \<Rightarrow> int \<Rightarrow> nat \<Rightarrow> string option \<Rightarrow> string option \<Rightarrow> 'r \<Rightarrow> ('r, 'k) cluster_app" where
  "start_cluster_app hash var try_default now port nid peers local_cache =
     (let id = (case nid of Some n \<Rightarrow> n | None \<Rightarrow> ''node-'' @ show_nat port);
          node = \<lparr>cn_id = id, cn_address = ''http://localhost:'' @ show_nat port, cn_weight = 100, cn_region = Some ''local''\<rparr>;
          c0 = new_cluster hash node 2;
          c = (case peers of Some p \<Rightarrow> add_peers hash now p c0 | None \<Rightarrow> c0)
      in \<lparr>ca_cluster = c, ca_cache = \<lparr>dc_local = local_cache, dc_clients = []\<rparr>, ca_scaler = start_scaler var try_default now\<rparr>)"

text \<open>The local cache of the started server is an HTTP client of the server itself. A request nests requests of the same
  server; \<open>loop_cache n\<close> is the client when \<open>n\<close> of them can be open at a time and the next one is refused. The server
  keeps no data of its own, so its state is none.\<close>

definition refused_cache :: "unit net remote_cache" where
  "refused_cache =
     \<lparr>rc_has = (\<lambda>h. bail ''connection refused''), rc_get = (\<lambda>h. bail ''connection refused''), rc_put = (\<lambda>h d. bail ''connection refused''),
      rc_has_layer = (\<lambda>h. bail ''connection refused''), rc_get_layer = (\<lambda>h. bail ''connection refused''),
      rc_put_layer = (\<lambda>h d. bail ''connection refused''), rc_get_node_layers = (\<lambda>h. bail ''connection refused''),
      rc_register_node_layers = (\<lambda>h ls n. bail ''connection refused''), rc_report_build_event = (\<lambda>e. bail ''connection refused''),
      rc_report_dag = (\<lambda>g. bail ''connection refused''), rc_report_analytics = (\<lambda>a b c. bail ''connection refused'')\<rparr>"

definition self_state :: "unit net distributed" where
  "self_state = \<lparr>dc_local = \<lparr>srv = (), wire = []\<rparr>, dc_clients = []\<rparr>"

definition self_serve :: "(string \<Rightarrow> u64) \<Rightarrow> cache_cluster \<Rightarrow> unit net remote_cache \<Rightarrow> request \<Rightarrow> unit \<Rightarrow> response \<times> unit" where
  "self_serve hash c rc req u =
     (fst (cache_route (distributed_cache \<lparr>de_local = rc, de_clients = (\<lambda>i. rc), de_cluster = c, de_hash = hash\<rparr>) req self_state), ())"

fun loop_cache :: "(nat \<Rightarrow> real) \<Rightarrow> codec \<Rightarrow> (string \<Rightarrow> u64) \<Rightarrow> cache_cluster \<Rightarrow> nat \<Rightarrow> unit net remote_cache" where
  "loop_cache rnd z hash c 0 = refused_cache"
| "loop_cache rnd z hash c (Suc n) = http_remote_cache rnd z (self_serve hash c (loop_cache rnd z hash c n))"

section \<open>Lemmas\<close>

text \<open>A distributed cache without clients only talks to its local cache.\<close>

lemma on_client_none: "dc_clients s = [] \<Longrightarrow> on_client i m s = (Inr None, s)"
  by (simp add: on_client_def)

lemma on_dc_local_clients: "dc_clients (snd (on_dc_local m s)) = dc_clients s"
  by (simp add: on_dc_local_def on_part_def split: prod.split)

lemma any_has_alone: "dc_clients s = [] \<Longrightarrow> any_has env q ids s = (Inr False, s)"
  by (induction ids) (simp_all add: on_client_none)

lemma replica_get_alone: "dc_clients s = [] \<Longrightarrow> replica_get env q w key ids s = (Inr None, s)"
  by (induction ids) (simp_all add: on_client_none)

lemma replicate_to_alone: "dc_clients s = [] \<Longrightarrow> replicate_to env w ids s = (Inr (), s)"
  by (induction ids) (simp_all add: on_client_none)

lemma dist_has_alone: "dc_clients s = [] \<Longrightarrow> dist_has env q key s = on_dc_local (q (de_local env)) s"
  using on_dc_local_clients [of "q (de_local env)" s]
  by (auto simp: dist_has_def bind_io_def any_has_alone split: prod.splits sum.splits)

lemma dist_get_alone: "dc_clients s = [] \<Longrightarrow> dist_get env q w key s = on_dc_local (q (de_local env)) s"
  using on_dc_local_clients [of "q (de_local env)" s]
  by (auto simp: dist_get_def bind_io_def on_client_none replica_get_alone split: prod.splits sum.splits option.splits)

lemma dist_put_alone: "dc_clients s = [] \<Longrightarrow> dist_put env w key s = on_dc_local (w (de_local env)) s"
  using on_dc_local_clients [of "w (de_local env)" s]
  by (auto simp: dist_put_def bind_io_def replicate_to_alone split: prod.splits sum.splits)

lemmas alone_simps = dist_has_alone dist_get_alone dist_put_alone

text \<open>A cache that never has anything and takes nothing, on the only state the client can be in.\<close>

definition idle :: "unit net" where
  "idle = \<lparr>srv = (), wire = []\<rparr>"

definition useless :: "unit net remote_cache \<Rightarrow> bool" where
  "useless rc \<longleftrightarrow> (\<forall>h.
       (\<exists>r. rc_has rc h idle = (r, idle) \<and> r \<noteq> Inr True) \<and> (\<exists>r. rc_get rc h idle = (r, idle) \<and> (\<forall>d. r \<noteq> Inr (Some d)))
     \<and> (\<forall>d. \<exists>e. rc_put rc h d idle = (Inl e, idle)) \<and> (\<exists>r. rc_has_layer rc h idle = (r, idle) \<and> r \<noteq> Inr True)
     \<and> (\<exists>r. rc_get_layer rc h idle = (r, idle) \<and> (\<forall>d. r \<noteq> Inr (Some d))) \<and> (\<forall>d. \<exists>e. rc_put_layer rc h d idle = (Inl e, idle))
     \<and> (\<exists>e. rc_get_node_layers rc h idle = (Inl e, idle)) \<and> (\<forall>ls n. \<exists>e. rc_register_node_layers rc h ls n idle = (Inl e, idle)))"

lemma useless_refused: "useless refused_cache"
  by (simp add: useless_def refused_cache_def)

text \<open>What a server over such a cache answers.\<close>

definition answers_nothing :: "(request \<Rightarrow> unit \<Rightarrow> response \<times> unit) \<Rightarrow> bool" where
  "answers_nothing serve \<longleftrightarrow> (\<forall>req. \<not> is_success (fst (fst (serve req ()))) \<and> (\<forall>h. req = Get_node_layers h \<longrightarrow> fst (fst (serve req ())) = INTERNAL_SERVER_ERROR))"

lemma alone_local: "dc_clients s = [] \<Longrightarrow> m (dc_local s) = (r, dc_local s) \<Longrightarrow> on_dc_local m s = (r, s)"
  by (simp add: on_dc_local_def on_part_def)

lemma cache_route_useless:
  assumes "useless rc" and "dc_clients s = []" and "dc_local s = idle" and "de_local env = rc"
  shows "snd (cache_route (distributed_cache env) req s) = s \<and> \<not> is_success (fst (fst (cache_route (distributed_cache env) req s)))
    \<and> (\<forall>h. req = Get_node_layers h \<longrightarrow> fst (fst (cache_route (distributed_cache env) req s)) = INTERNAL_SERVER_ERROR)"
proof -
  have a: "dist_has env q key s = (r, s)" if "q rc idle = (r, idle)" for q key r
    using that alone_local [OF assms(2), of "q rc"] assms(3,4) by (simp add: alone_simps [OF assms(2)])
  have b: "dist_get env q w key s = (r, s)" if "q rc idle = (r, idle)" for q w key r
    using that alone_local [OF assms(2), of "q rc"] assms(3,4) by (simp add: alone_simps [OF assms(2)])
  have c: "dist_put env w key s = (r, s)" if "w rc idle = (r, idle)" for w key r
    using that alone_local [OF assms(2), of "w rc"] assms(3,4) by (simp add: alone_simps [OF assms(2)])
  have d: "on_dc_local m s = (r, s)" if "m idle = (r, idle)" for m :: "(unit net, 'a) io" and r
    using that alone_local [OF assms(2), of m] assms(3) by simp
  note u = assms(1) [unfolded useless_def, rule_format]
  show ?thesis
  proof (cases req)
    case (Head_cache h)
    obtain r where "rc_has rc h idle = (r, idle)" "r \<noteq> Inr True" using u by blast
    with a [of "\<lambda>c. rc_has c h"] Head_cache show ?thesis
      by (auto simp: cache_route_def cs_check_cache_def answer_present_def distributed_cache_def is_success_def split: sum.splits bool.splits)
  next
    case (Get_cache h)
    obtain r where "rc_get rc h idle = (r, idle)" "\<forall>d. r \<noteq> Inr (Some d)" using u by blast
    with b [of "\<lambda>c. rc_get c h"] Get_cache show ?thesis
      by (auto simp: cache_route_def cs_get_artifact_def answer_blob_def distributed_cache_def is_success_def split: sum.splits option.splits)
  next
    case (Put_cache h x)
    obtain e where "rc_put rc h x idle = (Inl e, idle)" using u by blast
    with c [of "\<lambda>c. rc_put c h x"] Put_cache show ?thesis
      by (simp add: cache_route_def cs_put_artifact_def answer_done_def distributed_cache_def is_success_def)
  next
    case (Head_layer h)
    obtain r where "rc_has_layer rc h idle = (r, idle)" "r \<noteq> Inr True" using u by blast
    with a [of "\<lambda>c. rc_has_layer c h"] Head_layer show ?thesis
      by (auto simp: cache_route_def cs_check_layer_def answer_present_def distributed_cache_def is_success_def split: sum.splits bool.splits)
  next
    case (Get_layer h)
    obtain r where "rc_get_layer rc h idle = (r, idle)" "\<forall>d. r \<noteq> Inr (Some d)" using u by blast
    with b [of "\<lambda>c. rc_get_layer c h"] Get_layer show ?thesis
      by (auto simp: cache_route_def cs_get_layer_def answer_blob_def distributed_cache_def is_success_def split: sum.splits option.splits)
  next
    case (Put_layer h x)
    obtain e where "rc_put_layer rc h x idle = (Inl e, idle)" using u by blast
    with c [of "\<lambda>c. rc_put_layer c h x"] Put_layer show ?thesis
      by (simp add: cache_route_def cs_put_layer_def answer_done_def distributed_cache_def is_success_def)
  next
    case (Get_node_layers h)
    obtain e where "rc_get_node_layers rc h idle = (Inl e, idle)" using u by blast
    with d [of "rc_get_node_layers rc h"] Get_node_layers assms(4) show ?thesis
      by (simp add: cache_route_def cs_get_node_layers_def distributed_cache_def is_success_def)
  next
    case (Post_node_layers h ls n)
    obtain e where "rc_register_node_layers rc h ls n idle = (Inl e, idle)" using u by blast
    with d [of "rc_register_node_layers rc h ls n"] Post_node_layers assms(4) show ?thesis
      by (simp add: cache_route_def cs_register_node_layers_def answer_done_def distributed_cache_def is_success_def)
  qed (simp_all add: cache_route_def is_success_def)
qed

lemma send_idle: "send serve req idle = (Inr (fst (serve req ())), idle)"
  by (simp add: send_def idle_def)

text \<open>A client of a server that answers nothing.\<close>

lemma retry_idle:
  assumes "m idle = (r0, idle)" and "retry_with_backoff rnd config m idle = (r, s')"
  shows "s' = idle \<and> (\<forall>v. r = Inr v \<longrightarrow> r0 = Inr v)"
proof -
  have keep: "s2 = idle" if "s1 = idle" "m s1 = (r2, s2)" for s1 r2 s2 using that assms(1) by simp
  have "s' = idle" by (rule retry_inv(1) [where I = "\<lambda>n. n = idle", OF keep refl assms(2)])
  moreover have "r0 = Inr v" if "r = Inr v" for v
    using retry_inv(2) [where I = "\<lambda>n. n = idle", OF keep refl assms(2) that] assms(1) by auto
  ultimately show ?thesis by blast
qed

lemma useless_client:
  assumes "answers_nothing serve"
  shows "useless (http_remote_cache rnd z serve)"
proof -
  have no: "\<not> is_success (fst (fst (serve req ())))" for req using assms by (simp add: answers_nothing_def)
  have err: "fst (fst (serve (Get_node_layers h) ())) = INTERNAL_SERVER_ERROR" for h using assms by (simp add: answers_nothing_def)
  have has: "\<exists>r. http_has rnd serve h idle = (r, idle) \<and> r \<noteq> Inr True" for h
  proof -
    obtain r s' where r: "http_has rnd serve h idle = (r, s')" by (rule prod.exhaust)
    have "bind_io (send serve (Head_cache h)) (\<lambda>(c, b). ret (is_success c)) idle = (Inr False, idle)"
      using no [of "Head_cache h"] by (simp add: send_idle split_def)
    from retry_idle [OF this r [unfolded http_has_def]] r show ?thesis by auto
  qed
  have get: "\<exists>r. http_get rnd z serve h idle = (r, idle) \<and> (\<forall>d. r \<noteq> Inr (Some d))" for h
  proof -
    obtain r s' where r: "http_get rnd z serve h idle = (r, s')" by (rule prod.exhaust)
    obtain r0 where r0: "http_get_once z serve h idle = (r0, idle)" "\<forall>d. r0 \<noteq> Inr (Some d)"
      using no [of "Get_cache h"] that by (cases "fst (fst (serve (Get_cache h) ())) = NOT_FOUND") (simp_all add: http_get_once_def send_idle split_def)
    from retry_idle [OF r0(1) r [unfolded http_get_def]] r r0(2) show ?thesis by auto
  qed
  have put: "\<exists>e. http_put rnd z serve h d idle = (Inl e, idle)" for h d
  proof -
    obtain r where r: "http_has rnd serve h idle = (r, idle)" "r \<noteq> Inr True" using has by blast
    let ?m = "bind_io (send serve (Put_cache h (gzip z d))) (\<lambda>(c, b). if is_success c then ret () else bail (''Failed to upload to remote cache: '' @ show_status c))"
    obtain r1 s1 where m: "retry_with_backoff rnd default_retry ?m idle = (r1, s1)" by (rule prod.exhaust)
    obtain e where "?m idle = (Inl e, idle)"
      using no [of "Put_cache h (gzip z d)"] by (simp add: send_idle split_def)
    from retry_idle [OF this m] obtain e1 where "r1 = Inl e1" "s1 = idle" by (cases r1) auto
    with r m show ?thesis by (cases r) (auto simp: http_put_def)
  qed
  have "\<exists>r. http_has_layer serve h idle = (r, idle) \<and> r \<noteq> Inr True" for h
    using no [of "Head_layer h"] by (simp add: http_has_layer_def send_idle split_def)
  moreover have "\<exists>r. http_get_layer z serve h idle = (r, idle) \<and> (\<forall>d. r \<noteq> Inr (Some d))" for h
    using no [of "Get_layer h"] by (cases "fst (fst (serve (Get_layer h) ())) = NOT_FOUND") (simp_all add: http_get_layer_def send_idle split_def)
  moreover have "\<exists>e. http_put_layer z serve h d idle = (Inl e, idle)" for h d
    using no [of "Put_layer h (gzip z d)"] by (simp add: http_put_layer_def send_idle split_def)
  moreover have "\<exists>e. http_get_node_layers serve h idle = (Inl e, idle)" for h
    using err [of h] by (simp add: http_get_node_layers_def send_idle split_def is_success_def)
  moreover have "\<exists>e. http_register_node_layers serve h ls n idle = (Inl e, idle)" for h ls n
    using no [of "Post_node_layers h ls n"] by (simp add: http_register_node_layers_def send_idle split_def)
  ultimately show ?thesis using has get put by (simp add: useless_def http_remote_cache_def)
qed

lemma useless_loop: "useless (loop_cache rnd z hash c n)"
proof (induction n)
  case (Suc n)
  have "answers_nothing (self_serve hash c (loop_cache rnd z hash c n))"
    using cache_route_useless [OF Suc, of self_state "\<lparr>de_local = loop_cache rnd z hash c n, de_clients = (\<lambda>i. loop_cache rnd z hash c n), de_cluster = c, de_hash = hash\<rparr>"]
    by (simp add: answers_nothing_def self_serve_def self_state_def idle_def)
  then show ?case using useless_client by simp
qed (simp add: useless_refused)

text \<open>What requests keep.\<close>

definition after_requests :: "('r, 'k) cluster_env \<Rightarrow> cluster_request list \<Rightarrow> ('r, 'k) cluster_app \<Rightarrow> ('r, 'k) cluster_app" where
  "after_requests V reqs s = fold (\<lambda>q s. snd (cluster_route V q s)) reqs s"

lemma after_requests_keep:
  assumes "\<And>q s. P s \<Longrightarrow> P (snd (cluster_route V q s))" and "P s"
  shows "P (after_requests V reqs s)"
  using assms(2) by (induction reqs arbitrary: s) (simp_all add: after_requests_def assms(1))

text \<open>The state of the caches of a started server.\<close>

definition unconnected :: "(unit net, 'k) cluster_app \<Rightarrow> bool" where
  "unconnected s \<longleftrightarrow> dc_clients (ca_cache s) = [] \<and> dc_local (ca_cache s) = idle"

lemma serve_cache_useless:
  assumes "useless (ce_local V)" and "unconnected s"
  shows "snd (serve_cache V req s) = s \<and> \<not> is_success (fst (fst (serve_cache V req s)))"
proof -
  obtain r c where "cache_route (distributed_cache (dist_env_of V (ca_cluster s))) req (ca_cache s) = (r, c)" by (rule prod.exhaust)
  with cache_route_useless [OF assms(1), of "ca_cache s" "dist_env_of V (ca_cluster s)" req] assms(2)
  show ?thesis by (simp add: serve_cache_def unconnected_def dist_env_of_def)
qed

lemma unconnected_kept:
  assumes "useless (ce_local V)" and "unconnected s"
  shows "unconnected (snd (cluster_route V q s))"
proof (cases q)
  case (Cache_request req)
  then show ?thesis using serve_cache_useless [OF assms, of req] assms(2) by (simp add: cluster_route_def split_def)
qed (use assms(2) in \<open>auto simp: cluster_route_def unconnected_def cs_add_cluster_node_def cs_remove_cluster_node_def
      cs_record_scaling_metrics_def split: prod.split\<close>)

lemma delete_update_fresh: "k \<notin> fst ` set m \<Longrightarrow> AList.delete k (AList.update k v m) = m"
  by (induction m) auto

section \<open>Properties\<close>

text \<open>C23. A started cluster server serves nothing: its local cache is an HTTP client of the server itself, no other node ever gets
  a client, and however many nested requests can be open before one is refused, and whatever requests came before, no
  request for an artifact, a layer or a layer list succeeds, uploads included.\<close>

theorem started_server_serves_nothing:
  assumes "ce_local V = loop_cache rnd z hash c n"
  shows "\<exists>st b. fst (cluster_route V (Cache_request req)
      (after_requests V reqs (start_cluster_app hash var try_default now port nid peers \<lparr>srv = (), wire = []\<rparr>)))
    = Returns (Cache_reply (st, b)) \<and> \<not> is_success st"
proof -
  have u: "useless (ce_local V)" using assms useless_loop by simp
  let ?s = "after_requests V reqs (start_cluster_app hash var try_default now port nid peers \<lparr>srv = (), wire = []\<rparr>)"
  have "unconnected ?s"
  proof (rule after_requests_keep [where P = unconnected])
    show "unconnected (start_cluster_app hash var try_default now port nid peers \<lparr>srv = (), wire = []\<rparr>)"
      by (simp add: unconnected_def start_cluster_app_def Let_def idle_def)
  qed (rule unconnected_kept [OF u])
  from serve_cache_useless [OF u this] have "\<not> is_success (fst (fst (serve_cache V req ?s)))" by blast
  then show ?thesis
    by (cases "serve_cache V req ?s"; cases "fst (serve_cache V req ?s)") (simp add: cluster_route_def)
qed


text \<open>C33. Membership over HTTP: adding a node that is neither a member nor on the ring and removing it again leaves the server as
  it was, and in between the node is a member and every key keeps its primary or moves to the node.\<close>

theorem node_added_then_removed:
  assumes "ring_ok (cluster_ring (ca_cluster s))" and "an_id q \<notin> snd ` set (ring_nodes (cluster_ring (ca_cluster s)))"
    and "an_id q \<notin> fst ` set (cluster_nodes (ca_cluster s))"
  shows "let s1 = snd (cluster_route V (Add_node q) s) in
     map_of (cluster_nodes (ca_cluster s1)) (an_id q) \<noteq> None
     \<and> get_primary_node (ce_hash V) (ca_cluster s1) key \<in> {get_primary_node (ce_hash V) (ca_cluster s) key, Some (an_id q)}
     \<and> snd (cluster_route V (Remove_node (an_id q)) s1) = s"
proof -
  let ?r = "cluster_ring (ca_cluster s)"
  note ring_remove_add [OF assms(1,2), of "ce_hash V"]
  then have "snd (cluster_route V (Remove_node (an_id q)) (snd (cluster_route V (Add_node q) s))) = s"
    using delete_update_fresh [OF assms(3)]
    by (simp add: cluster_route_def cs_add_cluster_node_def cs_remove_cluster_node_def cluster_add_node_def cluster_remove_node_def)
  moreover have "get_primary_node (ce_hash V) (ca_cluster (snd (cluster_route V (Add_node q) s))) key
      \<in> {get_primary_node (ce_hash V) (ca_cluster s) key, Some (an_id q)}"
    using join_keeps_or_takes [OF assms(1,2), of "ce_hash V" key]
    by (simp add: cluster_route_def cs_add_cluster_node_def cluster_add_node_def get_primary_node_def)
  ultimately show ?thesis
    by (simp add: Let_def) (simp add: cluster_route_def cs_add_cluster_node_def cluster_add_node_def update_conv')
qed

section \<open>Witnesses\<close>

definition toy_cluster_env :: "(unit net, unit) cluster_env" where
  "toy_cluster_env = \<lparr>ce_local = loop_cache (\<lambda>i. 0) plain toy_hash toy_cluster 2, ce_clients = (\<lambda>i. refused_cache), ce_hash = toy_hash,
     ce_now = 0, ce_patch = (\<lambda>n. ret ()), ce_fmt = (\<lambda>n x. [])\<rparr>"

definition toy_app :: "(unit net, unit) cluster_app" where
  "toy_app = start_cluster_app toy_hash (\<lambda>v. None) (Inr ()) 0 9090 (Some ''a'') None \<lparr>srv = (), wire = []\<rparr>"

theorem started_server_serves_nothing_witness:
  "\<exists>st b. fst (cluster_route toy_cluster_env (Cache_request (Get_layer ''h''))
      (after_requests toy_cluster_env [Cache_request (Put_layer ''h'' [1])] toy_app)) = Returns (Cache_reply (st, b)) \<and> \<not> is_success st"
  unfolding toy_app_def by (rule started_server_serves_nothing) (simp add: toy_cluster_env_def)

theorem node_added_then_removed_witness:
  "let q = \<lparr>an_id = ''b'', an_address = ''http://b'', an_weight = None, an_region = None\<rparr>
   in snd (cluster_route toy_cluster_env (Remove_node ''b'') (snd (cluster_route toy_cluster_env (Add_node q) toy_app))) = toy_app"
proof -
  let ?q = "\<lparr>an_id = ''b'', an_address = ''http://b'', an_weight = None, an_region = None\<rparr>"
  have ring: "cluster_ring (ca_cluster toy_app) = ring_add_node toy_hash ''a'' (new_ring 100)"
    by (simp add: toy_app_def start_cluster_app_def new_cluster_def Let_def)
  have "ring_ok (cluster_ring (ca_cluster toy_app))" unfolding ring by (rule ring_ok_add)
  moreover have "an_id ?q \<notin> snd ` set (ring_nodes (cluster_ring (ca_cluster toy_app)))"
    unfolding ring set_ring_add by (auto simp: new_ring_def dest: virtual_nodes_owner)
  moreover have "an_id ?q \<notin> fst ` set (cluster_nodes (ca_cluster toy_app))"
    by (simp add: toy_app_def start_cluster_app_def new_cluster_def Let_def)
  ultimately show ?thesis
    using node_added_then_removed [of toy_app ?q toy_cluster_env] by (simp add: Let_def)
qed

end
