(* ===== verification/Metadata_Contract.thy ===== *)
theory Metadata_Contract
  imports Metadata
begin

text \<open>
  The trait \<open>MetadataStoreTrait\<close> of \<open>src/src/server/metadata.rs\<close>, behind which \<open>main.rs\<close> puts either the SQLite
  store or the PostgreSQL one: its calls and answers as data, an abstract store, the contract as a locale (as long as no
  counter of the store can overflow, a call answers and acts as on the abstract store), and its interpretation by the
  SQLite store. \<open>cleanup_old_entries\<close> is not part of the contract: the two stores differ on it.
\<close>

section \<open>Calls and answers\<close>

datatype md_call =
    Insert string string u64
  | Insert_Layered_Node string u64 "string list"
  | Insert_Layer string string u64
  | Get_Node_Layers string
  | Layer_Exists string
  | Get_Layer_Path string
  | Get_Entry string

datatype md_answer =
    Done
  | Refused
  | Layers "string list option"
  | Exists bool
  | Path "string option"
  | Entry "(string \<times> u64 \<times> nat) option"

definition done_or_refused :: "unit result \<Rightarrow> md_answer" where
  "done_or_refused r = (case r of Inl e \<Rightarrow> Refused | Inr u \<Rightarrow> Done)"

text \<open>The rows a call writes; each adds at most one to a counter.\<close>

fun rows_written :: "md_call \<Rightarrow> nat" where
  "rows_written (Insert h p n) = 1"
| "rows_written (Insert_Layered_Node h n ls) = Suc (length ls)"
| "rows_written _ = 0"

fun size_fits :: "md_call \<Rightarrow> bool" where
  "size_fits (Insert h p n) = fits_i64 n"
| "size_fits (Insert_Layered_Node h n ls) = fits_i64 n"
| "size_fits (Insert_Layer h p n) = fits_i64 n"
| "size_fits _ = True"

section \<open>The abstract store\<close>

record abstract_store =
  am_entries :: "string \<Rightarrow> (string \<times> u64 \<times> nat) option"
  am_layers :: "string \<Rightarrow> string option"
  am_lists :: "string \<Rightarrow> string list"

definition no_metadata :: abstract_store where
  "no_metadata = \<lparr>am_entries = (\<lambda>_. None), am_layers = (\<lambda>_. None), am_lists = (\<lambda>_. [])\<rparr>"

definition hit_or_new :: "(string \<times> u64 \<times> nat) \<Rightarrow> (string \<times> u64 \<times> nat) option \<Rightarrow> string \<times> u64 \<times> nat" where
  "hit_or_new new old = (case old of None \<Rightarrow> new | Some (p, n, k) \<Rightarrow> (p, n, Suc k))"

fun abstract_call :: "md_call \<Rightarrow> abstract_store \<Rightarrow> md_answer \<times> abstract_store" where
  "abstract_call (Insert h p n) a =
     (Done, a\<lparr>am_entries := (am_entries a)(h \<mapsto> hit_or_new (p, n, 0) (am_entries a h))\<rparr>)"
| "abstract_call (Insert_Layered_Node h n ls) a =
     (if \<forall>l \<in> set ls. am_layers a l \<noteq> None
      then (Done, a\<lparr>am_entries := (am_entries a)(h \<mapsto> hit_or_new ([], n, 0) (am_entries a h)),
                   am_lists := (am_lists a)(h := ls)\<rparr>)
      else (Refused, a))"
| "abstract_call (Insert_Layer h p n) a =
     (Done, if am_layers a h = None then a\<lparr>am_layers := (am_layers a)(h \<mapsto> p)\<rparr> else a)"
| "abstract_call (Get_Node_Layers h) a =
     (Layers (if am_lists a h = [] \<and> am_entries a h = None then None else Some (am_lists a h)), a)"
| "abstract_call (Layer_Exists h) a = (Exists (am_layers a h \<noteq> None), a)"
| "abstract_call (Get_Layer_Path h) a = (Path (am_layers a h), a)"
| "abstract_call (Get_Entry h) a = (Entry (am_entries a h), a)"

text \<open>A sequence of calls, and the answers to it; a call carries the time it is made at.\<close>

fun run_calls :: "('t \<Rightarrow> md_call \<Rightarrow> 's \<Rightarrow> md_answer \<times> 's) \<Rightarrow> ('t \<times> md_call) list \<Rightarrow> 's \<Rightarrow> md_answer list" where
  "run_calls step [] s = []"
| "run_calls step ((t, c) # cs) s = (case step t c s of (a, s') \<Rightarrow> a # run_calls step cs s')"

section \<open>The contract\<close>

locale metadata_contract =
  fixes call :: "'t \<Rightarrow> md_call \<Rightarrow> 's \<Rightarrow> md_answer \<times> 's"
    and view :: "'s \<Rightarrow> abstract_store"
    and room :: "nat \<Rightarrow> 's \<Rightarrow> bool"
  assumes answers: "room (rows_written c + k) s \<Longrightarrow> size_fits c \<Longrightarrow> fst (call t c s) = fst (abstract_call c (view s))"
    and acts: "room (rows_written c + k) s \<Longrightarrow> size_fits c \<Longrightarrow> view (snd (call t c s)) = snd (abstract_call c (view s))"
    and keeps_room: "room (rows_written c + k) s \<Longrightarrow> size_fits c \<Longrightarrow> room k (snd (call t c s))"
begin

lemma run_abstract:
  "room ((\<Sum>x\<leftarrow>cs. rows_written (snd x))) s \<Longrightarrow> \<forall>(t, c) \<in> set cs. size_fits c
    \<Longrightarrow> run_calls call cs s = run_calls (\<lambda>_::unit. abstract_call) (map (\<lambda>(t, c). ((), c)) cs) (view s)"
proof (induction cs arbitrary: s)
  case (Cons tc cs)
  obtain t c where tc: "tc = (t, c)" by (rule prod.exhaust)
  let ?k = "(\<Sum>x\<leftarrow>cs. rows_written (snd x))"
  have room: "room (rows_written c + ?k) s" and fits: "size_fits c" "\<forall>(t, c) \<in> set cs. size_fits c"
    using Cons.prems by (simp_all add: tc)
  obtain a s' where step: "call t c s = (a, s')" by (rule prod.exhaust)
  have "abstract_call c (view s) = (a, view s')"
    using answers [OF room fits(1), of t] acts [OF room fits(1), of t] step by (simp add: prod_eq_iff)
  moreover have "room ?k s'"
    using keeps_room [OF room fits(1), of t] step by simp
  ultimately show ?case
    using Cons.IH fits(2) by (simp add: tc step)
qed simp

end

section \<open>The SQLite store\<close>

fun sqlite_call :: "string \<Rightarrow> md_call \<Rightarrow> metadata_store \<Rightarrow> md_answer \<times> metadata_store" where
  "sqlite_call now (Insert h p n) s = apfst done_or_refused (md_insert now h p n s)"
| "sqlite_call now (Insert_Layered_Node h n ls) s = apfst done_or_refused (insert_layered_node now h n ls s)"
| "sqlite_call now (Insert_Layer h p n) s = apfst done_or_refused (insert_layer now h p n s)"
| "sqlite_call now (Get_Node_Layers h) s = (Layers (md_get_node_layers s h), s)"
| "sqlite_call now (Layer_Exists h) s = (Exists (layer_exists s h), s)"
| "sqlite_call now (Get_Layer_Path h) s = (Path (get_layer_path s h), s)"
| "sqlite_call now (Get_Entry h) s =
     (case md_get s h of
        Inl e \<Rightarrow> Refused
      | Inr r \<Rightarrow> Entry (map_option (\<lambda>e. (ce_artifact_path e, ce_size e, ce_hit_count e)) r), s)"

definition sqlite_view :: "metadata_store \<Rightarrow> abstract_store" where
  "sqlite_view s =
     \<lparr>am_entries = (\<lambda>h. map_option (\<lambda>r. (artifact_path r, row_size r, hit_count r)) (map_of (cache_entries s) h)),
      am_layers = (\<lambda>h. map_option storage_path (map_of (cache_layers s) h)),
      am_lists = layer_rows s\<rparr>"

text \<open>The smaller of the two stores' counters: a PostgreSQL \<open>INT\<close> holds less than a \<open>u32\<close>.\<close>

definition counter_limit :: nat where
  "counter_limit = 2 ^ 31"

definition sqlite_room :: "nat \<Rightarrow> metadata_store \<Rightarrow> bool" where
  "sqlite_room k s \<longleftrightarrow> md_ok s \<and> k < counter_limit \<and> (\<forall>r \<in> ran (map_of (cache_entries s)). hit_count r + k < counter_limit)"

lemma sqlite_view_simps [simp]:
  "am_entries (sqlite_view s) h = map_option (\<lambda>r. (artifact_path r, row_size r, hit_count r)) (map_of (cache_entries s) h)"
  "am_layers (sqlite_view s) h = map_option storage_path (map_of (cache_layers s) h)"
  "am_lists (sqlite_view s) = layer_rows s"
  by (simp_all add: sqlite_view_def)

lemma abstract_eqI:
  assumes "\<And>h. am_entries a h = am_entries b h" and "\<And>h. am_layers a h = am_layers b h" and "\<And>h. am_lists a h = am_lists b h"
  shows "a = (b :: abstract_store)"
  using assms by (cases a; cases b) (auto simp: fun_eq_iff)

lemma upsert_entry_view:
  "map_option (\<lambda>r. (artifact_path r, row_size r, hit_count r)) (map_of (upsert_entry now h p n b t) x)
    = (if x = h then Some (hit_or_new (p, n, 0) (map_option (\<lambda>r. (artifact_path r, row_size r, hit_count r)) (map_of t h)))
       else map_option (\<lambda>r. (artifact_path r, row_size r, hit_count r)) (map_of t x))"
  by (auto simp: upsert_entry_def update_conv' hit_or_new_def split: option.splits)

lemma upsert_entry_hits:
  assumes "\<forall>r \<in> ran (map_of t). hit_count r + Suc k < N" and "Suc k < N"
    and "r \<in> ran (map_of (upsert_entry now h p n b t))"
  shows "hit_count r + k < N"
proof -
  obtain x where x: "map_of (upsert_entry now h p n b t) x = Some r" using assms(3) by (auto simp: ran_def)
  have old: "hit_count r' + Suc k < N" if "map_of t y = Some r'" for y r'
    using assms(1) that by (auto simp: ran_def)
  show ?thesis
    using x assms(2) by (auto simp: upsert_entry_def update_conv' split: option.splits if_splits dest!: old)
qed

lemma sqlite_room_ok: "sqlite_room k s \<Longrightarrow> md_ok s"
  by (simp add: sqlite_room_def)

lemma sqlite_room_less: "sqlite_room (j + k) s \<Longrightarrow> sqlite_room k s"
  unfolding sqlite_room_def by (meson add_lessD1 add_leD2 add_mono_thms_linordered_semiring(2) le_less_trans trans_le_add2 order_refl)

lemma sqlite_insert:
  assumes "fits_i64 n" and "sqlite_room (Suc k) s"
  shows "fst (md_insert now h p n s) = Inr ()"
    and "sqlite_view (snd (md_insert now h p n s)) = snd (abstract_call (Insert h p n) (sqlite_view s))"
    and "sqlite_room k (snd (md_insert now h p n s))"
proof -
  show "fst (md_insert now h p n s) = Inr ()" using assms(1) by (simp add: md_insert_def)
  show "sqlite_view (snd (md_insert now h p n s)) = snd (abstract_call (Insert h p n) (sqlite_view s))"
    using assms(1)
    by (intro abstract_eqI) (simp_all add: md_insert_def upsert_entry_view layer_rows_def)
  have "\<forall>r \<in> ran (map_of (cache_entries s)). hit_count r + Suc k < counter_limit" and "Suc k < counter_limit"
    using assms(2) by (simp_all add: sqlite_room_def)
  then have "\<forall>r \<in> ran (map_of (upsert_entry now h p n False (cache_entries s))). hit_count r + k < counter_limit"
    by (intro ballI) (rule upsert_entry_hits; assumption)
  then have "\<forall>r \<in> ran (map_of (cache_entries (snd (md_insert now h p n s)))). hit_count r + k < counter_limit"
    using assms(1) by (simp add: md_insert_def)
  then show "sqlite_room k (snd (md_insert now h p n s))"
    using assms(2) by (simp add: sqlite_room_def md_ok_insert)
qed

lemma sqlite_insert_layer:
  assumes "fits_i64 n" and "sqlite_room k s"
  shows "fst (insert_layer now h p n s) = Inr ()"
    and "sqlite_view (snd (insert_layer now h p n s)) = snd (abstract_call (Insert_Layer h p n) (sqlite_view s))"
    and "sqlite_room k (snd (insert_layer now h p n s))"
proof -
  show "fst (insert_layer now h p n s) = Inr ()" using assms(1) by (simp add: insert_layer_def)
  show "sqlite_view (snd (insert_layer now h p n s)) = snd (abstract_call (Insert_Layer h p n) (sqlite_view s))"
    using assms(1)
    by (intro abstract_eqI)
       (auto simp: insert_layer_def update_conv' layer_rows_def split: option.splits)
  have "cache_entries (snd (insert_layer now h p n s)) = cache_entries s" by (simp add: insert_layer_def)
  then show "sqlite_room k (snd (insert_layer now h p n s))"
    using assms(2) by (simp add: sqlite_room_def md_ok_insert_layer)
qed

lemma register_layer_rows:
  assumes "insert_layered_node now n sz lhs s = (Inr (), s')"
  shows "layer_rows s' = (layer_rows s)(n := lhs)"
proof
  fix m
  let ?new = "map (\<lambda>(i, lh). ((n, i), lh)) (enumerate 0 lhs)"
  note rows = register_get_layers(4) [OF assms]
  show "layer_rows s' m = ((layer_rows s)(n := lhs)) m"
  proof (cases "m = n")
    case True
    have "filter (\<lambda>((m, _), _). m = n) (node_to_layers s') = ?new"
      unfolding rows by (auto simp: filter_empty_conv filter_id_conv split_def)
    moreover have "map snd ?new = lhs" by (simp add: comp_def split_def enumerate_eq_zip)
    ultimately show ?thesis
      unfolding layer_rows_def True by (simp only: sorted_enumerate_pos fun_upd_same)
  next
    case False
    then have "filter (\<lambda>((x, _), _). x = m) (node_to_layers s') = filter (\<lambda>((x, _), _). x = m) (node_to_layers s)"
      unfolding rows by (auto simp: split_def filter_empty_conv intro!: filter_cong)
    then show ?thesis using False by (simp add: layer_rows_def)
  qed
qed

lemma register_entries:
  assumes "insert_layered_node now n sz lhs s = (Inr (), s')"
  shows "cache_entries s' = upsert_entry now n [] sz True (cache_entries s)"
proof -
  let ?s1 = "s\<lparr>cache_entries := upsert_entry now n [] sz True (cache_entries s),
             node_to_layers := filter (\<lambda>((m, _), _). m \<noteq> n) (node_to_layers s)\<rparr>"
  have "add_mappings n 0 lhs ?s1 = Inr s'"
    using assms by (auto simp: insert_layered_node_def Let_def split: if_splits sum.splits)
  from add_mappings_ok [OF this] show ?thesis by simp
qed

lemma sqlite_register:
  assumes "fits_i64 n" and "sqlite_room (Suc (length ls) + k) s"
  shows "fst (sqlite_call now (Insert_Layered_Node h n ls) s) = fst (abstract_call (Insert_Layered_Node h n ls) (sqlite_view s))"
    and "sqlite_view (snd (sqlite_call now (Insert_Layered_Node h n ls) s)) = snd (abstract_call (Insert_Layered_Node h n ls) (sqlite_view s))"
    and "sqlite_room k (snd (sqlite_call now (Insert_Layered_Node h n ls) s))"
proof -
  have ok: "md_ok s" using assms(2) by (rule sqlite_room_ok)
  have known: "(\<forall>l \<in> set ls. am_layers (sqlite_view s) l \<noteq> None) \<longleftrightarrow> (\<forall>l \<in> set ls. layer_exists s l)"
    by (simp add: layer_exists_def)
  have "fst (sqlite_call now (Insert_Layered_Node h n ls) s) = fst (abstract_call (Insert_Layered_Node h n ls) (sqlite_view s))
    \<and> sqlite_view (snd (sqlite_call now (Insert_Layered_Node h n ls) s)) = snd (abstract_call (Insert_Layered_Node h n ls) (sqlite_view s))
    \<and> sqlite_room k (snd (sqlite_call now (Insert_Layered_Node h n ls) s))"
  proof (cases "\<forall>l \<in> set ls. layer_exists s l")
    case True
    then obtain s' where s': "insert_layered_node now h n ls s = (Inr (), s')"
      using insert_layered_node_outcome(1) [OF ok assms(1), of now h ls] by blast
    have view: "sqlite_view s' = snd (abstract_call (Insert_Layered_Node h n ls) (sqlite_view s))"
    proof (rule abstract_eqI)
      fix x
      show "am_layers (sqlite_view s') x = am_layers (snd (abstract_call (Insert_Layered_Node h n ls) (sqlite_view s))) x"
        using True known register_get_layers(3) [OF s', of x] by (cases "map_of (cache_layers s) x") simp_all
    qed (use True known in \<open>simp_all add: register_entries [OF s'] upsert_entry_view register_layer_rows [OF s']\<close>)
    have "\<forall>r \<in> ran (map_of (cache_entries s)). hit_count r + Suc k < counter_limit" and "Suc k < counter_limit"
      using assms(2) by (fastforce simp: sqlite_room_def)+
    then have "\<forall>r \<in> ran (map_of (cache_entries s')). hit_count r + k < counter_limit"
      unfolding register_entries [OF s'] by (intro ballI) (rule upsert_entry_hits; assumption)
    moreover have "md_ok s'" using md_ok_insert_layered_node [OF ok, of now h n ls] s' by simp
    ultimately have "sqlite_room k s'" using \<open>Suc k < counter_limit\<close> by (simp add: sqlite_room_def)
    with view show ?thesis using True known by (simp add: s' done_or_refused_def)
  next
    case False
    then obtain e where "insert_layered_node now h n ls s = (Inl e, s)"
      using insert_layered_node_outcome(2) [OF ok assms(1), of ls now h] by blast
    then show ?thesis using False known sqlite_room_less [OF assms(2)] by (simp add: done_or_refused_def)
  qed
  then show "fst (sqlite_call now (Insert_Layered_Node h n ls) s) = fst (abstract_call (Insert_Layered_Node h n ls) (sqlite_view s))"
    and "sqlite_view (snd (sqlite_call now (Insert_Layered_Node h n ls) s)) = snd (abstract_call (Insert_Layered_Node h n ls) (sqlite_view s))"
    and "sqlite_room k (snd (sqlite_call now (Insert_Layered_Node h n ls) s))"
    by blast+
qed

lemma sqlite_get:
  assumes "sqlite_room k s"
  shows "md_get s h = Inr (map_option (\<lambda>r. \<lparr>ce_hash = h, ce_artifact_path = artifact_path r, ce_size = row_size r,
      ce_created_at = created_at r, ce_last_used = last_used r, ce_hit_count = hit_count r\<rparr>) (map_of (cache_entries s) h))"
proof (cases "map_of (cache_entries s) h")
  case (Some r)
  then have "hit_count r + k < 2 ^ 31" using assms by (auto simp: sqlite_room_def ran_def counter_limit_def)
  then have "hit_count r < 2 ^ 32" by simp
  with Some show ?thesis by (simp add: md_get_def)
qed (simp add: md_get_def)

interpretation sqlite: metadata_contract sqlite_call sqlite_view sqlite_room
proof (unfold_locales, goal_cases)
  case (1 c k s t)
  then show ?case
    by (cases c) (simp_all add: sqlite_insert sqlite_insert_layer sqlite_register sqlite_get done_or_refused_def
        md_get_node_layers_def layer_exists_def get_layer_path_def Let_def option.map_comp comp_def del: sqlite_call.simps(2) abstract_call.simps(2))
next
  case (2 c k s t)
  then show ?case
    by (cases c) (simp_all add: sqlite_insert sqlite_insert_layer sqlite_register del: sqlite_call.simps(2) abstract_call.simps(1,2,3))
next
  case (3 c k s t)
  then show ?case
    by (cases c) (simp_all add: sqlite_insert sqlite_insert_layer sqlite_register del: sqlite_call.simps(2) abstract_call.simps(1,2,3))
qed

lemma sqlite_room_new: "k < counter_limit \<Longrightarrow> sqlite_room k (new_store True)"
  by (simp add: sqlite_room_def md_ok_new) (simp add: new_store_def)

lemma sqlite_view_new: "sqlite_view (new_store fk) = no_metadata"
  by (rule abstract_eqI) (simp_all add: no_metadata_def new_store_def layer_rows_def)

end
