(* ===== verification/Postgres.thy ===== *)
theory Postgres
  imports Metadata_Contract
begin

text \<open>
  \<open>src/src/scalable_db.rs\<close> (and its copy \<open>src/src/cache/metadata.rs\<close>): the metadata store over PostgreSQL. The
  statements the code sends are written out as functions on the tables; the server is not under \<open>src/\<close>: what a statement
  does beside its effect is the list \<open>pg_faults\<close> of the errors it meets, one entry for every connection taken from the
  pool, every statement and every commit, and the clock is a parameter (\<open>now\<close>). \<open>BIGINT\<close> and \<open>INT\<close> columns hold
  integers; a \<open>u64\<close> size is cast to \<open>i64\<close> and back, and a counter that leaves \<open>INT\<close> is an error of its statement.
\<close>

section \<open>Tables and statements\<close>

record pg_entry =
  pe_artifact_path :: string
  pe_size :: int
  pe_created_at :: int
  pe_last_used :: int
  pe_hit_count :: int
  pe_is_layered :: bool

record pg_layer =
  pl_storage_path :: string
  pl_size :: int
  pl_created_at :: int
  pl_last_used :: int
  pl_ref_count :: int

record pg_db =
  pg_entries :: "(string, pg_entry) hashmap"
  pg_layers :: "(string, pg_layer) hashmap"
  pg_mappings :: "((string \<times> int) \<times> string) list"
  pg_faults :: "err option list"

definition pg_empty :: pg_db where
  "pg_empty = \<lparr>pg_entries = [], pg_layers = [], pg_mappings = [], pg_faults = []\<rparr>"

text \<open>\<open>new\<close>: the pool gives a connection, the migrations create the tables that are missing.\<close>

definition postgres_new :: "err option \<Rightarrow> err option \<Rightarrow> pg_db option \<Rightarrow> unit result \<times> pg_db option" where
  "postgres_new connecting migrating db =
     (case connecting of
        Some e \<Rightarrow> (Inl e, db)
      | None \<Rightarrow>
          (case migrating of
             Some e \<Rightarrow> (Inl e, db)
           | None \<Rightarrow> (Inr (), Some (case db of Some t \<Rightarrow> t | None \<Rightarrow> pg_empty))))"

definition fits_int4 :: "int \<Rightarrow> bool" where
  "fits_int4 n \<longleftrightarrow> - (2 ^ 31) \<le> n \<and> n < 2 ^ 31"

definition range_error :: err where
  "range_error = Err ''integer out of range''"

definition reach_server :: "(pg_db, unit) io" where
  "reach_server s =
     (case pg_faults s of
        [] \<Rightarrow> (Inr (), s)
      | None # fs \<Rightarrow> (Inr (), s\<lparr>pg_faults := fs\<rparr>)
      | Some e # fs \<Rightarrow> (Inl e, s\<lparr>pg_faults := fs\<rparr>))"

definition run_statement :: "(pg_db \<Rightarrow> pg_db result) \<Rightarrow> (pg_db, unit) io" where
  "run_statement f =
     bind_io reach_server (\<lambda>_ s. case f s of Inl e \<Rightarrow> (Inl e, s) | Inr s' \<Rightarrow> (Inr (), s'))"

definition run_query :: "(pg_db \<Rightarrow> 'a) \<Rightarrow> (pg_db, 'a) io" where
  "run_query q = bind_io reach_server (\<lambda>_ s. (Inr (q s), s))"

text \<open>A transaction that fails, or whose commit fails, leaves the tables as they were.\<close>

definition transaction :: "(pg_db, unit) io \<Rightarrow> (pg_db, unit) io" where
  "transaction body s =
     (case bind_io reach_server (\<lambda>_. bind_io body (\<lambda>_. reach_server)) s of
        (Inl e, s') \<Rightarrow> (Inl e, s\<lparr>pg_faults := pg_faults s'\<rparr>)
      | (Inr u, s') \<Rightarrow> (Inr u, s'))"

section \<open>Operations\<close>

definition pg_upsert :: "int \<Rightarrow> string \<Rightarrow> string \<Rightarrow> int \<Rightarrow> bool \<Rightarrow> pg_db \<Rightarrow> pg_db result" where
  "pg_upsert now hash path n layered s =
     (case map_of (pg_entries s) hash of
        None \<Rightarrow> Inr (s\<lparr>pg_entries := AList.update hash \<lparr>pe_artifact_path = path, pe_size = n, pe_created_at = now,
                   pe_last_used = now, pe_hit_count = 0, pe_is_layered = layered\<rparr> (pg_entries s)\<rparr>)
      | Some r \<Rightarrow>
          if fits_int4 (pe_hit_count r + 1)
          then Inr (s\<lparr>pg_entries := AList.update hash (r\<lparr>pe_last_used := now, pe_hit_count := pe_hit_count r + 1\<rparr>)
                                               (pg_entries s)\<rparr>)
          else Inl range_error)"

definition pg_insert :: "int \<Rightarrow> string \<Rightarrow> string \<Rightarrow> int \<Rightarrow> (pg_db, unit) io" where
  "pg_insert now hash path n = bind_io reach_server (\<lambda>_. run_statement (pg_upsert now hash path n False))"

definition delete_mappings :: "string \<Rightarrow> pg_db \<Rightarrow> pg_db result" where
  "delete_mappings hash s = Inr (s\<lparr>pg_mappings := filter (\<lambda>((n, _), _). n \<noteq> hash) (pg_mappings s)\<rparr>)"

definition insert_mapping :: "string \<Rightarrow> int \<Rightarrow> string \<Rightarrow> pg_db \<Rightarrow> pg_db result" where
  "insert_mapping node pos lh s =
     (if map_of (pg_mappings s) (node, pos) \<noteq> None then Inl (Err ''duplicate key value violates unique constraint'')
      else if map_of (pg_entries s) node = None \<or> map_of (pg_layers s) lh = None
      then Inl (Err ''insert or update on table violates foreign key constraint'')
      else Inr (s\<lparr>pg_mappings := pg_mappings s @ [((node, pos), lh)]\<rparr>))"

definition bump_layer :: "string \<Rightarrow> pg_db \<Rightarrow> pg_db result" where
  "bump_layer lh s =
     (case map_of (pg_layers s) lh of
        None \<Rightarrow> Inr s
      | Some r \<Rightarrow>
          if fits_int4 (pl_ref_count r + 1)
          then Inr (s\<lparr>pg_layers := AList.update lh (r\<lparr>pl_ref_count := pl_ref_count r + 1\<rparr>) (pg_layers s)\<rparr>)
          else Inl range_error)"

text \<open>\<open>pos as i32\<close>.\<close>

definition pos_i32 :: "nat \<Rightarrow> int" where
  "pos_i32 pos = sint (of_nat pos :: 32 word)"

fun insert_mappings :: "string \<Rightarrow> nat \<Rightarrow> string list \<Rightarrow> (pg_db, unit) io" where
  "insert_mappings node pos [] = ret ()"
| "insert_mappings node pos (lh # lhs) =
     bind_io (run_statement (insert_mapping node (pos_i32 pos) lh)) (\<lambda>_.
     bind_io (run_statement (bump_layer lh)) (\<lambda>_.
     insert_mappings node (Suc pos) lhs))"

definition pg_insert_layered_node :: "int \<Rightarrow> string \<Rightarrow> int \<Rightarrow> string list \<Rightarrow> (pg_db, unit) io" where
  "pg_insert_layered_node now hash n layer_hashes =
     bind_io reach_server (\<lambda>_.
     transaction
       (bind_io (run_statement (pg_upsert now hash [] n True)) (\<lambda>_.
        bind_io (run_statement (delete_mappings hash)) (\<lambda>_.
        insert_mappings hash 0 layer_hashes))))"

definition pg_upsert_layer :: "int \<Rightarrow> string \<Rightarrow> string \<Rightarrow> int \<Rightarrow> pg_db \<Rightarrow> pg_db result" where
  "pg_upsert_layer now hash path n s =
     Inr (s\<lparr>pg_layers :=
       (case map_of (pg_layers s) hash of
          None \<Rightarrow> AList.update hash \<lparr>pl_storage_path = path, pl_size = n, pl_created_at = now, pl_last_used = now,
                    pl_ref_count = 0\<rparr> (pg_layers s)
        | Some r \<Rightarrow> AList.update hash (r\<lparr>pl_last_used := now\<rparr>) (pg_layers s))\<rparr>)"

definition pg_insert_layer :: "int \<Rightarrow> string \<Rightarrow> string \<Rightarrow> int \<Rightarrow> (pg_db, unit) io" where
  "pg_insert_layer now hash path n = bind_io reach_server (\<lambda>_. run_statement (pg_upsert_layer now hash path n))"

definition mapped_layers :: "string \<Rightarrow> pg_db \<Rightarrow> string list" where
  "mapped_layers hash s =
     map snd (sort_key (\<lambda>((_, pos), _). pos) (filter (\<lambda>((n, _), _). n = hash) (pg_mappings s)))"

definition pg_get_node_layers :: "string \<Rightarrow> (pg_db, string list option) io" where
  "pg_get_node_layers hash =
     bind_io reach_server (\<lambda>_.
     bind_io (run_query (mapped_layers hash)) (\<lambda>layers.
     if layers = []
     then bind_io (run_query (\<lambda>s. map_of (pg_entries s) hash = None)) (\<lambda>absent.
          if absent then ret None else ret (Some layers))
     else ret (Some layers)))"

definition pg_layer_exists :: "string \<Rightarrow> (pg_db, bool) io" where
  "pg_layer_exists hash = bind_io reach_server (\<lambda>_. run_query (\<lambda>s. map_of (pg_layers s) hash \<noteq> None))"

definition pg_get_layer_path :: "string \<Rightarrow> (pg_db, string option) io" where
  "pg_get_layer_path hash =
     bind_io reach_server (\<lambda>_. run_query (\<lambda>s. map_option pl_storage_path (map_of (pg_layers s) hash)))"

definition pg_get :: "string \<Rightarrow> (pg_db, (string \<times> pg_entry) option) io" where
  "pg_get hash =
     bind_io reach_server (\<lambda>_. run_query (\<lambda>s. map_option (Pair hash) (map_of (pg_entries s) hash)))"

text \<open>\<open>cleanup_old_entries\<close>: the subtraction panics when the date is out of range (\<open>cutoff\<close> is \<open>None\<close>). The foreign
  key deletes the mappings of a deleted entry; nothing touches the layers.\<close>

definition delete_entries_before :: "int \<Rightarrow> pg_db \<Rightarrow> nat \<times> pg_db" where
  "delete_entries_before t s =
     (let old = filter (\<lambda>(h, r). pe_last_used r < t) (pg_entries s) in
      (length old, s\<lparr>pg_entries := filter (\<lambda>(h, r). \<not> pe_last_used r < t) (pg_entries s),
                    pg_mappings := filter (\<lambda>((n, _), _). n \<notin> fst ` set old) (pg_mappings s)\<rparr>))"

definition pg_cleanup_old_entries :: "(u32 \<Rightarrow> int option) \<Rightarrow> u32 \<Rightarrow> (pg_db, nat) pio" where
  "pg_cleanup_old_entries cutoff days =
     bind_pio (from_io reach_server) (\<lambda>_.
     case cutoff days of
       None \<Rightarrow> panic
     | Some t \<Rightarrow> bind_pio (from_io reach_server) (\<lambda>_ s. case delete_entries_before t s of (n, s') \<Rightarrow> (Returns (Inr n), s')))"

text \<open>\<open>get_stats\<close>: a count is a \<open>BIGINT\<close>, the sum of \<open>BIGINT\<close>s a \<open>NUMERIC\<close>; reading a \<open>NUMERIC\<close> column as \<open>i64\<close>
  with \<open>get\<close> panics.\<close>

datatype pg_value = Bigint int | Numeric int

definition as_i64 :: "pg_value \<Rightarrow> (pg_db, int) pio" where
  "as_i64 v = (case v of Bigint n \<Rightarrow> from_io (ret n) | Numeric n \<Rightarrow> panic)"

definition sum_column :: "int list \<Rightarrow> pg_value" where
  "sum_column ns = Numeric (sum_list ns)"

record database_stats =
  total_entries :: int
  total_size :: int
  total_layers :: int
  st_layer_size :: int
  total_size_all :: int

definition pg_get_stats :: "(pg_db, database_stats) pio" where
  "pg_get_stats =
     bind_pio (from_io reach_server) (\<lambda>_.
     bind_pio (from_io (run_query (\<lambda>s. Bigint (int (length (pg_entries s)))))) (\<lambda>v1. bind_pio (as_i64 v1) (\<lambda>entries.
     bind_pio (from_io (run_query (\<lambda>s. sum_column (map (pe_size \<circ> snd) (pg_entries s))))) (\<lambda>v2. bind_pio (as_i64 v2) (\<lambda>bytes.
     bind_pio (from_io (run_query (\<lambda>s. Bigint (int (length (pg_layers s)))))) (\<lambda>v3. bind_pio (as_i64 v3) (\<lambda>layers.
     bind_pio (from_io (run_query (\<lambda>s. sum_column (map (pl_size \<circ> snd) (pg_layers s))))) (\<lambda>v4. bind_pio (as_i64 v4) (\<lambda>layer_bytes.
     from_io (ret \<lparr>total_entries = entries, total_size = bytes, total_layers = layers, st_layer_size = layer_bytes,
       total_size_all = bytes + layer_bytes\<rparr>))))))))))"

section \<open>Read replicas\<close>

record 'w replicated_store =
  rp_writer :: 'w
  rp_readers :: "'w list"
  rp_next_reader :: u64

fun connect_all :: "('c \<Rightarrow> ('e, 'w) io) \<Rightarrow> 'c list \<Rightarrow> ('e, 'w list) io" where
  "connect_all new_store_at [] = ret []"
| "connect_all new_store_at (c # cs) =
     bind_io (new_store_at c) (\<lambda>w. bind_io (connect_all new_store_at cs) (\<lambda>ws. ret (w # ws)))"

definition replicated_new :: "('c \<Rightarrow> ('e, 'w) io) \<Rightarrow> 'c \<Rightarrow> 'c list \<Rightarrow> ('e, 'w replicated_store) io" where
  "replicated_new new_store_at writer_config replica_configs =
     bind_io (new_store_at writer_config) (\<lambda>w.
     bind_io (connect_all new_store_at replica_configs) (\<lambda>ws.
     ret \<lparr>rp_writer = w, rp_readers = ws, rp_next_reader = 0\<rparr>))"

definition get_reader :: "'w replicated_store \<Rightarrow> 'w \<times> 'w replicated_store" where
  "get_reader s =
     (if rp_readers s = [] then (rp_writer s, s)
      else (rp_readers s ! (unat (rp_next_reader s) mod length (rp_readers s)), s\<lparr>rp_next_reader := rp_next_reader s + 1\<rparr>))"

section \<open>The trait\<close>

text \<open>The casts of the trait's methods: a size goes in as \<open>i64\<close> and comes out as \<open>u64\<close>, the hit count as \<open>u32\<close>.\<close>

definition answer_with :: "('a \<Rightarrow> md_answer) \<Rightarrow> 'a result \<times> pg_db \<Rightarrow> md_answer \<times> pg_db" where
  "answer_with f = apfst (\<lambda>r. case r of Inl e \<Rightarrow> Refused | Inr a \<Rightarrow> f a)"

definition trait_entry :: "string \<times> pg_entry \<Rightarrow> string \<times> u64 \<times> nat" where
  "trait_entry e = (pe_artifact_path (snd e), of_int (pe_size (snd e)), unat (of_int (pe_hit_count (snd e)) :: u32))"

fun postgres_call :: "int \<Rightarrow> md_call \<Rightarrow> pg_db \<Rightarrow> md_answer \<times> pg_db" where
  "postgres_call now (Insert h p n) s = answer_with (\<lambda>_. Done) (pg_insert now h p (sint n) s)"
| "postgres_call now (Insert_Layered_Node h n ls) s = answer_with (\<lambda>_. Done) (pg_insert_layered_node now h (sint n) ls s)"
| "postgres_call now (Insert_Layer h p n) s = answer_with (\<lambda>_. Done) (pg_insert_layer now h p (sint n) s)"
| "postgres_call now (Get_Node_Layers h) s = answer_with Layers (pg_get_node_layers h s)"
| "postgres_call now (Layer_Exists h) s = answer_with Exists (pg_layer_exists h s)"
| "postgres_call now (Get_Layer_Path h) s = answer_with Path (pg_get_layer_path h s)"
| "postgres_call now (Get_Entry h) s = answer_with (\<lambda>r. Entry (map_option trait_entry r)) (pg_get h s)"

section \<open>The store meets the contract\<close>

definition pg_view :: "pg_db \<Rightarrow> abstract_store" where
  "pg_view s =
     \<lparr>am_entries = (\<lambda>h. map_option (\<lambda>r. (pe_artifact_path r, of_int (pe_size r), nat (pe_hit_count r))) (map_of (pg_entries s) h)),
      am_layers = (\<lambda>h. map_option pl_storage_path (map_of (pg_layers s) h)),
      am_lists = (\<lambda>h. mapped_layers h s)\<rparr>"

definition pg_room :: "nat \<Rightarrow> pg_db \<Rightarrow> bool" where
  "pg_room k s \<longleftrightarrow> pg_faults s = [] \<and> k < counter_limit
     \<and> (\<forall>h r. map_of (pg_entries s) h = Some r \<longrightarrow> 0 \<le> pe_hit_count r \<and> pe_hit_count r + int k < int counter_limit)
     \<and> (\<forall>h r. map_of (pg_layers s) h = Some r \<longrightarrow> 0 \<le> pl_ref_count r \<and> pl_ref_count r + int k < int counter_limit)"

lemma pg_view_simps [simp]:
  "am_entries (pg_view s) h = map_option (\<lambda>r. (pe_artifact_path r, of_int (pe_size r), nat (pe_hit_count r))) (map_of (pg_entries s) h)"
  "am_layers (pg_view s) h = map_option pl_storage_path (map_of (pg_layers s) h)"
  "am_lists (pg_view s) h = mapped_layers h s"
  by (simp_all add: pg_view_def)

lemma reach_server_fine [simp]: "pg_faults s = [] \<Longrightarrow> reach_server s = (Inr (), s)"
  by (simp add: reach_server_def)

lemma run_statement_fine:
  "pg_faults s = [] \<Longrightarrow> run_statement f s = (case f s of Inl e \<Rightarrow> (Inl e, s) | Inr s' \<Rightarrow> (Inr (), s'))"
  by (simp add: run_statement_def bind_io_def)

lemma run_query_fine: "pg_faults s = [] \<Longrightarrow> run_query q s = (Inr (q s), s)"
  by (simp add: run_query_def bind_io_def)

lemma bind_reach: "pg_faults s = [] \<Longrightarrow> bind_io reach_server k s = k () s"
  by (simp add: bind_io_def)

lemma transaction_fine:
  assumes "pg_faults s = []"
  shows "body s = (Inr (), s') \<Longrightarrow> pg_faults s' = [] \<Longrightarrow> transaction body s = (Inr (), s')"
    and "body s = (Inl e, s') \<Longrightarrow> pg_faults s' = [] \<Longrightarrow> transaction body s = (Inl e, s)"
  using assms by (simp_all add: transaction_def bind_io_def)

lemma pos_i32_id: "pos < 2 ^ 31 \<Longrightarrow> pos_i32 pos = int pos"
  unfolding pos_i32_def by (subst signed_of_nat) (simp add: signed_take_bit_int_eq_self)

lemma pg_upsert_room:
  assumes "pg_room (Suc k) s"
  shows "\<exists>t. pg_upsert now h p n b s = Inr (s\<lparr>pg_entries := t\<rparr>)
    \<and> (\<forall>x. map_option (\<lambda>r. (pe_artifact_path r, of_int (pe_size r) :: u64, nat (pe_hit_count r))) (map_of t x) =
      (if x = h then Some (hit_or_new (p, of_int n, 0) (am_entries (pg_view s) h)) else am_entries (pg_view s) x))
    \<and> (\<forall>x r. map_of t x = Some r \<longrightarrow> 0 \<le> pe_hit_count r \<and> pe_hit_count r + int k < int counter_limit)
    \<and> map_of t h \<noteq> None"
proof -
  have k: "int (Suc k) < int counter_limit" using assms by (simp add: pg_room_def)
  have old: "0 \<le> pe_hit_count r \<and> pe_hit_count r + int (Suc k) < int counter_limit" if "map_of (pg_entries s) x = Some r" for x r
    using assms that by (auto simp: pg_room_def)
  show ?thesis
  proof (cases "map_of (pg_entries s) h")
    case None
    show ?thesis
      by (rule exI [of _ "AList.update h \<lparr>pe_artifact_path = p, pe_size = n, pe_created_at = now,
            pe_last_used = now, pe_hit_count = 0, pe_is_layered = b\<rparr> (pg_entries s)"])
         (use None k in \<open>auto simp: pg_upsert_def update_conv' hit_or_new_def split: if_splits dest!: old\<close>)
  next
    case (Some r)
    have fits: "fits_int4 (pe_hit_count r + 1)"
      using old [OF Some] by (simp add: fits_int4_def counter_limit_def)
    have hits: "nat (pe_hit_count r + 1) = Suc (nat (pe_hit_count r))"
      using old [OF Some] by (simp add: Suc_nat_eq_nat_zadd1 add.commute)
    show ?thesis
      by (rule exI [of _ "AList.update h (r\<lparr>pe_last_used := now, pe_hit_count := pe_hit_count r + 1\<rparr>) (pg_entries s)"])
         (use Some fits hits old [OF Some] in \<open>auto simp: pg_upsert_def update_conv' hit_or_new_def split: if_splits dest!: old\<close>)
  qed
qed

lemma insert_mappings_run:
  assumes "pg_faults s = []" and "pos + length lhs < 2 ^ 31" and "map_of (pg_entries s) node \<noteq> None"
    and "\<And>i. pos \<le> i \<Longrightarrow> map_of (pg_mappings s) (node, int i) = None"
    and "\<And>x r. map_of (pg_layers s) x = Some r \<Longrightarrow> 0 \<le> pl_ref_count r \<and> pl_ref_count r + int (length lhs) < 2 ^ 31"
  shows "if \<forall>lh \<in> set lhs. map_of (pg_layers s) lh \<noteq> None
    then \<exists>t. insert_mappings node pos lhs s =
           (Inr (), s\<lparr>pg_mappings := pg_mappings s @ map (\<lambda>(i, lh). ((node, int i), lh)) (enumerate pos lhs), pg_layers := t\<rparr>)
         \<and> (\<forall>x. map_of t x = map_option (\<lambda>r. r\<lparr>pl_ref_count := pl_ref_count r + int (count_list lhs x)\<rparr>) (map_of (pg_layers s) x))
    else \<exists>e s'. insert_mappings node pos lhs s = (Inl e, s') \<and> pg_faults s' = []"
  using assms
proof (induction lhs arbitrary: pos s)
  case Nil
  show ?case by (auto simp: option.map_ident_strong intro!: exI [of _ "pg_layers s"])
next
  case (Cons lh lhs)
  have pos: "pos_i32 pos = int pos" using Cons.prems(2) by (intro pos_i32_id) simp
  have free: "map_of (pg_mappings s) (node, int pos) = None" using Cons.prems(4) by simp
  show ?case
  proof (cases "map_of (pg_layers s) lh")
    case None
    then have "insert_mapping node (pos_i32 pos) lh s = Inl (Err ''insert or update on table violates foreign key constraint'')"
      using free by (simp add: insert_mapping_def pos)
    then have "insert_mappings node pos (lh # lhs) s = (Inl (Err ''insert or update on table violates foreign key constraint''), s)"
      using Cons.prems(1) by (simp add: run_statement_fine bind_io_def)
    then show ?thesis using None Cons.prems(1) by auto
  next
    case (Some r)
    let ?m = "s\<lparr>pg_mappings := pg_mappings s @ [((node, int pos), lh)]\<rparr>"
    let ?r = "r\<lparr>pl_ref_count := pl_ref_count r + 1\<rparr>"
    let ?s = "?m\<lparr>pg_layers := AList.update lh ?r (pg_layers s)\<rparr>"
    have one: "insert_mapping node (pos_i32 pos) lh s = Inr ?m"
      using free Some Cons.prems(3) by (simp add: insert_mapping_def pos)
    have fits: "fits_int4 (pl_ref_count r + 1)" using Cons.prems(5) [OF Some] by (simp add: fits_int4_def)
    then have two: "bump_layer lh ?m = Inr ?s" using Some by (simp add: bump_layer_def)
    have step: "insert_mappings node pos (lh # lhs) s = insert_mappings node (Suc pos) lhs ?s"
      using Cons.prems(1) one two by (simp add: run_statement_fine bind_io_def)
    have room: "0 \<le> pl_ref_count r' \<and> pl_ref_count r' + int (length lhs) < 2 ^ 31" if "map_of (pg_layers ?s) x = Some r'" for x r'
      using that Cons.prems(5) [OF Some] Cons.prems(5) [of x] by (cases "x = lh") (auto simp: update_conv')
    have known: "map_of (pg_layers ?s) x \<noteq> None \<longleftrightarrow> map_of (pg_layers s) x \<noteq> None" for x
      using Some by (simp add: update_conv')
    have fresh: "map_of (pg_mappings ?s) (node, int i) = None" if "Suc pos \<le> i" for i
      using Cons.prems(4) [of i] that by (simp add: map_add_def)
    let ?pg = "\<lambda>t. ?s\<lparr>pg_mappings := pg_mappings ?s @ map (\<lambda>(i, lh). ((node, int i), lh)) (enumerate (Suc pos) lhs), pg_layers := t\<rparr>"
    have IH: "if \<forall>lh \<in> set lhs. map_of (pg_layers ?s) lh \<noteq> None
      then \<exists>t. insert_mappings node (Suc pos) lhs ?s = (Inr (), ?pg t)
         \<and> (\<forall>x. map_of t x = map_option (\<lambda>r. r\<lparr>pl_ref_count := pl_ref_count r + int (count_list lhs x)\<rparr>) (map_of (pg_layers ?s) x))
      else \<exists>e s'. insert_mappings node (Suc pos) lhs ?s = (Inl e, s') \<and> pg_faults s' = []"
      by (rule Cons.IH) (use Cons.prems(1-3) fresh room in \<open>simp_all\<close>)
    show ?thesis
    proof (cases "\<forall>l \<in> set lhs. map_of (pg_layers s) l \<noteq> None")
      case True
      then obtain t where t: "insert_mappings node (Suc pos) lhs ?s = (Inr (), ?pg t)"
        "\<forall>x. map_of t x = map_option (\<lambda>r. r\<lparr>pl_ref_count := pl_ref_count r + int (count_list lhs x)\<rparr>) (map_of (pg_layers ?s) x)"
        using IH unfolding known by auto
      have counts: "map_of t x = map_option (\<lambda>r. r\<lparr>pl_ref_count := pl_ref_count r + int (count_list (lh # lhs) x)\<rparr>) (map_of (pg_layers s) x)" for x
        using t(2) Some by (auto simp: update_conv' option.map_comp comp_def)
      have run: "insert_mappings node pos (lh # lhs) s =
          (Inr (), s\<lparr>pg_mappings := pg_mappings s @ map (\<lambda>(i, lh). ((node, int i), lh)) (enumerate pos (lh # lhs)), pg_layers := t\<rparr>)"
        unfolding step t(1) by simp
      have all: "\<forall>l \<in> set (lh # lhs). map_of (pg_layers s) l \<noteq> None" using True Some by simp
      show ?thesis unfolding if_P [OF all] by (intro exI [of _ t] conjI allI run counts)
    next
      case False
      then have "\<exists>e s'. insert_mappings node (Suc pos) lhs ?s = (Inl e, s') \<and> pg_faults s' = []"
        using IH unfolding known by simp
      then show ?thesis using False unfolding step by auto
    qed
  qed
qed

text \<open>The rows of one node, in the order of their positions.\<close>

lemma mapped_layers_new:
  assumes "pg_mappings s' = filter (\<lambda>((m, _), _). m \<noteq> n) (pg_mappings s) @ map (\<lambda>(i, lh). ((n, int i), lh)) (enumerate 0 lhs)"
  shows "mapped_layers x s' = (if x = n then lhs else mapped_layers x s)"
proof (cases "x = n")
  case True
  let ?new = "map (\<lambda>(i, lh). ((n, int i), lh)) (enumerate 0 lhs)"
  have "filter (\<lambda>((m, _), _). m = n) (pg_mappings s') = ?new"
    unfolding assms by (auto simp: filter_empty_conv filter_id_conv split_def)
  moreover have "sort_key (\<lambda>((_, pos), _). pos) ?new = ?new"
  proof (rule sort_key_id_if_sorted)
    have "map (\<lambda>((_, pos), _). pos) ?new = map (int \<circ> fst) (enumerate 0 lhs)"
      by (simp add: comp_def split_def)
    also have "\<dots> = map int [0..<length lhs]"
      by (simp add: enumerate_eq_zip map_map [symmetric])
    finally show "sorted (map (\<lambda>((_, pos), _). pos) ?new)"
      by (simp add: sorted_map sorted_wrt_iff_nth_less)
  qed
  moreover have "map snd ?new = lhs" by (simp add: comp_def split_def enumerate_eq_zip)
  ultimately show ?thesis using True by (simp add: mapped_layers_def)
next
  case False
  then have "filter (\<lambda>((m, _), _). m = x) (pg_mappings s') = filter (\<lambda>((m, _), _). m = x) (pg_mappings s)"
    unfolding assms by (auto simp: split_def filter_empty_conv intro!: filter_cong)
  with False show ?thesis by (simp add: mapped_layers_def)
qed

lemma pg_room_less:
  assumes "pg_room (j + k) s"
  shows "pg_room k s"
  unfolding pg_room_def
proof (intro conjI allI impI)
  show "pg_faults s = []" "k < counter_limit" using assms unfolding pg_room_def by linarith+
  fix h r assume "map_of (pg_entries s) h = Some r"
  then have "0 \<le> pe_hit_count r \<and> pe_hit_count r + int (j + k) < int counter_limit" using assms unfolding pg_room_def by blast
  then show "0 \<le> pe_hit_count r" "pe_hit_count r + int k < int counter_limit" by simp_all
next
  fix h r assume "map_of (pg_layers s) h = Some r"
  then have "0 \<le> pl_ref_count r \<and> pl_ref_count r + int (j + k) < int counter_limit" using assms unfolding pg_room_def by blast
  then show "0 \<le> pl_ref_count r" "pl_ref_count r + int k < int counter_limit" by simp_all
qed

lemma pg_room_faults: "pg_room k s \<Longrightarrow> pg_faults s = []"
  by (simp add: pg_room_def)

lemma postgres_insert:
  assumes "pg_room (Suc k) s"
  shows "fst (postgres_call now (Insert h p n) s) = Done"
    and "pg_view (snd (postgres_call now (Insert h p n) s)) = snd (abstract_call (Insert h p n) (pg_view s))"
    and "pg_room k (snd (postgres_call now (Insert h p n) s))"
proof -
  obtain t where t: "pg_upsert now h p (sint n) False s = Inr (s\<lparr>pg_entries := t\<rparr>)"
    and view: "\<forall>x. map_option (\<lambda>r. (pe_artifact_path r, of_int (pe_size r) :: u64, nat (pe_hit_count r))) (map_of t x) =
      (if x = h then Some (hit_or_new (p, of_int (sint n), 0) (am_entries (pg_view s) h)) else am_entries (pg_view s) x)"
    and hits: "\<forall>x r. map_of t x = Some r \<longrightarrow> 0 \<le> pe_hit_count r \<and> pe_hit_count r + int k < int counter_limit"
    and "map_of t h \<noteq> None"
    using pg_upsert_room [OF assms, of now h p "sint n" False] by (elim exE conjE) (rule that)
  have call: "postgres_call now (Insert h p n) s = (Done, s\<lparr>pg_entries := t\<rparr>)"
    using pg_room_faults [OF assms] by (simp add: pg_insert_def bind_reach run_statement_fine t answer_with_def)
  show "fst (postgres_call now (Insert h p n) s) = Done" by (simp only: call fst_conv)
  show "pg_view (snd (postgres_call now (Insert h p n) s)) = snd (abstract_call (Insert h p n) (pg_view s))"
    unfolding call by (rule abstract_eqI) (use view in \<open>simp_all add: mapped_layers_def\<close>)
  show "pg_room k (snd (postgres_call now (Insert h p n) s))"
    unfolding call using pg_room_less [of 1 k s] assms hits by (auto simp: pg_room_def)
qed

lemma postgres_insert_layer:
  assumes "pg_room k s"
  shows "fst (postgres_call now (Insert_Layer h p n) s) = Done"
    and "pg_view (snd (postgres_call now (Insert_Layer h p n) s)) = snd (abstract_call (Insert_Layer h p n) (pg_view s))"
    and "pg_room k (snd (postgres_call now (Insert_Layer h p n) s))"
proof -
  obtain t where t: "pg_upsert_layer now h p (sint n) s = Inr (s\<lparr>pg_layers := t\<rparr>)"
    and look: "\<And>x. map_of t x = (if x = h then Some (case map_of (pg_layers s) h of
          None \<Rightarrow> \<lparr>pl_storage_path = p, pl_size = sint n, pl_created_at = now, pl_last_used = now, pl_ref_count = 0\<rparr>
        | Some r \<Rightarrow> r\<lparr>pl_last_used := now\<rparr>) else map_of (pg_layers s) x)"
    by (auto simp: pg_upsert_layer_def update_conv' split: option.split)
  have call: "postgres_call now (Insert_Layer h p n) s = (Done, s\<lparr>pg_layers := t\<rparr>)"
    using pg_room_faults [OF assms] by (simp add: pg_insert_layer_def bind_reach run_statement_fine t answer_with_def)
  show "fst (postgres_call now (Insert_Layer h p n) s) = Done" by (simp only: call fst_conv)
  show "pg_view (snd (postgres_call now (Insert_Layer h p n) s)) = snd (abstract_call (Insert_Layer h p n) (pg_view s))"
    unfolding call by (rule abstract_eqI) (auto simp: mapped_layers_def look split: option.splits)
  show "pg_room k (snd (postgres_call now (Insert_Layer h p n) s))"
    unfolding call using assms by (auto simp: pg_room_def look split: option.splits)
qed

lemma pg_room_hits: "pg_room k s \<Longrightarrow> map_of (pg_entries s) h = Some r \<Longrightarrow> 0 \<le> pe_hit_count r \<and> pe_hit_count r < 2 ^ 31"
  unfolding pg_room_def counter_limit_def by fastforce

lemma hit_count_u32: "0 \<le> k \<Longrightarrow> k < 2 ^ 31 \<Longrightarrow> unat (of_int k :: u32) = nat k"
  by (simp add: unat_eq_nat_uint uint_word_of_int take_bit_int_eq_self)

lemma trait_entry_room:
  assumes "pg_room k s"
  shows "map_option (trait_entry \<circ> Pair h) (map_of (pg_entries s) h) = am_entries (pg_view s) h"
  using pg_room_hits [OF assms, of h]
  by (cases "map_of (pg_entries s) h") (simp_all add: trait_entry_def hit_count_u32)

lemma postgres_register:
  assumes "pg_room (Suc (length ls) + k) s"
  shows "fst (postgres_call now (Insert_Layered_Node h n ls) s) = fst (abstract_call (Insert_Layered_Node h n ls) (pg_view s))
    \<and> pg_view (snd (postgres_call now (Insert_Layered_Node h n ls) s)) = snd (abstract_call (Insert_Layered_Node h n ls) (pg_view s))
    \<and> pg_room k (snd (postgres_call now (Insert_Layered_Node h n ls) s))"
proof -
  have fine: "pg_faults s = []" using assms by (rule pg_room_faults)
  have room: "pg_room (Suc k) s" using pg_room_less [of "length ls" "Suc k" s] assms by (simp add: add.commute)
  obtain t where t: "pg_upsert now h [] (sint n) True s = Inr (s\<lparr>pg_entries := t\<rparr>)"
    and view: "\<forall>x. map_option (\<lambda>r. (pe_artifact_path r, of_int (pe_size r) :: u64, nat (pe_hit_count r))) (map_of t x) =
      (if x = h then Some (hit_or_new ([], of_int (sint n), 0) (am_entries (pg_view s) h)) else am_entries (pg_view s) x)"
    and hits: "\<forall>x r. map_of t x = Some r \<longrightarrow> 0 \<le> pe_hit_count r \<and> pe_hit_count r + int k < int counter_limit"
    and ent: "map_of t h \<noteq> None"
    using pg_upsert_room [OF room, of now h "[]" "sint n" True] by (elim exE conjE) (rule that)
  let ?s = "s\<lparr>pg_entries := t, pg_mappings := filter (\<lambda>((m, _), _). m \<noteq> h) (pg_mappings s)\<rparr>"
  let ?body = "bind_io (run_statement (pg_upsert now h [] (sint n) True)) (\<lambda>_.
        bind_io (run_statement (delete_mappings h)) (\<lambda>_. insert_mappings h 0 ls))"
  have body: "?body s = insert_mappings h 0 ls ?s"
    using fine t by (simp add: bind_io_def run_statement_fine delete_mappings_def)
  have call: "postgres_call now (Insert_Layered_Node h n ls) s = answer_with (\<lambda>_. Done) (transaction ?body s)"
    using fine by (simp add: pg_insert_layered_node_def bind_reach)
  have len: "0 + length ls < 2 ^ 31" using assms by (simp add: pg_room_def counter_limit_def)
  have free: "map_of (pg_mappings ?s) (h, int i) = None" for i
    by (auto simp: map_of_eq_None_iff)
  have refs: "0 \<le> pl_ref_count r \<and> pl_ref_count r + int (length ls) + int k < int counter_limit" if "map_of (pg_layers s) x = Some r" for x r
  proof -
    have "0 \<le> pl_ref_count r \<and> pl_ref_count r + int (Suc (length ls) + k) < int counter_limit"
      using assms that unfolding pg_room_def by blast
    then show ?thesis by simp
  qed
  have refs': "0 \<le> pl_ref_count r \<and> pl_ref_count r + int (length ls) < 2 ^ 31" if "map_of (pg_layers ?s) x = Some r" for x r
    using refs [of x r] that by (simp add: counter_limit_def)
  have faults: "pg_faults ?s = []" and ent': "map_of (pg_entries ?s) h \<noteq> None" using fine ent by simp_all
  let ?pg = "\<lambda>u. ?s\<lparr>pg_mappings := pg_mappings ?s @ map (\<lambda>(i, lh). ((h, int i), lh)) (enumerate 0 ls), pg_layers := u\<rparr>"
  have run: "if \<forall>lh \<in> set ls. map_of (pg_layers ?s) lh \<noteq> None
      then \<exists>u. insert_mappings h 0 ls ?s = (Inr (), ?pg u)
         \<and> (\<forall>x. map_of u x = map_option (\<lambda>r. r\<lparr>pl_ref_count := pl_ref_count r + int (count_list ls x)\<rparr>) (map_of (pg_layers ?s) x))
      else \<exists>e s'. insert_mappings h 0 ls ?s = (Inl e, s') \<and> pg_faults s' = []"
    by (rule insert_mappings_run [OF faults len ent' free]) (rule refs')
  have same: "pg_layers ?s = pg_layers s" by simp
  show ?thesis
  proof (cases "\<forall>l \<in> set ls. map_of (pg_layers s) l \<noteq> None")
    case True
    obtain u where u: "insert_mappings h 0 ls ?s = (Inr (), ?pg u)"
      "\<And>x. map_of u x = map_option (\<lambda>r. r\<lparr>pl_ref_count := pl_ref_count r + int (count_list ls x)\<rparr>) (map_of (pg_layers s) x)"
      using run unfolding same if_P [OF True] by blast
    have outcome: "postgres_call now (Insert_Layered_Node h n ls) s = (Done, ?pg u)"
      unfolding call using transaction_fine(1) [OF fine, of ?body "?pg u"] fine body u(1) by (simp add: answer_with_def)
    have lists: "mapped_layers x (?pg u) = (if x = h then ls else mapped_layers x s)" for x
      by (rule mapped_layers_new) simp
    have layers: "map_option pl_storage_path (map_of u x) = map_option pl_storage_path (map_of (pg_layers s) x)" for x
      by (simp add: u(2) option.map_comp comp_def)
    have abs: "abstract_call (Insert_Layered_Node h n ls) (pg_view s) =
        (Done, (pg_view s)\<lparr>am_entries := (am_entries (pg_view s))(h \<mapsto> hit_or_new ([], n, 0) (am_entries (pg_view s) h)),
                   am_lists := (am_lists (pg_view s))(h := ls)\<rparr>)"
      using True by simp
    have "pg_view (?pg u) = snd (abstract_call (Insert_Layered_Node h n ls) (pg_view s))"
      unfolding abs snd_conv
      by (rule abstract_eqI) (use view layers lists in \<open>simp_all only: pg_view_simps, simp_all\<close>)
    moreover have "pg_room k (?pg u)"
      unfolding pg_room_def
    proof (intro conjI allI impI)
      fix x r assume "map_of (pg_layers (?pg u)) x = Some r"
      then obtain r0 where r0: "map_of (pg_layers s) x = Some r0" "pl_ref_count r = pl_ref_count r0 + int (count_list ls x)"
        by (auto simp: u(2))
      moreover have "count_list ls x \<le> length ls" by (rule count_le_length)
      ultimately show "0 \<le> pl_ref_count r" "pl_ref_count r + int k < int counter_limit"
        using refs [OF r0(1)] by simp_all
    qed (use fine hits room in \<open>auto simp: pg_room_def\<close>)
    ultimately show ?thesis by (simp only: outcome abs fst_conv snd_conv simp_thms)
  next
    case False
    then obtain e s' where e: "insert_mappings h 0 ls ?s = (Inl e, s')" "pg_faults s' = []"
      using run unfolding same if_not_P [OF False] by blast
    have "postgres_call now (Insert_Layered_Node h n ls) s = (Refused, s)"
      unfolding call using transaction_fine(2) [OF fine, of ?body e s'] body e by (simp add: answer_with_def)
    moreover have "abstract_call (Insert_Layered_Node h n ls) (pg_view s) = (Refused, pg_view s)"
      using False by auto
    moreover have "pg_room k s" using room pg_room_less [of 1 k s] by simp
    ultimately show ?thesis by (simp only: fst_conv snd_conv simp_thms)
  qed
qed

lemma postgres_reads:
  assumes "pg_room k s"
  shows "postgres_call now (Get_Node_Layers h) s = (fst (abstract_call (Get_Node_Layers h) (pg_view s)), s)"
    and "postgres_call now (Layer_Exists h) s = (fst (abstract_call (Layer_Exists h) (pg_view s)), s)"
    and "postgres_call now (Get_Layer_Path h) s = (fst (abstract_call (Get_Layer_Path h) (pg_view s)), s)"
    and "postgres_call now (Get_Entry h) s = (fst (abstract_call (Get_Entry h) (pg_view s)), s)"
proof -
  have fine: "pg_faults s = []" using assms by (rule pg_room_faults)
  have one: "bind_io (run_query q) k s = k (q s) s" for q k using fine by (simp add: bind_io_def run_query_fine)
  show "postgres_call now (Get_Node_Layers h) s = (fst (abstract_call (Get_Node_Layers h) (pg_view s)), s)"
    using fine by (simp add: pg_get_node_layers_def bind_reach one answer_with_def)
  show "postgres_call now (Layer_Exists h) s = (fst (abstract_call (Layer_Exists h) (pg_view s)), s)"
    using fine by (simp add: pg_layer_exists_def bind_reach run_query_fine answer_with_def)
  show "postgres_call now (Get_Layer_Path h) s = (fst (abstract_call (Get_Layer_Path h) (pg_view s)), s)"
    using fine by (simp add: pg_get_layer_path_def bind_reach run_query_fine answer_with_def)
  show "postgres_call now (Get_Entry h) s = (fst (abstract_call (Get_Entry h) (pg_view s)), s)"
    using fine trait_entry_room [OF assms, of h]
    by (simp add: pg_get_def bind_reach run_query_fine answer_with_def option.map_comp del: pg_view_simps)
qed

interpretation postgres: metadata_contract postgres_call pg_view pg_room
proof (unfold_locales, goal_cases)
  case (1 c k s t)
  then show ?case
    by (cases c) (simp_all add: postgres_insert postgres_insert_layer postgres_register postgres_reads
        del: postgres_call.simps abstract_call.simps, simp_all)
next
  case (2 c k s t)
  then show ?case
    by (cases c) (simp_all add: postgres_insert postgres_insert_layer postgres_register postgres_reads
        del: postgres_call.simps abstract_call.simps, simp_all)
next
  case (3 c k s t)
  then show ?case
    by (cases c) (simp_all add: postgres_insert postgres_insert_layer postgres_register postgres_reads
        del: postgres_call.simps abstract_call.simps)
qed

lemma pg_room_empty: "k < counter_limit \<Longrightarrow> pg_room k pg_empty"
  by (simp add: pg_room_def pg_empty_def)

lemma pg_view_empty: "pg_view pg_empty = no_metadata"
  by (rule abstract_eqI) (simp_all add: no_metadata_def pg_empty_def mapped_layers_def)

section \<open>Properties\<close>

text \<open>C11. The two metadata stores are interchangeable: behind the trait, an empty SQLite store and an empty PostgreSQL store
  give the same answers to every sequence of insertions, registrations and reads, whatever their clocks say, as long as
  the sizes fit a signed integer and fewer rows are written than the smaller counter holds.\<close>

theorem metadata_stores_agree:
  assumes "\<forall>(t, u, c) \<in> set cs. size_fits c" and "(\<Sum>(t, u, c)\<leftarrow>cs. rows_written c) < counter_limit"
  shows "run_calls sqlite_call (map (\<lambda>(t, u, c). (t, c)) cs) (new_store True)
    = run_calls postgres_call (map (\<lambda>(t, u, c). (u, c)) cs) pg_empty"
proof -
  let ?l = "map (\<lambda>(t, u, c). (t, c)) cs" and ?p = "map (\<lambda>(t, u, c). (u, c)) cs"
  have rows: "(\<Sum>x\<leftarrow>?l. rows_written (snd x)) = (\<Sum>(t, u, c)\<leftarrow>cs. rows_written c)"
    "(\<Sum>x\<leftarrow>?p. rows_written (snd x)) = (\<Sum>(t, u, c)\<leftarrow>cs. rows_written c)"
    by (simp_all add: comp_def split_def)
  have fits: "\<forall>(t, c) \<in> set ?l. size_fits c" "\<forall>(t, c) \<in> set ?p. size_fits c"
    using assms(1) by auto
  have calls: "map (\<lambda>(t, c). ((), c)) ?l = map (\<lambda>(t, c). ((), c)) ?p"
    by (simp add: comp_def split_def)
  have "run_calls sqlite_call ?l (new_store True) = run_calls (\<lambda>_::unit. abstract_call) (map (\<lambda>(t, c). ((), c)) ?l) no_metadata"
    by (rule sqlite.run_abstract [OF _ fits(1), of "new_store True", unfolded sqlite_view_new])
       (use assms(2) in \<open>simp only: rows sqlite_room_new\<close>)
  also have "\<dots> = run_calls postgres_call ?p pg_empty"
    unfolding calls
    by (rule postgres.run_abstract [OF _ fits(2), of pg_empty, unfolded pg_view_empty, symmetric])
       (use assms(2) in \<open>simp only: rows pg_room_empty\<close>)
  finally show ?thesis .
qed

text \<open>They differ on larger sizes: SQLite refuses what PostgreSQL stores as a negative number and reads back unchanged.\<close>

lemma large_sizes_differ:
  assumes "\<not> fits_i64 n" and "pg_room 1 s" and "map_of (pg_entries s) h = None"
  shows "fst (sqlite_call t (Insert h p n) q) = Refused"
    and "fst (postgres_call u' (Get_Entry h) (snd (postgres_call u (Insert h p n) s))) = Entry (Some (p, n, 0))"
proof -
  show "fst (sqlite_call t (Insert h p n) q) = Refused" using assms(1) by (simp add: md_insert_def done_or_refused_def)
  have room: "pg_room (Suc 0) s" using assms(2) by simp
  have "am_entries (pg_view (snd (postgres_call u (Insert h p n) s))) h = Some (p, n, 0)"
    using assms(3) by (simp add: postgres_insert(2) [OF room] hit_or_new_def del: postgres_call.simps)
  then show "fst (postgres_call u' (Get_Entry h) (snd (postgres_call u (Insert h p n) s))) = Entry (Some (p, n, 0))"
    by (simp add: postgres_reads(4) [OF postgres_insert(3) [OF room]] del: postgres_call.simps)
qed

text \<open>They differ on clean-up: a collection that deletes every entry deletes every mapping with it, and no layer gives a
  reference back, so none is ever unused.\<close>

lemma cleanup_leaks_references:
  assumes "pg_faults s = []" and "cutoff days = Some t" and "\<forall>(h, r) \<in> set (pg_entries s). pe_last_used r < t"
    and "\<forall>((h, i), l) \<in> set (pg_mappings s). map_of (pg_entries s) h \<noteq> None"
  shows "pg_cleanup_old_entries cutoff days s =
    (Returns (Inr (length (pg_entries s))), s\<lparr>pg_entries := [], pg_mappings := []\<rparr>)"
proof -
  have old: "filter (\<lambda>(h, r). pe_last_used r < t) (pg_entries s) = pg_entries s"
    "filter (\<lambda>(h, r). \<not> pe_last_used r < t) (pg_entries s) = []"
    using assms(3) by (auto simp: filter_id_conv filter_empty_conv)
  have "filter (\<lambda>((n, _), _). n \<notin> fst ` set (pg_entries s)) (pg_mappings s) = []"
    using assms(4) by (auto simp: filter_empty_conv map_of_eq_None_iff)
  then have "delete_entries_before t s = (length (pg_entries s), s\<lparr>pg_entries := [], pg_mappings := []\<rparr>)"
    unfolding delete_entries_before_def old Let_def by simp
  then show ?thesis
    using assms(1,2) by (simp add: pg_cleanup_old_entries_def bind_pio_def from_io_def)
qed

lemma statistics_panic: "pg_faults s = [] \<Longrightarrow> fst (pg_get_stats s) = Panics"
  by (simp add: pg_get_stats_def bind_pio_def from_io_def run_query_fine as_i64_def sum_column_def panic_def ret_def)

lemma reader_of_store:
  "fst (get_reader s) \<in> (if rp_readers s = [] then {rp_writer s} else set (rp_readers s))"
  by (auto simp: get_reader_def intro!: nth_mem)

theorem metadata_stores_agree_witness:
  "run_calls postgres_call [(7, Insert_Layer ''A'' ''pA'' 3), (8, Insert_Layered_Node ''n'' 3 [''A'', ''A'']),
      (9, Insert_Layered_Node ''m'' 1 [''B'']), (9, Get_Node_Layers ''n'')] pg_empty
    = run_calls sqlite_call [(''t0'', Insert_Layer ''A'' ''pA'' 3), (''t1'', Insert_Layered_Node ''n'' 3 [''A'', ''A'']),
      (''t2'', Insert_Layered_Node ''m'' 1 [''B'']), (''t3'', Get_Node_Layers ''n'')] (new_store True)"
  using metadata_stores_agree [of "[(''t0'', 7, Insert_Layer ''A'' ''pA'' 3), (''t1'', 8, Insert_Layered_Node ''n'' 3 [''A'', ''A'']),
      (''t2'', 9, Insert_Layered_Node ''m'' 1 [''B'']), (''t3'', 9, Get_Node_Layers ''n'')]"]
  by (simp add: fits_i64_def counter_limit_def del: run_calls.simps)

end
