(* ===== verification/Object_Storage.thy ===== *)
theory Object_Storage
  imports Storage
begin

text \<open>
  \<open>src/src/storage/s3.rs\<close> and \<open>src/src/storage/gcs.rs\<close>: the storage backends besides the local one. The S3 client library
  is the record \<open>s3_api\<close> of the requests the code sends; what it does is \<open>s3_behaves\<close>. Every S3 operation blocks on the
  runtime, which only a blocking thread may do. The GCS backend writes to a local directory. The locale
  \<open>content_store\<close> states what the server needs of a backend when each hash stands for one content; all three backends
  are interpretations.
\<close>

section \<open>S3\<close>

text \<open>Where a call is made: \<open>Handle::current\<close> panics outside of a runtime, \<open>block_on\<close> panics on a thread that runs
  asynchronous tasks.\<close>

datatype thread_kind = Outside_runtime | Async_task | Blocking_thread

definition block_on :: "thread_kind \<Rightarrow> ('s, 'a) io \<Rightarrow> ('s, 'a) pio" where
  "block_on th m = (case th of Blocking_thread \<Rightarrow> from_io m | Async_task \<Rightarrow> panic | Outside_runtime \<Rightarrow> panic)"

record ('s, 'b) s3_api =
  sa_put_object :: "string \<Rightarrow> string \<Rightarrow> bytes \<Rightarrow> ('s, unit) io"
  sa_get_object :: "string \<Rightarrow> string \<Rightarrow> ('s, 'b) io"
  sa_collect :: "'b \<Rightarrow> ('s, bytes) io"
  sa_head_object :: "string \<Rightarrow> string \<Rightarrow> ('s, unit) io"
  sa_delete_object :: "string \<Rightarrow> string \<Rightarrow> ('s, unit) io"

record s3_config =
  s3_bucket :: string
  s3_prefix :: string
  s3_region :: string
  s3_endpoint :: "string option"

definition s3_new_sync :: "string \<Rightarrow> string option \<Rightarrow> string \<Rightarrow> string \<Rightarrow> s3_config" where
  "s3_new_sync bucket endpoint region pre =
     \<lparr>s3_bucket = bucket, s3_prefix = pre, s3_region = region, s3_endpoint = endpoint\<rparr>"

definition s3_key :: "s3_config \<Rightarrow> string \<Rightarrow> string" where
  "s3_key c hash =
     (if s3_prefix c = [] then ''sha256/'' @ hash else trim_end_slash (s3_prefix c) @ ''/sha256/'' @ hash)"

text \<open>The client is made on first use, from the region and the endpoint.\<close>

definition s3_client :: "(string \<Rightarrow> string option \<Rightarrow> ('s, 'b) s3_api) \<Rightarrow> s3_config \<Rightarrow> ('s, 'b) s3_api" where
  "s3_client connect c = connect (s3_region c) (s3_endpoint c)"

definition map_error :: "(string \<Rightarrow> string) \<Rightarrow> ('s, 'a) io \<Rightarrow> ('s, 'a) io" where
  "map_error f m s = (case m s of (Inl (Err e), s') \<Rightarrow> (Inl (Err (f e)), s') | r \<Rightarrow> r)"

definition not_found_text :: "string \<Rightarrow> bool" where
  "not_found_text msg \<longleftrightarrow> str_contains ''NoSuchKey'' msg \<or> str_contains ''NotFound'' msg"

definition s3_put :: "(string \<Rightarrow> string option \<Rightarrow> ('s, 'b) s3_api) \<Rightarrow> s3_config \<Rightarrow> string \<Rightarrow> bytes \<Rightarrow> ('s, string) io" where
  "s3_put connect c hash d =
     bind_io (map_error (\<lambda>e. ''S3 put failed: '' @ e)
                (sa_put_object (s3_client connect c) (s3_bucket c) (s3_key c hash) d)) (\<lambda>_.
     ret (''s3://'' @ s3_bucket c @ ''/'' @ s3_key c hash))"

definition s3_get :: "(string \<Rightarrow> string option \<Rightarrow> ('s, 'b) s3_api) \<Rightarrow> s3_config \<Rightarrow> string \<Rightarrow> ('s, bytes option) io" where
  "s3_get connect c hash s =
     (case sa_get_object (s3_client connect c) (s3_bucket c) (s3_key c hash) s of
        (Inl (Err msg), s1) \<Rightarrow>
          if not_found_text msg then (Inr None, s1) else (Inl (Err (''S3 get failed: '' @ msg)), s1)
      | (Inr resp, s1) \<Rightarrow>
          bind_io (map_error (\<lambda>e. ''S3 read body failed: '' @ e) (sa_collect (s3_client connect c) resp))
            (\<lambda>body. ret (Some body)) s1)"

definition s3_exists :: "(string \<Rightarrow> string option \<Rightarrow> ('s, 'b) s3_api) \<Rightarrow> s3_config \<Rightarrow> string \<Rightarrow> ('s, bool) io" where
  "s3_exists connect c hash s =
     (case sa_head_object (s3_client connect c) (s3_bucket c) (s3_key c hash) s of
        (Inr u, s1) \<Rightarrow> (Inr True, s1)
      | (Inl (Err msg), s1) \<Rightarrow>
          if not_found_text msg then (Inr False, s1) else (Inl (Err (''S3 head failed: '' @ msg)), s1))"

definition s3_delete :: "(string \<Rightarrow> string option \<Rightarrow> ('s, 'b) s3_api) \<Rightarrow> s3_config \<Rightarrow> string \<Rightarrow> ('s, unit) io" where
  "s3_delete connect c hash =
     map_error (\<lambda>e. ''S3 delete failed: '' @ e)
       (sa_delete_object (s3_client connect c) (s3_bucket c) (s3_key c hash))"

definition s3_storage :: "(string \<Rightarrow> string option \<Rightarrow> ('s, 'b) s3_api) \<Rightarrow> s3_config \<Rightarrow> 's artifact_storage" where
  "s3_storage connect c = \<lparr>st_put = s3_put connect c, st_get = s3_get connect c,
     st_exists = s3_exists connect c, st_delete = s3_delete connect c\<rparr>"

section \<open>GCS\<close>

record gcs_config =
  gcs_bucket :: string
  gcs_prefix :: string

definition gcs_new_sync :: "string \<Rightarrow> string \<Rightarrow> gcs_config" where
  "gcs_new_sync bucket pre = \<lparr>gcs_bucket = bucket, gcs_prefix = pre\<rparr>"

definition object_name :: "gcs_config \<Rightarrow> string \<Rightarrow> string" where
  "object_name c hash =
     (if gcs_prefix c = [] then ''sha256/'' @ hash else trim_end_slash (gcs_prefix c) @ ''/sha256/'' @ hash)"

definition gcs_dir :: "(string \<Rightarrow> string option) \<Rightarrow> string" where
  "gcs_dir var = (case var ''MEMOBUILD_CACHE_DIR'' of Some d \<Rightarrow> d | None \<Rightarrow> ''/tmp/memobuild-gcs'')"

definition gcs_put :: "gcs_config \<Rightarrow> (string \<Rightarrow> string option) \<Rightarrow> string \<Rightarrow> bytes \<Rightarrow> (fs, string) io" where
  "gcs_put c var hash d =
     bind_io (create_dir_all (gcs_dir var)) (\<lambda>_.
     bind_io (write_file (path_join (gcs_dir var) hash) d) (\<lambda>_.
     ret (''gs://'' @ gcs_bucket c @ ''/'' @ object_name c hash)))"

definition gcs_get :: "gcs_config \<Rightarrow> (string \<Rightarrow> string option) \<Rightarrow> string \<Rightarrow> (fs, bytes option) io" where
  "gcs_get c var hash s =
     (let path = path_join (gcs_dir var) hash in
      if path_exists s path then bind_io (read_file path) (\<lambda>d. ret (Some d)) s else (Inr None, s))"

definition gcs_exists :: "gcs_config \<Rightarrow> (string \<Rightarrow> string option) \<Rightarrow> string \<Rightarrow> (fs, bool) io" where
  "gcs_exists c var hash s = (Inr (path_exists s (path_join (gcs_dir var) hash)), s)"

definition gcs_delete :: "gcs_config \<Rightarrow> (string \<Rightarrow> string option) \<Rightarrow> string \<Rightarrow> (fs, unit) io" where
  "gcs_delete c var hash s =
     (let path = path_join (gcs_dir var) hash in
      if path_exists s path then remove_file path s else (Inr (), s))"

definition gcs_storage :: "gcs_config \<Rightarrow> (string \<Rightarrow> string option) \<Rightarrow> fs artifact_storage" where
  "gcs_storage c var = \<lparr>st_put = gcs_put c var, st_get = gcs_get c var,
     st_exists = gcs_exists c var, st_delete = gcs_delete c var\<rparr>"

section \<open>Calls of a backend\<close>

datatype blob_call =
    Put_blob string bytes
  | Get_blob string
  | Has_blob string
  | Delete_blob string

datatype blob_answer = Stored | Blob "bytes option" | Held bool | Deleted | Failed

fun call_hash :: "blob_call \<Rightarrow> string" where
  "call_hash (Put_blob h d) = h"
| "call_hash (Get_blob h) = h"
| "call_hash (Has_blob h) = h"
| "call_hash (Delete_blob h) = h"

definition answered :: "('a \<Rightarrow> blob_answer) \<Rightarrow> 'a result \<times> 's \<Rightarrow> blob_answer \<times> 's" where
  "answered f = apfst (\<lambda>r. case r of Inl e \<Rightarrow> Failed | Inr a \<Rightarrow> f a)"

fun storage_call :: "'s artifact_storage \<Rightarrow> blob_call \<Rightarrow> 's \<Rightarrow> blob_answer \<times> 's" where
  "storage_call st (Put_blob h d) s = answered (\<lambda>_. Stored) (st_put st h d s)"
| "storage_call st (Get_blob h) s = answered Blob (st_get st h s)"
| "storage_call st (Has_blob h) s = answered Held (st_exists st h s)"
| "storage_call st (Delete_blob h) s = answered (\<lambda>_. Deleted) (st_delete st h s)"

fun blob_answers :: "'s artifact_storage \<Rightarrow> blob_call list \<Rightarrow> 's \<Rightarrow> blob_answer list" where
  "blob_answers st [] s = []"
| "blob_answers st (c # cs) s = (case storage_call st c s of (a, s') \<Rightarrow> a # blob_answers st cs s')"

text \<open>The reference: a map from hashes to contents.\<close>

fun map_call :: "blob_call \<Rightarrow> (string \<Rightarrow> bytes option) \<Rightarrow> blob_answer \<times> (string \<Rightarrow> bytes option)" where
  "map_call (Put_blob h d) m = (Stored, m(h \<mapsto> d))"
| "map_call (Get_blob h) m = (Blob (m h), m)"
| "map_call (Has_blob h) m = (Held (m h \<noteq> None), m)"
| "map_call (Delete_blob h) m = (Deleted, m(h := None))"

fun map_answers :: "blob_call list \<Rightarrow> (string \<Rightarrow> bytes option) \<Rightarrow> blob_answer list" where
  "map_answers [] m = []"
| "map_answers (c # cs) m = (case map_call c m of (a, m') \<Rightarrow> a # map_answers cs m')"

text \<open>Each hash stands for one content, as when it is the digest of the content.\<close>

definition one_content :: "blob_call list \<Rightarrow> (string \<Rightarrow> bytes option) \<Rightarrow> bool" where
  "one_content cs m \<longleftrightarrow>
     (\<forall>h d d'. Put_blob h d \<in> set cs \<longrightarrow> (m h = Some d' \<or> Put_blob h d' \<in> set cs) \<longrightarrow> d' = d)"

lemma one_contentD:
  assumes "one_content cs m" and "Put_blob h d \<in> set cs"
  shows "m h = Some d' \<Longrightarrow> d' = d" and "Put_blob h d' \<in> set cs \<Longrightarrow> d' = d"
  using assms unfolding one_content_def by blast+

lemma one_content_rest:
  assumes "one_content (c # cs) m"
  shows "one_content cs (snd (map_call c m))"
  unfolding one_content_def
proof (intro allI impI)
  fix h d d' assume put: "Put_blob h d \<in> set cs" and other: "snd (map_call c m) h = Some d' \<or> Put_blob h d' \<in> set cs"
  have old: "d' = d" if "m h = Some d' \<or> Put_blob h d' \<in> set (c # cs)"
    using that one_contentD [OF assms, of h d d'] put by auto
  have "m h = Some d' \<or> Put_blob h d' \<in> set (c # cs)"
    using other by (cases c) (auto split: if_splits)
  then show "d' = d" by (rule old)
qed

locale content_store =
  fixes st :: "'s artifact_storage"
    and ready :: "'s \<Rightarrow> bool"
    and blobs :: "'s \<Rightarrow> string \<Rightarrow> bytes option"
  assumes put_works: "ready s \<Longrightarrow> blob_name h \<Longrightarrow> blobs s h = None \<or> blobs s h = Some d
      \<Longrightarrow> \<exists>p s'. st_put st h d s = (Inr p, s') \<and> ready s' \<and> blobs s' = (blobs s)(h \<mapsto> d)"
    and get_works: "ready s \<Longrightarrow> blob_name h \<Longrightarrow> \<exists>s'. st_get st h s = (Inr (blobs s h), s') \<and> ready s' \<and> blobs s' = blobs s"
    and exists_works: "ready s \<Longrightarrow> blob_name h
      \<Longrightarrow> \<exists>s'. st_exists st h s = (Inr (blobs s h \<noteq> None), s') \<and> ready s' \<and> blobs s' = blobs s"
    and delete_works: "ready s \<Longrightarrow> blob_name h
      \<Longrightarrow> \<exists>s'. st_delete st h s = (Inr (), s') \<and> ready s' \<and> blobs s' = (blobs s)(h := None)"
begin

lemma call_works:
  assumes "ready s" and "blob_name (call_hash c)" and "one_content (c # cs) (blobs s)"
  shows "\<exists>s'. storage_call st c s = (fst (map_call c (blobs s)), s') \<and> ready s' \<and> blobs s' = snd (map_call c (blobs s))"
proof (cases c)
  case (Put_blob h d)
  have "d0 = d" if "blobs s h = Some d0" for d0
    using one_contentD(1) [OF assms(3), of h d d0] that Put_blob by simp
  then have "blobs s h = None \<or> blobs s h = Some d" by (cases "blobs s h") simp_all
  then obtain p s' where "st_put st h d s = (Inr p, s')" "ready s'" "blobs s' = (blobs s)(h \<mapsto> d)"
    using put_works [OF assms(1), of h d] assms(2) Put_blob by auto
  then show ?thesis by (simp add: Put_blob answered_def)
next
  case (Get_blob h)
  then obtain s' where "st_get st h s = (Inr (blobs s h), s')" "ready s'" "blobs s' = blobs s"
    using get_works [OF assms(1), of h] assms(2) by auto
  then show ?thesis by (simp add: Get_blob answered_def)
next
  case (Has_blob h)
  then obtain s' where "st_exists st h s = (Inr (blobs s h \<noteq> None), s')" "ready s'" "blobs s' = blobs s"
    using exists_works [OF assms(1), of h] assms(2) call_hash.simps(3) by metis
  then show ?thesis by (simp add: Has_blob answered_def)
next
  case (Delete_blob h)
  then obtain s' where "st_delete st h s = (Inr (), s')" "ready s'" "blobs s' = (blobs s)(h := None)"
    using delete_works [OF assms(1), of h] assms(2) by auto
  then show ?thesis by (simp add: Delete_blob answered_def)
qed

lemma answers_of_map:
  "ready s \<Longrightarrow> \<forall>c \<in> set cs. blob_name (call_hash c) \<Longrightarrow> one_content cs (blobs s)
    \<Longrightarrow> blob_answers st cs s = map_answers cs (blobs s)"
proof (induction cs arbitrary: s)
  case (Cons c cs)
  obtain s' where s': "storage_call st c s = (fst (map_call c (blobs s)), s')" "ready s'" "blobs s' = snd (map_call c (blobs s))"
    using call_works [OF Cons.prems(1) _ Cons.prems(3)] Cons.prems(2) by auto
  have "blob_answers st cs s' = map_answers cs (blobs s')"
    by (rule Cons.IH) (use s' Cons.prems(2) one_content_rest [OF Cons.prems(3)] in simp_all)
  then show ?case by (simp add: split_def s'(1,3))
qed simp

end

section \<open>The local backend\<close>

definition local_ready :: "string \<Rightarrow> fs \<Rightarrow> bool" where
  "local_ready base s \<longleftrightarrow> local_inv base s \<and> faults s = []
     \<and> (\<forall>h. blob_name h \<longrightarrow> \<not> list_ex (is_file s) (ancestors (shard_dir base h)))"

lemma local_ready_write:
  assumes "local_ready base s" and "blob_name h" and "local_inv base s'" and "faults s' = []"
    and "map_of (files s') = (map_of (files s))(get_sharded_path base h := v)"
  shows "local_ready base s'"
proof -
  have "is_file s' q \<longrightarrow> is_file s q" if "blob_name g" "q \<in> set (ancestors (shard_dir base g))" for g q
    using sharded_not_ancestor [OF assms(2) that(1), of base] that(2) by (auto simp: is_file_def assms(5))
  then show ?thesis using assms(1,3,4) by (auto simp: local_ready_def list_ex_iff)
qed

lemma local_ready_put:
  assumes "local_ready base s" and "blob_name h" and "local_view base s h = None \<or> local_view base s h = Some d"
  shows "\<exists>p s'. local_put base h d s = (Inr p, s') \<and> local_ready base s' \<and> local_view base s' = (local_view base s)(h \<mapsto> d)"
proof (cases "local_view base s h")
  case None
  let ?s' = "s\<lparr>dirs := dirs s @ ancestors (shard_dir base h), files := AList.update (get_sharded_path base h) d (files s)\<rparr>"
  have put: "local_put base h d s = (Inr (get_sharded_path base h), ?s')"
    using assms(1,2) None by (intro local_put_writes) (auto simp: local_ready_def)
  have inv: "local_inv base s" using assms(1) by (simp add: local_ready_def)
  then have "local_inv base ?s'" using local_put_inv [OF _ assms(2), of base s d] by (simp add: put)
  then have "local_ready base ?s'"
    by (rule local_ready_write [OF assms(1,2), where v = "Some d"]) (use assms(1) in \<open>simp_all add: local_ready_def update_conv'\<close>)
  moreover have "local_view base ?s' = (local_view base s)(h \<mapsto> d)"
    using local_put_ok [OF inv assms(2) put] None by simp
  ultimately show ?thesis using put by blast
next
  case (Some d0)
  then show ?thesis using assms local_put_old [of base s h d0 d] by (auto simp: local_ready_def fun_eq_iff)
qed

lemma local_ready_get:
  assumes "local_ready base s" and "blob_name h"
  shows "local_get base h s = (Inr (local_view base s h), s)"
proof -
  have *: "local_inv base s" "faults s = []" using assms(1) by (simp_all add: local_ready_def)
  show ?thesis
  proof (cases "local_view base s h")
    case None
    then show ?thesis using local_path_exists [OF *(1) assms(2)] by (simp add: local_get_def Let_def)
  next
    case (Some d)
    then have "map_of (files s) (get_sharded_path base h) = Some d" using assms(2) by (simp add: local_view_def)
    then show ?thesis
      using Some local_path_exists [OF *(1) assms(2)] read_file_present [OF *(2)]
      by (simp add: local_get_def Let_def)
  qed
qed

lemma local_ready_delete:
  assumes "local_ready base s" and "blob_name h"
  shows "\<exists>s'. local_delete base h s = (Inr (), s') \<and> local_ready base s' \<and> local_view base s' = (local_view base s)(h := None)"
proof (cases "local_view base s h")
  case None
  then show ?thesis
    using assms local_path_exists [of base s h] by (auto simp: local_delete_def Let_def local_ready_def fun_eq_iff)
next
  case (Some d)
  let ?s' = "s\<lparr>files := AList.delete (get_sharded_path base h) (files s)\<rparr>"
  have inv: "local_inv base s" "faults s = []" using assms(1) by (simp_all add: local_ready_def)
  have "is_file s (get_sharded_path base h)" using Some assms(2) by (simp add: local_view_def is_file_def)
  then have del: "local_delete base h s = (Inr (), ?s')"
    using Some local_path_exists [OF inv(1) assms(2)] inv(2) by (simp add: local_delete_def Let_def remove_file_def)
  moreover have "local_ready base ?s'"
    using assms(1) inv by (intro local_ready_write [OF assms, of ?s' None]) (simp_all add: local_inv_def delete_conv')
  ultimately show ?thesis using local_delete_ok [OF inv(1) assms(2) del] by blast
qed

interpretation local_blobs: content_store "local_storage base" "local_ready base" "local_view base" for base
proof unfold_locales
  fix s h assume ready: "local_ready base s" "blob_name h"
  then have "path_exists s (get_sharded_path base h) \<longleftrightarrow> local_view base s h \<noteq> None"
    by (intro local_path_exists) (simp_all add: local_ready_def)
  then show "\<exists>s'. st_exists (local_storage base) h s = (Inr (local_view base s h \<noteq> None), s') \<and> local_ready base s' \<and> local_view base s' = local_view base s"
    using ready by (simp add: local_storage_def local_exists_def)
qed (simp_all add: local_storage_def local_ready_put local_ready_get local_ready_delete)

section \<open>The GCS backend\<close>

definition gcs_view :: "(string \<Rightarrow> string option) \<Rightarrow> fs \<Rightarrow> string \<Rightarrow> bytes option" where
  "gcs_view var s h = (if blob_name h then map_of (files s) (path_join (gcs_dir var) h) else None)"

definition gcs_ready :: "(string \<Rightarrow> string option) \<Rightarrow> fs \<Rightarrow> bool" where
  "gcs_ready var s \<longleftrightarrow> gcs_dir var \<noteq> [] \<and> last (gcs_dir var) \<noteq> CHR ''/'' \<and> faults s = []
     \<and> \<not> list_ex (is_file s) (ancestors (gcs_dir var))
     \<and> (\<forall>h. blob_name h \<longrightarrow> \<not> is_dir s (path_join (gcs_dir var) h))"

lemma gcs_path:
  assumes "gcs_ready var s" and "blob_name h"
  shows "path_join (gcs_dir var) h = gcs_dir var @ CHR ''/'' # h" and "path_join (gcs_dir var) h \<notin> set (ancestors (gcs_dir var))"
proof -
  show eq: "path_join (gcs_dir var) h = gcs_dir var @ CHR ''/'' # h"
    using assms by (intro in_dir_path) (simp_all add: gcs_ready_def blob_name_parts)
  show "path_join (gcs_dir var) h \<notin> set (ancestors (gcs_dir var))"
    using ancestors_length [of "path_join (gcs_dir var) h" "gcs_dir var"] by (auto simp: eq)
qed

lemma gcs_path_inj:
  "gcs_ready var s \<Longrightarrow> blob_name g \<Longrightarrow> blob_name h \<Longrightarrow> path_join (gcs_dir var) g = path_join (gcs_dir var) h \<longleftrightarrow> g = h"
  by (simp add: gcs_path)

lemma gcs_present: "gcs_ready var s \<Longrightarrow> blob_name h \<Longrightarrow> path_exists s (path_join (gcs_dir var) h) \<longleftrightarrow> gcs_view var s h \<noteq> None"
  using gcs_path(1) [of var s h] by (auto simp: path_exists_def gcs_ready_def gcs_view_def is_file_def)

lemma gcs_ready_write:
  assumes "gcs_ready var s" and "blob_name h" and "faults s' = []"
    and "set (dirs s') \<subseteq> set (dirs s) \<union> set (ancestors (gcs_dir var))"
    and "map_of (files s') = (map_of (files s))(path_join (gcs_dir var) h := v)"
  shows "gcs_ready var s'" and "gcs_view var s' = (gcs_view var s)(h := v)"
proof -
  have no_file: "\<not> is_file s' q" if "q \<in> set (ancestors (gcs_dir var))" for q
    using gcs_path(2) [OF assms(1,2)] assms(1) that by (auto simp: is_file_def assms(5) gcs_ready_def list_ex_iff)
  have "\<not> is_dir s' (path_join (gcs_dir var) g)" if "blob_name g" for g
    using gcs_path(2) [OF assms(1) that] assms(1,4) that unfolding is_dir_def gcs_ready_def by blast
  then show "gcs_ready var s'" using no_file assms(1,3) by (auto simp: gcs_ready_def list_ex_iff)
  show "gcs_view var s' = (gcs_view var s)(h := v)"
    using assms(2) gcs_path_inj [OF assms(1)] by (auto simp: gcs_view_def assms(5) fun_eq_iff)
qed

lemma gcs_ready_put:
  assumes "gcs_ready var s" and "blob_name h"
  shows "\<exists>p s'. gcs_put c var h d s = (Inr p, s') \<and> gcs_ready var s' \<and> gcs_view var s' = (gcs_view var s)(h \<mapsto> d)"
proof -
  let ?s1 = "s\<lparr>dirs := dirs s @ ancestors (gcs_dir var)\<rparr>"
  let ?s' = "?s1\<lparr>files := AList.update (path_join (gcs_dir var) h) d (files s)\<rparr>"
  have ready: "gcs_dir var \<noteq> []" "last (gcs_dir var) \<noteq> CHR ''/''" "faults s = []" "\<not> list_ex (is_file s) (ancestors (gcs_dir var))"
    using assms(1) by (simp_all add: gcs_ready_def)
  have "\<not> is_dir ?s1 (path_join (gcs_dir var) h)"
    using gcs_path [OF assms] assms by (auto simp: is_dir_def gcs_ready_def)
  moreover have "is_dir ?s1 (gcs_dir var)" using self_ancestor [OF ready(1)] by (simp add: is_dir_def)
  ultimately have "write_file (path_join (gcs_dir var) h) d ?s1 = (Inr (), ?s')"
    using write_in_dir [OF blob_name_parts(1) [OF assms(2)] ready(1,2), of ?s1 d] ready(3) by simp
  then have "gcs_put c var h d s = (Inr (''gs://'' @ gcs_bucket c @ ''/'' @ object_name c h), ?s')"
    by (simp only: gcs_put_def bind_io_def create_dir_all_fine [OF ready(3,4)] ret_def prod.case sum.case)
  moreover have "gcs_ready var ?s'" "gcs_view var ?s' = (gcs_view var s)(h \<mapsto> d)"
    using gcs_ready_write [OF assms, of ?s' "Some d"] ready(3) by (simp_all add: update_conv')
  ultimately show ?thesis by blast
qed

lemma gcs_ready_get:
  assumes "gcs_ready var s" and "blob_name h"
  shows "gcs_get c var h s = (Inr (gcs_view var s h), s)"
proof (cases "gcs_view var s h")
  case (Some d)
  then have "map_of (files s) (path_join (gcs_dir var) h) = Some d" using assms(2) by (simp add: gcs_view_def)
  moreover have "faults s = []" using assms(1) by (simp add: gcs_ready_def)
  ultimately show ?thesis using Some gcs_present [OF assms] read_file_present by (simp add: gcs_get_def Let_def)
qed (use gcs_present [OF assms] in \<open>simp add: gcs_get_def Let_def\<close>)

lemma gcs_ready_delete:
  assumes "gcs_ready var s" and "blob_name h"
  shows "\<exists>s'. gcs_delete c var h s = (Inr (), s') \<and> gcs_ready var s' \<and> gcs_view var s' = (gcs_view var s)(h := None)"
proof (cases "gcs_view var s h")
  case None
  then show ?thesis using assms gcs_present [OF assms] by (auto simp: gcs_delete_def Let_def fun_eq_iff)
next
  case (Some d)
  let ?s' = "s\<lparr>files := AList.delete (path_join (gcs_dir var) h) (files s)\<rparr>"
  have fine: "faults s = []" using assms(1) by (simp add: gcs_ready_def)
  have "is_file s (path_join (gcs_dir var) h)" using Some assms(2) by (simp add: gcs_view_def is_file_def)
  then have "gcs_delete c var h s = (Inr (), ?s')"
    using Some gcs_present [OF assms] fine by (simp add: gcs_delete_def Let_def remove_file_def)
  then show ?thesis using gcs_ready_write [OF assms, of ?s' None] fine by (simp add: delete_conv')
qed

interpretation gcs_blobs: content_store "gcs_storage c var" "gcs_ready var" "gcs_view var" for c var
proof unfold_locales
  fix s h assume "gcs_ready var s" "blob_name h"
  then show "\<exists>s'. st_exists (gcs_storage c var) h s = (Inr (gcs_view var s h \<noteq> None), s') \<and> gcs_ready var s' \<and> gcs_view var s' = gcs_view var s"
    by (simp add: gcs_storage_def gcs_exists_def gcs_present)
qed (simp_all add: gcs_storage_def gcs_ready_put gcs_ready_get gcs_ready_delete)

section \<open>The S3 backend\<close>

text \<open>The bucket as a map from keys to objects. A request for a missing object fails with a text that says so.\<close>

definition s3_behaves :: "('s, 'b) s3_api \<Rightarrow> string \<Rightarrow> ('s \<Rightarrow> string \<Rightarrow> bytes option) \<Rightarrow> bool" where
  "s3_behaves A bucket objects \<longleftrightarrow>
     (\<forall>key d s. \<exists>s'. sa_put_object A bucket key d s = (Inr (), s') \<and> objects s' = (objects s)(key \<mapsto> d))
   \<and> (\<forall>key d s. objects s key = Some d \<longrightarrow>
        (\<exists>r s1 s2. sa_get_object A bucket key s = (Inr r, s1) \<and> sa_collect A r s1 = (Inr d, s2) \<and> objects s2 = objects s))
   \<and> (\<forall>key s. objects s key = None \<longrightarrow>
        (\<exists>m s'. sa_get_object A bucket key s = (Inl (Err m), s') \<and> not_found_text m \<and> objects s' = objects s))
   \<and> (\<forall>key s. objects s key \<noteq> None \<longrightarrow> (\<exists>s'. sa_head_object A bucket key s = (Inr (), s') \<and> objects s' = objects s))
   \<and> (\<forall>key s. objects s key = None \<longrightarrow>
        (\<exists>m s'. sa_head_object A bucket key s = (Inl (Err m), s') \<and> not_found_text m \<and> objects s' = objects s))
   \<and> (\<forall>key s. \<exists>s'. sa_delete_object A bucket key s = (Inr (), s') \<and> objects s' = (objects s)(key := None))"

lemma s3_behavesD:
  assumes "s3_behaves A bucket objects"
  shows "\<exists>s'. sa_put_object A bucket key d s = (Inr (), s') \<and> objects s' = (objects s)(key \<mapsto> d)"
    and "objects s key = Some d \<Longrightarrow>
      \<exists>r s1 s2. sa_get_object A bucket key s = (Inr r, s1) \<and> sa_collect A r s1 = (Inr d, s2) \<and> objects s2 = objects s"
    and "objects s key = None \<Longrightarrow>
      \<exists>m s'. sa_get_object A bucket key s = (Inl (Err m), s') \<and> not_found_text m \<and> objects s' = objects s"
    and "objects s key \<noteq> None \<Longrightarrow> \<exists>s'. sa_head_object A bucket key s = (Inr (), s') \<and> objects s' = objects s"
    and "objects s key = None \<Longrightarrow>
      \<exists>m s'. sa_head_object A bucket key s = (Inl (Err m), s') \<and> not_found_text m \<and> objects s' = objects s"
    and "\<exists>s'. sa_delete_object A bucket key s = (Inr (), s') \<and> objects s' = (objects s)(key := None)"
  using assms unfolding s3_behaves_def by blast+

definition s3_view :: "('s \<Rightarrow> string \<Rightarrow> bytes option) \<Rightarrow> s3_config \<Rightarrow> 's \<Rightarrow> string \<Rightarrow> bytes option" where
  "s3_view objects c s h = objects s (s3_key c h)"

definition s3_ready :: "(string \<Rightarrow> string option \<Rightarrow> ('s, 'b) s3_api) \<Rightarrow> ('s \<Rightarrow> string \<Rightarrow> bytes option) \<Rightarrow> s3_config \<Rightarrow> 's \<Rightarrow> bool" where
  "s3_ready connect objects c s \<longleftrightarrow> s3_behaves (s3_client connect c) (s3_bucket c) objects"

lemma s3_key_inj: "s3_key c g = s3_key c h \<longleftrightarrow> g = h"
  by (simp add: s3_key_def)

lemma s3_view_update: "objects s' = (objects s)(s3_key c h := v) \<Longrightarrow> s3_view objects c s' = (s3_view objects c s)(h := v)"
  by (auto simp: s3_view_def fun_eq_iff s3_key_inj)

lemma s3_view_same: "objects s' = objects s \<Longrightarrow> s3_view objects c s' = s3_view objects c s"
  by (simp add: s3_view_def fun_eq_iff)

interpretation s3_blobs: content_store "s3_storage connect c" "s3_ready connect objects c" "s3_view objects c"
  for connect c objects
proof unfold_locales
  fix s h d assume "s3_ready connect objects c s"
  then have B: "s3_behaves (s3_client connect c) (s3_bucket c) objects" by (simp add: s3_ready_def)
  have ready: "s3_ready connect objects c s'" for s' using B by (simp add: s3_ready_def)
  obtain s1 where s1: "sa_put_object (s3_client connect c) (s3_bucket c) (s3_key c h) d s = (Inr (), s1)"
      "objects s1 = (objects s)(s3_key c h \<mapsto> d)"
    using s3_behavesD(1) [OF B] by blast
  then show "\<exists>p s'. st_put (s3_storage connect c) h d s = (Inr p, s') \<and> s3_ready connect objects c s'
      \<and> s3_view objects c s' = (s3_view objects c s)(h \<mapsto> d)"
    using ready s3_view_update [OF s1(2)] by (simp add: s3_storage_def s3_put_def map_error_def bind_io_def)
  obtain s2 where s2: "sa_delete_object (s3_client connect c) (s3_bucket c) (s3_key c h) s = (Inr (), s2)"
      "objects s2 = (objects s)(s3_key c h := None)"
    using s3_behavesD(6) [OF B] by blast
  then show "\<exists>s'. st_delete (s3_storage connect c) h s = (Inr (), s') \<and> s3_ready connect objects c s'
      \<and> s3_view objects c s' = (s3_view objects c s)(h := None)"
    using ready s3_view_update [OF s2(2)] by (simp add: s3_storage_def s3_delete_def map_error_def)
  show "\<exists>s'. st_get (s3_storage connect c) h s = (Inr (s3_view objects c s h), s') \<and> s3_ready connect objects c s'
      \<and> s3_view objects c s' = s3_view objects c s"
  proof (cases "objects s (s3_key c h)")
    case None
    then obtain m s' where "sa_get_object (s3_client connect c) (s3_bucket c) (s3_key c h) s = (Inl (Err m), s')"
        "not_found_text m" "objects s' = objects s"
      using s3_behavesD(3) [OF B] by blast
    then show ?thesis
      using None ready s3_view_same [of objects s' s c] by (simp add: s3_storage_def s3_get_def) (simp add: s3_view_def)
  next
    case (Some x)
    then obtain r s' s'' where "sa_get_object (s3_client connect c) (s3_bucket c) (s3_key c h) s = (Inr r, s')"
        "sa_collect (s3_client connect c) r s' = (Inr x, s'')" "objects s'' = objects s"
      using s3_behavesD(2) [OF B] by blast
    then show ?thesis
      using Some ready s3_view_same [of objects s'' s c]
      by (simp add: s3_storage_def s3_get_def map_error_def bind_io_def) (simp add: s3_view_def)
  qed
  show "\<exists>s'. st_exists (s3_storage connect c) h s = (Inr (s3_view objects c s h \<noteq> None), s') \<and> s3_ready connect objects c s'
      \<and> s3_view objects c s' = s3_view objects c s"
  proof (cases "objects s (s3_key c h) = None")
    case True
    then obtain m s' where "sa_head_object (s3_client connect c) (s3_bucket c) (s3_key c h) s = (Inl (Err m), s')"
        "not_found_text m" "objects s' = objects s"
      using s3_behavesD(5) [OF B] by blast
    then show ?thesis
      using True ready s3_view_same [of objects s' s c] by (simp add: s3_storage_def s3_exists_def) (simp add: s3_view_def)
  next
    case False
    then obtain s' where "sa_head_object (s3_client connect c) (s3_bucket c) (s3_key c h) s = (Inr (), s')" "objects s' = objects s"
      using s3_behavesD(4) [OF B] by blast
    then show ?thesis
      using False ready s3_view_same [of objects s' s c] by (simp add: s3_storage_def s3_exists_def) (simp add: s3_view_def)
  qed
qed

section \<open>Properties\<close>


text \<open>On the threads that serve requests every S3 operation panics, whatever the bucket holds.\<close>

lemma s3_panics_when_serving: "block_on Async_task (st_put (s3_storage connect c) h d) s = (Panics, s)"
  "block_on Async_task (st_get (s3_storage connect c) h) s = (Panics, s)"
  by (simp_all add: block_on_def panic_def)

text \<open>An error text without the two words makes a missing object an error, not an absence.\<close>

lemma s3_other_texts:
  assumes "sa_get_object (s3_client connect c) (s3_bucket c) (s3_key c h) s = (Inl (Err m), s')" and "\<not> not_found_text m"
  shows "s3_get connect c h s = (Inl (Err (''S3 get failed: '' @ m)), s')"
  using assms by (simp add: s3_get_def)

text \<open>The GCS backend ignores bucket and prefix: what is put in one bucket is found in every other.\<close>

lemma gcs_buckets_share:
  assumes "gcs_ready var s" and "blob_name h"
  shows "\<exists>p s'. gcs_put c1 var h d s = (Inr p, s') \<and> gcs_get c2 var h s' = (Inr (Some d), s')"
  using gcs_ready_put [OF assms, of c1 d] gcs_ready_get [OF _ assms(2)] by fastforce

definition toy_s3 :: "string \<Rightarrow> string option \<Rightarrow> ((string \<times> bytes) list, bytes) s3_api" where
  "toy_s3 region endpoint =
     \<lparr>sa_put_object = (\<lambda>_ key d s. (Inr (), AList.update key d s)),
      sa_get_object = (\<lambda>_ key s. case map_of s key of Some d \<Rightarrow> (Inr d, s) | None \<Rightarrow> (Inl (Err ''NoSuchKey''), s)),
      sa_collect = (\<lambda>d s. (Inr d, s)),
      sa_head_object = (\<lambda>_ key s. case map_of s key of Some d \<Rightarrow> (Inr (), s) | None \<Rightarrow> (Inl (Err ''NotFound''), s)),
      sa_delete_object = (\<lambda>_ key s. (Inr (), AList.delete key s))\<rparr>"

lemma toy_s3_behaves: "s3_behaves (toy_s3 r e) b map_of"
proof -
  have "not_found_text ''NoSuchKey''" "not_found_text ''NotFound''" by code_simp+
  then show ?thesis
    unfolding s3_behaves_def toy_s3_def by (auto simp: update_conv' delete_conv' split: option.splits)
qed


end
