(* ===== verification/Reapi.thy ===== *)
theory Reapi
  imports Redis Commands
begin

text \<open>
  \<open>src/src/remote_exec/reapi.rs\<close>: the gRPC services of remote execution over a remote cache and a scheduler. The message
  types are generated from \<open>proto/memobuild/v1\<close>; their fields that the code reads or sets are written out. JSON, the clock
  and the identifiers of executions are parameters, and so is the order in which spawned tasks run. Both services use
  \<open>get_cached_action_result\<close>, which the source defines on one of them only.
\<close>

section \<open>Statuses and stored results\<close>

datatype grpc_status =
    Invalid_argument string
  | Internal string
  | Status_not_found string
  | Unimplemented string

definition as_status :: "'a result \<times> 's \<Rightarrow> (grpc_status + 'a) \<times> 's" where
  "as_status = apfst (\<lambda>r. case r of Inl (Err e) \<Rightarrow> Inl (Internal (''Cache error: '' @ e)) | Inr a \<Rightarrow> Inr a)"

record action_json =
  ra_print :: "action_result \<Rightarrow> bytes option"
  ra_parse :: "bytes \<Rightarrow> action_result option"

definition result_cache_key :: "string \<Rightarrow> string" where
  "result_cache_key action_digest = ''reapi-action-result/'' @ action_digest"

definition get_cached_action_result ::
    "'r remote_cache \<Rightarrow> action_json \<Rightarrow> string \<Rightarrow> 'r \<Rightarrow> (grpc_status + action_result option) \<times> 'r" where
  "get_cached_action_result C Z action_digest s =
     (case rc_get C (result_cache_key action_digest) s of
        (Inr (Some payload), s1) \<Rightarrow>
          (case ra_parse Z payload of
             Some r \<Rightarrow> (Inr (Some r), s1)
           | None \<Rightarrow> (Inl (Internal ''Failed to deserialize cached action result''), s1))
      | (Inr None, s1) \<Rightarrow> (Inr None, s1)
      | (Inl (Err e), s1) \<Rightarrow> (Inl (Internal (''Cache error: '' @ e)), s1))"

definition put_cached_action_result ::
    "'r remote_cache \<Rightarrow> action_json \<Rightarrow> string \<Rightarrow> action_result \<Rightarrow> 'r \<Rightarrow> (grpc_status + unit) \<times> 'r" where
  "put_cached_action_result C Z action_digest r s =
     (case ra_print Z r of
        None \<Rightarrow> (Inl (Internal ''Failed to serialize action result''), s)
      | Some payload \<Rightarrow> as_status (rc_put C (result_cache_key action_digest) payload s))"

section \<open>The execution service\<close>

record ('r, 'x) reapi_state =
  rp_cache :: 'r
  rp_scheduler :: 'x
  rp_active :: "string list"

text \<open>\<open>str::parse\<close> of an \<open>i64\<close>.\<close>

definition parse_i64 :: "string \<Rightarrow> int option" where
  "parse_i64 s =
     (case (case s of
              [] \<Rightarrow> (False, [])
            | c # t \<Rightarrow> if c = CHR ''-'' then (True, t) else if c = CHR ''+'' then (False, t) else (False, s)) of
        (neg, ds) \<Rightarrow>
          if ds = [] then None
          else (case digits_value 0 ds of
                  None \<Rightarrow> None
                | Some n \<Rightarrow> (let v = (if neg then - int n else int n) in if - (2 ^ 63) \<le> v \<and> v < 2 ^ 63 then Some v else None)))"

definition parse_action_digest :: "string \<Rightarrow> grpc_status + cas_digest" where
  "parse_action_digest d =
     (case split_on CHR ''/'' d of
        [hash, n] \<Rightarrow>
          (case parse_i64 n of
             Some k \<Rightarrow> Inr \<lparr>cd_hash = hash, cd_size_bytes = k\<rparr>
           | None \<Rightarrow> Inl (Invalid_argument ''Invalid digest size''))
      | _ \<Rightarrow> Inl (Invalid_argument ''Invalid action digest format''))"

definition placeholder_action :: "cas_digest \<Rightarrow> action_request" where
  "placeholder_action d =
     \<lparr>ar_command = [''/bin/sh'', ''-c'', ''echo '' @ [CHR 0x27] @ ''placeholder'' @ [CHR 0x27]], ar_env = [],
      ar_input_root_digest = d, ar_timeout_secs = 300, ar_platform_properties = [], ar_output_files = [],
      ar_output_directories = []\<rparr>"

datatype exec_event =
    Exec_started int
  | Exec_stdout bytes
  | Exec_stderr bytes
  | Exec_exit int
  | Exec_failed grpc_status

datatype execute_answer =
    Rejected grpc_status
  | From_cache "exec_event list"
  | Spawned string cas_digest

text \<open>\<open>execute\<close> up to the point where the task is spawned: an error of the cache counts as a miss.\<close>

definition begin_execute ::
    "'r remote_cache \<Rightarrow> action_json \<Rightarrow> string \<Rightarrow> string \<Rightarrow> ('r, 'x) reapi_state \<Rightarrow> execute_answer \<times> ('r, 'x) reapi_state" where
  "begin_execute C Z execution_id action_digest st =
     (case parse_action_digest action_digest of
        Inl e \<Rightarrow> (Rejected e, st)
      | Inr d \<Rightarrow>
          (case get_cached_action_result C Z (cd_hash d) (rp_cache st) of
             (Inr (Some r), c1) \<Rightarrow> (From_cache [Exec_exit (ac_exit_code r)], st\<lparr>rp_cache := c1\<rparr>)
           | (_, c1) \<Rightarrow> (Spawned execution_id d, st\<lparr>rp_cache := c1\<rparr>)))"

text \<open>The spawned task.\<close>

definition result_events :: "action_result \<Rightarrow> exec_event list" where
  "result_events r =
     (if ac_stdout_raw r = [] then [] else [Exec_stdout (ac_stdout_raw r)])
     @ (if ac_stderr_raw r = [] then [] else [Exec_stderr (ac_stderr_raw r)]) @ [Exec_exit (ac_exit_code r)]"

definition run_execution ::
    "'r remote_cache \<Rightarrow> action_json \<Rightarrow> 'x remote_executor \<Rightarrow> int \<Rightarrow> string \<Rightarrow> cas_digest \<Rightarrow> ('r, 'x) reapi_state
      \<Rightarrow> exec_event list \<times> ('r, 'x) reapi_state" where
  "run_execution C Z ex now execution_id d st =
     (case ex (placeholder_action d) (rp_scheduler st) of
        (Inr r, x1) \<Rightarrow>
          (Exec_started now # result_events r,
           st\<lparr>rp_scheduler := x1,
             rp_cache := snd (rc_put C (result_cache_key (cd_hash d))
                               (case ra_print Z r of Some p \<Rightarrow> p | None \<Rightarrow> []) (rp_cache st)),
             rp_active := removeAll execution_id (rp_active st)\<rparr>)
      | (Inl (Err e), x1) \<Rightarrow>
          ([Exec_started now, Exec_failed (Internal (''Execution failed: '' @ e))],
           st\<lparr>rp_scheduler := x1, rp_active := removeAll execution_id (rp_active st)\<rparr>))"

definition store_handle :: "string \<Rightarrow> ('r, 'x) reapi_state \<Rightarrow> ('r, 'x) reapi_state" where
  "store_handle execution_id st = st\<lparr>rp_active := List.insert execution_id (rp_active st)\<rparr>"

text \<open>The handler stores the handle of the task after spawning it: the task may end before or after that.\<close>

datatype spawn_order = Handle_first | Task_first

definition execute_to_end ::
    "'r remote_cache \<Rightarrow> action_json \<Rightarrow> 'x remote_executor \<Rightarrow> int \<Rightarrow> spawn_order \<Rightarrow> string \<Rightarrow> string \<Rightarrow> ('r, 'x) reapi_state
      \<Rightarrow> (grpc_status + exec_event list) \<times> ('r, 'x) reapi_state" where
  "execute_to_end C Z ex now order execution_id action_digest st =
     (case begin_execute C Z execution_id action_digest st of
        (Rejected e, st1) \<Rightarrow> (Inl e, st1)
      | (From_cache evs, st1) \<Rightarrow> (Inr evs, st1)
      | (Spawned i d, st1) \<Rightarrow>
          (case order of
             Handle_first \<Rightarrow> (case run_execution C Z ex now i d (store_handle i st1) of (evs, st2) \<Rightarrow> (Inr evs, st2))
           | Task_first \<Rightarrow> (case run_execution C Z ex now i d st1 of (evs, st2) \<Rightarrow> (Inr evs, store_handle i st2))))"

definition wait_execution :: "grpc_status + exec_event list" where
  "wait_execution = Inl (Unimplemented ''WaitExecution not implemented'')"

definition execution_done :: "string \<Rightarrow> ('r, 'x) reapi_state \<Rightarrow> bool" where
  "execution_done operation_name st \<longleftrightarrow> operation_name \<notin> set (rp_active st)"

section \<open>The cache service\<close>

record proto_action_result =
  pr_action_digest :: string
  pr_exit_code :: int
  pr_stdout :: "(string \<times> int) option"
  pr_stderr :: "(string \<times> int) option"
  pr_execution_info :: "(int \<times> int \<times> string) option"

definition stream_file :: "(bytes \<Rightarrow> string) \<Rightarrow> bytes \<Rightarrow> string \<times> int" where
  "stream_file sha256 d = (''sha256:'' @ sha256 d, int (length d))"

definition get_action_result ::
    "'r remote_cache \<Rightarrow> action_json \<Rightarrow> (bytes \<Rightarrow> string) \<Rightarrow> string \<Rightarrow> 'r \<Rightarrow> (grpc_status + proto_action_result) \<times> 'r" where
  "get_action_result C Z sha256 action_digest s =
     (case get_cached_action_result C Z action_digest s of
        (Inr (Some r), s1) \<Rightarrow>
          (Inr \<lparr>pr_action_digest = action_digest, pr_exit_code = ac_exit_code r,
             pr_stdout = Some (stream_file sha256 (ac_stdout_raw r)), pr_stderr = Some (stream_file sha256 (ac_stderr_raw r)),
             pr_execution_info = Some (case xm_worker_start_timestamp (ac_execution_metadata r) of Some t \<Rightarrow> t | None \<Rightarrow> 0,
               case xm_worker_completed_timestamp (ac_execution_metadata r) of Some t \<Rightarrow> t | None \<Rightarrow> 0,
               xm_worker_id (ac_execution_metadata r))\<rparr>, s1)
      | (Inr None, s1) \<Rightarrow> (Inl (Status_not_found ''Action result not found''), s1)
      | (Inl e, s1) \<Rightarrow> (Inl (Internal ''Cache error''), s1))"

definition update_action_result ::
    "'r remote_cache \<Rightarrow> action_json \<Rightarrow> proto_action_result \<Rightarrow> 'r \<Rightarrow> (grpc_status + bool) \<times> 'r" where
  "update_action_result C Z p s =
     (case put_cached_action_result C Z (pr_action_digest p)
        \<lparr>ac_output_files = [], ac_exit_code = pr_exit_code p, ac_stdout_raw = [], ac_stderr_raw = [],
         ac_execution_metadata =
           \<lparr>xm_worker_id = (case pr_execution_info p of Some (a, b, w) \<Rightarrow> w | None \<Rightarrow> []),
            xm_queued_timestamp = None,
            xm_worker_start_timestamp = map_option (\<lambda>(a, b, w). a) (pr_execution_info p),
            xm_worker_completed_timestamp = map_option (\<lambda>(a, b, w). b) (pr_execution_info p)\<rparr>\<rparr> s of
        (Inr u, s1) \<Rightarrow> (Inr True, s1)
      | (Inl e, s1) \<Rightarrow> (Inl (Internal ''Cache error''), s1))"

fun missing_blobs :: "'r remote_cache \<Rightarrow> string list \<Rightarrow> ('r, string list) io" where
  "missing_blobs C [] = ret []"
| "missing_blobs C (h # hs) =
     bind_io (rc_has C h) (\<lambda>held. bind_io (missing_blobs C hs) (\<lambda>ms. ret (if held then ms else h # ms)))"

definition find_missing_blobs :: "'r remote_cache \<Rightarrow> string list \<Rightarrow> 'r \<Rightarrow> (grpc_status + string list) \<times> 'r" where
  "find_missing_blobs C blob_digests s = as_status (missing_blobs C blob_digests s)"

text \<open>\<open>batch_read_blobs\<close>: one task per digest; \<open>sched\<close> is the order they run in. A channel of capacity zero panics.\<close>

definition read_answer :: "string \<Rightarrow> bytes option result \<Rightarrow> grpc_status + string \<times> bytes" where
  "read_answer digest r =
     (case r of
        Inr (Some d) \<Rightarrow> Inr (digest, d)
      | Inr None \<Rightarrow> Inl (Status_not_found (''Blob '' @ digest @ '' not found''))
      | Inl (Err e) \<Rightarrow> Inl (Internal (''Cache error: '' @ e)))"

fun read_blobs :: "'r remote_cache \<Rightarrow> string list \<Rightarrow> 'r \<Rightarrow> (grpc_status + string \<times> bytes) list \<times> 'r" where
  "read_blobs C [] s = ([], s)"
| "read_blobs C (h # hs) s =
     (case rc_get C h s of (r, s1) \<Rightarrow> case read_blobs C hs s1 of (as, s2) \<Rightarrow> (read_answer h r # as, s2))"

definition batch_read_blobs ::
    "'r remote_cache \<Rightarrow> (string list \<Rightarrow> string list) \<Rightarrow> string list \<Rightarrow> 'r \<Rightarrow> (grpc_status + string \<times> bytes) list outcome \<times> 'r" where
  "batch_read_blobs C sched blob_digests s =
     (if blob_digests = [] then (Panics, s) else apfst Returns (read_blobs C (sched blob_digests) s))"

fun update_blobs :: "'r remote_cache \<Rightarrow> (string \<times> bytes) list \<Rightarrow> ('r, (string \<times> bool) list) io" where
  "update_blobs C [] = ret []"
| "update_blobs C ((h, d) # bs) =
     bind_io (rc_has C h) (\<lambda>already_cached.
     bind_io (if already_cached then ret () else rc_put C h d) (\<lambda>_.
     bind_io (update_blobs C bs) (\<lambda>ds. ret ((h, already_cached) # ds))))"

definition batch_update_blobs ::
    "'r remote_cache \<Rightarrow> (string \<times> bytes) list \<Rightarrow> 'r \<Rightarrow> (grpc_status + (string \<times> bool) list) \<times> 'r" where
  "batch_update_blobs C blobs s = as_status (update_blobs C blobs s)"

definition get_tree :: "grpc_status + unit" where
  "get_tree = Inl (Unimplemented ''GetTree not implemented'')"

section \<open>What the services need of the cache\<close>

locale blob_cache_laws = remote_cache_laws +
  assumes has_reads: "rinv s \<Longrightarrow> rc_has rc h s = (r, s') \<Longrightarrow> rinv s' \<and> blob_of s' = blob_of s \<and> (\<forall>b. r = Inr b \<longrightarrow> b = (blob_of s h \<noteq> None))"
    and put_writes: "rinv s \<Longrightarrow> rc_put rc h d s = (Inr (), s') \<Longrightarrow> rinv s' \<and> blob_of s' = (blob_of s)(h \<mapsto> d)"
    and all_valid: "rvalid h"
begin

lemma update_blobs_done:
  "rinv s \<Longrightarrow> update_blobs rc bs s = (Inr ds, s')
    \<Longrightarrow> rinv s' \<and> map fst ds = map fst bs \<and> blob_of s' = map_of bs ++ blob_of s"
proof (induction bs arbitrary: s ds)
  case (Cons b bs)
  obtain h d where b: "b = (h, d)" by (rule prod.exhaust)
  obtain held s1 u s2 es where s1: "rc_has rc h s = (Inr held, s1)"
    and s2: "(if held then ret () else rc_put rc h d) s1 = (Inr u, s2)"
    and s3: "update_blobs rc bs s2 = (Inr es, s')" and ds: "ds = (h, held) # es"
    using Cons.prems(2) unfolding b update_blobs.simps bind_io_Ok_iff ret_def by (elim exE conjE) auto
  have r1: "rinv s1" "blob_of s1 = blob_of s" "held = (blob_of s h \<noteq> None)"
    using has_reads [OF Cons.prems(1) s1] by auto
  have r2: "rinv s2 \<and> blob_of s2 = (if held then blob_of s else (blob_of s)(h \<mapsto> d))"
    using s2 r1 put_writes [OF r1(1), of h d s2] by (cases held) auto
  have "rinv s' \<and> map fst es = map fst bs \<and> blob_of s' = map_of bs ++ blob_of s2"
    using Cons.IH [OF _ s3] r2 by blast
  moreover have "map_of bs ++ (if held then blob_of s else (blob_of s)(h \<mapsto> d)) = map_of (b # bs) ++ blob_of s"
    using r1(3) by (auto simp: b fun_eq_iff map_add_def split: option.splits)
  ultimately show ?case using r2 by (simp add: ds b fun_upd_def)
qed simp

lemma missing_blobs_done:
  "rinv s \<Longrightarrow> missing_blobs rc hs s = (Inr ms, s') \<Longrightarrow> rinv s' \<and> blob_of s' = blob_of s \<and> ms = filter (\<lambda>h. blob_of s h = None) hs"
proof (induction hs arbitrary: s ms)
  case (Cons h hs)
  obtain held s1 ns where s1: "rc_has rc h s = (Inr held, s1)" and s2: "missing_blobs rc hs s1 = (Inr ns, s')"
    and ms: "ms = (if held then ns else h # ns)"
    using Cons.prems(2) unfolding missing_blobs.simps bind_io_Ok_iff ret_def by (elim exE conjE) auto
  have "rinv s1" "blob_of s1 = blob_of s" "held = (blob_of s h \<noteq> None)"
    using has_reads [OF Cons.prems(1) s1] by auto
  with Cons.IH [OF _ s2] show ?case by (simp add: ms)
qed simp

lemma read_blobs_done:
  "rinv s \<Longrightarrow> read_blobs rc hs s = (as, s') \<Longrightarrow> rinv s' \<and> blob_of s' = blob_of s
    \<and> list_all2 (\<lambda>h a. a = read_answer h (Inr (blob_of s h)) \<or> (\<exists>m. a = Inl (Internal m))) hs as"
proof (induction hs arbitrary: s as)
  case (Cons h hs)
  obtain r s1 where s1: "rc_get rc h s = (r, s1)" by (rule prod.exhaust)
  obtain bs s2 where s2: "read_blobs rc hs s1 = (bs, s2)" by (rule prod.exhaust)
  have "s2 = s'" "as = read_answer h r # bs" using Cons.prems(2) s1 s2 by simp_all
  note s2 = s2 [unfolded this(1)] and as = this(2)
  have frame: "rinv s1 \<and> blob_of s1 = blob_of s" using get_frame [OF Cons.prems(1) all_valid s1] by blast
  have "read_answer h r = read_answer h (Inr (blob_of s h)) \<or> (\<exists>m. read_answer h r = Inl (Internal m))"
  proof (cases r)
    case (Inl e)
    then show ?thesis by (cases e) (simp add: read_answer_def)
  next
    case (Inr v)
    then show ?thesis using get_ok [OF Cons.prems(1) all_valid] s1 by simp
  qed
  then show ?case using Cons.IH [OF _ s2] frame by (auto simp: as)
qed simp

end

interpretation redis_blobs: blob_cache_laws "redis_remote_cache R Z c" "\<lambda>s. redis_steady R Z c kv"
  "\<lambda>s h. kv s (layer_key c h)" "\<lambda>s. redis_nodes Z c (kv s)" "\<lambda>s h. kv s (blob_key c h)" "\<lambda>h. True"
  for R :: "'c redis_api" and Z c kv
proof unfold_locales
  fix s s' :: 'c and h :: string
  assume st: "redis_steady R Z c kv"
  then have b: "redis_behaves R kv" by (simp add: redis_steady_def)
  { fix r assume "rc_has (redis_remote_cache R Z c) h s = (r, s')"
    then have "rd_exists R (blob_key c h) s = (r, s')" by (simp add: redis_remote_cache_def redis_has_def)
    from exists_reads [OF b this] st
    show "redis_steady R Z c kv \<and> (\<lambda>h. kv s' (blob_key c h)) = (\<lambda>h. kv s (blob_key c h))
        \<and> (\<forall>b. r = Inr b \<longrightarrow> b = (kv s (blob_key c h) \<noteq> None))" by simp }
  { fix d assume "rc_put (redis_remote_cache R Z c) h d s = (Inr (), s')"
    then have "kv s' = (kv s)(blob_key c h \<mapsto> d)"
      using steady_set [OF st] by (simp add: redis_remote_cache_def redis_put_def)
    then show "redis_steady R Z c kv \<and> (\<lambda>h. kv s' (blob_key c h)) = (\<lambda>h. kv s (blob_key c h))(h \<mapsto> d)"
      using st by (simp add: fun_eq_iff keys_inj) }
qed simp

section \<open>Properties\<close>


text \<open>The content of an action is never looked at: whatever digest is sent, the scheduler gets the same command.\<close>

lemma action_text_ignored: "ar_command (placeholder_action d) = ar_command (placeholder_action d')"
  "ar_env (placeholder_action d) = []" "ar_output_files (placeholder_action d) = []"
  by (simp_all add: placeholder_action_def)

text \<open>When the task ends before its handle is stored, the operation is reported as running for ever after.\<close>

lemma finished_execution_stays_active:
  assumes "begin_execute C Z i digest st = (Spawned i d, st1)"
  shows "\<not> execution_done i (snd (execute_to_end C Z ex now Task_first i digest st))"
    and "execution_done i (snd (execute_to_end C Z ex now Handle_first i digest st))"
  using assms
  by (auto simp: execute_to_end_def execution_done_def store_handle_def run_execution_def split: prod.splits sum.splits err.splits)

lemma empty_batch_read_panics: "batch_read_blobs C sched [] s = (Panics, s)"
  by (simp add: batch_read_blobs_def)

text \<open>The result of an execution is stored under the hash of the action's digest; a client that asks for the digest it
  sent asks for another key.\<close>

lemma split_acc_without: "c \<notin> set v \<Longrightarrow> w \<in> set (split_acc c v s) \<Longrightarrow> c \<notin> set w"
proof (induction s arbitrary: v)
  case (Cons a s)
  show ?case
  proof (cases "a = c")
    case True
    then show ?thesis using Cons.prems Cons.IH [of "[]"] by auto
  next
    case False
    then show ?thesis using Cons.prems Cons.IH [of "v @ [a]"] by simp
  qed
qed simp

lemma result_stored_elsewhere:
  assumes "parse_action_digest digest = Inr d"
  shows "result_cache_key (cd_hash d) \<noteq> result_cache_key digest"
proof -
  obtain h n where parts: "split_on CHR ''/'' digest = [h, n]" and h: "cd_hash d = h"
    using assms by (auto simp: parse_action_digest_def split: list.splits option.splits)
  have "CHR ''/'' \<notin> set h"
    using split_acc_without [of "CHR ''/''" "[]" h digest] parts by (simp add: split_on_def)
  moreover have "CHR ''/'' \<in> set digest"
    using parts split_acc_plain [of "CHR ''/''" digest "[]"] by (auto simp: split_on_def)
  ultimately show ?thesis by (auto simp: result_cache_key_def h)
qed

text \<open>What was executed once is answered from the cache: no scheduler is asked, also by a process started later.\<close>

lemma executed_answered_from_cache:
  assumes "parse_action_digest digest = Inr d"
    and "rc_get C (result_cache_key (cd_hash d)) c = (Inr (Some p), c1)" and "ra_parse Z p = Some r"
  shows "execute_to_end C Z ex now order i digest \<lparr>rp_cache = c, rp_scheduler = x, rp_active = a\<rparr>
    = (Inr [Exec_exit (ac_exit_code r)], \<lparr>rp_cache = c1, rp_scheduler = x, rp_active = a\<rparr>)"
  using assms by (simp add: execute_to_end_def begin_execute_def get_cached_action_result_def)


end
