(* ===== verification/Secrets.thy ===== *)
theory Secrets
  imports Prelude
begin

text \<open>
  \<open>src/src/secrets.rs\<close>: providers of secrets. Each provider acts on its own part of the state: the environment of the
  process, a Vault server behind its client library (the record \<open>vault_api\<close>), or nothing at all.
\<close>

section \<open>Providers\<close>

text \<open>\<open>std::env\<close>: variables by name. Setting one panics on an empty name and on the characters that cannot be stored.\<close>

type_synonym environment = "string \<Rightarrow> string option"

definition set_var :: "string \<Rightarrow> string \<Rightarrow> (environment, unit) pio" where
  "set_var k v =
     (if k = [] \<or> CHR ''='' \<in> set k \<or> CHR 0x00 \<in> set k \<or> CHR 0x00 \<in> set v then panic
      else (\<lambda>e. (Returns (Inr ()), e(k \<mapsto> v))))"

definition env_key :: "string \<Rightarrow> string \<Rightarrow> string" where
  "env_key pre key = pre @ ''_'' @ to_uppercase key"

definition env_get :: "string \<Rightarrow> string \<Rightarrow> (environment, string) io" where
  "env_get pre key e =
     (case e (env_key pre key) of Some v \<Rightarrow> (Inr v, e) | None \<Rightarrow> (Inl (Err (''Secret '' @ key @ '' not found'')), e))"

definition env_set :: "string \<Rightarrow> string \<Rightarrow> string \<Rightarrow> (environment, unit) pio" where
  "env_set pre key v = set_var (env_key pre key) v"

definition env_list :: "(environment, string list) io" where
  "env_list = ret []"

record 'v vault_api =
  va_client :: "string \<Rightarrow> string \<Rightarrow> ('v, unit) io"
  va_read :: "string \<Rightarrow> string \<Rightarrow> ('v, (string, string) hashmap) io"
  va_set :: "string \<Rightarrow> string \<Rightarrow> (string, string) hashmap \<Rightarrow> ('v, unit) io"

record vault_provider =
  vp_mount :: string
  vp_path :: string
  vp_token :: string
  vp_address :: string

text \<open>The state of a provider: whether its client was made, and the server.\<close>

record 'v vault_state =
  vs_client :: bool
  vs_server :: 'v

definition vault_new :: "string \<Rightarrow> string \<Rightarrow> string \<Rightarrow> string \<Rightarrow> vault_provider" where
  "vault_new addr token mount path = \<lparr>vp_mount = mount, vp_path = path, vp_token = token, vp_address = addr\<rparr>"

definition on_server :: "('v, 'a) io \<Rightarrow> ('v vault_state, 'a) io" where
  "on_server m = on_part vs_server (\<lambda>v. vs_server_update (\<lambda>_. v)) m"

definition vault_client :: "'v vault_api \<Rightarrow> vault_provider \<Rightarrow> ('v vault_state, unit) io" where
  "vault_client V p s =
     (if vs_client s then (Inr (), s)
      else bind_io (on_server (va_client V (vp_address p) (vp_token p))) (\<lambda>_ s. (Inr (), s\<lparr>vs_client := True\<rparr>)) s)"

definition vault_get :: "'v vault_api \<Rightarrow> vault_provider \<Rightarrow> string \<Rightarrow> ('v vault_state, string) io" where
  "vault_get V p key =
     bind_io (vault_client V p) (\<lambda>_.
     bind_io (on_server (va_read V (vp_mount p) (vp_path p))) (\<lambda>secret.
     case map_of secret key of Some v \<Rightarrow> ret v | None \<Rightarrow> bail (''Secret '' @ key @ '' not found'')))"

text \<open>A read that fails counts as no secrets.\<close>

definition read_or_default :: "'v vault_api \<Rightarrow> vault_provider \<Rightarrow> ('v vault_state, (string, string) hashmap) io" where
  "read_or_default V p s =
     (case on_server (va_read V (vp_mount p) (vp_path p)) s of (Inr m, s1) \<Rightarrow> (Inr m, s1) | (Inl e, s1) \<Rightarrow> (Inr [], s1))"

definition vault_set :: "'v vault_api \<Rightarrow> vault_provider \<Rightarrow> string \<Rightarrow> string \<Rightarrow> ('v vault_state, unit) io" where
  "vault_set V p key v =
     bind_io (vault_client V p) (\<lambda>_.
     bind_io (read_or_default V p) (\<lambda>secret.
     on_server (va_set V (vp_mount p) (vp_path p) (AList.update key v secret))))"

definition vault_list :: "'v vault_api \<Rightarrow> vault_provider \<Rightarrow> ('v vault_state, string list) io" where
  "vault_list V p =
     bind_io (vault_client V p) (\<lambda>_.
     bind_io (on_server (va_read V (vp_mount p) (vp_path p))) (\<lambda>secret. ret (map fst secret)))"

definition aws_get :: "string \<Rightarrow> ('s, string) io" where
  "aws_get key = bail ''AWS KMS get not implemented - use SecretsManager for key storage''"

definition aws_set :: "string \<Rightarrow> string \<Rightarrow> ('s, unit) io" where
  "aws_set key v = bail ''AWS KMS set not implemented - use SecretsManager for key storage''"

definition aws_list :: "('s, string list) io" where
  "aws_list = bail ''AWS KMS list not implemented''"

datatype secret_provider =
    Env_provider string
  | Vault_provider vault_provider
  | Aws_provider string string

definition need_var :: "environment \<Rightarrow> string \<Rightarrow> string result" where
  "need_var e k = (case e k of Some v \<Rightarrow> Inr v | None \<Rightarrow> Inl (Err ''environment variable not found''))"

definition var_or :: "environment \<Rightarrow> string \<Rightarrow> string \<Rightarrow> string" where
  "var_or e k d = (case e k of Some v \<Rightarrow> v | None \<Rightarrow> d)"

definition create_secret_provider :: "environment \<Rightarrow> secret_provider result" where
  "create_secret_provider e =
     (let t = var_or e ''MEMOBUILD_SECRET_PROVIDER'' ''env'' in
      if t = ''vault'' then
        (case need_var e ''MEMOBUILD_VAULT_ADDR'' of
           Inl x \<Rightarrow> Inl x
         | Inr addr \<Rightarrow>
             (case need_var e ''MEMOBUILD_VAULT_TOKEN'' of
                Inl x \<Rightarrow> Inl x
              | Inr token \<Rightarrow>
                  Inr (Vault_provider (vault_new addr token (var_or e ''MEMOBUILD_VAULT_MOUNT'' ''secret'')
                         (var_or e ''MEMOBUILD_VAULT_PATH'' ''memobuild'')))))
      else if t = ''aws'' then
        (case need_var e ''MEMOBUILD_AWS_KMS_KEY_ID'' of
           Inl x \<Rightarrow> Inl x
         | Inr key_id \<Rightarrow> Inr (Aws_provider (var_or e ''MEMOBUILD_AWS_REGION'' ''us-east-1'') key_id))
      else Inr (Env_provider ''memobuild''))"

section \<open>Lemmas\<close>

text \<open>A secret in the environment is read back under every spelling of its name, and no secret is ever listed.\<close>

lemma env_set_get:
  "env_set pre key v e = (Returns (Inr ()), e') \<Longrightarrow> to_uppercase key' = to_uppercase key \<Longrightarrow> env_get pre key' e' = (Inr v, e')"
  by (auto simp: env_set_def set_var_def env_get_def env_key_def split: if_splits)

text \<open>What a Vault server does: reads and clients change nothing, a successful read returns the secrets of the path, a
  successful set replaces them.\<close>

definition vault_behaves :: "'v vault_api \<Rightarrow> ('v \<Rightarrow> string \<Rightarrow> string \<Rightarrow> (string, string) hashmap option) \<Rightarrow> bool" where
  "vault_behaves V secrets \<longleftrightarrow>
     (\<forall>a t s. secrets (snd (va_client V a t s)) = secrets s)
   \<and> (\<forall>m p s r s'. va_read V m p s = (r, s') \<longrightarrow> secrets s' = secrets s \<and> (\<forall>h. r = Inr h \<longrightarrow> secrets s m p = Some h))
   \<and> (\<forall>m p h s s'. va_set V m p h s = (Inr (), s') \<longrightarrow> secrets s' = (secrets s)(m := (secrets s m)(p \<mapsto> h)))"

lemma vault_behavesD:
  assumes "vault_behaves V secrets"
  shows "va_client V a t s = (rc, s') \<Longrightarrow> secrets s' = secrets s"
    and "va_read V m p s = (r, s') \<Longrightarrow> secrets s' = secrets s"
    and "va_read V m p s = (Inr h, s') \<Longrightarrow> secrets s m p = Some h"
    and "va_set V m p h s = (Inr (), s') \<Longrightarrow> secrets s' = (secrets s)(m := (secrets s m)(p \<mapsto> h))"
proof -
  note b = assms [unfolded vault_behaves_def]
  show "va_client V a t s = (rc, s') \<Longrightarrow> secrets s' = secrets s" using b by (metis snd_conv)
  show "va_read V m p s = (r, s') \<Longrightarrow> secrets s' = secrets s" using b by metis
  show "va_read V m p s = (Inr h, s') \<Longrightarrow> secrets s m p = Some h" using b by metis
  show "va_set V m p h s = (Inr (), s') \<Longrightarrow> secrets s' = (secrets s)(m := (secrets s m)(p \<mapsto> h))" using b by metis
qed

lemma on_server_eq: "on_server m s = (fst (m (vs_server s)), s\<lparr>vs_server := snd (m (vs_server s))\<rparr>)"
  by (simp add: on_server_def on_part_apply)

lemma vault_client_keeps:
  assumes "vault_behaves V secrets" and "vault_client V p s = (r, s')"
  shows "secrets (vs_server s') = secrets (vs_server s)"
proof (cases "vs_client s")
  case False
  obtain rc v where c: "va_client V (vp_address p) (vp_token p) (vs_server s) = (rc, v)" by (rule prod.exhaust)
  then have "vs_server s' = v" using False assms(2) by (cases rc) (auto simp: vault_client_def bind_io_def on_server_eq)
  then show ?thesis using vault_behavesD(1) [OF assms(1) c] by simp
qed (use assms(2) in \<open>simp add: vault_client_def\<close>)

lemma read_or_default_keeps:
  assumes "vault_behaves V secrets" and "read_or_default V p s = (Inr m, s')"
  shows "secrets (vs_server s') = secrets (vs_server s)"
    and "m = [] \<or> secrets (vs_server s) (vp_mount p) (vp_path p) = Some m"
proof -
  obtain r v where c: "va_read V (vp_mount p) (vp_path p) (vs_server s) = (r, v)" by (rule prod.exhaust)
  have v: "vs_server s' = v \<and> (case r of Inl e \<Rightarrow> m = [] | Inr h \<Rightarrow> m = h)"
    using assms(2) by (cases r) (auto simp: read_or_default_def on_server_eq c)
  then show "secrets (vs_server s') = secrets (vs_server s)" using vault_behavesD(2) [OF assms(1) c] by simp
  show "m = [] \<or> secrets (vs_server s) (vp_mount p) (vp_path p) = Some m"
    using v c vault_behavesD(3) [OF assms(1), of "vp_mount p" "vp_path p" "vs_server s" _ v] by (cases r) auto
qed

text \<open>Storing a secret in a Vault: afterwards the path holds the new secret beside either all the secrets that were there or,
  after a failed read, none of them; a successful read then returns the stored text.\<close>

theorem vault_set_get:
  assumes "vault_behaves V secrets" and "vault_set V p key v s = (Inr (), s1)" and "vault_get V p k s1 = (Inr x, s2)"
  shows "\<exists>old. (old = [] \<or> secrets (vs_server s) (vp_mount p) (vp_path p) = Some old)
    \<and> secrets (vs_server s1) (vp_mount p) (vp_path p) = Some (AList.update key v old)
    \<and> x = (if k = key then v else the (map_of old k))"
proof -
  obtain t0 old t1 where c: "vault_client V p s = (Inr (), t0)" and r: "read_or_default V p t0 = (Inr old, t1)"
    and w: "on_server (va_set V (vp_mount p) (vp_path p) (AList.update key v old)) t1 = (Inr (), s1)"
    using assms(2) unfolding vault_set_def bind_io_Ok_iff by (elim exE conjE) (rule that, simp_all)
  obtain w1 where "va_set V (vp_mount p) (vp_path p) (AList.update key v old) (vs_server t1) = (Inr (), w1)" "vs_server s1 = w1"
    using w by (cases "va_set V (vp_mount p) (vp_path p) (AList.update key v old) (vs_server t1)") (auto simp: on_server_eq)
  then have now: "secrets (vs_server s1) (vp_mount p) (vp_path p) = Some (AList.update key v old)"
    using vault_behavesD(4) [OF assms(1)] by simp
  obtain t2 m t3 where c2: "vault_client V p s1 = (Inr (), t2)"
    and r2: "on_server (va_read V (vp_mount p) (vp_path p)) t2 = (Inr m, t3)" and x: "map_of m k = Some x"
    using assms(3) unfolding vault_get_def bind_io_Ok_iff by (elim exE conjE) (auto split: option.splits)
  have "va_read V (vp_mount p) (vp_path p) (vs_server t2) = (Inr m, snd (va_read V (vp_mount p) (vp_path p) (vs_server t2)))"
    using r2 by (simp add: on_server_eq prod_eq_iff)
  then have "secrets (vs_server t2) (vp_mount p) (vp_path p) = Some m" by (rule vault_behavesD(3) [OF assms(1)])
  then have "m = AList.update key v old" using now vault_client_keeps [OF assms(1) c2] by simp
  then have "x = (if k = key then v else the (map_of old k))" using x by (auto simp: update_conv' split: if_splits)
  moreover have "old = [] \<or> secrets (vs_server s) (vp_mount p) (vp_path p) = Some old"
    using read_or_default_keeps(2) [OF assms(1) r] vault_client_keeps [OF assms(1) c] by simp
  ultimately show ?thesis using now by blast
qed

text \<open>After a read that failed, the other secrets of the path are gone.\<close>

lemma failed_read_wipes_secrets:
  assumes "vault_behaves V secrets" and "vs_client s" and "va_read V (vp_mount p) (vp_path p) (vs_server s) = (Inl e, t)"
    and "va_set V (vp_mount p) (vp_path p) [(key, v)] t = (Inr (), t')"
  shows "vault_set V p key v s = (Inr (), s\<lparr>vs_server := t'\<rparr>)"
    and "secrets t' (vp_mount p) (vp_path p) = Some [(key, v)]"
  using assms vault_behavesD(4) [OF assms(1,4)]
  by (simp_all add: vault_set_def vault_client_def bind_io_def read_or_default_def on_server_eq)

definition toy_vault :: "(string \<Rightarrow> string \<Rightarrow> (string, string) hashmap option) vault_api" where
  "toy_vault = \<lparr>va_client = (\<lambda>a t s. (Inr (), s)),
     va_read = (\<lambda>m p s. (case s m p of Some h \<Rightarrow> Inr h | None \<Rightarrow> Inl (Err ''404''), s)),
     va_set = (\<lambda>m p h s. (Inr (), s(m := (s m)(p \<mapsto> h))))\<rparr>"

theorem vault_set_get_witness:
  "\<exists>s1. vault_set toy_vault (vault_new ''a'' ''t'' ''m'' ''p'') ''k'' ''x'' \<lparr>vs_client = False, vs_server = (\<lambda>_ _. None)\<rparr> = (Inr (), s1)
     \<and> vs_server s1 ''m'' ''p'' = Some [(''k'', ''x'')]"
proof -
  let ?p = "vault_new ''a'' ''t'' ''m'' ''p''"
  let ?s = "\<lparr>vs_client = False, vs_server = (\<lambda>_ _. None)\<rparr> :: (string \<Rightarrow> string \<Rightarrow> (string, string) hashmap option) vault_state"
  have b: "vault_behaves toy_vault (\<lambda>s. s)"
    by (auto simp: vault_behaves_def toy_vault_def split: option.splits)
  obtain s1 where s1: "vault_set toy_vault ?p ''k'' ''x'' ?s = (Inr (), s1)" "vault_get toy_vault ?p ''k'' s1 = (Inr ''x'', s1)"
    by (simp add: vault_set_def vault_get_def vault_client_def bind_io_def read_or_default_def on_server_eq toy_vault_def vault_new_def ret_def)
  have "vs_server s1 ''m'' ''p'' = Some [(''k'', ''x'')]"
    using vault_set_get [OF b s1] by (auto simp: vault_new_def)
  then show ?thesis using s1(1) by blast
qed

end
