(* ===== verification/Loadtest.thy ===== *)
theory Loadtest
  imports Prelude Complex_Main
begin

text \<open>
  \<open>src/src/loadtest.rs\<close>: the load generator. Its clients share atomic counters; each of the atomic updates of
  \<open>record_operation\<close> is a step of its own, and a schedule says which client moves next. What an operation returns and how
  long it takes is part of the schedule, as is the deadline. A report reads the counters one after the other, and clients that
  were not waited for can move in between. \<open>f64\<close> values are real numbers; a sum of latencies wraps at 64
  bits, as in a release build.
\<close>

section \<open>Counters and reports\<close>

record load_state =
  ls_total :: u64
  ls_successful :: u64
  ls_failed :: u64
  ls_hits :: u64
  ls_misses :: u64
  ls_latencies :: "u64 list"

definition new_load_state :: load_state where
  "new_load_state = \<lparr>ls_total = 0, ls_successful = 0, ls_failed = 0, ls_hits = 0, ls_misses = 0, ls_latencies = []\<rparr>"

definition count_operation :: "load_state \<Rightarrow> load_state" where
  "count_operation s = s\<lparr>ls_total := ls_total s + 1\<rparr>"

definition count_outcome :: "bool \<Rightarrow> load_state \<Rightarrow> load_state" where
  "count_outcome success s =
     (if success then s\<lparr>ls_successful := ls_successful s + 1\<rparr> else s\<lparr>ls_failed := ls_failed s + 1\<rparr>)"

definition count_hit :: "bool \<Rightarrow> load_state \<Rightarrow> load_state" where
  "count_hit hit s = (if hit then s\<lparr>ls_hits := ls_hits s + 1\<rparr> else s\<lparr>ls_misses := ls_misses s + 1\<rparr>)"

definition push_latency :: "u64 \<Rightarrow> load_state \<Rightarrow> load_state" where
  "push_latency ms s = s\<lparr>ls_latencies := ls_latencies s @ [ms]\<rparr>"

definition record_operation :: "u64 \<Rightarrow> bool \<Rightarrow> bool \<Rightarrow> load_state \<Rightarrow> load_state" where
  "record_operation ms success hit s = push_latency ms (count_hit hit (count_outcome success (count_operation s)))"

record load_metrics =
  lm_total :: u64
  lm_successful :: u64
  lm_failed :: u64
  lm_duration_ms :: u64
  lm_min :: u64
  lm_max :: u64
  lm_avg :: u64
  lm_p50 :: u64
  lm_p95 :: u64
  lm_p99 :: u64
  lm_throughput :: real
  lm_hits :: u64
  lm_misses :: u64
  lm_errors_by_type :: "(string, u64) hashmap"

definition new_load_metrics :: load_metrics where
  "new_load_metrics =
     \<lparr>lm_total = 0, lm_successful = 0, lm_failed = 0, lm_duration_ms = 0, lm_min = - 1, lm_max = 0, lm_avg = 0, lm_p50 = 0,
      lm_p95 = 0, lm_p99 = 0, lm_throughput = 0, lm_hits = 0, lm_misses = 0, lm_errors_by_type = []\<rparr>"

text \<open>\<open>get(i).copied().unwrap_or(0)\<close>.\<close>

definition nth_or_zero :: "u64 list \<Rightarrow> nat \<Rightarrow> u64" where
  "nth_or_zero xs i = (if i < length xs then xs ! i else 0)"

text \<open>The arguments are the states in which the total, the successes, the failures, the hits, the misses and the latencies
  are read.\<close>

definition get_metrics :: "load_state \<Rightarrow> load_state \<Rightarrow> load_state \<Rightarrow> load_state \<Rightarrow> load_state \<Rightarrow> load_state \<Rightarrow> u64 \<Rightarrow> load_metrics" where
  "get_metrics s1 s2 s3 s4 s5 s duration_ms =
     (let ls = sort (ls_latencies s); n = length ls in
      \<lparr>lm_total = ls_total s1, lm_successful = ls_successful s2, lm_failed = ls_failed s3, lm_duration_ms = duration_ms,
       lm_min = (if ls = [] then 0 else ls ! 0),
       lm_max = (if ls = [] then 0 else ls ! (n - 1)),
       lm_avg = (if ls = [] then 0 else sum_list ls div of_nat n),
       lm_p50 = nth_or_zero ls (n div 2), lm_p95 = nth_or_zero ls (n * 95 div 100), lm_p99 = nth_or_zero ls (n * 99 div 100),
       lm_throughput = (if duration_ms > 0 then real (unat (ls_total s1)) / (real (unat duration_ms) / 1000) else 0),
       lm_hits = ls_hits s4, lm_misses = ls_misses s5, lm_errors_by_type = []\<rparr>)"

definition cache_hit_rate :: "load_metrics \<Rightarrow> real" where
  "cache_hit_rate m =
     (let total = lm_hits m + lm_misses m in
      if total = 0 then 0 else real (unat (lm_hits m)) / real (unat total) * 100)"

definition success_rate :: "load_metrics \<Rightarrow> real" where
  "success_rate m = (if lm_total m = 0 then 0 else real (unat (lm_successful m)) / real (unat (lm_total m)) * 100)"

definition error_rate :: "load_metrics \<Rightarrow> real" where
  "error_rate m = 100 - success_rate m"

section \<open>The run\<close>

text \<open>A client has some requests left and is between two requests, or inside \<open>record_operation\<close> with its next update.\<close>

datatype client_pc = Between | Next_outcome u64 bool bool | Next_hit u64 bool | Next_latency u64

datatype client = Client nat client_pc

datatype load_event = Operate u64 bool bool | Deadline | Advance

fun client_step :: "load_event \<Rightarrow> client \<Rightarrow> load_state \<Rightarrow> client \<times> load_state" where
  "client_step (Operate ms success hit) (Client (Suc n) Between) s = (Client n (Next_outcome ms success hit), count_operation s)"
| "client_step Deadline (Client n Between) s = (Client 0 Between, s)"
| "client_step Advance (Client n (Next_outcome ms success hit)) s = (Client n (Next_hit ms hit), count_outcome success s)"
| "client_step Advance (Client n (Next_hit ms hit)) s = (Client n (Next_latency ms), count_hit hit s)"
| "client_step Advance (Client n (Next_latency ms)) s = (Client n Between, push_latency ms s)"
| "client_step _ c s = (c, s)"

fun run_clients :: "(nat \<times> load_event) list \<Rightarrow> client list \<times> load_state \<Rightarrow> client list \<times> load_state" where
  "run_clients [] st = st"
| "run_clients ((i, e) # es) (cs, s) =
     (if i < length cs then (case client_step e (cs ! i) s of (c, s') \<Rightarrow> run_clients es (cs[i := c], s'))
      else run_clients es (cs, s))"

definition start_clients :: "nat \<Rightarrow> nat \<Rightarrow> client list \<times> load_state" where
  "start_clients num_clients requests_per_client =
     (replicate num_clients (Client requests_per_client Between), new_load_state)"

text \<open>The first schedule is what happens until every handle was awaited or timed out, the others what happens between two
  reads of the report.\<close>

definition run_load_test ::
  "nat \<Rightarrow> nat \<Rightarrow> (nat \<times> load_event) list \<Rightarrow> (nat \<times> load_event) list \<Rightarrow> (nat \<times> load_event) list \<Rightarrow> (nat \<times> load_event) list
     \<Rightarrow> (nat \<times> load_event) list \<Rightarrow> (nat \<times> load_event) list \<Rightarrow> u64 \<Rightarrow> load_metrics" where
  "run_load_test num_clients requests_per_client es e2 e3 e4 e5 e6 total_ms =
     (let t1 = run_clients es (start_clients num_clients requests_per_client);
          t2 = run_clients e2 t1; t3 = run_clients e3 t2; t4 = run_clients e4 t3; t5 = run_clients e5 t4; t6 = run_clients e6 t5
      in get_metrics (snd t1) (snd t2) (snd t3) (snd t4) (snd t5) (snd t6) total_ms)"

section \<open>Every schedule keeps the counters together\<close>

fun left_of :: "client \<Rightarrow> nat" where "left_of (Client n pc) = n"

fun pc_of :: "client \<Rightarrow> client_pc" where "pc_of (Client n pc) = pc"

definition before_outcome :: "client \<Rightarrow> nat" where
  "before_outcome c = (case pc_of c of Next_outcome ms a b \<Rightarrow> 1 | _ \<Rightarrow> 0)"

definition before_hit :: "client \<Rightarrow> nat" where
  "before_hit c = (case pc_of c of Next_hit ms b \<Rightarrow> 1 | _ \<Rightarrow> 0)"

definition before_latency :: "client \<Rightarrow> nat" where
  "before_latency c = (case pc_of c of Next_latency ms \<Rightarrow> 1 | _ \<Rightarrow> 0)"

definition all_clients :: "(client \<Rightarrow> nat) \<Rightarrow> client list \<Rightarrow> nat" where
  "all_clients f cs = sum_list (map f cs)"

lemma all_clients_update: "i < length cs \<Longrightarrow> all_clients f (cs[i := c]) + f (cs ! i) = all_clients f cs + f c"
  by (induction cs arbitrary: i) (auto simp: all_clients_def nth_Cons split: nat.splits)

definition counters_agree :: "nat \<Rightarrow> client list \<times> load_state \<Rightarrow> bool" where
  "counters_agree N st = (case st of (cs, s) \<Rightarrow>
     unat (ls_total s) = unat (ls_successful s) + unat (ls_failed s) + all_clients before_outcome cs
   \<and> unat (ls_successful s) + unat (ls_failed s) = unat (ls_hits s) + unat (ls_misses s) + all_clients before_hit cs
   \<and> unat (ls_hits s) + unat (ls_misses s) = length (ls_latencies s) + all_clients before_latency cs
   \<and> unat (ls_total s) + all_clients left_of cs \<le> N)"

lemma unat_Suc: "unat x + k < 2 ^ 64 \<Longrightarrow> 0 < k \<Longrightarrow> unat (x + 1) = Suc (unat x)" for x :: u64
  by (subst unat_add_lem [THEN iffD1]) simp_all

lemma all_clients_member: "i < length cs \<Longrightarrow> f (cs ! i) \<le> all_clients f cs"
  using elem_le_sum_list [of i "map f cs"] by (simp add: all_clients_def)

lemmas waiting_defs = before_outcome_def before_hit_def before_latency_def

lemma client_step_agrees:
  assumes "counters_agree N (cs, s)" and "N < 2 ^ 64" and "i < length cs" and "client_step e (cs ! i) s = (c, s')"
  shows "counters_agree N (cs[i := c], s')"
proof -
  obtain n pc where old: "cs ! i = Client n pc" by (cases "cs ! i")
  note upd = all_clients_update [OF assms(3), of before_outcome c] all_clients_update [OF assms(3), of before_hit c]
    all_clients_update [OF assms(3), of before_latency c] all_clients_update [OF assms(3), of left_of c]
  note mem = all_clients_member [OF assms(3), of before_outcome] all_clients_member [OF assms(3), of before_hit]
    all_clients_member [OF assms(3), of left_of]
  note inv = assms(1) [unfolded counters_agree_def prod.case]
  consider (idle) "c = cs ! i" "s' = s"
    | (stop) "pc = Between" "c = Client 0 Between" "s' = s"
    | (start) k ms a b where "pc = Between" "n = Suc k" "c = Client k (Next_outcome ms a b)" "s' = count_operation s"
    | (outcome) ms a b where "pc = Next_outcome ms a b" "c = Client n (Next_hit ms b)" "s' = count_outcome a s"
    | (hit) ms b where "pc = Next_hit ms b" "c = Client n (Next_latency ms)" "s' = count_hit b s"
    | (latency) ms where "pc = Next_latency ms" "c = Client n Between" "s' = push_latency ms s"
    using assms(4) old by (cases e; cases pc; cases n) auto
  then show ?thesis
  proof cases
    case idle
    then show ?thesis using assms(1) by simp
  next
    case stop
    then show ?thesis using inv upd old unfolding counters_agree_def by (simp add: waiting_defs)
  next
    case start
    have "unat (ls_total s + 1) = Suc (unat (ls_total s))"
      using inv mem(3) assms(2) old start(2) by (intro unat_Suc [of _ 1]) simp_all
    then show ?thesis using start inv upd old unfolding counters_agree_def by (simp add: waiting_defs count_operation_def)
  next
    case outcome
    have "unat (ls_successful s) + unat (ls_failed s) + 1 < 2 ^ 64"
      using inv mem(1) assms(2) old outcome(1) by (simp add: waiting_defs)
    then have "unat (ls_successful s + 1) = Suc (unat (ls_successful s))" "unat (ls_failed s + 1) = Suc (unat (ls_failed s))"
      by (intro unat_Suc [of _ 1]; simp)+
    then show ?thesis
      using outcome inv upd old unfolding counters_agree_def by (cases a) (simp_all add: waiting_defs count_outcome_def)
  next
    case hit
    have "unat (ls_hits s) + unat (ls_misses s) + 1 < 2 ^ 64"
      using inv mem(2) assms(2) old hit(1) by (simp add: waiting_defs)
    then have "unat (ls_hits s + 1) = Suc (unat (ls_hits s))" "unat (ls_misses s + 1) = Suc (unat (ls_misses s))"
      by (intro unat_Suc [of _ 1]; simp)+
    then show ?thesis
      using hit inv upd old unfolding counters_agree_def by (cases b) (simp_all add: waiting_defs count_hit_def)
  next
    case latency
    then show ?thesis using inv upd old unfolding counters_agree_def by (simp add: waiting_defs push_latency_def)
  qed
qed

lemma run_clients_agree: "N < 2 ^ 64 \<Longrightarrow> counters_agree N st \<Longrightarrow> counters_agree N (run_clients es st)"
proof (induction es st rule: run_clients.induct)
  case (2 i e es cs s)
  obtain c s' where step: "client_step e (cs ! i) s = (c, s')" by (rule prod.exhaust)
  show ?case
  proof (cases "i < length cs")
    case True
    show ?thesis
      using 2(1) [OF True step [symmetric] 2(3) client_step_agrees [OF 2(4,3) True step]] True step by simp
  next
    case False
    then show ?thesis using 2 by simp
  qed
qed simp

text \<open>Clients that are done move no more.\<close>

definition all_done :: "client list \<Rightarrow> bool" where
  "all_done cs \<longleftrightarrow> (\<forall>c \<in> set cs. c = Client 0 Between)"

lemma done_client_idle: "client_step e (Client 0 Between) s = (Client 0 Between, s)"
  by (cases e) simp_all

lemma run_clients_done: "all_done cs \<Longrightarrow> run_clients es (cs, s) = (cs, s)"
proof (induction es)
  case (Cons e es)
  obtain i x where e: "e = (i, x)" by (rule prod.exhaust)
  show ?case
  proof (cases "i < length cs")
    case True
    then have "cs ! i = Client 0 Between" using Cons.prems by (simp add: all_done_def)
    moreover from this have "cs[i := Client 0 Between] = cs" by (metis list_update_id)
    ultimately show ?thesis using True Cons by (simp add: e done_client_idle)
  next
    case False
    then show ?thesis using Cons by (simp add: e)
  qed
qed simp

section \<open>Reports\<close>

lemma sorted_percentile:
  assumes "sorted xs" and "i \<le> j" and "j < length xs"
  shows "nth_or_zero xs i \<le> nth_or_zero xs j"
  using assms by (simp add: nth_or_zero_def sorted_nth_mono)

lemma sum_of_latencies: "(\<Sum>x\<leftarrow>xs. unat x) < 2 ^ 64 \<Longrightarrow> unat (sum_list xs) = (\<Sum>x\<leftarrow>xs. unat x)" for xs :: "u64 list"
proof (induction xs)
  case (Cons x xs)
  then have "unat (sum_list xs) = (\<Sum>x\<leftarrow>xs. unat x)" by simp
  with Cons.prems show ?case by (simp add: unat_add_lem [THEN iffD1])
qed simp

lemma sum_list_bounds:
  fixes xs :: "nat list"
  assumes "\<forall>x \<in> set xs. a \<le> x \<and> x \<le> b"
  shows "length xs * a \<le> sum_list xs \<and> sum_list xs \<le> length xs * b"
  using assms by (induction xs) auto

lemma percentile_indices:
  fixes n :: nat
  assumes "0 < n"
  shows "n div 2 \<le> n * 95 div 100" and "n * 95 div 100 \<le> n * 99 div 100" and "n * 99 div 100 \<le> n - 1"
    and "n div 2 < n" and "n * 95 div 100 < n" and "n * 99 div 100 < n"
proof -
  have "n div 2 = (50 * n) div (50 * 2)" by (rule div_mult_mult1 [symmetric]) simp
  also have "\<dots> \<le> n * 95 div 100" by (rule order_trans [OF _ div_le_mono [of "50 * n"]]) simp_all
  finally show "n div 2 \<le> n * 95 div 100" .
  show "n * 95 div 100 \<le> n * 99 div 100" by (rule div_le_mono) simp
  show "n div 2 < n" "n * 95 div 100 < n" using assms by (simp_all add: div_less_iff_less_mult)
  show "n * 99 div 100 < n" using assms by (simp add: div_less_iff_less_mult)
  then show "n * 99 div 100 \<le> n - 1" by linarith
qed

lemma report_fields:
  "lm_min (get_metrics s1 s2 s3 s4 s5 s ms) = nth_or_zero (sort (ls_latencies s)) 0"
  "lm_max (get_metrics s1 s2 s3 s4 s5 s ms) = nth_or_zero (sort (ls_latencies s)) (length (ls_latencies s) - 1)"
  "lm_p50 (get_metrics s1 s2 s3 s4 s5 s ms) = nth_or_zero (sort (ls_latencies s)) (length (ls_latencies s) div 2)"
  "lm_p95 (get_metrics s1 s2 s3 s4 s5 s ms) = nth_or_zero (sort (ls_latencies s)) (length (ls_latencies s) * 95 div 100)"
  "lm_p99 (get_metrics s1 s2 s3 s4 s5 s ms) = nth_or_zero (sort (ls_latencies s)) (length (ls_latencies s) * 99 div 100)"
proof -
  have empty: "sort (ls_latencies s) = [] \<longleftrightarrow> ls_latencies s = []" by (metis length_0_conv length_sort)
  show "lm_p50 (get_metrics s1 s2 s3 s4 s5 s ms) = nth_or_zero (sort (ls_latencies s)) (length (ls_latencies s) div 2)"
    "lm_p95 (get_metrics s1 s2 s3 s4 s5 s ms) = nth_or_zero (sort (ls_latencies s)) (length (ls_latencies s) * 95 div 100)"
    "lm_p99 (get_metrics s1 s2 s3 s4 s5 s ms) = nth_or_zero (sort (ls_latencies s)) (length (ls_latencies s) * 99 div 100)"
    by (simp_all only: get_metrics_def Let_def load_metrics.simps length_sort)
  show "lm_min (get_metrics s1 s2 s3 s4 s5 s ms) = nth_or_zero (sort (ls_latencies s)) 0"
    "lm_max (get_metrics s1 s2 s3 s4 s5 s ms) = nth_or_zero (sort (ls_latencies s)) (length (ls_latencies s) - 1)"
    by (simp_all add: get_metrics_def Let_def nth_or_zero_def empty)
qed

lemma percentiles_ordered:
  "lm_min (get_metrics s1 s2 s3 s4 s5 s ms) \<le> lm_p50 (get_metrics s1 s2 s3 s4 s5 s ms)" "lm_p50 (get_metrics s1 s2 s3 s4 s5 s ms) \<le> lm_p95 (get_metrics s1 s2 s3 s4 s5 s ms)"
  "lm_p95 (get_metrics s1 s2 s3 s4 s5 s ms) \<le> lm_p99 (get_metrics s1 s2 s3 s4 s5 s ms)" "lm_p99 (get_metrics s1 s2 s3 s4 s5 s ms) \<le> lm_max (get_metrics s1 s2 s3 s4 s5 s ms)"
proof -
  define ls where "ls = sort (ls_latencies s)"
  define n where "n = length (ls_latencies s)"
  have len: "length ls = n" by (simp add: ls_def n_def)
  have step: "nth_or_zero ls i \<le> nth_or_zero ls j" if "i \<le> j" "0 < n \<Longrightarrow> j < n" for i j
  proof (cases "0 < n")
    case True
    show ?thesis by (rule sorted_percentile) (use that True len in \<open>simp_all add: ls_def\<close>)
  next
    case False
    then show ?thesis using len by (simp add: nth_or_zero_def)
  qed
  have at0: "n = 0 \<Longrightarrow> n div 2 \<le> n * 95 div 100 \<and> n * 95 div 100 \<le> n * 99 div 100 \<and> n * 99 div 100 \<le> n - 1" by simp
  have order: "n div 2 \<le> n * 95 div 100" "n * 95 div 100 \<le> n * 99 div 100" "n * 99 div 100 \<le> n - 1"
    using at0 percentile_indices [of n] by blast+
  show "lm_min (get_metrics s1 s2 s3 s4 s5 s ms) \<le> lm_p50 (get_metrics s1 s2 s3 s4 s5 s ms)"
    unfolding report_fields ls_def [symmetric] n_def [symmetric] by (rule step [OF le0 percentile_indices(4)])
  show "lm_p50 (get_metrics s1 s2 s3 s4 s5 s ms) \<le> lm_p95 (get_metrics s1 s2 s3 s4 s5 s ms)"
    unfolding report_fields ls_def [symmetric] n_def [symmetric] by (rule step [OF order(1) percentile_indices(5)])
  show "lm_p95 (get_metrics s1 s2 s3 s4 s5 s ms) \<le> lm_p99 (get_metrics s1 s2 s3 s4 s5 s ms)"
    unfolding report_fields ls_def [symmetric] n_def [symmetric] by (rule step [OF order(2) percentile_indices(6)])
  show "lm_p99 (get_metrics s1 s2 s3 s4 s5 s ms) \<le> lm_max (get_metrics s1 s2 s3 s4 s5 s ms)"
    unfolding report_fields ls_def [symmetric] n_def [symmetric] by (rule step [OF order(3)]) simp
qed

lemma sorted_average:
  fixes ls :: "u64 list"
  assumes "sorted ls" and "0 < length ls" and "(\<Sum>x\<leftarrow>ls. unat x) < 2 ^ 64" and "length ls < 2 ^ 64"
  shows "ls ! 0 \<le> sum_list ls div of_nat (length ls) \<and> sum_list ls div of_nat (length ls) \<le> ls ! (length ls - 1)"
proof -
  let ?n = "length ls" and ?S = "\<Sum>x\<leftarrow>ls. unat x"
  have last: "?n - 1 < ?n" using assms(2) by linarith
  have bounds: "unat (ls ! 0) \<le> unat y \<and> unat y \<le> unat (ls ! (?n - 1))" if y: "y \<in> set ls" for y
  proof -
    obtain i where i: "i < ?n" "ls ! i = y" using y unfolding in_set_conv_nth by blast
    then have "i \<le> ?n - 1" by linarith
    then show ?thesis
      using sorted_nth_mono [OF assms(1) le0 i(1)] sorted_nth_mono [OF assms(1) _ last, of i] i(2) by (simp add: word_le_nat_alt)
  qed
  then have all: "?n * unat (ls ! 0) \<le> ?S" "?S \<le> ?n * unat (ls ! (?n - 1))"
    using sum_list_bounds [of "map unat ls" "unat (ls ! 0)" "unat (ls ! (?n - 1))"] by simp_all
  have "?n * unat (ls ! 0) div ?n = unat (ls ! 0)" "?n * unat (ls ! (?n - 1)) div ?n = unat (ls ! (?n - 1))"
    using assms(2) by simp_all
  then have "unat (ls ! 0) \<le> ?S div ?n" "?S div ?n \<le> unat (ls ! (?n - 1))"
    using div_le_mono [OF all(1), of ?n] div_le_mono [OF all(2), of ?n] by simp_all
  moreover have "unat (sum_list ls div of_nat ?n) = ?S div ?n"
    using assms(4) sum_of_latencies [OF assms(3)] by (simp add: unat_div unat_of_nat take_bit_nat_eq_self)
  ultimately show ?thesis by (simp add: word_le_nat_alt)
qed

lemma average_between:
  assumes "(\<Sum>x\<leftarrow>ls_latencies s. unat x) < 2 ^ 64" and "length (ls_latencies s) < 2 ^ 64"
  shows "lm_min (get_metrics s1 s2 s3 s4 s5 s ms) \<le> lm_avg (get_metrics s1 s2 s3 s4 s5 s ms) \<and> lm_avg (get_metrics s1 s2 s3 s4 s5 s ms) \<le> lm_max (get_metrics s1 s2 s3 s4 s5 s ms)"
proof (cases "ls_latencies s = []")
  case True
  then show ?thesis by (simp add: get_metrics_def Let_def)
next
  case False
  define ls where "ls = sort (ls_latencies s)"
  have ne: "ls \<noteq> []" using False unfolding ls_def by (metis length_0_conv length_sort)
  have "(\<Sum>x\<leftarrow>ls. unat x) = (\<Sum>x\<leftarrow>ls_latencies s. unat x)"
    unfolding ls_def by (metis mset_map mset_sort sum_mset_sum_list)
  then have sum: "(\<Sum>x\<leftarrow>ls. unat x) < 2 ^ 64" using assms(1) by simp
  have len: "length ls < 2 ^ 64" "0 < length ls" using assms(2) ne by (simp add: ls_def, blast)
  have "sorted ls" by (simp add: ls_def)
  from sorted_average [OF this len(2) sum len(1)] show ?thesis
    by (simp only: get_metrics_def Let_def load_metrics.simps ls_def [symmetric] ne if_False not_False_eq_True)
qed

lemma start_agrees: "counters_agree (num_clients * requests_per_client) (start_clients num_clients requests_per_client)"
  by (simp add: counters_agree_def start_clients_def new_load_state_def all_clients_def waiting_defs sum_list_replicate)

lemma run_load_test_report:
  "\<exists>s1 s2 s3 s4 s5 s. run_load_test num_clients requests_per_client es e2 e3 e4 e5 e6 ms = get_metrics s1 s2 s3 s4 s5 s ms"
  by (simp add: run_load_test_def Let_def) blast



text \<open>A client that was not waited for can overtake the report: more operations succeed than there were, and the rate of
  success is above one hundred.\<close>

lemma overtaken_report:
  "let m = run_load_test 1 2 [(0, Operate 1 True True), (0, Advance), (0, Advance), (0, Advance)]
             [(0, Operate 1 True True), (0, Advance)] [] [] [] [] 10
   in lm_total m = 1 \<and> lm_successful m = 2 \<and> success_rate m = 200"
proof -
  have "start_clients 1 2 = ([Client (Suc (Suc 0)) Between], new_load_state)" by (simp add: start_clients_def numeral_2_eq_2)
  then show ?thesis
    by (simp add: run_load_test_def Let_def get_metrics_def new_load_state_def count_operation_def count_outcome_def
        count_hit_def push_latency_def success_rate_def)
qed

end
