(* ===== verification/Metrics.thy ===== *)
theory Metrics
  imports Cluster_Server
begin

text \<open>
  \<open>src/src/metrics.rs\<close> and the distributed cache of \<open>src/src/cache_cluster.rs\<close>, which the cluster server uses: the cache of
  \<open>Cluster\<close> with counters. The metrics library is the record \<open>prometheus\<close> of operations on its state \<open>'m\<close>; counters and
  histograms are named as they are registered, labels are pairs.
\<close>

section \<open>The registry\<close>

type_synonym labels = "(string \<times> string) list"

record 'm prometheus =
  pm_default :: 'm
  pm_register :: "string \<Rightarrow> string \<Rightarrow> real list option \<Rightarrow> 'm \<Rightarrow> 'm"
  pm_inc :: "string \<Rightarrow> labels \<Rightarrow> 'm \<Rightarrow> 'm"
  pm_set :: "string \<Rightarrow> labels \<Rightarrow> int \<Rightarrow> 'm \<Rightarrow> 'm"
  pm_set_f64 :: "string \<Rightarrow> labels \<Rightarrow> real \<Rightarrow> 'm \<Rightarrow> 'm"
  pm_observe :: "string \<Rightarrow> labels \<Rightarrow> real \<Rightarrow> 'm \<Rightarrow> 'm"
  pm_encode :: "'m \<Rightarrow> string option"

definition metrics_new :: "'m prometheus \<Rightarrow> 'm" where
  "metrics_new P =
     fold (\<lambda>(name, help, buckets). pm_register P name help buckets)
       [(''memobuild_cache_hits_total'', ''Total cache hits'', None),
        (''memobuild_cache_misses_total'', ''Total cache misses'', None),
        (''memobuild_build_duration_seconds'', ''Build duration in seconds'', Some [1 / 10, 1 / 2, 1, 5, 30, 60, 300]),
        (''memobuild_cluster_nodes_total'', ''Number of cluster nodes'', None),
        (''memobuild_replication_lag_seconds'', ''Replication lag in seconds'', None),
        (''memobuild_artifact_size_bytes'', ''Artifact size in bytes'',
           Some [1024, 10240, 102400, 1048576, 10485760, 104857600]),
        (''memobuild_gc_deleted_total'', ''Total artifacts deleted by GC'', None)]
       (pm_default P)"

definition inc_cache_hits :: "'m prometheus \<Rightarrow> string \<Rightarrow> string \<Rightarrow> 'm \<Rightarrow> 'm" where
  "inc_cache_hits P tier nid = pm_inc P ''memobuild_cache_hits_total'' [(''tier'', tier), (''node_id'', nid)]"

definition inc_cache_misses :: "'m prometheus \<Rightarrow> string \<Rightarrow> string \<Rightarrow> 'm \<Rightarrow> 'm" where
  "inc_cache_misses P tier nid = pm_inc P ''memobuild_cache_misses_total'' [(''tier'', tier), (''node_id'', nid)]"

definition observe_build_duration :: "'m prometheus \<Rightarrow> real \<Rightarrow> string \<Rightarrow> 'm \<Rightarrow> 'm" where
  "observe_build_duration P secs status = pm_observe P ''memobuild_build_duration_seconds'' [(''status'', status)] secs"

definition set_cluster_nodes :: "'m prometheus \<Rightarrow> string \<Rightarrow> string \<Rightarrow> int \<Rightarrow> 'm \<Rightarrow> 'm" where
  "set_cluster_nodes P region status n =
     pm_set P ''memobuild_cluster_nodes_total'' [(''region'', region), (''status'', status)] n"

definition set_replication_lag :: "'m prometheus \<Rightarrow> string \<Rightarrow> real \<Rightarrow> 'm \<Rightarrow> 'm" where
  "set_replication_lag P nid lag_secs = pm_set_f64 P ''memobuild_replication_lag_seconds'' [(''node_id'', nid)] lag_secs"

definition observe_artifact_size :: "'m prometheus \<Rightarrow> real \<Rightarrow> 'm \<Rightarrow> 'm" where
  "observe_artifact_size P size_bytes = pm_observe P ''memobuild_artifact_size_bytes'' [] size_bytes"

definition inc_gc_deleted :: "'m prometheus \<Rightarrow> 'm \<Rightarrow> 'm" where
  "inc_gc_deleted P = pm_inc P ''memobuild_gc_deleted_total'' []"

definition metrics_encode :: "'m prometheus \<Rightarrow> 'm \<Rightarrow> string outcome" where
  "metrics_encode P m = (case pm_encode P m of Some t \<Rightarrow> Returns t | None \<Rightarrow> Panics)"

section \<open>The distributed cache with counters\<close>

definition local_node_id :: "cache_cluster \<Rightarrow> string" where
  "local_node_id c = cn_id (local_node c)"

text \<open>The state: the caches, and the registry behind a lock that is only read.\<close>

definition on_dist :: "('r distributed, 'a) io \<Rightarrow> ('r distributed \<times> 'm, 'a) io" where
  "on_dist = on_part fst (\<lambda>s (_, m). (s, m))"

definition on_metrics :: "('m \<Rightarrow> 'm) \<Rightarrow> ('r distributed \<times> 'm, unit) io" where
  "on_metrics f = (\<lambda>(s, m). (Inr (), (s, f m)))"

definition hit_at :: "'m prometheus \<Rightarrow> string \<Rightarrow> string \<Rightarrow> 'a \<Rightarrow> ('r distributed \<times> 'm, 'a) io" where
  "hit_at P tier nid a = bind_io (on_metrics (inc_cache_hits P tier nid)) (\<lambda>_. ret a)"

definition miss :: "'m prometheus \<Rightarrow> 'r dist_env \<Rightarrow> 'a \<Rightarrow> ('r distributed \<times> 'm, 'a) io" where
  "miss P env a = bind_io (on_metrics (inc_cache_misses P ''distributed'' (local_node_id (de_cluster env)))) (\<lambda>_. ret a)"

fun metered_any_has :: "'m prometheus \<Rightarrow> 'r dist_env \<Rightarrow> string \<Rightarrow> string list \<Rightarrow> ('r distributed \<times> 'm, bool) io" where
  "metered_any_has P env key [] = miss P env False"
| "metered_any_has P env key (i # is) =
     bind_io (on_dist (on_client i (rc_has (de_clients env i) key))) (\<lambda>r.
       if r = Some True then hit_at P ''remote'' i True else metered_any_has P env key is)"

definition metered_has :: "'m prometheus \<Rightarrow> 'r dist_env \<Rightarrow> string \<Rightarrow> ('r distributed \<times> 'm, bool) io" where
  "metered_has P env key =
     bind_io (on_dist (on_dc_local (rc_has (de_local env) key))) (\<lambda>b.
       if b then hit_at P ''local'' (local_node_id (de_cluster env)) True
       else metered_any_has P env key (primary_list env key @ get_replica_nodes (de_hash env) (de_cluster env) key))"

fun metered_replica_get :: "'m prometheus \<Rightarrow> 'r dist_env \<Rightarrow> string \<Rightarrow> string list \<Rightarrow> ('r distributed \<times> 'm, bytes option) io" where
  "metered_replica_get P env key [] = miss P env None"
| "metered_replica_get P env key (i # is) =
     bind_io (on_dist (on_client i (rc_get (de_clients env i) key))) (\<lambda>r.
       case r of
         Some (Some d) \<Rightarrow>
           bind_io (on_dist (on_dc_local (rc_put (de_local env) key d))) (\<lambda>_.
           bind_io
             (case get_primary_node (de_hash env) (de_cluster env) key of
                Some p \<Rightarrow> ignore_io (on_dist (on_client p (rc_put (de_clients env p) key d)))
              | None \<Rightarrow> ret ()) (\<lambda>_.
           hit_at P ''remote'' i (Some d)))
       | _ \<Rightarrow> metered_replica_get P env key is)"

definition metered_get :: "'m prometheus \<Rightarrow> 'r dist_env \<Rightarrow> string \<Rightarrow> ('r distributed \<times> 'm, bytes option) io" where
  "metered_get P env key =
     bind_io (on_dist (on_dc_local (rc_get (de_local env) key))) (\<lambda>l.
       case l of
         Some d \<Rightarrow> hit_at P ''local'' (local_node_id (de_cluster env)) (Some d)
       | None \<Rightarrow>
           (let rest = metered_replica_get P env key (get_replica_nodes (de_hash env) (de_cluster env) key) in
            case get_primary_node (de_hash env) (de_cluster env) key of
              None \<Rightarrow> rest
            | Some p \<Rightarrow>
                bind_io (on_dist (on_client p (rc_get (de_clients env p) key))) (\<lambda>r.
                  case r of
                    Some (Some d) \<Rightarrow>
                      bind_io (on_dist (on_dc_local (rc_put (de_local env) key d))) (\<lambda>_. hit_at P ''remote'' p (Some d))
                  | _ \<Rightarrow> rest)))"

definition metered_put :: "'m prometheus \<Rightarrow> 'r dist_env \<Rightarrow> string \<Rightarrow> bytes \<Rightarrow> ('r distributed \<times> 'm, unit) io" where
  "metered_put P env key d =
     bind_io (on_metrics (observe_artifact_size P (real (length d)))) (\<lambda>_.
     on_dist (dist_put env (\<lambda>c. rc_put c key d) key))"

text \<open>Layers are not counted; their code, and that of the rest, is the code of \<open>cache/cluster.rs\<close>.\<close>

definition metered_cache :: "'m prometheus \<Rightarrow> 'r dist_env \<Rightarrow> ('r distributed \<times> 'm) remote_cache" where
  "metered_cache P env =
     \<lparr>rc_has = metered_has P env,
      rc_get = metered_get P env,
      rc_put = metered_put P env,
      rc_has_layer = (\<lambda>h. on_dist (dist_has env (\<lambda>c. rc_has_layer c h) h)),
      rc_get_layer = (\<lambda>h. on_dist (dist_get env (\<lambda>c. rc_get_layer c h) (\<lambda>c. rc_put_layer c h) h)),
      rc_put_layer = (\<lambda>h d. on_dist (dist_put env (\<lambda>c. rc_put_layer c h d) h)),
      rc_get_node_layers = (\<lambda>h. on_dist (on_dc_local (rc_get_node_layers (de_local env) h))),
      rc_register_node_layers = (\<lambda>h ls n. on_dist (on_dc_local (rc_register_node_layers (de_local env) h ls n))),
      rc_report_build_event = (\<lambda>e. on_dist (on_dc_local (rc_report_build_event (de_local env) e))),
      rc_report_dag = (\<lambda>g. on_dist (on_dc_local (rc_report_dag (de_local env) g))),
      rc_report_analytics = (\<lambda>a b c. on_dist (on_dc_local (rc_report_analytics (de_local env) a b c)))\<rparr>"

section \<open>Counting changes nothing else\<close>

text \<open>What a lookup does to the registry: a hit counts one hit, at the node that had the artifact, a miss one miss, an error
  nothing.\<close>

definition lookup_counted :: "'m prometheus \<Rightarrow> 'r dist_env \<Rightarrow> string list \<Rightarrow> bool result \<Rightarrow> 'm \<Rightarrow> 'm \<Rightarrow> bool" where
  "lookup_counted P env ids r k k' \<longleftrightarrow>
     (case r of
        Inl _ \<Rightarrow> k' = k
      | Inr True \<Rightarrow>
          k' = inc_cache_hits P ''local'' (local_node_id (de_cluster env)) k \<or> (\<exists>i \<in> set ids. k' = inc_cache_hits P ''remote'' i k)
      | Inr False \<Rightarrow> k' = inc_cache_misses P ''distributed'' (local_node_id (de_cluster env)) k)"

definition found_blob :: "'a option result \<Rightarrow> bool result" where
  "found_blob r = (case r of Inl e \<Rightarrow> Inl e | Inr x \<Rightarrow> Inr (x \<noteq> None))"

lemma lookup_counted_simps [simp]:
  "lookup_counted P env ids (Inl e) k k' \<longleftrightarrow> k' = k"
  "lookup_counted P env ids (Inr True) k k' \<longleftrightarrow>
     k' = inc_cache_hits P ''local'' (local_node_id (de_cluster env)) k \<or> (\<exists>i \<in> set ids. k' = inc_cache_hits P ''remote'' i k)"
  "lookup_counted P env ids (Inr False) k k' \<longleftrightarrow> k' = inc_cache_misses P ''distributed'' (local_node_id (de_cluster env)) k"
  "found_blob (Inl e) = Inl e" "found_blob (Inr None) = Inr False" "found_blob (Inr (Some d)) = Inr True"
  by (simp_all add: lookup_counted_def found_blob_def)

lemma lookup_counted_mono: "lookup_counted P env is r k k' \<Longrightarrow> set is \<subseteq> set js \<Longrightarrow> lookup_counted P env js r k k'"
  by (auto simp: lookup_counted_def split: sum.splits bool.splits)

text \<open>\<open>M\<close> does what \<open>m\<close> does, and \<open>Q\<close> to the registry.\<close>

definition follows ::
    "('r distributed \<times> 'm, 'a) io \<Rightarrow> ('r distributed, 'a) io \<Rightarrow> ('a result \<Rightarrow> 'm \<Rightarrow> 'm \<Rightarrow> bool) \<Rightarrow> bool" where
  "follows M m Q \<longleftrightarrow> (\<forall>s k. \<exists>r s' k'. M (s, k) = (r, (s', k')) \<and> m s = (r, s') \<and> Q r k k')"

lemma follows_on_dist [simp]: "follows (on_dist m) m (\<lambda>r k k'. k' = k)"
  by (simp add: follows_def on_dist_def on_part_apply)

lemma follows_bind:
  assumes "follows M m (\<lambda>r k k'. k' = k)" and "\<And>a. follows (K a) (k a) Q" and "\<And>e x. Q (Inl e) x x"
  shows "follows (bind_io M K) (bind_io m k) Q"
  unfolding follows_def
proof (intro allI)
  fix s x
  obtain r s' where m: "M (s, x) = (r, (s', x))" "m s = (r, s')" using assms(1) unfolding follows_def by metis
  show "\<exists>r s' k'. bind_io M K (s, x) = (r, s', k') \<and> bind_io m k s = (r, s') \<and> Q r x k'"
  proof (cases r)
    case (Inl e)
    then show ?thesis using m assms(3) by (simp add: bind_io_def)
  next
    case (Inr a)
    obtain r2 s2 x2 where "K a (s', x) = (r2, (s2, x2))" "k a s' = (r2, s2)" "Q r2 x x2"
      using assms(2) [of a] unfolding follows_def by metis
    then show ?thesis using m Inr by (simp add: bind_io_def)
  qed
qed

lemma follows_mono: "follows M m Q \<Longrightarrow> (\<And>r k k'. Q r k k' \<Longrightarrow> Q' r k k') \<Longrightarrow> follows M m Q'"
  unfolding follows_def by meson

lemma follows_hit [simp]: "follows (hit_at P tier i a) (ret a) (\<lambda>r k k'. r = Inr a \<and> k' = inc_cache_hits P tier i k)"
  by (simp add: follows_def hit_at_def on_metrics_def bind_io_def)

lemma follows_miss [simp]:
  "follows (miss P env a) (ret a) (\<lambda>r k k'. r = Inr a \<and> k' = inc_cache_misses P ''distributed'' (local_node_id (de_cluster env)) k)"
  by (simp add: follows_def miss_def on_metrics_def bind_io_def)

lemma follows_if: "(b \<Longrightarrow> follows M m Q) \<Longrightarrow> (\<not> b \<Longrightarrow> follows N n Q) \<Longrightarrow> follows (if b then M else N) (if b then m else n) Q"
  by simp

definition asked :: "'r dist_env \<Rightarrow> string \<Rightarrow> string list" where
  "asked env key = primary_list env key @ get_replica_nodes (de_hash env) (de_cluster env) key"

lemma metered_any_has_follows:
  "set is \<subseteq> set js \<Longrightarrow> follows (metered_any_has P env key is) (any_has env (\<lambda>c. rc_has c key) is) (lookup_counted P env js)"
proof (induction "is")
  case Nil
  show ?case unfolding metered_any_has.simps any_has.simps by (rule follows_mono [OF follows_miss]) simp
next
  case (Cons i "is")
  have hit: "follows (hit_at P ''remote'' i True) (ret True) (lookup_counted P env js)"
    by (rule follows_mono [OF follows_hit]) (use Cons.prems in auto)
  show ?case
    unfolding metered_any_has.simps any_has.simps
    by (rule follows_bind [OF follows_on_dist]) (use Cons hit in auto)
qed

lemma metered_has_follows:
  "follows (metered_has P env key) (dist_has env (\<lambda>c. rc_has c key) key) (lookup_counted P env (asked env key))"
proof -
  have hit: "follows (hit_at P ''local'' (local_node_id (de_cluster env)) True) (ret True) (lookup_counted P env (asked env key))"
    by (rule follows_mono [OF follows_hit]) auto
  have rest: "follows (metered_any_has P env key (primary_list env key @ get_replica_nodes (de_hash env) (de_cluster env) key))
      (any_has env (\<lambda>c. rc_has c key) (primary_list env key @ get_replica_nodes (de_hash env) (de_cluster env) key))
      (lookup_counted P env (asked env key))"
    by (rule metered_any_has_follows) (simp add: asked_def)
  show ?thesis
    unfolding metered_has_def dist_has_def
    by (rule follows_bind [OF follows_on_dist]) (use hit rest in auto)
qed

abbreviation blob_counted :: "'m prometheus \<Rightarrow> 'r dist_env \<Rightarrow> string list \<Rightarrow> bytes option result \<Rightarrow> 'm \<Rightarrow> 'm \<Rightarrow> bool" where
  "blob_counted P env ids \<equiv> (\<lambda>r. lookup_counted P env ids (found_blob r))"

lemma remote_hit_follows:
  assumes "i \<in> set js"
  shows "follows (hit_at P ''remote'' i (Some d)) (ret (Some d)) (blob_counted P env js)"
  by (rule follows_mono [OF follows_hit]) (use assms in auto)

lemma follows_ignore: "follows (ignore_io (on_dist m)) (ignore_io m) (\<lambda>r k k'. k' = k)"
  by (simp add: follows_def on_dist_def on_part_apply)

lemma follows_ret: "follows (ret a) (ret a) (\<lambda>r k k'. k' = k)"
  by (simp add: follows_def)

lemma metered_replica_get_follows:
  "set is \<subseteq> set js \<Longrightarrow>
     follows (metered_replica_get P env key is) (replica_get env (\<lambda>c. rc_get c key) (\<lambda>c. rc_put c key) key is)
       (blob_counted P env js)"
proof (induction "is")
  case Nil
  show ?case unfolding metered_replica_get.simps replica_get.simps by (rule follows_mono [OF follows_miss]) simp
next
  case (Cons i "is")
  let ?prim = "get_primary_node (de_hash env) (de_cluster env) key"
  let ?offer = "\<lambda>d. case ?prim of Some p \<Rightarrow> ignore_io (on_dist (on_client p (rc_put (de_clients env p) key d))) | None \<Rightarrow> ret ()"
  have hit: "follows (hit_at P ''remote'' i (Some d)) (ret (Some d)) (blob_counted P env js)" for d
    by (rule remote_hit_follows) (use Cons.prems in auto)
  have offer: "follows (bind_io (?offer d) (\<lambda>_. hit_at P ''remote'' i (Some d)))
      (case ?prim of Some p \<Rightarrow> bind_io (ignore_io (on_client p (rc_put (de_clients env p) key d))) (\<lambda>_. ret (Some d))
         | None \<Rightarrow> ret (Some d)) (blob_counted P env js)" for d
  proof (cases ?prim)
    case None
    then show ?thesis using hit by simp
  next
    case (Some p)
    show ?thesis unfolding Some option.case by (rule follows_bind [OF follows_ignore hit]) simp
  qed
  have body: "follows
      (case r of Some (Some d) \<Rightarrow>
           bind_io (on_dist (on_dc_local (rc_put (de_local env) key d))) (\<lambda>_. bind_io (?offer d) (\<lambda>_. hit_at P ''remote'' i (Some d)))
       | _ \<Rightarrow> metered_replica_get P env key is)
      (case r of Some (Some d) \<Rightarrow>
           bind_io (on_dc_local (rc_put (de_local env) key d)) (\<lambda>_.
             case ?prim of Some p \<Rightarrow> bind_io (ignore_io (on_client p (rc_put (de_clients env p) key d))) (\<lambda>_. ret (Some d))
             | None \<Rightarrow> ret (Some d))
       | _ \<Rightarrow> replica_get env (\<lambda>c. rc_get c key) (\<lambda>c. rc_put c key) key is) (blob_counted P env js)" for r
  proof (cases "\<exists>d. r = Some (Some d)")
    case True
    then obtain d where r: "r = Some (Some d)" by (elim exE)
    show ?thesis unfolding r option.case by (rule follows_bind [OF follows_on_dist offer]) simp
  next
    case False
    then have "r = None \<or> r = Some None" by (cases r) auto
    then show ?thesis using Cons by auto
  qed
  show ?case
    unfolding metered_replica_get.simps replica_get.simps by (rule follows_bind [OF follows_on_dist body]) simp
qed

lemma metered_get_follows:
  "follows (metered_get P env key) (dist_get env (\<lambda>c. rc_get c key) (\<lambda>c. rc_put c key) key) (blob_counted P env (asked env key))"
proof -
  let ?js = "asked env key"
  let ?ids = "get_replica_nodes (de_hash env) (de_cluster env) key"
  have rest: "follows (metered_replica_get P env key ?ids) (replica_get env (\<lambda>c. rc_get c key) (\<lambda>c. rc_put c key) key ?ids)
      (blob_counted P env ?js)"
    by (rule metered_replica_get_follows) (auto simp: asked_def)
  have here: "follows (hit_at P ''local'' (local_node_id (de_cluster env)) (Some d)) (ret (Some d)) (blob_counted P env ?js)" for d
    by (rule follows_mono [OF follows_hit]) auto
  show ?thesis
  proof (cases "get_primary_node (de_hash env) (de_cluster env) key")
    case None
    show ?thesis
      unfolding metered_get_def dist_get_def None Let_def option.case bind_io_ret
      by (rule follows_bind [OF follows_on_dist]) (use here rest in \<open>auto split: option.splits\<close>)
  next
    case (Some p)
    have hit: "follows (hit_at P ''remote'' p (Some d)) (ret (Some d)) (blob_counted P env ?js)" for d
      by (rule remote_hit_follows) (simp add: asked_def primary_list_def Some)
    have remote: "follows
        (case r of Some (Some d) \<Rightarrow> bind_io (on_dist (on_dc_local (rc_put (de_local env) key d))) (\<lambda>_. hit_at P ''remote'' p (Some d))
         | _ \<Rightarrow> metered_replica_get P env key ?ids)
        (bind_io (case r of Some (Some d) \<Rightarrow> bind_io (on_dc_local (rc_put (de_local env) key d)) (\<lambda>_. ret (Some d)) | _ \<Rightarrow> ret None)
           (\<lambda>hit. case hit of Some d \<Rightarrow> ret (Some d)
              | None \<Rightarrow> replica_get env (\<lambda>c. rc_get c key) (\<lambda>c. rc_put c key) key ?ids)) (blob_counted P env ?js)" for r
    proof (cases "\<exists>d. r = Some (Some d)")
      case True
      then obtain d where r: "r = Some (Some d)" by (elim exE)
      show ?thesis
        unfolding r option.case bind_io_assoc bind_io_ret by (rule follows_bind [OF follows_on_dist hit]) simp
    next
      case False
      then have "r = None \<or> r = Some None" by (cases r) auto
      then show ?thesis using rest by auto
    qed
    show ?thesis
      unfolding metered_get_def dist_get_def Some Let_def option.case bind_io_assoc
    proof (rule follows_bind [OF follows_on_dist])
      fix l :: "bytes option"
      show "follows
         (case l of None \<Rightarrow> bind_io (on_dist (on_client p (rc_get (de_clients env p) key)))
              (\<lambda>r. case r of None \<Rightarrow> metered_replica_get P env key ?ids | Some None \<Rightarrow> metered_replica_get P env key ?ids
                 | Some (Some d) \<Rightarrow> bind_io (on_dist (on_dc_local (rc_put (de_local env) key d))) (\<lambda>_. hit_at P ''remote'' p (Some d)))
          | Some d \<Rightarrow> hit_at P ''local'' (local_node_id (de_cluster env)) (Some d))
         (case l of None \<Rightarrow> bind_io (on_client p (rc_get (de_clients env p) key))
              (\<lambda>r. bind_io (case r of None \<Rightarrow> ret None | Some None \<Rightarrow> ret None
                     | Some (Some d) \<Rightarrow> bind_io (on_dc_local (rc_put (de_local env) key d)) (\<lambda>_. ret (Some d)))
                 (\<lambda>hit. case hit of None \<Rightarrow> replica_get env (\<lambda>c. rc_get c key) (\<lambda>c. rc_put c key) key ?ids | Some d \<Rightarrow> ret (Some d)))
          | Some d \<Rightarrow> ret (Some d)) (blob_counted P env ?js)"
        using here by (cases l) (auto intro: follows_bind [OF follows_on_dist remote])
    qed simp
  qed
qed

section \<open>The cluster server with counters\<close>

fun serve_all :: "'s remote_cache \<Rightarrow> request list \<Rightarrow> 's \<Rightarrow> response list \<times> 's" where
  "serve_all rc [] s = ([], s)"
| "serve_all rc (q # qs) s = (case cache_route rc q s of (r, s1) \<Rightarrow> (case serve_all rc qs s1 of (rs, s2) \<Rightarrow> (r # rs, s2)))"

text \<open>The replies of \<open>HEAD\<close> and \<open>GET\<close> on artifacts that have a given status.\<close>

definition lookups_answered :: "status \<Rightarrow> request list \<Rightarrow> response list \<Rightarrow> nat" where
  "lookups_answered c qs rs =
     length (filter (\<lambda>(q, r). fst r = c \<and> (case q of Head_cache h \<Rightarrow> True | Get_cache h \<Rightarrow> True | _ \<Rightarrow> False)) (zip qs rs))"

text \<open>What a metrics library promises: incrementing a counter adds one to its amount over all labels and nothing to other
  totals, and observations do not touch counters.\<close>

definition totals :: "'m prometheus \<Rightarrow> (string \<Rightarrow> 'm \<Rightarrow> u64) \<Rightarrow> bool" where
  "totals P amount \<longleftrightarrow>
     (\<forall>f g l m. amount f (pm_inc P g l m) = amount f m + (if f = g then 1 else 0))
   \<and> (\<forall>f g l x m. amount f (pm_observe P g l x m) = amount f m)"

lemma totals_simps:
  assumes "totals P amount"
  shows "amount f (inc_cache_hits P tier i m) = amount f m + (if f = ''memobuild_cache_hits_total'' then 1 else 0)"
    and "amount f (inc_cache_misses P tier i m) = amount f m + (if f = ''memobuild_cache_misses_total'' then 1 else 0)"
    and "amount f (observe_artifact_size P x m) = amount f m"
  using assms by (simp_all add: totals_def inc_cache_hits_def inc_cache_misses_def observe_artifact_size_def)

text \<open>One reply: the plain server gives it too, and the totals grow by the lookups it answers.\<close>

definition route_agrees :: "'m prometheus \<Rightarrow> (string \<Rightarrow> 'm \<Rightarrow> u64) \<Rightarrow> 'r dist_env \<Rightarrow> request \<Rightarrow> bool" where
  "route_agrees P amount env q \<longleftrightarrow> (\<forall>s k. \<exists>r s' k'.
     cache_route (metered_cache P env) q (s, k) = (r, (s', k')) \<and> cache_route (distributed_cache env) q s = (r, s')
   \<and> amount ''memobuild_cache_hits_total'' k' = amount ''memobuild_cache_hits_total'' k + of_nat (lookups_answered OK [q] [r])
   \<and> amount ''memobuild_cache_misses_total'' k' =
       amount ''memobuild_cache_misses_total'' k + of_nat (lookups_answered NOT_FOUND [q] [r]))"

lemma lookup_counted_totals:
  assumes "totals P amount" and "lookup_counted P env ids r k k'"
  shows "amount ''memobuild_cache_hits_total'' k' = amount ''memobuild_cache_hits_total'' k + (if r = Inr True then 1 else 0)"
    and "amount ''memobuild_cache_misses_total'' k' = amount ''memobuild_cache_misses_total'' k + (if r = Inr False then 1 else 0)"
  using assms(2) totals_simps [OF assms(1)] by (auto simp: lookup_counted_def split: sum.splits bool.splits)

lemma uncounted_route:
  assumes "\<And>s k. \<exists>r s' k'. cache_route (metered_cache P env) q (s, k) = (r, (s', k'))
      \<and> cache_route (distributed_cache env) q s = (r, s') \<and> (\<forall>f. amount f k' = amount f k)"
    and "\<And>c r. lookups_answered c [q] [r] = 0"
  shows "route_agrees P amount env q"
  unfolding route_agrees_def
proof (intro allI)
  fix s k
  obtain r s' k' where a: "cache_route (metered_cache P env) q (s, k) = (r, (s', k'))"
    and b: "cache_route (distributed_cache env) q s = (r, s')" and c: "\<forall>f. amount f k' = amount f k"
    using assms(1) [of s k] by (elim exE conjE)
  show "\<exists>r s' k'. cache_route (metered_cache P env) q (s, k) = (r, (s', k')) \<and> cache_route (distributed_cache env) q s = (r, s')
     \<and> amount ''memobuild_cache_hits_total'' k' = amount ''memobuild_cache_hits_total'' k + of_nat (lookups_answered OK [q] [r])
     \<and> amount ''memobuild_cache_misses_total'' k' =
         amount ''memobuild_cache_misses_total'' k + of_nat (lookups_answered NOT_FOUND [q] [r])"
    using c by (intro exI [of _ r] exI [of _ s'] exI [of _ k'] conjI a b) (simp_all add: assms(2))
qed

lemma followed_route:
  assumes "follows M m (\<lambda>r k k'. \<forall>f. amount f k' = amount f k)"
    and "cache_route (metered_cache P env) q = answer M" and "cache_route (distributed_cache env) q = answer' m"
    and "\<And>s k r s' k'. M (s, k) = (r, (s', k')) \<Longrightarrow> m s = (r, s') \<Longrightarrow> \<exists>x. answer M (s, k) = (x, (s', k')) \<and> answer' m s = (x, s')"
    and "\<And>c r. lookups_answered c [q] [r] = 0"
  shows "route_agrees P amount env q"
proof (rule uncounted_route [OF _ assms(5)])
  fix s k
  obtain r s' k' where "M (s, k) = (r, (s', k'))" "m s = (r, s')" "\<forall>f. amount f k' = amount f k"
    using assms(1) unfolding follows_def by metis
  then show "\<exists>r s' k'. cache_route (metered_cache P env) q (s, k) = (r, (s', k'))
      \<and> cache_route (distributed_cache env) q s = (r, s') \<and> (\<forall>f. amount f k' = amount f k)"
    using assms(4) unfolding assms(2,3) by metis
qed

lemma answers_follow:
  "M (s, k) = (r, (s', k')) \<Longrightarrow> m s = (r, s') \<Longrightarrow> \<exists>x. answer_present M (s, k) = (x, (s', k')) \<and> answer_present m s = (x, s')"
  "N (s, k) = (b, (s', k')) \<Longrightarrow> n s = (b, s') \<Longrightarrow> \<exists>x. answer_blob N (s, k) = (x, (s', k')) \<and> answer_blob n s = (x, s')"
  "W (s, k) = (u, (s', k')) \<Longrightarrow> w s = (u, s') \<Longrightarrow> \<exists>x. answer_done c W (s, k) = (x, (s', k')) \<and> answer_done c w s = (x, s')"
  by (auto simp: answer_present_def answer_blob_def answer_done_def split: sum.splits bool.splits option.splits)

lemma follows_same_totals: "follows (on_dist m) m (\<lambda>r k k'. \<forall>f. amount f k' = amount f k)"
  by (rule follows_mono [OF follows_on_dist]) simp

lemma metered_put_follows:
  assumes "totals P amount"
  shows "follows (metered_put P env key d) (dist_put env (\<lambda>c. rc_put c key d) key) (\<lambda>r k k'. \<forall>f. amount f k' = amount f k)"
proof -
  have "follows (metered_put P env key d) (dist_put env (\<lambda>c. rc_put c key d) key)
      (\<lambda>r k k'. k' = observe_artifact_size P (real (length d)) k)"
    by (simp add: follows_def metered_put_def bind_io_def on_metrics_def on_dist_def on_part_apply)
  then show ?thesis by (rule follows_mono) (simp add: totals_simps [OF assms])
qed

lemma head_route: "totals P amount \<Longrightarrow> route_agrees P amount env (Head_cache h)"
  unfolding route_agrees_def
proof (intro allI)
  fix s k
  assume t: "totals P amount"
  obtain r s' k' where m: "metered_has P env h (s, k) = (r, (s', k'))" "dist_has env (\<lambda>c. rc_has c h) h s = (r, s')"
    and c: "lookup_counted P env (asked env h) r k k'"
    using metered_has_follows [of P env h] unfolding follows_def by metis
  show "\<exists>r s' k'. cache_route (metered_cache P env) (Head_cache h) (s, k) = (r, (s', k'))
    \<and> cache_route (distributed_cache env) (Head_cache h) s = (r, s')
    \<and> amount ''memobuild_cache_hits_total'' k' = amount ''memobuild_cache_hits_total'' k + of_nat (lookups_answered OK [Head_cache h] [r])
    \<and> amount ''memobuild_cache_misses_total'' k' =
        amount ''memobuild_cache_misses_total'' k + of_nat (lookups_answered NOT_FOUND [Head_cache h] [r])"
    using m lookup_counted_totals [OF t c]
    by (auto simp: cache_route_def cs_check_cache_def metered_cache_def distributed_cache_def answer_present_def
        lookups_answered_def split: sum.splits bool.splits)
qed

lemma get_route: "totals P amount \<Longrightarrow> route_agrees P amount env (Get_cache h)"
  unfolding route_agrees_def
proof (intro allI)
  fix s k
  assume t: "totals P amount"
  obtain r s' k' where m: "metered_get P env h (s, k) = (r, (s', k'))"
      "dist_get env (\<lambda>c. rc_get c h) (\<lambda>c. rc_put c h) h s = (r, s')"
    and c: "lookup_counted P env (asked env h) (found_blob r) k k'"
    using metered_get_follows [of P env h] unfolding follows_def by metis
  show "\<exists>r s' k'. cache_route (metered_cache P env) (Get_cache h) (s, k) = (r, (s', k'))
    \<and> cache_route (distributed_cache env) (Get_cache h) s = (r, s')
    \<and> amount ''memobuild_cache_hits_total'' k' = amount ''memobuild_cache_hits_total'' k + of_nat (lookups_answered OK [Get_cache h] [r])
    \<and> amount ''memobuild_cache_misses_total'' k' =
        amount ''memobuild_cache_misses_total'' k + of_nat (lookups_answered NOT_FOUND [Get_cache h] [r])"
    using m lookup_counted_totals [OF t c]
    by (auto simp: cache_route_def cs_get_artifact_def metered_cache_def distributed_cache_def answer_blob_def
        lookups_answered_def found_blob_def split: sum.splits option.splits)
qed

lemma every_route_agrees:
  assumes "totals P amount"
  shows "route_agrees P amount env q"
proof (cases q)
  case (Head_cache h)
  then show ?thesis using head_route [OF assms] by simp
next
  case (Get_cache h)
  then show ?thesis using get_route [OF assms] by simp
next
  case (Put_cache h d)
  show ?thesis unfolding Put_cache
    by (rule followed_route [where answer = "answer_done CREATED" and answer' = "answer_done CREATED", OF metered_put_follows [OF assms] _ _ answers_follow(3)])
      (simp_all add: cache_route_def cs_put_artifact_def metered_cache_def distributed_cache_def lookups_answered_def)
next
  case (Head_layer h)
  show ?thesis unfolding Head_layer
    by (rule followed_route [where answer = "answer_present" and answer' = "answer_present", OF follows_same_totals _ _ answers_follow(1)])
      (simp_all add: cache_route_def cs_check_layer_def metered_cache_def distributed_cache_def lookups_answered_def)
next
  case (Get_layer h)
  show ?thesis unfolding Get_layer
    by (rule followed_route [where answer = "answer_blob" and answer' = "answer_blob", OF follows_same_totals _ _ answers_follow(2)])
      (simp_all add: cache_route_def cs_get_layer_def metered_cache_def distributed_cache_def lookups_answered_def)
next
  case (Put_layer h d)
  show ?thesis unfolding Put_layer
    by (rule followed_route [where answer = "answer_done CREATED" and answer' = "answer_done CREATED", OF follows_same_totals _ _ answers_follow(3)])
      (simp_all add: cache_route_def cs_put_layer_def metered_cache_def distributed_cache_def lookups_answered_def)
next
  case (Post_node_layers h ls n)
  show ?thesis unfolding Post_node_layers
    by (rule followed_route [where answer = "answer_done OK" and answer' = "answer_done OK", OF follows_same_totals _ _ answers_follow(3)])
      (simp_all add: cache_route_def cs_register_node_layers_def metered_cache_def distributed_cache_def lookups_answered_def)
next
  case (Get_node_layers h)
  show ?thesis unfolding Get_node_layers
    by (rule uncounted_route)
      (auto simp: cache_route_def cs_get_node_layers_def metered_cache_def distributed_cache_def lookups_answered_def
        on_dist_def on_part_apply split: prod.splits sum.splits)
qed (rule uncounted_route; simp add: cache_route_def lookups_answered_def)+

lemma lookups_answered_Cons:
  "lookups_answered c (q # qs) (r # rs) = lookups_answered c [q] [r] + lookups_answered c qs rs"
  by (simp add: lookups_answered_def)

text \<open>C29. The counters of the cluster server: over any sequence of requests to the routes of the cache, the server with
  counters gives the replies and ends with the caches of the one without, the hits it has counted grow by the lookups of
  artifacts it answers with \<open>200\<close>, and the misses by those it answers with \<open>404\<close>; lookups that fail, lookups of layers and
  uploads count as neither.\<close>

theorem counters_follow_replies:
  assumes "totals P amount" and "serve_all (metered_cache P env) qs (s, k) = (rs, (s', k'))"
  shows "serve_all (distributed_cache env) qs s = (rs, s')
    \<and> amount ''memobuild_cache_hits_total'' k' = amount ''memobuild_cache_hits_total'' k + of_nat (lookups_answered OK qs rs)
    \<and> amount ''memobuild_cache_misses_total'' k' =
        amount ''memobuild_cache_misses_total'' k + of_nat (lookups_answered NOT_FOUND qs rs)"
  using assms(2)
proof (induction qs arbitrary: s k rs)
  case Nil
  then show ?case by (auto simp: lookups_answered_def)
next
  case (Cons q qs)
  obtain r s1 k1 where step: "cache_route (metered_cache P env) q (s, k) = (r, (s1, k1))"
      "cache_route (distributed_cache env) q s = (r, s1)"
    and t: "amount ''memobuild_cache_hits_total'' k1 = amount ''memobuild_cache_hits_total'' k + of_nat (lookups_answered OK [q] [r])"
      "amount ''memobuild_cache_misses_total'' k1 =
         amount ''memobuild_cache_misses_total'' k + of_nat (lookups_answered NOT_FOUND [q] [r])"
    using every_route_agrees [OF assms(1), of env q, unfolded route_agrees_def, rule_format, of s k] by (elim exE conjE)
  obtain rs1 where rest: "serve_all (metered_cache P env) qs (s1, k1) = (rs1, (s', k'))" "rs = r # rs1"
    using Cons.prems step(1) by (auto split: prod.splits)
  have more: "lookups_answered c (q # qs) (r # rs1) = lookups_answered c [q] [r] + lookups_answered c qs rs1" for c
    by (rule lookups_answered_Cons)
  show ?case
    using Cons.IH [OF rest(1)] step(2) t by (simp add: rest(2) more add.assoc)
qed

definition toy_prometheus :: "(string \<Rightarrow> u64) prometheus" where
  "toy_prometheus = \<lparr>pm_default = (\<lambda>_. 0), pm_register = (\<lambda>n h b m. m), pm_inc = (\<lambda>f l m. m(f := m f + 1)),
     pm_set = (\<lambda>f l x m. m), pm_set_f64 = (\<lambda>f l x m. m), pm_observe = (\<lambda>f l x m. m), pm_encode = (\<lambda>m. Some [])\<rparr>"

theorem counters_follow_replies_witness:
  "let s = \<lparr>dc_local = None, dc_clients = [(''a'', Some [7]), (''b'', None)]\<rparr>
   in snd (snd (serve_all (metered_cache toy_prometheus toy_dist) [Get_cache ''key'', Head_layer ''key'', Get_cache ''key''] (s, \<lambda>_. 0)))
        ''memobuild_cache_hits_total'' = 2"
proof -
  let ?s = "\<lparr>dc_local = None, dc_clients = [(''a'', Some [7]), (''b'', None)]\<rparr> :: bytes option distributed"
  let ?qs = "[Get_cache ''key'', Head_layer ''key'', Get_cache ''key'']"
  have law: "totals toy_prometheus (\<lambda>f m. m f)" by (simp add: totals_def toy_prometheus_def)
  obtain rs s' k' where run: "serve_all (metered_cache toy_prometheus toy_dist) ?qs (?s, \<lambda>_. 0) = (rs, (s', k'))"
    by (metis prod.exhaust)
  have "lookups_answered OK ?qs (fst (serve_all (distributed_cache toy_dist) ?qs ?s)) = 2" by code_simp
  then have "k' ''memobuild_cache_hits_total'' = 2" using counters_follow_replies [OF law run] by simp
  then show ?thesis using run by simp
qed

end
