(* ===== verification/Spec2Isabelle.thy ===== *)
theory Spec2Isabelle
  imports Core Docker Http Gc Cluster Router Audit_Log Incremental Auth Scaling Remote_Build Cache_Refinement Build_Session Registry Commands Hasher Redis Cluster_Server Postgres Object_Storage Reapi Secrets Loadtest Metrics
begin

text \<open>
  Verification development of MemoBuild, an incremental build system for container images (\<open>src/src\<close>, Rust). This theory
  only imports the others. Paths below are relative to \<open>src/src\<close>.

  \<^bold>\<open>The program.\<close> The command \<open>build\<close> (\<open>main.rs\<close>) parses a Dockerfile into a dependency graph, marks what changed,
  executes the graph level by level with a cache keyed by node hashes, exports an OCI image and writes a bill of materials
  and an attestation beside it. The cache of a machine is local files in front of an optional remote one: an HTTP cache
  server, a Redis server, several regions behind a router, or the members of a cluster on a hash ring. The cache server keeps
  blobs in an artifact storage and their rows in a metadata store, collects garbage, and is guarded by tokens and a rate
  limiter. Nodes can run in a local sandbox or on a farm of workers behind a scheduler.

  \<^bold>\<open>How the code is translated.\<close> A struct is a record, an enum a datatype, a machine integer a word (a natural number where
  only sizes in memory are counted), a panic or a call that never returns a value of \<open>outcome\<close>, an \<open>anyhow\<close> error the left
  side of a sum. A method that changes its object is a function of type \<open>('s, 'a) io\<close>, from the state before to the result
  and the state after (\<open>pio\<close> where it can also panic); the state is returned with the error too, so what a failed call has
  done is visible. Definitions keep the names of the source, with a prefix where two modules share one (\<open>lc_\<close> local cache,
  \<open>md_\<close> SQLite store, \<open>pg_\<close> PostgreSQL store, \<open>srv_\<close> server, \<open>cs_\<close> cluster server, \<open>redis_\<close>, \<open>s3_\<close>, \<open>gcs_\<close>).
  Tasks that run at the same time take steps in the order of a schedule, an argument over which theorems quantify: nodes of a
  level (\<open>task_step\<close>), prefetches, the clients of the load generator, the spawned task of a remote execution.

  \<^bold>\<open>Parameters.\<close> Code that is not in the repository is an argument: digests, gzip, JSON and tar writers, the shell, the
  network, the clients of S3, Redis, PostgreSQL and Vault, clocks, identifiers, random numbers, the iteration order of hash
  maps, the matches of regular expressions. What a theorem relies on of them is a hypothesis that states documented behaviour
  (\<open>redis_behaves\<close>, \<open>s3_behaves\<close>, \<open>vault_behaves\<close>, a decoder inverting its encoder, a digest injective on the texts at hand),
  and a witness instantiates it with a function. The file system, whose calls are standard library, is modelled (\<open>Files\<close>):
  files, directories, and a list of the faults the next calls meet, which may leave a write half done.

  \<^bold>\<open>Theories.\<close>
  \<^item> \<open>Prelude\<close>: result and state types, string functions, association lists as hash maps; \<open>Files\<close>: \<open>std::fs\<close>, \<open>std::path\<close>.
  \<^item> The build graph: \<open>Graph\<close> (\<open>graph.rs\<close>), \<open>Docker\<close> (\<open>docker/\<close>), \<open>Core\<close> (\<open>core.rs\<close>), \<open>Env_Fingerprint\<close>
    (\<open>env/\<close>), \<open>Analysis\<close> (\<open>ai/\<close>), \<open>Hasher\<close> (\<open>hasher/\<close>).
  \<^item> Execution: \<open>Sandbox\<close> (\<open>sandbox/\<close>), \<open>Farm\<close> (\<open>remote_exec/\<close>), \<open>Executor\<close> (\<open>execution/executor.rs\<close>), with what builds
    do in \<open>Incremental\<close> and \<open>Remote_Build\<close>.
  \<^item> Caches: \<open>Remote_Cache\<close> (the trait of \<open>cache/remote.rs\<close>), \<open>Local_Cache\<close>, \<open>Hybrid\<close>, \<open>Artifact\<close> (\<open>cache/local.rs\<close>,
    \<open>cache/hybrid.rs\<close>, \<open>cache/utils.rs\<close>), with \<open>Hybrid_Live\<close> and \<open>Cache_Refinement\<close> on the two levels together; the
    remote ones \<open>Http\<close> (\<open>cache/http.rs\<close>), \<open>Redis\<close> (\<open>cache_redis.rs\<close>), \<open>Cluster\<close> (\<open>cache/cluster.rs\<close>), \<open>Router\<close>
    (\<open>remote_router/\<close>); \<open>Errors\<close> (\<open>error.rs\<close> and the retry loop).
  \<^item> Servers: \<open>Storage\<close> and \<open>Object_Storage\<close> (\<open>storage/\<close>), \<open>Metadata\<close> (\<open>server/metadata.rs\<close>), \<open>Metadata_Contract\<close> (its
    trait), \<open>Postgres\<close> (\<open>scalable_db.rs\<close>), \<open>Server\<close> (\<open>server/mod.rs\<close>), \<open>Gc\<close> (\<open>gc.rs\<close>), \<open>Auth\<close> (\<open>auth.rs\<close>), \<open>Audit_Log\<close>
    (\<open>audit.rs\<close>), \<open>Scaling\<close> (\<open>auto_scaling.rs\<close>), \<open>Cluster_Server\<close> (\<open>cluster_server.rs\<close>), \<open>Metrics\<close>
    (\<open>metrics.rs\<close> and the counting distributed cache of \<open>cache_cluster.rs\<close>), \<open>Reapi\<close>
    (\<open>remote_exec/reapi.rs\<close>), \<open>Secrets\<close> (\<open>secrets.rs\<close>), \<open>Loadtest\<close> (\<open>loadtest.rs\<close>).
  \<^item> Images and documents: \<open>Export\<close> (\<open>export/\<close> but the registry), \<open>Registry\<close> (\<open>export/registry.rs\<close>), \<open>Sbom\<close> (\<open>sbom.rs\<close>),
    \<open>Attest\<close> (\<open>slsa.rs\<close>, \<open>slsa/in_toto.rs\<close>, \<open>verify.rs\<close>).
  \<^item> The driver \<open>main.rs\<close>: \<open>Pipeline\<close> (\<open>build\<close> up to the export, \<open>graph\<close>, \<open>explain-cache\<close>), \<open>Build_Invariant\<close> and
    \<open>Build_Session\<close> (what runs of \<open>build\<close> do), \<open>Commands\<close> (\<open>build\<close> to its end and the other commands).

  \<^bold>\<open>Interfaces.\<close> Locales state what one part may assume of another.
  \<^item> \<open>artifact_storage_laws\<close> (\<open>Storage\<close>), the trait \<open>ArtifactStorage\<close> as the handlers of the server use it: under an
    invariant, a successful put stores the data or finds the hash taken, a get returns what is there, a delete removes only its
    hash, a failed call loses nothing else. Provided by the local backend.
  \<^item> \<open>content_store\<close> (\<open>Object_Storage\<close>): a put, a get and a removal as a map from hashes to blobs. Provided by the local
    backend, by S3 on a blocking thread and by the directory the GCS backend uses; two backends that provide it answer alike.
  \<^item> \<open>remote_cache_laws\<close> (\<open>Remote_Cache\<close>), the layers of the trait \<open>RemoteCache\<close>. Provided by \<open>Http\<close> over the routes of
    \<open>Server\<close> and by \<open>Redis\<close>; used by the layered protocol of \<open>Hybrid\<close>. \<open>blob_cache_laws\<close> (\<open>Reapi\<close>) extends it by the
    blobs, is provided by \<open>Redis\<close> and used by the gRPC services.
  \<^item> \<open>metadata_contract\<close> (\<open>Metadata_Contract\<close>), the trait \<open>MetadataStoreTrait\<close>: a call answers and acts as on an abstract
    store while counters have room. Provided by the SQLite and the PostgreSQL store.
  \<^item> \<open>build_invariant\<close> and \<open>build_succeeds\<close> (\<open>Build_Invariant\<close>): what each step of an execution keeps, the whole build keeps.
    \<open>Build_Session\<close> interprets them for the marks of nodes, for the cache directory and for builds whose commands succeed.

  \<^bold>\<open>What the lemmas show.\<close>
  \<^item> Of a build: the prepared graph is typed by its instructions; executing it keeps the cache directory usable, fails only by a
    command, accounts for every node, gives the same stores under every schedule as sequentially where nodes do not share
    work, and a second build of an unchanged Dockerfile executes nothing, edited sources included; what \<open>explain-cache\<close>
    predicts; which files an image and its documents consist of.
  \<^item> Of the caches: the two levels refine a map; what one machine puts into the HTTP or Redis cache another reads; a ring
    without a member keeps the placement of the other keys; retries and delays are bounded.
  \<^item> Of the servers: only content with the right digest is served, collection keeps what is live and referenced, the two
    metadata stores and the three storages agree, an audit log shows changes, tokens and limits are enforced, and, as the code
    stands, a started cluster server serves nothing and reporting metrics blocks the scaling routes.
  \<^item> Of documents and formats: round trips of Dockerfiles and lock files, what a push publishes in which order, what a
    directory digest depends on.

  \<^bold>\<open>Bounds.\<close> Recursion is structural or has a measure (chunks, the hash ring, the walks, \<open>hash_loop\<close> on the bytes left, the
  retry loop on the attempts left). Loops over an unknown environment take it as a finite list (schedules, faults, the events
  of a thread). \<open>loop_cache n\<close> is a cluster server that is its own cache with \<open>n\<close> connections to itself; its theorem holds for
  every \<open>n\<close>. \<open>counter_limit\<close>, \<open>2 ^ 31\<close>, is the range of the \<open>INTEGER\<close> counters of PostgreSQL: where the two stores are compared, counters
  stay below it. \<open>f64\<close> values are real numbers where they are only compared or reported.

  \<^bold>\<open>Not modelled.\<close> Command-line declarations, the start of listeners and the wiring of processes in \<open>main.rs\<close> and
  \<open>server/mod.rs\<close> beyond what \<open>Commands\<close> and \<open>Cluster_Server\<close> say; the HTML page, the web socket and the metrics text; logging and
  tracing; TLS files, the call of git, CI advice (only prints); the containerd sandbox (a client of a
  daemon behind a feature flag); the operator and \<open>remote_exec/worker_pool.rs\<close> (not modules of the crate); the asynchronous S3
  constructor and the tar normalisation (never called); second copies of modules (\<open>executor.rs\<close>, the ring in \<open>cache_cluster.rs\<close>,
  \<open>remote_cache.rs\<close>, \<open>cache_utils_exe.rs\<close>, \<open>network/\<close>, \<open>cache/metadata.rs\<close>), whose text is that of the modelled ones up to
  imports and log lines.
\<close>

end
